(* ===== verification/Prelude.thy ===== *)
theory Prelude
  imports Main "HOL-Library.Word" "HOL-Library.Multiset" "HOL-Library.Sublist"
begin

text \<open>
  Shared vocabulary of the development: results of fallible Go functions, the fragment of Go's
  package strings the connector uses (over byte strings), 64-bit seconds as instants, and the
  lemma collections the component theories extend.
  A Go string is a sequence of bytes, so it is modelled as a \<^typ>\<open>string\<close> whose characters are
  bytes. A Go error return is the left side of a sum, a value the right side.
\<close>

named_theorems go_string "facts about the modelled functions of package strings"
named_theorems go_result "facts about results of fallible functions"

section \<open>Results\<close>

abbreviation Err :: "'e \<Rightarrow> 'e + 'a" where
  "Err \<equiv> Inl"

abbreviation Ok :: "'a \<Rightarrow> 'e + 'a" where
  "Ok \<equiv> Inr"

text \<open>A Go loop that appends one converted element per iteration and returns at the first error.\<close>

fun collect :: "('a \<Rightarrow> 'e + 'b) \<Rightarrow> 'a list \<Rightarrow> 'e + 'b list" where
  "collect f [] = Ok []"
| "collect f (x # xs) =
     (case f x of Inl e \<Rightarrow> Err e
      | Inr y \<Rightarrow> (case collect f xs of Inl e \<Rightarrow> Err e | Inr ys \<Rightarrow> Ok (y # ys)))"

text \<open>A Go loop that checks each element and returns the first error.\<close>

fun first_error :: "('a \<Rightarrow> 'e option) \<Rightarrow> 'a list \<Rightarrow> 'e option" where
  "first_error f [] = None"
| "first_error f (x # xs) = (case f x of Some e \<Rightarrow> Some e | None \<Rightarrow> first_error f xs)"

lemma collect_Ok [go_result]:
  "collect f xs = Ok ys \<longleftrightarrow> list_all2 (\<lambda>x y. f x = Ok y) xs ys"
proof (induction xs arbitrary: ys)
  case Nil
  then show ?case by auto
next
  case (Cons x xs)
  show ?case
  proof (cases "collect f xs")
    case (Inl e)
    then have "\<not> list_all2 (\<lambda>x y. f x = Ok y) xs zs" for zs using Cons.IH [of zs] by simp
    with Inl show ?thesis by (auto split: sum.splits simp: list_all2_Cons1)
  next
    case (Inr zs)
    then have "list_all2 (\<lambda>x y. f x = Ok y) xs vs \<longleftrightarrow> vs = zs" for vs using Cons.IH [of vs] by auto
    with Inr show ?thesis by (auto split: sum.splits simp: list_all2_Cons1)
  qed
qed

lemma collect_length [go_result]: "collect f xs = Ok ys \<Longrightarrow> length ys = length xs"
  by (auto simp: collect_Ok dest: list_all2_lengthD)

lemma collect_Err [go_result]:
  "(\<exists>e. collect f xs = Err e) \<longleftrightarrow> (\<exists>x \<in> set xs. \<exists>e. f x = Err e)"
  by (induction xs) (auto split: sum.splits)

lemma first_error_None [go_result]:
  "first_error f xs = None \<longleftrightarrow> (\<forall>x \<in> set xs. f x = None)"
  by (induction xs) (auto split: option.splits)

text \<open>A result of a list with one more element in front.\<close>

definition ok_cons :: "'a \<Rightarrow> 'e + 'a list \<Rightarrow> 'e + 'a list" where
  "ok_cons x r = (case r of Inl e \<Rightarrow> Err e | Inr xs \<Rightarrow> Ok (x # xs))"

lemma ok_cons_Ok [go_result]: "ok_cons x r = Ok ys \<longleftrightarrow> (\<exists>xs. r = Ok xs \<and> ys = x # xs)"
  by (auto simp: ok_cons_def split: sum.splits)

lemma sum_not_Inl: "(\<forall>e. x \<noteq> Inl e) \<longleftrightarrow> (\<exists>y. x = Inr y)"
  by (cases x) auto

section \<open>Package strings\<close>

text \<open>strings.Split with a separator of one byte.\<close>

fun split_on :: "char \<Rightarrow> string \<Rightarrow> string list" where
  "split_on c [] = [[]]"
| "split_on c (x # xs) =
     (if x = c then [] # split_on c xs
      else (case split_on c xs of [] \<Rightarrow> [[x]] | y # ys \<Rightarrow> (x # y) # ys))"

text \<open>strings.Join with a separator of one byte.\<close>

fun join_with :: "char \<Rightarrow> string list \<Rightarrow> string" where
  "join_with c [] = []"
| "join_with c [x] = x"
| "join_with c (x # y # ys) = x @ c # join_with c (y # ys)"

text \<open>strings.Cut with a separator of one byte: before, after, found.\<close>

fun cut_at :: "char \<Rightarrow> string \<Rightarrow> string \<times> string \<times> bool" where
  "cut_at c [] = ([], [], False)"
| "cut_at c (x # xs) =
     (if x = c then ([], xs, True)
      else (case cut_at c xs of (b, a, True) \<Rightarrow> (x # b, a, True)
            | (b, a, False) \<Rightarrow> (x # xs, [], False)))"

text \<open>strings.CutPrefix and strings.HasPrefix.\<close>

fun cut_prefix :: "string \<Rightarrow> string \<Rightarrow> string option" where
  "cut_prefix [] s = Some s"
| "cut_prefix (p # ps) [] = None"
| "cut_prefix (p # ps) (c # cs) = (if p = c then cut_prefix ps cs else None)"

definition has_prefix :: "string \<Rightarrow> string \<Rightarrow> bool" where
  "has_prefix p s = (cut_prefix p s \<noteq> None)"

definition cut_suffix :: "string \<Rightarrow> string \<Rightarrow> string option" where
  "cut_suffix p s = map_option rev (cut_prefix (rev p) (rev s))"

definition has_suffix :: "string \<Rightarrow> string \<Rightarrow> bool" where
  "has_suffix p s = (cut_suffix p s \<noteq> None)"

definition trim_suffix :: "string \<Rightarrow> string \<Rightarrow> string" where
  "trim_suffix p s = (case cut_suffix p s of Some t \<Rightarrow> t | None \<Rightarrow> s)"

text \<open>strings.Trim and strings.TrimRight with an ASCII cut set.\<close>

definition trim_right_set :: "string \<Rightarrow> string \<Rightarrow> string" where
  "trim_right_set cutset s = rev (dropWhile (\<lambda>c. c \<in> set cutset) (rev s))"

definition trim_set :: "string \<Rightarrow> string \<Rightarrow> string" where
  "trim_set cutset s = trim_right_set cutset (dropWhile (\<lambda>c. c \<in> set cutset) s)"

text \<open>strings.Contains: the needle occurs as a block.\<close>

fun contains_str :: "string \<Rightarrow> string \<Rightarrow> bool" where
  "contains_str p [] = (p = [])"
| "contains_str p (c # cs) = (has_prefix p (c # cs) \<or> contains_str p cs)"

text \<open>strings.ReplaceAll for a non-empty old string.\<close>

function replace_all_str :: "string \<Rightarrow> string \<Rightarrow> string \<Rightarrow> string" where
  "replace_all_str old new s =
     (if old = [] \<or> s = [] then s
      else (case cut_prefix old s of
              Some rest \<Rightarrow> new @ replace_all_str old new rest
            | None \<Rightarrow> hd s # replace_all_str old new (tl s)))"
  by pat_completeness auto

lemma cut_prefix_Some [go_string]: "cut_prefix p s = Some t \<longleftrightarrow> s = p @ t"
  by (induction p s rule: cut_prefix.induct) auto

termination replace_all_str
  by (relation "measure (\<lambda>(old, new, s). length s)") (auto simp: cut_prefix_Some)

declare replace_all_str.simps [simp del]

text \<open>
  strings.TrimSpace: the UTF-8 encodings of the Unicode white space runes are cut from both ends.
\<close>

definition space_seqs :: "string list" where
  "space_seqs =
     map (\<lambda>c. [c]) [CHR 0x20, CHR 0x09, CHR 0x0A, CHR 0x0B, CHR 0x0C, CHR 0x0D] @
     [[CHR 0xC2, CHR 0x85], [CHR 0xC2, CHR 0xA0], [CHR 0xE1, CHR 0x9A, CHR 0x80]] @
     map (\<lambda>c. [CHR 0xE2, CHR 0x80, c])
       [CHR 0x80, CHR 0x81, CHR 0x82, CHR 0x83, CHR 0x84, CHR 0x85, CHR 0x86, CHR 0x87, CHR 0x88,
        CHR 0x89, CHR 0x8A, CHR 0xA8, CHR 0xA9, CHR 0xAF] @
     [[CHR 0xE2, CHR 0x81, CHR 0x9F], [CHR 0xE3, CHR 0x80, CHR 0x80]]"

function trim_left_seqs :: "string list \<Rightarrow> string \<Rightarrow> string" where
  "trim_left_seqs seqs s =
     (case find (\<lambda>p. p \<noteq> [] \<and> has_prefix p s) seqs of
        None \<Rightarrow> s
      | Some p \<Rightarrow> trim_left_seqs seqs (drop (length p) s))"
  by pat_completeness auto

lemma find_prefix_shorter:
  "find (\<lambda>p. p \<noteq> [] \<and> has_prefix p s) seqs = Some p \<Longrightarrow> length (drop (length p) s) < length s"
proof -
  assume "find (\<lambda>p. p \<noteq> [] \<and> has_prefix p s) seqs = Some p"
  then have "p \<noteq> []" "\<exists>t. s = p @ t"
    by (auto simp: find_Some_iff has_prefix_def cut_prefix_Some)
  then show ?thesis by auto
qed

termination trim_left_seqs
  by (relation "measure (\<lambda>(seqs, s). length s)") (auto dest: find_prefix_shorter)

declare trim_left_seqs.simps [simp del]

definition trim_space :: "string \<Rightarrow> string" where
  "trim_space s = rev (trim_left_seqs (map rev space_seqs) (rev (trim_left_seqs space_seqs s)))"

subsection \<open>Laws\<close>

lemma cut_prefix_append [simp]: "cut_prefix p (p @ t) = Some t"
  by (simp add: cut_prefix_Some)

lemma has_prefix_iff [go_string]: "has_prefix p s \<longleftrightarrow> (\<exists>t. s = p @ t)"
  by (auto simp: has_prefix_def cut_prefix_Some)

lemma cut_suffix_Some [go_string]: "cut_suffix p s = Some t \<longleftrightarrow> s = t @ p"
proof -
  have "cut_suffix p s = Some t \<longleftrightarrow> rev s = rev p @ rev t"
    unfolding cut_suffix_def by (auto simp: cut_prefix_Some)
  also have "\<dots> \<longleftrightarrow> s = t @ p"
    by (metis rev_append rev_rev_ident)
  finally show ?thesis .
qed

lemma has_suffix_iff [go_string]: "has_suffix p s \<longleftrightarrow> (\<exists>t. s = t @ p)"
  by (auto simp: has_suffix_def cut_suffix_Some)

lemma trim_suffix_append [simp]: "trim_suffix p (s @ p) = s"
proof -
  have "cut_suffix p (s @ p) = Some s" by (simp add: cut_suffix_Some)
  then show ?thesis by (simp add: trim_suffix_def)
qed

lemma trim_suffix_none: "(\<And>t. s \<noteq> t @ p) \<Longrightarrow> trim_suffix p s = s"
  by (auto simp: trim_suffix_def cut_suffix_Some split: option.splits)

lemma trim_suffix_char_idem:
  "last s \<noteq> c \<Longrightarrow> trim_suffix [c] s = s"
  by (rule trim_suffix_none) auto

lemma trim_suffix_set: "set (trim_suffix p s) \<subseteq> set s"
  by (auto simp: trim_suffix_def cut_suffix_Some split: option.splits)

lemma trim_set_empty [go_string]: "trim_set cutset s = [] \<longleftrightarrow> set s \<subseteq> set cutset"
proof -
  have "dropWhile P xs = [] \<longleftrightarrow> (\<forall>x \<in> set xs. P x)" for P and xs :: string
    by (simp add: dropWhile_eq_Nil_conv)
  moreover have "(\<forall>x \<in> set (dropWhile (\<lambda>c. c \<in> set cutset) s). x \<in> set cutset)
      \<longleftrightarrow> set s \<subseteq> set cutset"
    by (metis (mono_tags, lifting) dropWhile_eq_Nil_conv hd_dropWhile hd_in_set
        list.set_intros(1) subset_code(1) set_dropWhileD)
  ultimately show ?thesis
    by (simp add: trim_set_def trim_right_set_def subset_iff)
qed

lemma split_on_nonempty [simp]: "split_on c s \<noteq> []"
  by (induction s) (auto split: list.splits)

lemma split_on_join [go_string]: "join_with c (split_on c s) = s"
proof (induction s)
  case (Cons x xs)
  obtain y ys where "split_on c xs = y # ys"
    using split_on_nonempty [of c xs] by (cases "split_on c xs") auto
  with Cons show ?case by (cases ys) auto
qed simp

lemma split_on_no_sep [go_string]: "p \<in> set (split_on c s) \<Longrightarrow> c \<notin> set p"
  by (induction s arbitrary: p) (auto split: list.splits if_splits)

lemma split_on_set: "p \<in> set (split_on c s) \<Longrightarrow> set p \<subseteq> set s"
  by (induction s arbitrary: p) (fastforce split: list.splits if_splits)+

lemma split_on_id: "c \<notin> set s \<Longrightarrow> split_on c s = [s]"
  by (induction s) auto

lemma split_on_append: "c \<notin> set p \<Longrightarrow> split_on c (p @ c # s) = p # split_on c s"
  by (induction p) auto

lemma join_split_on [go_string]:
  "xs \<noteq> [] \<Longrightarrow> (\<And>x. x \<in> set xs \<Longrightarrow> c \<notin> set x) \<Longrightarrow> split_on c (join_with c xs) = xs"
proof (induction c xs rule: join_with.induct)
  case (2 c x)
  then show ?case by (simp add: split_on_id)
next
  case (3 c x y ys)
  then show ?case by (simp add: split_on_append)
qed simp

lemma set_join_with: "set (join_with c xs) \<subseteq> insert c (\<Union> (set ` set xs))"
  by (induction c xs rule: join_with.induct) auto

lemma join_with_set_elem: "x \<in> set xs \<Longrightarrow> set x \<subseteq> set (join_with c xs)"
  by (induction c xs rule: join_with.induct) auto

lemma cut_at_False: "c \<notin> set s \<Longrightarrow> cut_at c s = (s, [], False)"
  by (induction s) auto

lemma cut_at_append [go_string]: "c \<notin> set b \<Longrightarrow> cut_at c (b @ c # a) = (b, a, True)"
  by (induction b) auto

lemma cut_at_True [go_string]:
  "cut_at c s = (b, a, True) \<longleftrightarrow> s = b @ c # a \<and> c \<notin> set b"
proof
  show "s = b @ c # a \<and> c \<notin> set b \<Longrightarrow> cut_at c s = (b, a, True)"
    by (auto simp: cut_at_append)
  show "cut_at c s = (b, a, True) \<Longrightarrow> s = b @ c # a \<and> c \<notin> set b"
  proof (induction s arbitrary: b a)
    case (Cons x xs)
    then show ?case
      by (auto split: if_splits prod.splits bool.splits)
  qed simp
qed

section \<open>Case and character classes\<close>

definition lower_letters :: string where
  "lower_letters = ''abcdefghijklmnopqrstuvwxyz''"

definition upper_letters :: string where
  "upper_letters = ''ABCDEFGHIJKLMNOPQRSTUVWXYZ''"

definition digit_chars :: string where
  "digit_chars = ''0123456789''"

lemmas char_class_defs = lower_letters_def upper_letters_def digit_chars_def

text \<open>ASCII lower-casing sets bit 5 of an upper-case letter; a byte below 128 has bit 7 clear.\<close>

fun lower_char :: "char \<Rightarrow> char" where
  "lower_char (Char b0 b1 b2 b3 b4 b5 b6 b7) =
     (if Char b0 b1 b2 b3 b4 b5 b6 b7 \<in> set upper_letters then Char b0 b1 b2 b3 b4 True b6 b7
      else Char b0 b1 b2 b3 b4 b5 b6 b7)"

fun upper_char :: "char \<Rightarrow> char" where
  "upper_char (Char b0 b1 b2 b3 b4 b5 b6 b7) =
     (if Char b0 b1 b2 b3 b4 b5 b6 b7 \<in> set lower_letters then Char b0 b1 b2 b3 b4 False b6 b7
      else Char b0 b1 b2 b3 b4 b5 b6 b7)"

fun ascii_char :: "char \<Rightarrow> bool" where
  "ascii_char (Char b0 b1 b2 b3 b4 b5 b6 b7) = (\<not> b7)"

definition is_ascii :: "string \<Rightarrow> bool" where
  "is_ascii s = list_all ascii_char s"

definition ascii_lower :: "string \<Rightarrow> string" where
  "ascii_lower s = map lower_char s"

text \<open>
  strings.ToLower. An ASCII string is lowered byte by byte; for any other string Go maps every
  rune through the Unicode tables, which are the parameter \<open>ulower\<close>.
\<close>

definition to_lower :: "(string \<Rightarrow> string) \<Rightarrow> string \<Rightarrow> string" where
  "to_lower ulower s = (if is_ascii s then ascii_lower s else ulower s)"

lemma lower_char_id [simp]: "c \<notin> set upper_letters \<Longrightarrow> lower_char c = c"
  by (cases c) simp

lemma lower_char_upper: "list_all (\<lambda>c. lower_char c \<in> set lower_letters) upper_letters"
  by code_simp

lemma lower_not_upper: "list_all (\<lambda>c. c \<notin> set upper_letters) lower_letters"
  by code_simp

lemma lower_char_not_upper [simp]: "lower_char c \<notin> set upper_letters"
  using lower_char_upper lower_not_upper
  by (cases "c \<in> set upper_letters") (auto simp: list_all_iff)

lemma lower_char_idem [simp]: "lower_char (lower_char c) = lower_char c"
  by simp

lemma ascii_lower_idem [simp]: "ascii_lower (ascii_lower s) = ascii_lower s"
  by (simp add: ascii_lower_def)

lemma to_lower_id:
  "is_ascii s \<Longrightarrow> (\<And>c. c \<in> set s \<Longrightarrow> c \<notin> set upper_letters) \<Longrightarrow> to_lower ul s = s"
  by (simp add: to_lower_def ascii_lower_def map_idI)

section \<open>Machine integers and instants\<close>

text \<open>
  Go's int64, with two's complement wrap-around, is a 64-bit word read by \<^const>\<open>sint\<close>. An
  instant is an integer count of nanoseconds on the scale of Go's package time, which counts
  from the year 1: time.Unix adds the distance to 1970 in int64, so it wraps for the last
  seconds that int64 can hold.
\<close>

type_synonym i64 = "64 word"
type_synonym u64 = "64 word"
type_synonym u16 = "16 word"
type_synonym instant = int
type_synonym duration = int

definition nanos :: int where
  "nanos = 1000000000"

definition unix_to_internal :: i64 where
  "unix_to_internal = 62135596800"

definition unix_time :: "i64 \<Rightarrow> instant" where
  "unix_time s = sint (s + unix_to_internal) * nanos"

lemma unat_of_nat_u16: "n < 2 ^ 16 \<Longrightarrow> unat (of_nat n :: u16) = n"
  by (simp add: unsigned_of_nat take_bit_nat_eq_self)

lemma sint_i64_bounds: "- (2 ^ 63) \<le> sint (x :: i64)" "sint (x :: i64) < 2 ^ 63"
  using sint_range_size [of x] by (auto simp: word_size)

lemma sint_i64_add:
  assumes "- (2 ^ 63) \<le> sint (a :: i64) + sint b" and "sint a + sint b < 2 ^ 63"
  shows "sint (a + b) = sint a + sint b"
  using assms by (simp add: sint_word_ariths signed_take_bit_int_eq_self)

lemma sint_i64_diff:
  assumes "- (2 ^ 63) \<le> sint (a :: i64) - sint b" and "sint a - sint b < 2 ^ 63"
  shows "sint (a - b) = sint a - sint b"
  using assms by (simp add: sint_word_ariths signed_take_bit_int_eq_self)

text \<open>The subtraction of two positive int64 values never wraps.\<close>

lemma sint_i64_diff_pos: "0 < sint (a :: i64) \<Longrightarrow> 0 < sint b \<Longrightarrow> sint (a - b) = sint a - sint b"
  by (rule sint_i64_diff) (use sint_i64_bounds [of a] sint_i64_bounds [of b] in linarith)+

text \<open>time.Unix on the range that does not wrap, and where a wrapped second lands.\<close>

lemma sint_unix_to_internal [simp]: "sint unix_to_internal = 62135596800"
  by (simp add: unix_to_internal_def)

lemma unix_time_exact:
  "0 \<le> sint s \<Longrightarrow> sint s < 2 ^ 63 - 62135596800 \<Longrightarrow> unix_time s = (sint s + 62135596800) * nanos"
  by (simp add: unix_time_def sint_i64_add)

lemma unix_time_wrapped:
  assumes "2 ^ 63 - 62135596800 \<le> sint s"
  shows "unix_time s < 0"
proof -
  have b: "sint s < 2 ^ 63" by (rule sint_i64_bounds)
  have "sint (s + unix_to_internal) = signed_take_bit 63 (sint s + 62135596800)"
    by (simp add: sint_word_ariths)
  also have "\<dots> = sint s + 62135596800 - 2 ^ 64"
  proof -
    have "signed_take_bit 63 (sint s + 62135596800) =
        signed_take_bit 63 (sint s + 62135596800 - 2 ^ 64)"
      by (rule signed_take_bit_eq_iff_take_bit_eq [THEN iffD2])
        (simp add: take_bit_eq_mod mod_eq_dvd_iff)
    also have "\<dots> = sint s + 62135596800 - 2 ^ 64"
      using assms b by (intro signed_take_bit_int_eq_self) auto
    finally show ?thesis .
  qed
  finally show ?thesis
    using b by (simp add: unix_time_def nanos_def)
qed

end
