(* ===== verification/Drain.thy ===== *)
theory Drain
  imports Prelude
begin

text \<open>
  connector-lib/drain: the count of work in flight a stopping server waits on. A channel is known
  by a number; \<open>tr_closed\<close> is the set of channels closed so far and \<open>tr_made\<close> the number of the
  next one. Every operation runs under the tracker's mutex, so it is one step; Wait is a loop of
  such steps with a blocking receive in between, which the step relation below interleaves with
  every other operation.
\<close>

section \<open>The tracker\<close>

record tracker =
  tr_draining :: bool
  tr_n :: nat
  tr_idle :: "nat option"
  tr_closed :: "nat set"
  tr_made :: nat

definition tracker_zero :: tracker where
  "tracker_zero = \<lparr>tr_draining = False, tr_n = 0, tr_idle = None, tr_closed = {}, tr_made = 0\<rparr>"

definition tracker_add :: "int \<Rightarrow> tracker \<Rightarrow> tracker \<times> bool" where
  "tracker_add limit t =
     (if 0 < limit \<and> limit \<le> int (tr_n t) then (t, False)
      else let t1 = (if tr_n t = 0 then t\<lparr>tr_idle := Some (tr_made t), tr_made := tr_made t + 1\<rparr> else t) in
        (t1\<lparr>tr_n := tr_n t1 + 1\<rparr>, True))"

text \<open>Done panics without an Add. Closing the idle channel panics if there is none, or it is closed.\<close>

definition tracker_done :: "tracker \<Rightarrow> tracker option" where
  "tracker_done t =
     (if tr_n t = 0 then None
      else let t1 = t\<lparr>tr_n := tr_n t - 1\<rparr> in
        if tr_n t1 = 0 then
          (case tr_idle t1 of
             None \<Rightarrow> None
           | Some c \<Rightarrow> if c \<in> tr_closed t1 then None else Some (t1\<lparr>tr_closed := insert c (tr_closed t1)\<rparr>))
        else Some t1)"

definition tracker_drain :: "tracker \<Rightarrow> tracker" where
  "tracker_drain t = t\<lparr>tr_draining := True\<rparr>"

definition in_flight_count :: "tracker \<Rightarrow> nat" where
  "in_flight_count t = tr_n t"

text \<open>
  The idle channel is open exactly while something is in flight, and a channel not yet made is not
  closed.
\<close>

definition tracker_inv :: "tracker \<Rightarrow> bool" where
  "tracker_inv t =
     ((case tr_idle t of None \<Rightarrow> tr_n t = 0 | Some c \<Rightarrow> c < tr_made t \<and> (c \<in> tr_closed t \<longleftrightarrow> tr_n t = 0)) \<and>
      (\<forall>c \<in> tr_closed t. c < tr_made t))"

lemmas tracker_defs = tracker_add_def tracker_done_def tracker_drain_def in_flight_count_def

lemma tracker_zero_inv [simp]: "tracker_inv tracker_zero"
  by (simp add: tracker_inv_def tracker_zero_def)

lemma tracker_add_True:
  assumes "tracker_inv t" and "tracker_add limit t = (t', True)"
  shows "tracker_inv t'" "tr_n t' = tr_n t + 1" "0 < limit \<Longrightarrow> int (tr_n t) < limit"
    "tr_closed t' = tr_closed t" "tr_draining t' = tr_draining t"
  using assms
  by (auto simp: tracker_add_def tracker_inv_def Let_def less_Suc_eq split: if_splits option.splits)

lemma tracker_add_False:
  assumes "tracker_add limit t = (t', False)"
  shows "t' = t" "0 < limit" "limit \<le> int (tr_n t)"
  using assms by (auto simp: tracker_add_def Let_def split: if_splits)

lemma tracker_done_Some:
  assumes "tracker_inv t" and "0 < tr_n t"
  shows "\<exists>t'. tracker_done t = Some t' \<and> tracker_inv t' \<and> tr_n t' = tr_n t - 1 \<and> tr_idle t' = tr_idle t"
  using assms
  by (auto simp: tracker_done_def tracker_inv_def Let_def split: option.splits)

lemma tracker_done_mono:
  "tracker_done t = Some t' \<Longrightarrow> tr_closed t \<subseteq> tr_closed t' \<and> 0 < tr_n t"
  by (auto simp: tracker_done_def Let_def split: if_splits option.splits)

lemma tracker_drain_inv [simp]: "tracker_inv (tracker_drain t) = tracker_inv t"
  by (cases "tr_idle t") (simp_all add: tracker_inv_def tracker_drain_def)

section \<open>The contract its clients rely on\<close>

text \<open>
  What a server that admits work against a limit needs from a counter: an admission counts one and
  respects the limit, a refusal changes nothing and happens only at the limit, and each admission
  can be ended once.
\<close>

datatype admission_op = Admit | Release

locale admission_counter =
  fixes inv :: "'s \<Rightarrow> bool"
    and count :: "'s \<Rightarrow> nat"
    and admit :: "int \<Rightarrow> 's \<Rightarrow> 's \<times> bool"
    and release :: "'s \<Rightarrow> 's option"
  assumes admit_True: "inv s \<Longrightarrow> admit l s = (s', True) \<Longrightarrow>
      inv s' \<and> count s' = count s + 1 \<and> (0 < l \<longrightarrow> int (count s) < l)"
    and admit_False: "inv s \<Longrightarrow> admit l s = (s', False) \<Longrightarrow> s' = s \<and> 0 < l \<and> l \<le> int (count s)"
    and release_Some: "inv s \<Longrightarrow> 0 < count s \<Longrightarrow>
      \<exists>s'. release s = Some s' \<and> inv s' \<and> count s' = count s - 1"
begin

text \<open>A run against one limit; it fails on a release that panics.\<close>

fun admission_run :: "int \<Rightarrow> admission_op list \<Rightarrow> 's \<Rightarrow> ('s \<times> bool list) option" where
  "admission_run l [] s = Some (s, [])"
| "admission_run l (Admit # ops) s =
     (let (s', ok) = admit l s in map_option (\<lambda>(u, oks). (u, ok # oks)) (admission_run l ops s'))"
| "admission_run l (Release # ops) s =
     (case release s of None \<Rightarrow> None | Some s' \<Rightarrow> admission_run l ops s')"

text \<open>Releases matched by earlier successful admissions: the discipline of the callers.\<close>

fun matched :: "int \<Rightarrow> nat \<Rightarrow> admission_op list \<Rightarrow> bool" where
  "matched l n [] = True"
| "matched l n (Admit # ops) = matched l (if 0 < l \<and> l \<le> int n then n else n + 1) ops"
| "matched l n (Release # ops) = (0 < n \<and> matched l (n - 1) ops)"

lemma admit_count:
  "inv s \<Longrightarrow> admit l s = (s', ok) \<Longrightarrow> inv s' \<and>
     count s' = (if 0 < l \<and> l \<le> int (count s) then count s else count s + 1) \<and>
     ok = (\<not> (0 < l \<and> l \<le> int (count s)))"
  by (cases ok) (use admit_True admit_False in fastforce)+

lemma run_bounded:
  "inv s \<Longrightarrow> 0 < l \<Longrightarrow> int (count s) \<le> l \<Longrightarrow> admission_run l ops s = Some (s', oks) \<Longrightarrow>
     matched l (count s) ops \<Longrightarrow> inv s' \<and> int (count s') \<le> l"
proof (induction l ops s arbitrary: s' oks rule: admission_run.induct)
  case (2 l ops s)
  obtain t ok where t: "admit l s = (t, ok)" by force
  have c: "inv t" "count t = (if 0 < l \<and> l \<le> int (count s) then count s else count s + 1)"
    using admit_count [OF 2(2) t] by blast+
  obtain oks' where "admission_run l ops t = Some (s', oks')"
    using 2(5) t by auto
  moreover have "int (count t) \<le> l" "matched l (count t) ops"
    using 2(3,4,6) c(2) by (simp_all split: if_splits)
  ultimately show ?case using 2(1) [OF t [symmetric] refl c(1)] 2(3) by blast
next
  case (3 l ops s)
  have "0 < count s" using 3(6) by simp
  then obtain t where t: "release s = Some t" "inv t" "count t = count s - 1"
    using release_Some [OF 3(2)] by blast
  show ?case using 3(1) [OF t(1,2)] 3(3-6) t(1,3) by simp
qed simp

lemma run_total:
  "inv s \<Longrightarrow> matched l (count s) ops \<Longrightarrow> admission_run l ops s \<noteq> None"
proof (induction l ops s rule: admission_run.induct)
  case (2 l ops s)
  obtain t ok where t: "admit l s = (t, ok)" by force
  have c: "inv t" "count t = (if 0 < l \<and> l \<le> int (count s) then count s else count s + 1)"
    using admit_count [OF 2(2) t] by blast+
  have "matched l (count t) ops" using 2(3) c(2) by (simp split: if_splits)
  then show ?case using 2(1) [OF t [symmetric] refl c(1)] t by auto
next
  case (3 l ops s)
  have "0 < count s" using 3(3) by simp
  then obtain t where t: "release s = Some t" "inv t" "count t = count s - 1"
    using release_Some [OF 3(2)] by blast
  show ?case using 3(1) [OF t(1,2)] 3(3) t(1,3) by simp
qed simp

end

interpretation tracking: admission_counter tracker_inv tr_n tracker_add tracker_done
proof
  show "tracker_inv s \<Longrightarrow> tracker_add l s = (s', True) \<Longrightarrow>
      tracker_inv s' \<and> tr_n s' = tr_n s + 1 \<and> (0 < l \<longrightarrow> int (tr_n s) < l)" for s l s'
    using tracker_add_True by blast
  show "tracker_inv s \<Longrightarrow> tracker_add l s = (s', False) \<Longrightarrow> s' = s \<and> 0 < l \<and> l \<le> int (tr_n s)" for s l s'
    using tracker_add_False by blast
  show "tracker_inv s \<Longrightarrow> 0 < tr_n s \<Longrightarrow>
      \<exists>s'. tracker_done s = Some s' \<and> tracker_inv s' \<and> tr_n s' = tr_n s - 1" for s
    using tracker_done_Some by blast
qed

section \<open>Waiting\<close>

text \<open>
  One Wait call: about to look at the count, blocked on the idle channel it read, returned nil, or
  returned the error with the count in flight once its context was done.
\<close>

datatype wait_state = Looking | Blocked nat | Drained | TimedOut nat

record drain_system =
  ds_tracker :: tracker
  ds_waiters :: "nat \<Rightarrow> wait_state option"

datatype drain_event = EvAdd int bool | EvDone | EvDrain | EvWait nat | EvLook nat | EvWake nat
  | EvTimeout nat

inductive drain_step :: "drain_system \<Rightarrow> drain_event \<Rightarrow> drain_system \<Rightarrow> bool" where
  step_add: "tracker_add l (ds_tracker s) = (t, ok) \<Longrightarrow>
     drain_step s (EvAdd l ok) (s\<lparr>ds_tracker := t\<rparr>)"
| step_done: "tracker_done (ds_tracker s) = Some t \<Longrightarrow> drain_step s EvDone (s\<lparr>ds_tracker := t\<rparr>)"
| step_drain: "drain_step s EvDrain (s\<lparr>ds_tracker := tracker_drain (ds_tracker s)\<rparr>)"
| step_wait: "ds_waiters s w = None \<Longrightarrow>
     drain_step s (EvWait w) (s\<lparr>ds_waiters := (ds_waiters s)(w \<mapsto> Looking)\<rparr>)"
| step_look: "ds_waiters s w = Some Looking \<Longrightarrow>
     st = (if tr_n (ds_tracker s) = 0 then Some Drained else map_option Blocked (tr_idle (ds_tracker s))) \<Longrightarrow>
     drain_step s (EvLook w) (s\<lparr>ds_waiters := (ds_waiters s)(w := st)\<rparr>)"
| step_wake: "ds_waiters s w = Some (Blocked c) \<Longrightarrow> c \<in> tr_closed (ds_tracker s) \<Longrightarrow>
     drain_step s (EvWake w) (s\<lparr>ds_waiters := (ds_waiters s)(w \<mapsto> Looking)\<rparr>)"
| step_timeout: "ds_waiters s w = Some (Blocked c) \<Longrightarrow>
     drain_step s (EvTimeout w)
       (s\<lparr>ds_waiters := (ds_waiters s)(w \<mapsto> TimedOut (in_flight_count (ds_tracker s)))\<rparr>)"

inductive_cases drain_step_cases: "drain_step s e s'"

inductive drain_reach :: "drain_event list \<Rightarrow> drain_system \<Rightarrow> bool" where
  reach_init: "drain_reach [] \<lparr>ds_tracker = tracker_zero, ds_waiters = Map.empty\<rparr>"
| reach_step: "drain_reach es s \<Longrightarrow> drain_step s e s' \<Longrightarrow> drain_reach (es @ [e]) s'"

text \<open>
  No wake-up is lost: a waiter blocked on a channel that is not closed is blocked on the current
  idle channel, which a later Done closes.
\<close>

definition drain_inv :: "drain_system \<Rightarrow> bool" where
  "drain_inv s = (tracker_inv (ds_tracker s) \<and>
     (\<forall>w c. ds_waiters s w = Some (Blocked c) \<longrightarrow>
        c \<in> tr_closed (ds_tracker s) \<or> tr_idle (ds_tracker s) = Some c))"

lemma tracker_add_idle:
  "tracker_inv t \<Longrightarrow> tracker_add l t = (t', ok) \<Longrightarrow> tr_closed t' = tr_closed t \<and>
     (tr_idle t' = tr_idle t \<or> tr_n t = 0)"
  by (auto simp: tracker_add_def Let_def split: if_splits)

lemma tracker_idle_closed: "tracker_inv t \<Longrightarrow> tr_n t = 0 \<Longrightarrow> tr_idle t = Some c \<Longrightarrow> c \<in> tr_closed t"
  by (simp add: tracker_inv_def)

lemma drain_step_inv:
  assumes "drain_step s e s'" and inv: "drain_inv s"
  shows "drain_inv s'"
  using assms(1)
proof cases
  case (step_add l t ok)
  have t: "tracker_inv (ds_tracker s)" using inv by (simp add: drain_inv_def)
  then have "tracker_inv t" using tracking.admit_count [OF t step_add(3)] by simp
  then show ?thesis
    using inv step_add tracker_add_idle [OF t step_add(3)] tracker_idle_closed [OF t]
    by (fastforce simp: drain_inv_def)
next
  case (step_done t)
  have t: "tracker_inv (ds_tracker s)" using inv by (simp add: drain_inv_def)
  have "tracker_inv t \<and> tr_idle t = tr_idle (ds_tracker s) \<and> tr_closed (ds_tracker s) \<subseteq> tr_closed t"
    using tracker_done_Some [OF t] tracker_done_mono [OF step_done(3)] step_done(3) by auto
  then show ?thesis using inv step_done by (fastforce simp: drain_inv_def)
next
  case step_drain
  moreover have "tr_idle (tracker_drain t) = tr_idle t" "tr_closed (tracker_drain t) = tr_closed t" for t
    by (simp_all add: tracker_drain_def)
  ultimately show ?thesis using inv by (simp add: drain_inv_def)
next
  case (step_wait w)
  then show ?thesis using inv by (auto simp: drain_inv_def)
next
  case (step_look w st)
  then show ?thesis using inv by (auto simp: drain_inv_def split: if_splits)
next
  case (step_wake w c)
  then show ?thesis using inv by (auto simp: drain_inv_def)
next
  case (step_timeout w c)
  then show ?thesis using inv by (auto simp: drain_inv_def)
qed

lemma drain_reach_inv: "drain_reach es s \<Longrightarrow> drain_inv s"
proof (induction rule: drain_reach.induct)
  case reach_init
  then show ?case by (simp add: drain_inv_def)
next
  case (reach_step es s e s')
  then show ?case using drain_step_inv by blast
qed

text \<open>What is in flight is the successful Adds less the Dones.\<close>

definition adds_of :: "drain_event list \<Rightarrow> nat" where
  "adds_of es = length (filter (\<lambda>e. \<exists>l. e = EvAdd l True) es)"

definition dones_of :: "drain_event list \<Rightarrow> nat" where
  "dones_of es = length (filter (\<lambda>e. e = EvDone) es)"

lemma drain_reach_balance: "drain_reach es s \<Longrightarrow> adds_of es = tr_n (ds_tracker s) + dones_of es"
proof (induction rule: drain_reach.induct)
  case reach_init
  then show ?case by (simp add: adds_of_def dones_of_def tracker_zero_def)
next
  case (reach_step es s e s')
  have t: "tracker_inv (ds_tracker s)" using drain_reach_inv [OF reach_step(1)] by (simp add: drain_inv_def)
  from reach_step(2) show ?case
  proof cases
    case (step_add l t ok)
    then show ?thesis
      using tracker_add_True(2) [OF t, of l t] tracker_add_False(1) [of l "ds_tracker s" t] reach_step(3)
      by (cases ok) (auto simp: adds_of_def dones_of_def)
  next
    case (step_done u)
    have "0 < tr_n (ds_tracker s)" using tracker_done_mono [OF step_done(3)] by simp
    then show ?thesis
      using tracker_done_Some [OF t] step_done reach_step(3) by (auto simp: adds_of_def dones_of_def)
  qed (use reach_step(3) in \<open>auto simp: adds_of_def dones_of_def tracker_drain_def\<close>)
qed

section \<open>Properties\<close>

text \<open>
  C31. In every interleaving of Add, Done, Drain and any number of Wait calls, the count in flight is
  the successful Adds less the Dones, and no wake-up is lost: when nothing is in flight, every
  blocked Wait can look again and then returns nil.
\<close>

theorem drain_no_lost_wakeup:
  assumes "drain_reach es s"
  shows "adds_of es = tr_n (ds_tracker s) + dones_of es \<and>
    (tr_n (ds_tracker s) = 0 \<and> ds_waiters s w = Some (Blocked c) \<longrightarrow>
      (\<exists>s1 s2. drain_step s (EvWake w) s1 \<and> drain_step s1 (EvLook w) s2 \<and> ds_waiters s2 w = Some Drained))"
proof (intro conjI impI)
  show "adds_of es = tr_n (ds_tracker s) + dones_of es" by (rule drain_reach_balance [OF assms])
  assume idle: "tr_n (ds_tracker s) = 0 \<and> ds_waiters s w = Some (Blocked c)"
  have inv: "drain_inv s" by (rule drain_reach_inv [OF assms])
  then have "c \<in> tr_closed (ds_tracker s)"
    using idle tracker_idle_closed [of "ds_tracker s" c] by (auto simp: drain_inv_def)
  then show "\<exists>s1 s2. drain_step s (EvWake w) s1 \<and> drain_step s1 (EvLook w) s2 \<and> ds_waiters s2 w = Some Drained"
    using idle step_wake [of s w c]
      step_look [of "s\<lparr>ds_waiters := (ds_waiters s)(w \<mapsto> Looking)\<rparr>" w "Some Drained"]
    by (fastforce intro!: exI)
qed

lemma drain_no_lost_wakeup_witness:
  "\<exists>es s. drain_reach es s \<and> tr_n (ds_tracker s) = 0 \<and> ds_waiters s 7 = Some (Blocked 0) \<and>
     adds_of es = dones_of es \<and>
     (\<exists>s1 s2. drain_step s (EvWake 7) s1 \<and> drain_step s1 (EvLook 7) s2 \<and> ds_waiters s2 7 = Some Drained)"
proof -
  define t1 where "t1 = fst (tracker_add 0 tracker_zero)"
  define t2 where "t2 = the (tracker_done t1)"
  let ?es = "[EvAdd 0 True, EvWait 7, EvLook 7, EvDone]"
  let ?s1 = "\<lparr>ds_tracker = t1, ds_waiters = Map.empty\<rparr>"
  let ?s2 = "\<lparr>ds_tracker = t1, ds_waiters = [7 \<mapsto> Looking]\<rparr>"
  let ?s3 = "\<lparr>ds_tracker = t1, ds_waiters = [7 \<mapsto> Blocked 0]\<rparr>"
  let ?s4 = "\<lparr>ds_tracker = t2, ds_waiters = [7 \<mapsto> Blocked 0]\<rparr>"
  have t: "tracker_add 0 tracker_zero = (t1, True)" "tr_n t1 = 1" "tr_idle t1 = Some 0"
      "tracker_done t1 = Some t2" "tr_n t2 = 0"
    by (simp_all add: t1_def t2_def tracker_add_def tracker_done_def tracker_zero_def)
  have "drain_step \<lparr>ds_tracker = tracker_zero, ds_waiters = Map.empty\<rparr> (EvAdd 0 True) ?s1"
    "drain_step ?s1 (EvWait 7) ?s2" "drain_step ?s2 (EvLook 7) ?s3" "drain_step ?s3 EvDone ?s4"
    using step_add [of 0 "\<lparr>ds_tracker = tracker_zero, ds_waiters = Map.empty\<rparr>" t1 True]
      step_wait [of ?s1 7] step_look [of ?s2 7 "Some (Blocked 0)"] step_done [of ?s3 t2] t
    by simp_all
  then have r: "drain_reach ?es ?s4"
    using reach_step [OF reach_step [OF reach_step [OF reach_step [OF reach_init]]]] by simp
  show ?thesis
    using r drain_no_lost_wakeup [OF r, of 7 0] t(5)
    by (intro exI [of _ ?es] exI [of _ ?s4]) (simp del: fun_upd_apply add: fun_upd_same)
qed

end
