(* ===== verification/GoNet.thy ===== *)
theory GoNet
  imports Prelude
begin

text \<open>
  The parts of Go's standard library the connector reads hosts and destinations with: the decimal
  and hexadecimal printers, strconv.ParseUint, net/netip addresses and prefixes, and
  net.SplitHostPort and net.JoinHostPort. An address is a 32-bit or a 128-bit word with a zone.
  The lemmas are the round trips the components rest on: printing then parsing an address, a
  number and a host:port gives it back.
\<close>

unbundle bit_operations_syntax

section \<open>Numbers as text\<close>

abbreviation code :: "char \<Rightarrow> nat" where
  "code c \<equiv> of_char c"

definition is_digit :: "char \<Rightarrow> bool" where
  "is_digit c = (48 \<le> code c \<and> code c \<le> 57)"

definition digit_val :: "char \<Rightarrow> nat" where
  "digit_val c = code c - 48"

definition digit_char :: "nat \<Rightarrow> char" where
  "digit_char d = char_of (48 + d)"

text \<open>strconv.FormatUint with base 10.\<close>

fun format_uint :: "nat \<Rightarrow> string" where
  "format_uint n = (if n < 10 then [digit_char n] else format_uint (n div 10) @ [digit_char (n mod 10)])"

declare format_uint.simps [simp del]

text \<open>
  strconv.ParseUint with base 10 and a bit size: every byte a digit, at least one, and the value
  checked against the maximum at each digit, so an over-long numeral fails as soon as it exceeds.
\<close>

fun parse_uint_loop :: "nat \<Rightarrow> nat \<Rightarrow> string \<Rightarrow> nat option" where
  "parse_uint_loop bits n [] = Some n"
| "parse_uint_loop bits n (c # cs) =
     (if \<not> is_digit c then None
      else let m = n * 10 + digit_val c in
        if 2 ^ bits \<le> m then None else parse_uint_loop bits m cs)"

definition parse_uint :: "nat \<Rightarrow> string \<Rightarrow> nat option" where
  "parse_uint bits s = (if s = [] then None else parse_uint_loop bits 0 s)"

text \<open>A hexadecimal digit of either case; the printer writes lower case without leading zeros.\<close>

definition hex_val :: "char \<Rightarrow> nat option" where
  "hex_val c =
     (if is_digit c then Some (code c - 48)
      else if 97 \<le> code c \<and> code c \<le> 102 then Some (code c - 87)
      else if 65 \<le> code c \<and> code c \<le> 70 then Some (code c - 55)
      else None)"

definition hex_char :: "nat \<Rightarrow> char" where
  "hex_char d = char_of (if d < 10 then 48 + d else 87 + d)"

fun format_hex :: "nat \<Rightarrow> string" where
  "format_hex n = (if n < 16 then [hex_char n] else format_hex (n div 16) @ [hex_char (n mod 16)])"

declare format_hex.simps [simp del]

subsection \<open>Laws\<close>

lemma code_digit_char [simp]: "d < 10 \<Longrightarrow> code (digit_char d) = 48 + d"
  by (simp add: digit_char_def)

lemma digit_char_is_digit [simp]: "d < 10 \<Longrightarrow> is_digit (digit_char d)"
  by (simp add: is_digit_def)

lemma digit_val_char [simp]: "d < 10 \<Longrightarrow> digit_val (digit_char d) = d"
  by (simp add: digit_val_def)

lemma digit_val_less: "is_digit c \<Longrightarrow> digit_val c < 10"
  by (auto simp: is_digit_def digit_val_def)

lemma char_eq_code: "c = d \<longleftrightarrow> code c = code d"
  by simp

lemma digit_char_val: "is_digit c \<Longrightarrow> digit_char (digit_val c) = c"
  unfolding char_eq_code [of "digit_char (digit_val c)"]
  by (auto simp: is_digit_def digit_val_def digit_char_def)

lemma format_uint_digits: "c \<in> set (format_uint n) \<Longrightarrow> is_digit c"
  by (induction n rule: format_uint.induct) (subst (asm) (2) format_uint.simps, auto split: if_splits)

lemma format_uint_nonempty [simp]: "format_uint n \<noteq> []"
  by (subst format_uint.simps) simp

lemma digit_char_0_iff: "d < 10 \<Longrightarrow> digit_char d = CHR ''0'' \<longleftrightarrow> d = 0"
  by (simp add: char_eq_code [of "digit_char d"])

lemma format_uint_hd: "0 < n \<Longrightarrow> hd (format_uint n) \<noteq> CHR ''0''"
proof (induction n rule: format_uint.induct)
  case (1 n)
  then show ?case by (subst format_uint.simps) (auto simp: digit_char_0_iff)
qed

lemma parse_uint_loop_append:
  "parse_uint_loop bits n (s @ t) =
     (case parse_uint_loop bits n s of None \<Rightarrow> None | Some m \<Rightarrow> parse_uint_loop bits m t)"
  by (induction bits n s rule: parse_uint_loop.induct) (auto simp: Let_def)

lemma parse_uint_loop_format:
  "n < 2 ^ bits \<Longrightarrow> parse_uint_loop bits 0 (format_uint n) = Some n"
proof (induction n rule: format_uint.induct)
  case (1 n)
  show ?case
  proof (cases "n < 10")
    case True
    with 1 show ?thesis by (subst format_uint.simps) simp
  next
    case False
    then have "n div 10 < 2 ^ bits" using 1 by (meson div_le_dividend le_less_trans)
    with False 1 have "parse_uint_loop bits 0 (format_uint (n div 10)) = Some (n div 10)" by simp
    with False 1 show ?thesis
      by (subst format_uint.simps) (simp add: parse_uint_loop_append)
  qed
qed

lemma parse_uint_format [simp]: "n < 2 ^ bits \<Longrightarrow> parse_uint bits (format_uint n) = Some n"
  by (simp add: parse_uint_def parse_uint_loop_format)

lemma parse_uint_bound: "parse_uint bits s = Some n \<Longrightarrow> n < 2 ^ bits"
proof -
  have "parse_uint_loop bits m s = Some n \<Longrightarrow> m < 2 ^ bits \<Longrightarrow> n < 2 ^ bits" for m
    by (induction bits m s rule: parse_uint_loop.induct) (auto simp: Let_def split: if_splits)
  then show "parse_uint bits s = Some n \<Longrightarrow> n < 2 ^ bits"
    by (auto simp: parse_uint_def split: if_splits)
qed

lemma parse_uint_loop_digits: "parse_uint_loop bits m s = Some n \<Longrightarrow> \<forall>c \<in> set s. is_digit c"
  by (induction bits m s rule: parse_uint_loop.induct) (auto simp: Let_def split: if_splits)

lemma parse_uint_digits: "parse_uint bits s = Some n \<Longrightarrow> \<forall>c \<in> set s. is_digit c"
  by (auto simp: parse_uint_def dest: parse_uint_loop_digits split: if_splits)

lemma format_uint_inj: "format_uint m = format_uint n \<Longrightarrow> m = n"
proof -
  assume eq: "format_uint m = format_uint n"
  define b where "b = m + n"
  have "m < 2 ^ b" "n < 2 ^ b"
    unfolding b_def by (metis add_lessD1 less_exp, metis add.commute add_lessD1 less_exp)
  then show "m = n" using eq parse_uint_format by (metis option.inject)
qed

lemma hex_val_char [simp]: "d < 16 \<Longrightarrow> hex_val (hex_char d) = Some d"
  by (simp add: hex_val_def hex_char_def is_digit_def)

lemma format_hex_nonempty [simp]: "format_hex n \<noteq> []"
  by (subst format_hex.simps) simp

lemma format_hex_digits: "c \<in> set (format_hex n) \<Longrightarrow> \<exists>d < 16. c = hex_char d"
proof (induction n rule: format_hex.induct)
  case (1 n)
  have "c \<in> set (if n < 16 then [hex_char n] else format_hex (n div 16) @ [hex_char (n mod 16)])"
    using 1(2) by (subst (asm) format_hex.simps)
  then show ?case using 1(1)
    by (auto split: if_splits intro: exI [of _ "n mod 16"] exI [of _ n])
qed

section \<open>Addresses of package netip\<close>

text \<open>
  netip.Addr: IPv4, or IPv6 with a zone (empty for none). The zero Addr, which is not valid, does
  not arise where the connector handles addresses.
\<close>

datatype addr = V4 "32 word" | V6 "128 word" string

fun zone_of :: "addr \<Rightarrow> string" where
  "zone_of (V4 a) = []"
| "zone_of (V6 a z) = z"

fun bit_len :: "addr \<Rightarrow> nat" where
  "bit_len (V4 a) = 32"
| "bit_len (V6 a z) = 128"

fun is_4in6 :: "addr \<Rightarrow> bool" where
  "is_4in6 (V4 a) = False"
| "is_4in6 (V6 a z) = (drop_bit 32 a = 0xffff)"

text \<open>Addr.Unmap turns an IPv4-mapped address into IPv4 and drops its zone.\<close>

fun unmap :: "addr \<Rightarrow> addr" where
  "unmap (V4 a) = V4 a"
| "unmap (V6 a z) = (if is_4in6 (V6 a z) then V4 (ucast a) else V6 a z)"

text \<open>Addr.WithZone: an IPv4 address has none.\<close>

fun with_zone :: "string \<Rightarrow> addr \<Rightarrow> addr" where
  "with_zone z (V4 a) = V4 a"
| "with_zone z (V6 a _) = V6 a z"

subsection \<open>Parsing\<close>

text \<open>
  parseIPv4Fields: the loop over the bytes, with the previous byte, the value and digit count of
  the octet being read, and the octets read.
\<close>

fun v4_fields_loop :: "string \<Rightarrow> char option \<Rightarrow> nat \<Rightarrow> nat \<Rightarrow> nat list \<Rightarrow> nat list option" where
  "v4_fields_loop [] prev val dig fs = (if length fs < 3 then None else Some (fs @ [val]))"
| "v4_fields_loop (c # cs) prev val dig fs =
     (if is_digit c then
        if dig = 1 \<and> val = 0 then None
        else let v = val * 10 + digit_val c in
          if 255 < v then None else v4_fields_loop cs (Some c) v (dig + 1) fs
      else if c = CHR ''.'' then
        if prev = None \<or> cs = [] \<or> prev = Some (CHR ''.'') then None
        else if length fs = 3 then None
        else v4_fields_loop cs (Some c) 0 0 (fs @ [val])
      else None)"

definition v4_fields :: "string \<Rightarrow> nat list option" where
  "v4_fields s = v4_fields_loop s None 0 0 []"

text \<open>Fields of b bits each, most significant first, as one number and back.\<close>

definition of_fields :: "nat \<Rightarrow> nat list \<Rightarrow> nat" where
  "of_fields b fs = foldl (\<lambda>n f. n * 2 ^ b + f) 0 fs"

fun to_fields :: "nat \<Rightarrow> nat \<Rightarrow> nat \<Rightarrow> nat list" where
  "to_fields b 0 n = []"
| "to_fields b (Suc k) n = to_fields b k (n div 2 ^ b) @ [n mod 2 ^ b]"

text \<open>
  parseIPv6 reads groups of up to four hexadecimal digits. \<open>hex_group\<close> is its inner loop: the
  value, the count of digits and the rest, or failure on a fifth digit.
\<close>

fun hex_group :: "nat \<Rightarrow> nat \<Rightarrow> string \<Rightarrow> (nat \<times> nat \<times> string) option" where
  "hex_group off acc [] = Some (acc, off, [])"
| "hex_group off acc (c # cs) =
     (case hex_val c of
        None \<Rightarrow> Some (acc, off, c # cs)
      | Some d \<Rightarrow> if 3 < off \<or> 65535 < acc * 16 + d then None
                  else hex_group (off + 1) (acc * 16 + d) cs)"

text \<open>
  The outer loop of parseIPv6 over the groups read, the position of the ellipsis, if any, and the
  text left; it returns the groups and the ellipsis. An IPv4 tail counts for two groups.
\<close>

function v6_loop :: "nat list \<Rightarrow> nat option \<Rightarrow> string \<Rightarrow> (nat list \<times> nat option) option" where
  "v6_loop gs ell s =
     (if 8 \<le> length gs then (if s = [] then Some (gs, ell) else None)
      else case hex_group 0 0 s of
        None \<Rightarrow> None
      | Some (acc, off, rest) \<Rightarrow>
          if off = 0 then None
          else if rest \<noteq> [] \<and> hd rest = CHR ''.'' then
            if ell = None \<and> length gs \<noteq> 6 \<or> 6 < length gs then None
            else (case v4_fields s of
                    Some [a, b, c, d] \<Rightarrow> Some (gs @ [a * 256 + b, c * 256 + d], ell)
                  | _ \<Rightarrow> None)
          else (case rest of
              [] \<Rightarrow> Some (gs @ [acc], ell)
            | c # s1 \<Rightarrow>
                if c \<noteq> CHR '':'' \<or> s1 = [] then None
                else if hd s1 = CHR '':'' then
                  if ell \<noteq> None then None
                  else if tl s1 = [] then Some (gs @ [acc], Some (length gs + 1))
                  else v6_loop (gs @ [acc]) (Some (length gs + 1)) (tl s1)
                else v6_loop (gs @ [acc]) ell s1))"
  by pat_completeness auto
termination by (relation "measure (\<lambda>(gs, ell, s). 8 - length gs)") auto

declare v6_loop.simps [simp del]

text \<open>The groups expanded at the ellipsis, which must stand for at least one.\<close>

definition v6_expand :: "nat list \<times> nat option \<Rightarrow> nat list option" where
  "v6_expand = (\<lambda>(gs, ell). case ell of
       None \<Rightarrow> if length gs < 8 then None else Some gs
     | Some e \<Rightarrow> if length gs < 8 then Some (take e gs @ replicate (8 - length gs) 0 @ drop e gs)
                 else None)"

definition v6_groups :: "string \<Rightarrow> nat list option" where
  "v6_groups s =
     (case cut_prefix ''::'' s of
        Some t \<Rightarrow> if t = [] then Some (replicate 8 0)
                  else Option.bind (v6_loop [] (Some 0) t) v6_expand
      | None \<Rightarrow> Option.bind (v6_loop [] None s) v6_expand)"

definition parse_ipv4 :: "string \<Rightarrow> addr option" where
  "parse_ipv4 s = map_option (\<lambda>fs. V4 (of_nat (of_fields 8 fs))) (v4_fields s)"

definition parse_ipv6 :: "string \<Rightarrow> addr option" where
  "parse_ipv6 s =
     (case cut_at (CHR ''%'') s of
        (t, z, True) \<Rightarrow> if z = [] then None
                       else map_option (\<lambda>gs. V6 (of_nat (of_fields 16 gs)) z) (v6_groups t)
      | (t, _, False) \<Rightarrow> map_option (\<lambda>gs. V6 (of_nat (of_fields 16 gs)) []) (v6_groups t))"

text \<open>netip.ParseAddr: the first of dot, colon and percent decides the family.\<close>

fun parse_addr_scan :: "string \<Rightarrow> string \<Rightarrow> addr option" where
  "parse_addr_scan s [] = None"
| "parse_addr_scan s (c # cs) =
     (if c = CHR ''.'' then parse_ipv4 s
      else if c = CHR '':'' then parse_ipv6 s
      else if c = CHR ''%'' then None
      else parse_addr_scan s cs)"

definition parse_addr :: "string \<Rightarrow> addr option" where
  "parse_addr s = parse_addr_scan s s"

subsection \<open>Printing\<close>

text \<open>
  Addr.String: dotted decimal, or lower-case groups with the first longest run of at least two
  zero groups written as an ellipsis, then the zone. An IPv4-mapped address prints its IPv4 tail.
\<close>

definition string4 :: "32 word \<Rightarrow> string" where
  "string4 a = join_with (CHR ''.'') (map format_uint (to_fields 8 4 (unat a)))"

fun zero_run :: "nat list \<Rightarrow> nat" where
  "zero_run [] = 0"
| "zero_run (g # gs) = (if g = 0 then Suc (zero_run gs) else 0)"

text \<open>The start and the end of the run, scanning from index i with the best run so far.\<close>

fun best_run :: "nat \<Rightarrow> nat \<times> nat \<Rightarrow> nat list \<Rightarrow> nat \<times> nat" where
  "best_run i (a, b) [] = (a, b)"
| "best_run i (a, b) (g # gs) =
     (let l = zero_run (g # gs) in
      best_run (i + 1) (if 2 \<le> l \<and> b - a < l then (i, i + l) else (a, b)) gs)"

definition string6_groups :: "nat list \<Rightarrow> string" where
  "string6_groups gs =
     (let (a, b) = best_run 0 (255, 255) gs in
      if 8 \<le> a then join_with (CHR '':'') (map format_hex gs)
      else join_with (CHR '':'') (map format_hex (take a gs)) @ ''::'' @
           join_with (CHR '':'') (map format_hex (drop b gs)))"

definition zone_suffix :: "string \<Rightarrow> string" where
  "zone_suffix z = (if z = [] then [] else CHR ''%'' # z)"

fun addr_string :: "addr \<Rightarrow> string" where
  "addr_string (V4 a) = string4 a"
| "addr_string (V6 a z) =
     (if is_4in6 (V6 a z) then ''::ffff:'' @ string4 (ucast a) @ zone_suffix z
      else string6_groups (to_fields 16 8 (unat a)) @ zone_suffix z)"

subsection \<open>Fields of a word\<close>

lemma of_fields_snoc [simp]: "of_fields b (fs @ [f]) = of_fields b fs * 2 ^ b + f"
  by (simp add: of_fields_def)

lemma of_fields_Nil [simp]: "of_fields b [] = 0"
  by (simp add: of_fields_def)

lemma length_to_fields [simp]: "length (to_fields b k n) = k"
  by (induction b k n rule: to_fields.induct) auto

lemma to_fields_bound: "f \<in> set (to_fields b k n) \<Longrightarrow> f < 2 ^ b"
  by (induction b k n rule: to_fields.induct) auto

lemma of_to_fields: "of_fields b (to_fields b k n) = n mod 2 ^ (b * k)"
proof (induction b k n rule: to_fields.induct)
  case (2 b k n)
  have "n mod 2 ^ (b * Suc k) = 2 ^ b * (n div 2 ^ b mod 2 ^ (b * k)) + n mod 2 ^ b"
    by (simp add: power_add mod_mult2_eq)
  with 2 show ?case by simp
qed simp

lemma of_to_fields_word:
  fixes w :: "'a :: len word"
  assumes "b * k = LENGTH('a)"
  shows "of_nat (of_fields b (to_fields b k (unat w))) = w"
  using assms unsigned_less [of w] by (simp add: of_to_fields)

subsection \<open>Parsing what was printed: IPv4\<close>

lemma v4_digit:
  assumes "d < 10" and "dig = 1 \<longrightarrow> val \<noteq> 0" and "val * 10 + d < 256"
  shows "v4_fields_loop (digit_char d # cs) p val dig fs =
    v4_fields_loop cs (Some (digit_char d)) (val * 10 + d) (dig + 1) fs"
  using assms by auto

lemma v4_field:
  assumes "n < 256"
  shows "\<exists>e d. e < 10 \<and> 0 < d \<and>
    v4_fields_loop (format_uint n @ r) p 0 0 fs = v4_fields_loop r (Some (digit_char e)) n d fs"
proof -
  consider "n < 10" | "10 \<le> n" "n < 100" | "100 \<le> n" by linarith
  then show ?thesis
  proof cases
    case 1
    then have "format_uint n = [digit_char n]" by (simp add: format_uint.simps [of n])
    then show ?thesis using 1 v4_digit [of n 0 0 r p fs] by auto
  next
    case 2
    then have "format_uint n = [digit_char (n div 10), digit_char (n mod 10)]"
      by (simp add: format_uint.simps [of n] format_uint.simps [of "n div 10"])
    moreover have "n div 10 * 10 + n mod 10 = n" by (rule div_mult_mod_eq)
    ultimately show ?thesis
      using 2 v4_digit [of "n div 10" 0 0 "digit_char (n mod 10) # r" p fs]
        v4_digit [of "n mod 10" 1 "n div 10" r "Some (digit_char (n div 10))" fs]
      by - (rule exI [of _ "n mod 10"], rule exI [of _ "Suc (Suc 0)"], simp del: v4_fields_loop.simps)
  next
    case 3
    define x y z where "x = n div 100" and "y = n div 10 mod 10" and "z = n mod 10"
    have d: "x < 10" "0 < x" "y < 10" "z < 10" using 3 assms by (auto simp: x_def y_def z_def)
    have q: "n div 10 div 10 = x" by (simp add: x_def div_mult2_eq [symmetric])
    have n: "(x * 10 + y) * 10 + z = n"
      unfolding q [symmetric] y_def z_def by simp
    have "format_uint n = [digit_char x, digit_char y, digit_char z]"
      using 3 d q by (simp add: format_uint.simps [of n] format_uint.simps [of "n div 10"]
          format_uint.simps [of x] y_def z_def)
    then show ?thesis
      using d n assms v4_digit [of x 0 0 "digit_char y # digit_char z # r" p fs]
        v4_digit [of y 1 x "digit_char z # r" "Some (digit_char x)" fs]
        v4_digit [of z "Suc (Suc 0)" "x * 10 + y" r "Some (digit_char y)" fs]
      by - (rule exI [of _ z], rule exI [of _ "Suc (Suc (Suc 0))"], simp del: v4_fields_loop.simps)
  qed
qed

lemma v4_field_dot:
  assumes "n < 256" and "r \<noteq> []" and "length fs < 3"
  shows "v4_fields_loop (format_uint n @ CHR ''.'' # r) p 0 0 fs =
    v4_fields_loop r (Some (CHR ''.'')) 0 0 (fs @ [n])"
proof -
  obtain e d where "e < 10"
    "v4_fields_loop (format_uint n @ CHR ''.'' # r) p 0 0 fs =
      v4_fields_loop (CHR ''.'' # r) (Some (digit_char e)) n d fs"
    using v4_field [OF assms(1)] by blast
  moreover have "digit_char e \<noteq> CHR ''.''" if "e < 10"
    using digit_char_is_digit [OF that] by (auto simp: is_digit_def)
  ultimately show ?thesis using assms(2,3) by (simp add: is_digit_def)
qed

lemma v4_field_end:
  assumes "n < 256" and "length fs = 3"
  shows "v4_fields_loop (format_uint n) p 0 0 fs = Some (fs @ [n])"
  using v4_field [OF assms(1), of "[]" p fs] assms(2) by force

lemma v4_fields_format:
  assumes "\<forall>f \<in> set [a, b, c, d]. f < 256"
  shows "v4_fields (join_with (CHR ''.'') (map format_uint [a, b, c, d])) = Some [a, b, c, d]"
  using assms by (simp add: v4_fields_def v4_field_dot v4_field_end)

lemma four_fields: "length fs = 4 \<Longrightarrow> \<exists>a b c d. fs = [a, b, c, d]"
  by (auto simp: length_Suc_conv eval_nat_numeral)

lemma v4_fields_string4: "v4_fields (string4 a) = Some (to_fields 8 4 (unat a))"
proof -
  obtain w x y z where f: "to_fields 8 4 (unat a) = [w, x, y, z]"
    using four_fields [OF length_to_fields] by blast
  then have "\<forall>f \<in> set [w, x, y, z]. f < 256"
    using to_fields_bound [of _ 8 4 "unat a"] by auto
  then show ?thesis unfolding string4_def f by (rule v4_fields_format)
qed

lemma parse_addr_scan_skip:
  "(\<And>c. c \<in> set p \<Longrightarrow> c \<notin> {CHR ''.'', CHR '':'', CHR ''%''}) \<Longrightarrow>
     parse_addr_scan s (p @ t) = parse_addr_scan s t"
  by (induction p) auto

lemma digit_not_sep: "is_digit c \<Longrightarrow> c \<notin> {CHR ''.'', CHR '':'', CHR ''%''}"
  by (auto simp: is_digit_def)

lemma parse_addr_scan_digits [simp]: "parse_addr_scan s (format_uint n @ t) = parse_addr_scan s t"
  by (rule parse_addr_scan_skip) (rule digit_not_sep, erule format_uint_digits)

lemma parse_addr_string4 [simp]: "parse_addr (string4 a) = Some (V4 a)"
proof -
  obtain w x y z where f: "to_fields 8 4 (unat a) = [w, x, y, z]"
    using four_fields [OF length_to_fields] by blast
  then have "parse_addr_scan s (string4 a) = parse_ipv4 s" for s
    unfolding string4_def f
    by simp
  then have "parse_addr (string4 a) = parse_ipv4 (string4 a)" by (simp add: parse_addr_def)
  also have "\<dots> = Some (V4 a)"
    by (simp add: parse_ipv4_def v4_fields_string4 of_to_fields_word)
  finally show ?thesis .
qed

subsection \<open>Parsing what was printed: IPv6\<close>

lemma hex_group_append:
  "hex_group off acc s = Some (acc', off', []) \<Longrightarrow> hex_group off acc (s @ t) = hex_group off' acc' t"
  by (induction off acc s rule: hex_group.induct) (auto split: option.splits if_splits)

lemma format_hex_length: "n < 16 ^ Suc k \<Longrightarrow> length (format_hex n) \<le> Suc k"
proof (induction k arbitrary: n)
  case 0
  then show ?case by (simp add: format_hex.simps [of n])
next
  case (Suc k)
  then have "n div 16 < 16 ^ Suc k" by (simp add: less_mult_imp_div_less mult.commute)
  then have "length (format_hex (n div 16)) \<le> Suc k" by (rule Suc.IH)
  then show ?case by (simp add: format_hex.simps [of n])
qed

lemma hex_group_format:
  "n < 65536 \<Longrightarrow> hex_group 0 0 (format_hex n) = Some (n, length (format_hex n), [])"
proof (induction n rule: format_hex.induct)
  case (1 n)
  show ?case
  proof (cases "n < 16")
    case True
    then show ?thesis by (simp add: format_hex.simps [of n])
  next
    case False
    define m where "m = n div 16"
    have m: "m < 16 ^ Suc 2" using 1(2) by (simp add: m_def)
    then have "length (format_hex m) \<le> 3" using format_hex_length by fastforce
    moreover have "hex_group 0 0 (format_hex m) = Some (m, length (format_hex m), [])"
      using 1 False m by (simp add: m_def)
    moreover have "m * 16 + n mod 16 = n" by (simp add: m_def)
    moreover have "format_hex n = format_hex m @ [hex_char (n mod 16)]"
      using False by (simp add: format_hex.simps [of n] m_def)
    ultimately show ?thesis using 1(2) by (simp add: hex_group_append)
  qed
qed

definition hex_stop :: "string \<Rightarrow> bool" where
  "hex_stop s = (s = [] \<or> hex_val (hd s) = None)"

lemma hex_group_stop: "hex_stop s \<Longrightarrow> hex_group off acc s = Some (acc, off, s)"
  by (cases s) (auto simp: hex_stop_def)

lemma hex_group_format_stop:
  "n < 65536 \<Longrightarrow> hex_stop s \<Longrightarrow>
     hex_group 0 0 (format_hex n @ s) = Some (n, length (format_hex n), s)"
  using hex_group_append [OF hex_group_format] by (simp add: hex_group_stop)

lemma hex_char_not_sep: "d < 16 \<Longrightarrow> hex_char d \<notin> {CHR ''.'', CHR '':'', CHR ''%''}"
proof -
  assume "d < 16"
  then have "code (hex_char d) = (if d < 10 then 48 + d else 87 + d)" by (simp add: hex_char_def)
  then show ?thesis by (auto split: if_splits)
qed

lemma format_hex_not_sep: "c \<in> set (format_hex n) \<Longrightarrow> c \<notin> {CHR ''.'', CHR '':'', CHR ''%''}"
  by (metis format_hex_digits hex_char_not_sep)

lemma hd_format_hex: "hd (format_hex n @ s) \<noteq> CHR '':''"
  using format_hex_not_sep [of "hd (format_hex n)" n] by simp

abbreviation join_groups :: "nat list \<Rightarrow> string" where
  "join_groups gs \<equiv> join_with (CHR '':'') (map format_hex gs)"

lemma join_groups_hd: "gs \<noteq> [] \<Longrightarrow> join_groups gs @ s \<noteq> [] \<and> hd (join_groups gs @ s) \<noteq> CHR '':''"
  by (cases gs; cases "tl gs") (use hd_format_hex in auto)

lemma hex_stop_colon: "hex_stop (CHR '':'' # s)"
  by (simp add: hex_stop_def hex_val_def is_digit_def)

text \<open>One group, then the end, a colon or an ellipsis.\<close>

lemma v6_loop_last:
  assumes "g < 65536" and "length gs < 8"
  shows "v6_loop gs ell (format_hex g) = Some (gs @ [g], ell)"
  using assms hex_group_format_stop [of g "[]"]
  by (subst v6_loop.simps) (simp add: hex_stop_def)

lemma v6_loop_colon:
  assumes "g < 65536" and "length gs < 8" and "s \<noteq> []" and "hd s \<noteq> CHR '':''"
  shows "v6_loop gs ell (format_hex g @ CHR '':'' # s) = v6_loop (gs @ [g]) ell s"
  using assms hex_group_format_stop [OF assms(1) hex_stop_colon [of s]]
  by (subst v6_loop.simps) simp

lemma v6_loop_ellipsis:
  assumes "g < 65536" and "length gs < 8"
  shows "v6_loop gs None (format_hex g @ ''::'' @ s) =
    (if s = [] then Some (gs @ [g], Some (length gs + 1))
     else v6_loop (gs @ [g]) (Some (length gs + 1)) s)"
  using assms hex_group_format_stop [OF assms(1) hex_stop_colon [of "CHR '':'' # s"]]
  by (subst v6_loop.simps) simp

lemma v6_loop_join:
  assumes "gs \<noteq> []" and "\<forall>g \<in> set gs. g < 65536" and "length acc + length gs \<le> 8"
  shows "v6_loop acc ell (join_groups gs) = Some (acc @ gs, ell)"
  using assms
proof (induction gs arbitrary: acc)
  case (Cons g gs)
  show ?case
  proof (cases "gs = []")
    case True
    with Cons show ?thesis by (simp add: v6_loop_last)
  next
    case False
    then have "join_groups (g # gs) = format_hex g @ CHR '':'' # join_groups gs"
      by (cases gs) auto
    with Cons False show ?thesis
      using join_groups_hd [OF False, of "[]"] by (simp add: v6_loop_colon)
  qed
qed simp

lemma v6_loop_join_ellipsis:
  assumes "gs \<noteq> []" and "\<forall>g \<in> set gs. g < 65536" and "length acc + length gs \<le> 8"
  shows "v6_loop acc None (join_groups gs @ ''::'' @ s) =
    (if s = [] then Some (acc @ gs, Some (length acc + length gs))
     else v6_loop (acc @ gs) (Some (length acc + length gs)) s)"
  using assms
proof (induction gs arbitrary: acc)
  case (Cons g gs)
  show ?case
  proof (cases "gs = []")
    case True
    with Cons show ?thesis using v6_loop_ellipsis [of g acc s] by simp
  next
    case False
    then have "join_groups (g # gs) @ ''::'' @ s = format_hex g @ CHR '':'' # join_groups gs @ ''::'' @ s"
      by (cases gs) auto
    with Cons False show ?thesis
      using join_groups_hd [OF False, of "''::'' @ s"] v6_loop_colon [of g acc "join_groups gs @ ''::'' @ s" None]
      by simp
  qed
qed simp

text \<open>The printer's ellipsis stands for a run of at least two zero groups.\<close>

definition zero_block :: "nat list \<Rightarrow> nat \<times> nat \<Rightarrow> bool" where
  "zero_block gs = (\<lambda>(a, b). (a, b) = (255, 255) \<or>
     (a + 2 \<le> b \<and> b \<le> length gs \<and> gs = take a gs @ replicate (b - a) 0 @ drop b gs))"

lemma zero_run_prefix:
  "zero_run gs \<le> length gs \<and> gs = replicate (zero_run gs) 0 @ drop (zero_run gs) gs"
  by (induction gs) auto

lemma best_run_block:
  assumes "zero_block (pre @ gs) ab"
  shows "zero_block (pre @ gs) (best_run (length pre) ab gs)"
  using assms
proof (induction gs arbitrary: pre ab)
  case Nil
  then show ?case by (cases ab) simp
next
  case (Cons g gs)
  obtain a b where ab: "ab = (a, b)" by force
  define l where "l = zero_run (g # gs)"
  define ab' where "ab' = (if 2 \<le> l \<and> b - a < l then (length pre, length pre + l) else (a, b))"
  have "l \<le> length (g # gs)" and "g # gs = replicate l 0 @ drop l (g # gs)"
    unfolding l_def using zero_run_prefix [of "g # gs"] by blast+
  then have "2 \<le> l \<Longrightarrow> zero_block (pre @ g # gs) (length pre, length pre + l)"
    by (simp add: zero_block_def)
  then have "zero_block ((pre @ [g]) @ gs) ab'"
    using Cons.prems ab by (auto simp: ab'_def)
  then have "zero_block ((pre @ [g]) @ gs) (best_run (length (pre @ [g])) ab' gs)"
    by (rule Cons.IH)
  moreover have "best_run (length pre) ab (g # gs) = best_run (length (pre @ [g])) ab' gs"
    by (simp add: ab ab'_def l_def Let_def del: zero_run.simps)
  ultimately show ?case by simp
qed

lemma best_run_zero_block: "zero_block gs (best_run 0 (255, 255) gs)"
  using best_run_block [of "[]" gs "(255, 255)"] by (simp add: zero_block_def)

lemma v6_groups_string6:
  assumes len: "length gs = 8" and bound: "\<forall>g \<in> set gs. g < 65536"
  shows "v6_groups (string6_groups gs) = Some gs"
proof -
  obtain a b where ab: "best_run 0 (255, 255) gs = (a, b)" by force
  have blk: "zero_block gs (a, b)" using best_run_zero_block [of gs] ab by simp
  show ?thesis
  proof (cases "8 \<le> a")
    case True
    have "cut_prefix ''::'' (join_groups gs) = None"
      using join_groups_hd [of gs "[]"] len by (cases "gs = []"; cases "join_groups gs") auto
    moreover have "v6_loop [] None (join_groups gs) = Some (gs, None)"
      using v6_loop_join [of gs "[]" None] len bound by force
    ultimately show ?thesis
      using True ab len by (simp add: string6_groups_def v6_groups_def v6_expand_def)
  next
    case False
    define l r where "l = take a gs" and "r = drop b gs"
    have c: "a + 2 \<le> b" "b \<le> 8" "gs = l @ replicate (b - a) 0 @ r"
      using blk False len by (auto simp: zero_block_def l_def r_def)
    have lr: "length l = a" "length r = 8 - b" "\<forall>g \<in> set l. g < 65536" "\<forall>g \<in> set r. g < 65536"
      using c len bound by (auto simp: l_def r_def dest: in_set_takeD in_set_dropD)
    have str: "string6_groups gs = join_groups l @ ''::'' @ join_groups r"
      using ab False by (simp add: string6_groups_def l_def r_def)
    have exp: "v6_expand (l @ r, Some a) = Some gs"
      using c lr by (simp add: v6_expand_def)
    have r_empty: "join_groups r = [] \<longleftrightarrow> r = []"
      using join_groups_hd [of r "[]"] by auto
    have rest: "r \<noteq> [] \<Longrightarrow> v6_loop l (Some a) (join_groups r) = Some (l @ r, Some a)"
      using lr c by (simp add: v6_loop_join)
    show ?thesis
    proof (cases "l = []")
      case True
      then have "gs = replicate b 0 @ r" "a = 0" using c lr by auto
      then show ?thesis
        using str True rest exp r_empty c len
        by (auto simp: v6_groups_def)
    next
      case F: False
      have "cut_prefix ''::'' (string6_groups gs) = None"
        unfolding str using join_groups_hd [OF F, of "''::'' @ join_groups r"]
        by (cases "join_groups l @ ''::'' @ join_groups r") auto
      then show ?thesis
        using str F rest exp r_empty lr c v6_loop_join_ellipsis [of l "[]" "join_groups r"]
        by (auto simp: v6_groups_def)
    qed
  qed
qed

lemma join_groups_chars:
  "c \<in> set (join_groups gs) \<Longrightarrow> c \<notin> {CHR ''.'', CHR ''%''}"
  using set_join_with [of "CHR '':''" "map format_hex gs"] format_hex_not_sep by fastforce

lemma string6_chars: "c \<in> set (string6_groups gs) \<Longrightarrow> c \<notin> {CHR ''.'', CHR ''%''}"
  by (auto simp: string6_groups_def Let_def split: prod.splits if_splits dest: join_groups_chars)

lemma join_two_colon: "2 \<le> length gs \<Longrightarrow> CHR '':'' \<in> set (join_groups gs)"
  by (cases gs; cases "tl gs") auto

lemma string6_colon: "length gs = 8 \<Longrightarrow> CHR '':'' \<in> set (string6_groups gs)"
  by (cases "best_run 0 (255, 255) gs") (auto simp: string6_groups_def join_two_colon)

lemma parse_addr_scan_ipv6:
  "CHR '':'' \<in> set t \<Longrightarrow> (\<And>c. c \<in> set t \<Longrightarrow> c \<notin> {CHR ''.'', CHR ''%''}) \<Longrightarrow>
     parse_addr_scan s (t @ u) = parse_ipv6 s"
  by (induction t) auto

lemma parse_addr_string6:
  assumes "\<not> is_4in6 (V6 a z)"
  shows "parse_addr (addr_string (V6 a z)) = Some (V6 a z)"
proof -
  define t where "t = string6_groups (to_fields 16 8 (unat a))"
  have s: "addr_string (V6 a z) = t @ zone_suffix z"
    using assms by (simp add: t_def)
  have g: "v6_groups t = Some (to_fields 16 8 (unat a))"
    unfolding t_def using to_fields_bound [of _ 16 8 "unat a"] by (intro v6_groups_string6) auto
  have pct: "CHR ''%'' \<notin> set t"
    using string6_chars [of "CHR ''%''"] by (auto simp: t_def)
  have w: "of_nat (of_fields 16 (to_fields 16 8 (unat a))) = a"
    by (rule of_to_fields_word) simp
  have "parse_addr (t @ zone_suffix z) = parse_ipv6 (t @ zone_suffix z)"
    unfolding parse_addr_def
    by (rule parse_addr_scan_ipv6) (auto simp: t_def string6_colon dest: string6_chars)
  also have "\<dots> = Some (V6 a z)"
  proof (cases "z = []")
    case True
    with pct g w show ?thesis
      by (simp add: parse_ipv6_def zone_suffix_def cut_at_False)
  next
    case False
    with pct g w show ?thesis
      by (simp add: parse_ipv6_def zone_suffix_def cut_at_append)
  qed
  finally show ?thesis using s by simp
qed

text \<open>Parsing the printed form of an address that is not IPv4-mapped gives the address.\<close>

lemma parse_addr_string:
  assumes "\<not> is_4in6 a"
  shows "parse_addr (addr_string a) = Some a"
proof (cases a)
  case (V4 w)
  then show ?thesis by simp
next
  case (V6 w z)
  then show ?thesis using assms by (simp only: parse_addr_string6 not_False_eq_True)
qed

text \<open>The bytes of a printed address without a zone.\<close>

lemma string4_chars: "c \<in> set (string4 a) \<Longrightarrow> is_digit c \<or> c = CHR ''.''"
  using set_join_with [of "CHR ''.''" "map format_uint (to_fields 8 4 (unat a))"] format_uint_digits
  unfolding string4_def by fastforce

lemma join_groups_hex: "c \<in> set (join_groups gs) \<Longrightarrow> c = CHR '':'' \<or> hex_val c \<noteq> None"
  using set_join_with [of "CHR '':''" "map format_hex gs"] format_hex_digits by fastforce

lemma string6_groups_hex: "c \<in> set (string6_groups gs) \<Longrightarrow> c = CHR '':'' \<or> hex_val c \<noteq> None"
  by (cases "best_run 0 (255, 255) gs")
    (auto simp: string6_groups_def split: if_splits dest: join_groups_hex)

lemma addr_string_chars:
  assumes "c \<in> set (addr_string a)" and "\<not> is_4in6 a" and "zone_of a = []"
  shows "c \<notin> {CHR ''['', CHR '']''}"
proof (cases a)
  case (V4 w)
  then show ?thesis using assms string4_chars [of c w] by (auto simp: is_digit_def)
next
  case (V6 w z)
  then show ?thesis
    using assms string6_groups_hex [of c "to_fields 16 8 (unat w)"]
    by (auto simp: zone_suffix_def hex_val_def is_digit_def)
qed

lemma unmap_not_4in6 [simp]: "\<not> is_4in6 (unmap a)"
  by (cases a) auto

lemma unmap_idem [simp]: "unmap (unmap a) = unmap a"
  by (cases a) auto

text \<open>Evaluation of the printers and parsers on concrete input by the simplifier.\<close>

lemma to_fields_numeral:
  "to_fields b (numeral k) n = to_fields b (pred_numeral k) (n div 2 ^ b) @ [n mod 2 ^ b]"
  by (simp add: numeral_eq_Suc)

lemma format_hex_digit: "n < 16 \<Longrightarrow> format_hex n = [hex_char n]"
  by (simp add: format_hex.simps)

lemma format_hex_step: "\<not> n < 16 \<Longrightarrow> format_hex n = format_hex (n div 16) @ [hex_char (n mod 16)]"
  by (simp add: format_hex.simps)

lemma format_uint_digit: "n < 10 \<Longrightarrow> format_uint n = [digit_char n]"
  by (simp add: format_uint.simps)

lemma format_uint_step: "\<not> n < 10 \<Longrightarrow> format_uint n = format_uint (n div 10) @ [digit_char (n mod 10)]"
  by (simp add: format_uint.simps)

lemmas net_eval = to_fields_numeral format_hex_digit format_hex_step format_uint_digit
  format_uint_step hex_char_def digit_char_def digit_val_def is_digit_def hex_val_def v6_loop.simps
  v6_expand_def v6_groups_def of_fields_def parse_addr_def parse_ipv6_def parse_ipv4_def
  v4_fields_def string4_def string6_groups_def zone_suffix_def char_of_def bit_0

section \<open>Prefixes of package netip\<close>

text \<open>netip.Prefix: the invalid prefix, or an address without a zone and a length in bits.\<close>

datatype prefix = InvalidPrefix | Prefix addr nat

fun prefix_contains :: "prefix \<Rightarrow> addr \<Rightarrow> bool" where
  "prefix_contains (Prefix (V4 p) n) (V4 a) = (drop_bit (32 - n) (a XOR p) = 0)"
| "prefix_contains (Prefix (V6 p _) n) (V6 a z) = (z = [] \<and> drop_bit (128 - n) (a XOR p) = 0)"
| "prefix_contains _ _ = False"

fun prefix_masked :: "prefix \<Rightarrow> prefix" where
  "prefix_masked (Prefix (V4 p) n) = Prefix (V4 (push_bit (32 - n) (drop_bit (32 - n) p))) n"
| "prefix_masked (Prefix (V6 p _) n) = Prefix (V6 (push_bit (128 - n) (drop_bit (128 - n) p)) []) n"
| "prefix_masked InvalidPrefix = InvalidPrefix"

text \<open>Prefix.IsValid and PrefixFrom, which drops the zone.\<close>

fun prefix_valid :: "prefix \<Rightarrow> bool" where
  "prefix_valid InvalidPrefix = False"
| "prefix_valid (Prefix a n) = (zone_of a = [] \<and> n \<le> bit_len a)"

definition prefix_from :: "addr \<Rightarrow> nat \<Rightarrow> prefix" where
  "prefix_from a n = (if n \<le> bit_len a then Prefix (with_zone [] a) n else InvalidPrefix)"

lemma drop_push_drop [simp]: "drop_bit k (push_bit k (drop_bit k p)) = drop_bit k p"
  for p :: "'a :: len word"
  by (rule bit_word_eqI) (auto simp: bit_simps dest: bit_imp_le_length)

lemma word_xor_eq_0 [simp]: "a XOR b = 0 \<longleftrightarrow> a = b"
  for a :: "'a :: len word"
proof
  assume "a XOR b = 0"
  then have "(a XOR b) XOR b = b" by simp
  then show "a = b" by (simp add: xor.assoc)
qed simp

text \<open>Masking a prefix does not change what it contains.\<close>

lemma contains_masked [simp]: "prefix_contains (prefix_masked p) a = prefix_contains p a"
proof (cases p)
  case (Prefix b n)
  then show ?thesis by (cases b; cases a) simp_all
qed simp

lemma contains_host4: "prefix_contains (prefix_from (V4 p) 32) (V4 a) \<longleftrightarrow> a = p"
  by (simp add: prefix_from_def)

lemma contains_host6: "prefix_contains (prefix_from (V6 p z) 128) (V6 a []) \<longleftrightarrow> a = p"
  by (simp add: prefix_from_def)

text \<open>The bytes of an address as Addr.As16 gives them, and netip.AddrFrom4.\<close>

definition byte_at :: "128 word \<Rightarrow> nat \<Rightarrow> 8 word" where
  "byte_at a i = ucast (drop_bit (8 * (15 - i)) a)"

definition addr_from4 :: "8 word \<Rightarrow> 8 word \<Rightarrow> 8 word \<Rightarrow> 8 word \<Rightarrow> addr" where
  "addr_from4 a b c d = V4 (word_cat (word_cat a b :: 16 word) (word_cat c d :: 16 word))"

fun as16 :: "addr \<Rightarrow> 128 word" where
  "as16 (V4 a) = push_bit 32 0xffff OR ucast a"
| "as16 (V6 a z) = a"

section \<open>Host and port of package net\<close>

definition join_host_port :: "string \<Rightarrow> string \<Rightarrow> string" where
  "join_host_port host port =
     (if CHR '':'' \<in> set host then CHR ''['' # host @ '']:'' @ port else host @ CHR '':'' # port)"

text \<open>The text before and after the last occurrence of a byte (strings.LastIndexByte).\<close>

definition cut_last :: "char \<Rightarrow> string \<Rightarrow> (string \<times> string) option" where
  "cut_last c s = (case cut_at c (rev s) of
     (a, b, True) \<Rightarrow> Some (rev b, rev a)
   | (_, _, False) \<Rightarrow> None)"

text \<open>
  net.SplitHostPort. With a leading bracket the first closing bracket must stand just before the
  last colon; without one the host holds no colon. No other bracket may occur.
\<close>

definition split_host_port :: "string \<Rightarrow> (string \<times> string) option" where
  "split_host_port hp =
     (case cut_last (CHR '':'') hp of
        None \<Rightarrow> None
      | Some (before, port) \<Rightarrow>
          if hp \<noteq> [] \<and> hd hp = CHR ''['' then
            (case cut_at (CHR '']'') hp of
               (_, _, False) \<Rightarrow> None
             | (host, rest, True) \<Rightarrow>
                 if rest \<noteq> CHR '':'' # port then None
                 else if CHR ''['' \<in> set (tl hp) \<or> CHR '']'' \<in> set rest then None
                 else Some (tl host, port))
          else if CHR '':'' \<in> set before \<or> CHR ''['' \<in> set hp \<or> CHR '']'' \<in> set hp then None
          else Some (before, port))"

lemma cut_last_Some: "cut_last c s = Some (b, a) \<longleftrightarrow> s = b @ c # a \<and> c \<notin> set a"
proof -
  have "cut_last c s = Some (b, a) \<longleftrightarrow> cut_at c (rev s) = (rev a, rev b, True)"
    unfolding cut_last_def
    by (auto split: prod.splits bool.splits)
  also have "\<dots> \<longleftrightarrow> rev s = rev a @ c # rev b \<and> c \<notin> set a"
    by (simp add: cut_at_True)
  also have "rev s = rev a @ c # rev b \<longleftrightarrow> s = b @ c # a"
    using rev_swap [of s "rev a @ c # rev b"] by simp
  finally show ?thesis .
qed

lemma cut_last_append [simp]: "c \<notin> set a \<Longrightarrow> cut_last c (b @ c # a) = Some (b, a)"
  by (simp add: cut_last_Some)

text \<open>
  Splitting what was joined: the host may be a name or an IPv6 literal, but holds no bracket, and
  the port neither a colon nor a bracket.
\<close>

lemma split_join_host_port:
  assumes "set host \<inter> {CHR ''['', CHR '']''} = {}"
    and "set port \<inter> {CHR ''['', CHR '']'', CHR '':''} = {}"
  shows "split_host_port (join_host_port host port) = Some (host, port)"
proof (cases "CHR '':'' \<in> set host")
  case True
  have "CHR ''['' # host @ '']:'' @ port = (CHR ''['' # host @ '']'') @ CHR '':'' # port" by simp
  then have "cut_last (CHR '':'') (CHR ''['' # host @ '']:'' @ port) = Some (CHR ''['' # host @ '']'', port)"
    using assms(2) cut_last_append [of "CHR '':''" port "CHR ''['' # host @ '']''"] by simp
  moreover have "cut_at (CHR '']'') (CHR ''['' # host @ '']:'' @ port) = (CHR ''['' # host, CHR '':'' # port, True)"
    using assms(1) cut_at_append [of "CHR '']''" "CHR ''['' # host" "CHR '':'' # port"] by auto
  ultimately show ?thesis
    using True assms by (auto simp: split_host_port_def join_host_port_def)
next
  case False
  then have "cut_last (CHR '':'') (host @ CHR '':'' # port) = Some (host, port)"
    using assms by (intro cut_last_append) auto
  then show ?thesis
    using False assms by (cases host) (auto simp: split_host_port_def join_host_port_def)
qed

section \<open>Parsed URLs\<close>

text \<open>
  The fields of net/url.URL the connector reads. url.Parse itself is a parameter of the model.
\<close>

record url =
  url_scheme :: string
  url_user :: bool
  url_host :: string
  url_path :: string
  url_raw_query :: string
  url_fragment :: string

definition valid_optional_port :: "string \<Rightarrow> bool" where
  "valid_optional_port p = (case p of [] \<Rightarrow> True | c # cs \<Rightarrow> c = CHR '':'' \<and> list_all is_digit cs)"

text \<open>url.splitHostPort, behind URL.Hostname and URL.Port.\<close>

definition url_split_host :: "string \<Rightarrow> string \<times> string" where
  "url_split_host hp =
     (let (host, port) = (case cut_last (CHR '':'') hp of
            Some (b, a) \<Rightarrow> if valid_optional_port (CHR '':'' # a) then (b, a) else (hp, [])
          | None \<Rightarrow> (hp, [])) in
      (if has_prefix ''['' host \<and> has_suffix '']'' host then butlast (tl host) else host, port))"

definition url_hostname :: "url \<Rightarrow> string" where
  "url_hostname u = fst (url_split_host (url_host u))"

definition url_port :: "url \<Rightarrow> string" where
  "url_port u = snd (url_split_host (url_host u))"

end
