(* ===== verification/Hostname.thy ===== *)
theory Hostname
  imports GoNet
begin

text \<open>
  The one spelling of a destination: internal/hostname/hostname.go, capability/host.go and the
  Authority function of rawpipe/http.go. The parameter \<open>ulower\<close> is strings.ToLower on a string that
  is not ASCII (Go's Unicode tables); an ASCII host never reaches it.
\<close>

section \<open>Canonical hosts\<close>

definition host_label_chars :: string where
  "host_label_chars = ''abcdefghijklmnopqrstuvwxyz0123456789-_''"

text \<open>A last label that the WHATWG URL parser reads as part of an IPv4 address.\<close>

definition numeric_label :: "string \<Rightarrow> bool" where
  "numeric_label l =
     (case cut_prefix ''0x'' l of
        Some hex \<Rightarrow> trim_set ''0123456789abcdef'' hex = []
      | None \<Rightarrow> trim_set ''0123456789'' l = [])"

definition bad_label :: "string \<Rightarrow> bool" where
  "bad_label l = (l = [] \<or> 63 < length l \<or> trim_set host_label_chars l \<noteq> [])"

definition canonical :: "(string \<Rightarrow> string) \<Rightarrow> string \<Rightarrow> string \<times> bool" where
  "canonical ulower host =
     (case parse_addr host of
        Some a \<Rightarrow> (addr_string (unmap a), zone_of a = [])
      | None \<Rightarrow>
          let h = trim_suffix ''.'' (to_lower ulower host); labels = split_on (CHR ''.'') h in
          if h = [] \<or> 253 < length h then ([], False)
          else if \<exists>l \<in> set labels. bad_label l then ([], False)
          else if numeric_label (last labels) then ([], False)
          else (h, True))"

definition is_canonical :: "(string \<Rightarrow> string) \<Rightarrow> string \<Rightarrow> bool" where
  "is_canonical ulower host = (let (c, ok) = canonical ulower host in ok \<and> c = host)"

definition split_authority :: "(string \<Rightarrow> string) \<Rightarrow> string \<Rightarrow> (string \<times> u16) option" where
  "split_authority ulower authority =
     (case split_host_port authority of
        None \<Rightarrow> None
      | Some (host, p) \<Rightarrow>
          if \<not> is_canonical ulower host then None
          else (case parse_uint 16 p of
                  None \<Rightarrow> None
                | Some port \<Rightarrow>
                    if port = 0 \<or> format_uint port \<noteq> p \<or> join_host_port host p \<noteq> authority then None
                    else Some (host, of_nat port)))"

text \<open>A host as a resolver must get it, so that no search list rewrites it.\<close>

definition absolute_host :: "string \<Rightarrow> string" where
  "absolute_host host = (if parse_addr host \<noteq> None then host else host @ ''.'')"

text \<open>rawpipe.Authority: the destination a request's URL names.\<close>

definition url_authority :: "(string \<Rightarrow> string) \<Rightarrow> url \<Rightarrow> (string \<times> u16) option" where
  "url_authority ulower u =
     (case canonical ulower (url_hostname u) of
        (_, False) \<Rightarrow> None
      | (host, True) \<Rightarrow>
          let p = url_port u in
          if p \<noteq> [] then
            (case parse_uint 16 p of
               None \<Rightarrow> None
             | Some n \<Rightarrow> if n = 0 \<or> format_uint n \<noteq> p then None else Some (host, of_nat n))
          else if url_scheme u = ''http'' then Some (host, 80)
          else if url_scheme u = ''https'' then Some (host, 443)
          else None)"

section \<open>Names\<close>

lemma host_label_chars_props:
  "list_all (\<lambda>c. ascii_char c \<and> c \<notin> set upper_letters \<and> c \<notin> set '':[].%'') host_label_chars"
  by code_simp

lemma host_label_char:
  assumes "c \<in> set host_label_chars"
  shows "ascii_char c" "c \<notin> set upper_letters" "c \<notin> set '':[].%''"
  using assms host_label_chars_props by (auto simp: list_all_iff)

text \<open>What the name branch accepts: the shape of a canonical name.\<close>

definition good_name :: "string \<Rightarrow> bool" where
  "good_name h = (h \<noteq> [] \<and> length h \<le> 253 \<and>
     (\<forall>l \<in> set (split_on (CHR ''.'') h). \<not> bad_label l) \<and>
     \<not> numeric_label (last (split_on (CHR ''.'') h)))"

lemma good_name_chars:
  assumes "good_name h" and "c \<in> set h"
  shows "c = CHR ''.'' \<or> c \<in> set host_label_chars"
proof -
  have "c \<in> set (join_with (CHR ''.'') (split_on (CHR ''.'') h))"
    using assms(2) by (simp only: split_on_join)
  then have "c = CHR ''.'' \<or> (\<exists>l \<in> set (split_on (CHR ''.'') h). c \<in> set l)"
    using set_join_with by fastforce
  then show ?thesis
    using assms(1) by (auto simp: good_name_def bad_label_def trim_set_empty)
qed

lemma dot_char: "ascii_char CHR ''.''" "CHR ''.'' \<notin> set upper_letters" "CHR ''.'' \<notin> set '':[]%''"
  by code_simp+

lemma good_name_ascii:
  assumes "good_name h" and "c \<in> set h"
  shows "ascii_char c" "c \<notin> set upper_letters" "c \<notin> set '':[]%''"
proof -
  have sub: "set '':[]%'' \<subseteq> set '':[].%''" by auto
  show "ascii_char c" "c \<notin> set upper_letters" "c \<notin> set '':[]%''"
    using good_name_chars [OF assms] host_label_char [of c] dot_char sub by blast+
qed

lemma good_name_lower: "good_name h \<Longrightarrow> to_lower ul h = h"
  using good_name_ascii [of h] by (intro to_lower_id) (auto simp: is_ascii_def list_all_iff)

lemma split_on_snoc_sep: "split_on c (s @ [c]) = split_on c s @ [[]]"
proof (induction s)
  case (Cons x xs)
  obtain y ys where "split_on c xs = y # ys"
    using split_on_nonempty [of c xs] by (cases "split_on c xs") auto
  with Cons show ?case by simp
qed simp

lemma good_name_no_dot: "good_name h \<Longrightarrow> trim_suffix ''.'' h = h"
proof (rule trim_suffix_none)
  fix t
  assume "good_name h"
  then have "[] \<notin> set (split_on (CHR ''.'') h)" by (auto simp: good_name_def bad_label_def)
  then show "h \<noteq> t @ ''.''" using split_on_snoc_sep [of "CHR ''.''" t] by auto
qed

lemma v4_fields_loop_chars:
  "v4_fields_loop s p v d fs = Some gs \<Longrightarrow> c \<in> set s \<Longrightarrow> is_digit c \<or> c = CHR ''.''"
  by (induction s p v d fs rule: v4_fields_loop.induct) (auto simp: Let_def split: if_splits)

lemma digit_char_set: "list_all (\<lambda>d. digit_char d \<in> set ''0123456789'') [0..<10]"
  by code_simp

lemma is_digit_set: "is_digit c \<Longrightarrow> c \<in> set ''0123456789''"
proof -
  assume "is_digit c"
  then have "digit_val c \<in> set [0..<10]" "digit_char (digit_val c) = c"
    by (simp_all add: digit_val_less digit_char_val)
  then show ?thesis using digit_char_set unfolding list_all_iff by metis
qed

lemma numeric_digits:
  assumes "\<forall>c \<in> set l. is_digit c"
  shows "numeric_label l"
proof -
  have "cut_prefix ''0x'' l = None"
    using assms by (cases "cut_prefix ''0x'' l") (auto simp: cut_prefix_Some is_digit_def)
  moreover have "set l \<subseteq> set ''0123456789''" using assms is_digit_set by blast
  ultimately show ?thesis by (simp add: numeric_label_def trim_set_empty)
qed

text \<open>A canonical name is never read as an address.\<close>

lemma parse_addr_scan_ipv4_only:
  "CHR '':'' \<notin> set t \<Longrightarrow> parse_addr_scan s t = None \<or> parse_addr_scan s t = parse_ipv4 s"
  by (induction t) auto

lemma good_name_not_addr:
  assumes "good_name h"
  shows "parse_addr h = None"
proof (rule ccontr)
  assume a: "parse_addr h \<noteq> None"
  have "CHR '':'' \<notin> set h" using good_name_ascii(3) [OF assms, of "CHR '':''"] by auto
  then have "parse_ipv4 h \<noteq> None"
    using parse_addr_scan_ipv4_only [of h h] a by (auto simp: parse_addr_def)
  then obtain fs where "v4_fields_loop h None 0 0 [] = Some fs"
    by (auto simp: parse_ipv4_def v4_fields_def)
  then have d: "is_digit c \<or> c = CHR ''.''" if "c \<in> set h" for c
    using v4_fields_loop_chars that by blast
  define l where "l = last (split_on (CHR ''.'') h)"
  have l: "l \<in> set (split_on (CHR ''.'') h)" by (simp add: l_def)
  have "is_digit c" if "c \<in> set l" for c
    using that d [of c] split_on_set [OF l] split_on_no_sep [OF l] by auto
  then have "numeric_label l" using numeric_digits by blast
  then show False using assms by (simp add: good_name_def l_def)
qed

lemma canonical_name: "good_name h \<Longrightarrow> canonical ul h = (h, True)"
  using good_name_not_addr good_name_lower good_name_no_dot
  by (auto simp: canonical_def good_name_def Let_def)

lemma canonical_addr:
  "\<not> is_4in6 a \<Longrightarrow> zone_of a = [] \<Longrightarrow> unmap a = a \<Longrightarrow> canonical ul (addr_string a) = (addr_string a, True)"
  by (simp add: canonical_def parse_addr_string)

lemma zone_unmap: "zone_of a = [] \<Longrightarrow> zone_of (unmap a) = []"
  by (cases a) auto

lemma canonical_cases:
  assumes "canonical ul host = (h, True)"
  obtains (name) "good_name h" | (address) a where "h = addr_string a" "unmap a = a" "zone_of a = []"
proof (cases "parse_addr host")
  case None
  then have "good_name h"
    using assms by (auto simp: canonical_def good_name_def Let_def not_less split: if_splits)
  then show ?thesis by (rule name)
next
  case (Some b)
  then have "h = addr_string (unmap b)" "zone_of b = []" using assms by (auto simp: canonical_def)
  then show ?thesis using address [of "unmap b"] zone_unmap by simp
qed

lemma canonical_is_canonical:
  assumes "canonical ul host = (h, True)"
  shows "canonical ul' h = (h, True)"
  using assms
proof (cases rule: canonical_cases)
  case name
  then show ?thesis by (rule canonical_name)
next
  case (address a)
  then show ?thesis using canonical_addr [of a ul'] unmap_not_4in6 [of a] by simp
qed

lemma is_canonical_iff: "is_canonical ul h \<longleftrightarrow> canonical ul h = (h, True)"
  by (auto simp: is_canonical_def)

lemma canonical_brackets:
  assumes "canonical ul host = (h, True)"
  shows "set h \<inter> {CHR ''['', CHR '']''} = {}"
  using assms
proof (cases rule: canonical_cases)
  case name
  then show ?thesis
    using good_name_ascii(3) [of h "CHR ''[''"] good_name_ascii(3) [of h "CHR '']''"] by auto
next
  case (address a)
  then show ?thesis
    using addr_string_chars [of "CHR ''[''" a] addr_string_chars [of "CHR '']''" a]
      unmap_not_4in6 [of a] by auto
qed

section \<open>Authorities\<close>

lemma format_uint_no_sep:
  "set (format_uint n) \<inter> {CHR ''['', CHR '']'', CHR '':''} = {}"
  using format_uint_digits [of "CHR ''[''" n] format_uint_digits [of "CHR '']''" n]
    format_uint_digits [of "CHR '':''" n] by (auto simp: is_digit_def)

lemma split_authority_join:
  assumes "is_canonical ul h" and "0 < p"
  shows "split_authority ul (join_host_port h (format_uint (unat p))) = Some (h, p)"
proof -
  have "split_host_port (join_host_port h (format_uint (unat p))) = Some (h, format_uint (unat p))"
    using assms(1) by (intro split_join_host_port canonical_brackets format_uint_no_sep)
      (simp add: is_canonical_iff)
  moreover have "unat p < 2 ^ 16" using unsigned_less [of p] by simp
  moreover have "unat p \<noteq> 0" using assms(2) by (simp add: unat_eq_0)
  ultimately show ?thesis using assms(1) by (simp add: split_authority_def)
qed

lemma split_authority_Some:
  assumes "split_authority ul a = Some (h, p)"
  shows "is_canonical ul h" "0 < p" "a = join_host_port h (format_uint (unat p))"
proof -
  obtain q n where q: "split_host_port a = Some (h, q)" "is_canonical ul h"
      "parse_uint 16 q = Some n" "n \<noteq> 0" "format_uint n = q" "join_host_port h q = a" "p = of_nat n"
    using assms by (auto simp: split_authority_def split: option.splits if_splits)
  have "n < 2 ^ 16" using q parse_uint_bound by blast
  then have n: "unat p = n" using q by (simp add: unat_of_nat_u16)
  then show "is_canonical ul h" "0 < p" "a = join_host_port h (format_uint (unat p))"
    using q by (auto simp: word_gt_0 unat_eq_0 [symmetric])
qed

lemma url_authority_Some:
  assumes "url_authority ul u = Some (h, p)"
  shows "canonical ul (url_hostname u) = (h, True)" "0 < p"
  using assms parse_uint_bound [of 16 "url_port u"]
  by (auto simp: url_authority_def Let_def word_gt_0 unat_eq_0 [symmetric] unat_of_nat_u16
      split: prod.splits bool.splits option.splits if_splits)

section \<open>Properties\<close>

text \<open>
  A host has one spelling: what Canonical returns is its own canonical form, so a capability, a
  request and the dialer that each canonicalize a host compare the same string. This holds for
  names and for addresses of both families, whatever the Unicode tables.
\<close>

theorem canonical_once:
  assumes "canonical ulower host = (h, True)"
  shows "canonical ulower' h = (h, True) \<and> is_canonical ulower' h"
  using canonical_is_canonical [OF assms] by (simp add: is_canonical_iff)

lemma canonical_once_witness:
  "canonical id ''2001:DB8:0:0:1:0:0:1'' = (''2001:db8::1:0:0:1'', True) \<and>
   is_canonical id ''2001:db8::1:0:0:1'' \<and> is_canonical id ''db.internal''"
proof -
  have a: "canonical id ''2001:DB8:0:0:1:0:0:1'' = (''2001:db8::1:0:0:1'', True)"
    by (simp add: canonical_def net_eval)
  have b: "canonical id ''DB.Internal.'' = (''db.internal'', True)" by code_simp
  show ?thesis using a canonical_once [OF a, of id] canonical_once [OF b, of id] by simp
qed

text \<open>
  SplitAuthority accepts exactly the canonical text of a destination: an authority parses to a
  host and port if and only if the host is canonical, the port is not zero, and the authority is
  what JoinHostPort prints for them. Two spellings of one destination never both parse.
\<close>

theorem split_authority_iff:
  "split_authority ulower authority = Some (h, p) \<longleftrightarrow>
     is_canonical ulower h \<and> 0 < p \<and> authority = join_host_port h (format_uint (unat p))"
  using split_authority_Some [of ulower authority h p] split_authority_join [of ulower h p] by blast

end
