(* ===== verification/GoHttp.thy ===== *)
theory GoHttp
  imports GoNet
begin

text \<open>
  The fragment of Go's net/http the components share: header maps with canonical keys, the fields
  of a request a handler reads, a response as a status, headers and a body, and the status codes.
\<close>

section \<open>Headers\<close>

text \<open>
  http.Header: from canonical key to values. Get, Set, Add and Del canonicalize the key as
  CanonicalMIMEHeaderKey does: a key with a byte no token may hold is left as it is.
\<close>

type_synonym header = "string \<Rightarrow> string list option"

definition token_symbols :: string where
  "token_symbols = ''!#$%&*+-.^_|~'' @ [CHR 0x27, CHR 0x60]"

definition token_char :: "char \<Rightarrow> bool" where
  "token_char c = (c \<in> set lower_letters \<or> c \<in> set upper_letters \<or> c \<in> set digit_chars \<or>
     c \<in> set token_symbols)"

fun canonical_key_loop :: "bool \<Rightarrow> string \<Rightarrow> string" where
  "canonical_key_loop up [] = []"
| "canonical_key_loop up (c # cs) =
     (if up then upper_char c else lower_char c) # canonical_key_loop (c = CHR ''-'') cs"

definition canonical_key :: "string \<Rightarrow> string" where
  "canonical_key k = (if list_all token_char k then canonical_key_loop True k else k)"

definition hget :: "header \<Rightarrow> string \<Rightarrow> string" where
  "hget h k = (case h (canonical_key k) of Some (v # _) \<Rightarrow> v | _ \<Rightarrow> [])"

definition hvalues :: "header \<Rightarrow> string \<Rightarrow> string list" where
  "hvalues h k = (case h (canonical_key k) of Some vs \<Rightarrow> vs | None \<Rightarrow> [])"

definition hset :: "string \<Rightarrow> string \<Rightarrow> header \<Rightarrow> header" where
  "hset k v h = h(canonical_key k \<mapsto> [v])"

definition hadd :: "string \<Rightarrow> string \<Rightarrow> header \<Rightarrow> header" where
  "hadd k v h = h(canonical_key k \<mapsto> hvalues h k @ [v])"

definition hdel :: "string \<Rightarrow> header \<Rightarrow> header" where
  "hdel k h = h(canonical_key k := None)"

named_theorems go_http "facts about headers and responses"

lemma hget_hset [simp, go_http]: "hget (hset k v h) k = v"
  by (simp add: hget_def hset_def)

lemma hget_hset_other [go_http]: "canonical_key j \<noteq> canonical_key k \<Longrightarrow> hget (hset k v h) j = hget h j"
  by (simp add: hget_def hset_def)

lemma hget_hdel [simp, go_http]: "hget (hdel k h) k = []"
  by (simp add: hget_def hdel_def)

lemma hvalues_hdel [simp, go_http]: "hvalues (hdel k h) k = []"
  by (simp add: hvalues_def hdel_def)

lemma hget_hdel_other [go_http]: "canonical_key j \<noteq> canonical_key k \<Longrightarrow> hget (hdel k h) j = hget h j"
  by (simp add: hget_def hdel_def)

section \<open>Requests and responses\<close>

record request =
  req_method :: string
  req_proto_major :: nat
  req_host :: string
  req_url :: url
  req_header :: header

record response =
  resp_status :: nat
  resp_header :: header
  resp_body :: string

definition status_ok :: nat where "status_ok = 200"
definition status_bad_request :: nat where "status_bad_request = 400"
definition status_unauthorized :: nat where "status_unauthorized = 401"
definition status_forbidden :: nat where "status_forbidden = 403"
definition status_not_found :: nat where "status_not_found = 404"
definition status_internal_error :: nat where "status_internal_error = 500"
definition status_bad_gateway :: nat where "status_bad_gateway = 502"
definition status_service_unavailable :: nat where "status_service_unavailable = 503"

lemmas status_defs = status_ok_def status_bad_request_def status_unauthorized_def
  status_forbidden_def status_not_found_def status_internal_error_def status_bad_gateway_def
  status_service_unavailable_def

text \<open>http.Error and http.NotFound, on the headers the handler has set so far.\<close>

definition http_error :: "header \<Rightarrow> string \<Rightarrow> nat \<Rightarrow> response" where
  "http_error h msg status =
     \<lparr> resp_status = status,
       resp_header = hset ''X-Content-Type-Options'' ''nosniff''
         (hset ''Content-Type'' ''text/plain; charset=utf-8'' (hdel ''Content-Length'' h)),
       resp_body = msg @ [CHR 0x0A] \<rparr>"

definition http_not_found :: "header \<Rightarrow> response" where
  "http_not_found h = http_error h ''404 page not found'' status_not_found"

lemma http_error_status [simp, go_http]: "resp_status (http_error h m s) = s"
  by (simp add: http_error_def)

lemma http_error_header_other [go_http]:
  "canonical_key k \<notin> {''X-Content-Type-Options'', ''Content-Type'', ''Content-Length''} \<Longrightarrow>
     hget (resp_header (http_error h m s)) k = hget h k"
proof -
  have "canonical_key ''X-Content-Type-Options'' = ''X-Content-Type-Options''"
    "canonical_key ''Content-Type'' = ''Content-Type''"
    "canonical_key ''Content-Length'' = ''Content-Length''" by code_simp+
  then show "canonical_key k \<notin> {''X-Content-Type-Options'', ''Content-Type'', ''Content-Length''} \<Longrightarrow>
     hget (resp_header (http_error h m s)) k = hget h k"
    by (simp add: http_error_def hget_hset_other hget_hdel_other)
qed

end
