(* ===== verification/Rawpipe.thy ===== *)
theory Rawpipe
  imports GoHttp Hostname
begin

text \<open>
  connector-lib/rawpipe: what the connector, the edge controller and the Integration Proxy share
  about raw pipes. Refusal reasons, the preface line of a tunnel, connector identities, the CONNECT
  streams and the TLS checks inside a pipe. uuid.Parse, a third-party function, is the parameter
  \<open>uuid\<close>: the canonical text of the UUID a string denotes, if it denotes one. X.509 chain
  verification is the parameter \<open>chain_ok\<close>.
\<close>

section \<open>Reasons\<close>

text \<open>
  Go's Reason is a string with named constants. \<open>Unlisted\<close> holds any other string; \<open>reason_text\<close>
  and \<open>reason_of\<close> are the conversions to and from the string on the wire.
\<close>

datatype reason = InvalidCapability | WrongConnector | WrongDestination | Exhausted
  | ForbiddenAddress | DNSFailed | DialFailed | Capacity | Draining | ProtocolError | NoTunnel
  | OpenTimeout | RedactionUnsupported | UpstreamFailed | Other | Unlisted string

fun reason_text :: "reason \<Rightarrow> string" where
  "reason_text InvalidCapability = ''invalid_capability''"
| "reason_text WrongConnector = ''wrong_connector''"
| "reason_text WrongDestination = ''wrong_destination''"
| "reason_text Exhausted = ''capability_exhausted''"
| "reason_text ForbiddenAddress = ''forbidden_address''"
| "reason_text DNSFailed = ''dns_failed''"
| "reason_text DialFailed = ''dial_failed''"
| "reason_text Capacity = ''capacity''"
| "reason_text Draining = ''connector_draining''"
| "reason_text ProtocolError = ''protocol_error''"
| "reason_text NoTunnel = ''no_raw_tunnel''"
| "reason_text OpenTimeout = ''open_timeout''"
| "reason_text RedactionUnsupported = ''redaction_unsupported''"
| "reason_text UpstreamFailed = ''upstream_failed''"
| "reason_text Other = ''other''"
| "reason_text (Unlisted s) = s"

definition known_reasons :: "reason list" where
  "known_reasons = [InvalidCapability, WrongConnector, WrongDestination, Exhausted,
     ForbiddenAddress, DNSFailed, DialFailed, Capacity, Draining, ProtocolError, NoTunnel,
     OpenTimeout, RedactionUnsupported, UpstreamFailed]"

definition reason_of :: "string \<Rightarrow> reason" where
  "reason_of s = (case find (\<lambda>r. reason_text r = s) (known_reasons @ [Other]) of
     Some r \<Rightarrow> r | None \<Rightarrow> Unlisted s)"

fun known :: "reason \<Rightarrow> bool" where
  "known Other = False"
| "known (Unlisted s) = False"
| "known _ = True"

definition label :: "reason \<Rightarrow> reason" where
  "label r = (if known r then r else Other)"

fun status :: "reason \<Rightarrow> nat" where
  "status InvalidCapability = status_unauthorized"
| "status DNSFailed = status_bad_gateway"
| "status DialFailed = status_bad_gateway"
| "status RedactionUnsupported = status_bad_gateway"
| "status UpstreamFailed = status_bad_gateway"
| "status Capacity = status_service_unavailable"
| "status Draining = status_service_unavailable"
| "status NoTunnel = status_service_unavailable"
| "status OpenTimeout = status_service_unavailable"
| "status ProtocolError = status_bad_request"
| "status _ = status_forbidden"

text \<open>rawpipe.Error: a refused open. An error that is none has no reason of its own.\<close>

datatype pipe_error = Refused reason string | OtherError string

fun reason_of_error :: "pipe_error \<Rightarrow> reason \<Rightarrow> reason" where
  "reason_of_error (Refused r m) fallback = r"
| "reason_of_error (OtherError m) fallback = fallback"

definition header_reason :: string where "header_reason = ''X-Traversal-Reason''"
definition header_capability :: string where "header_capability = ''X-Capability''"
definition header_upstream_scheme :: string where
  "header_upstream_scheme = ''X-Traversal-Upstream-Scheme''"

text \<open>rawpipe.Refuse: the answer to a refused request, on the headers set so far.\<close>

definition refuse_response :: "header \<Rightarrow> reason \<Rightarrow> string \<Rightarrow> response" where
  "refuse_response h r msg = http_error (hset header_reason (reason_text r) h) msg (status r)"

lemma reason_of_text: "reason_text (reason_of s) = s"
  by (auto simp: reason_of_def find_Some_iff split: option.splits)

lemma known_set: "known r \<longleftrightarrow> r \<in> set known_reasons"
  by (cases r) (auto simp: known_reasons_def)

lemma reason_texts_distinct: "distinct (map reason_text (known_reasons @ [Other]))"
  by code_simp

lemma reason_of_known:
  assumes "r \<in> set (known_reasons @ [Other])"
  shows "reason_of (reason_text r) = r"
proof -
  have "list_all (\<lambda>r. reason_of (reason_text r) = r) (known_reasons @ [Other])" by code_simp
  then show ?thesis using assms unfolding list_all_iff by blast
qed

lemma label_known [simp]: "known r \<Longrightarrow> label r = r"
  by (simp add: label_def)

lemma label_set: "label r \<in> set (known_reasons @ [Other])"
  by (auto simp: label_def known_set)

lemma label_idem: "label (label r) = label r"
  by (auto simp: label_def)

lemma refuse_response_reason:
  "resp_status (refuse_response h r m) = status r \<and>
   hget (resp_header (refuse_response h r m)) header_reason = reason_text r"
proof -
  have "canonical_key header_reason \<notin> {''X-Content-Type-Options'', ''Content-Type'', ''Content-Length''}"
    by code_simp
  then show ?thesis by (simp add: refuse_response_def http_error_header_other)
qed

section \<open>Identities\<close>

definition is_connector_id :: "(string \<Rightarrow> string option) \<Rightarrow> string \<Rightarrow> bool" where
  "is_connector_id uuid s = (uuid s = Some s)"

definition tenant_prefix :: string where
  "tenant_prefix = ''spiffe://traversal.com/tenant/''"

text \<open>TenantID: the organization and the connector, empty for an org-scoped identity.\<close>

fun tenant_parts :: "(string \<Rightarrow> string option) \<Rightarrow> string list \<Rightarrow> (string \<times> string) option" where
  "tenant_parts uuid [org, n] = (if n \<noteq> [] then Some (org, []) else None)"
| "tenant_parts uuid [org, n, w, c] =
     (if n \<noteq> [] \<and> w = ''connector'' \<and> is_connector_id uuid c then Some (org, c) else None)"
| "tenant_parts uuid _ = None"

definition tenant_id :: "(string \<Rightarrow> string option) \<Rightarrow> string \<Rightarrow> (string \<times> string) option" where
  "tenant_id uuid uri =
     (case cut_prefix tenant_prefix uri of
        None \<Rightarrow> None
      | Some rest \<Rightarrow>
          case tenant_parts uuid (split_on (CHR ''/'') rest) of
            None \<Rightarrow> None
          | Some (org, c) \<Rightarrow> if is_connector_id uuid org then Some (org, c) else None)"

datatype identity_error = NotConnectorID string | NotTenantID string | OtherConnector string string

definition check_identity ::
    "(string \<Rightarrow> string option) \<Rightarrow> string \<Rightarrow> string \<Rightarrow> identity_error option" where
  "check_identity uuid uri_san connector_id =
     (if \<not> is_connector_id uuid connector_id then Some (NotConnectorID connector_id)
      else case tenant_id uuid uri_san of
        None \<Rightarrow> Some (NotTenantID uri_san)
      | Some (_, scoped) \<Rightarrow>
          if scoped \<noteq> [] \<and> scoped \<noteq> connector_id then Some (OtherConnector scoped connector_id)
          else None)"

text \<open>
  verifyConnector: the checks the Integration Proxy makes on the chain a connector presents inside
  a pipe. A certificate is known by its URI SANs; the rest of it belongs to \<open>chain_ok\<close>.
\<close>

datatype verify_error = NoCertificate | BadChain | UriSanCount nat | OtherOrg string
  | BadIdentity identity_error

definition verify_connector ::
    "(string \<Rightarrow> string option) \<Rightarrow> ('cert \<Rightarrow> string list) \<Rightarrow> ('cert \<Rightarrow> 'cert list \<Rightarrow> 'roots \<Rightarrow> bool) \<Rightarrow>
     'cert list \<Rightarrow> 'roots \<Rightarrow> string \<Rightarrow> string \<Rightarrow> verify_error option" where
  "verify_connector uuid uris chain_ok chain roots org connector_id =
     (case chain of
        [] \<Rightarrow> Some NoCertificate
      | leaf # rest \<Rightarrow>
          if \<not> chain_ok leaf rest roots then Some BadChain
          else case uris leaf of
            [san] \<Rightarrow>
              (case tenant_id uuid san of
                 None \<Rightarrow> Some (OtherOrg san)
               | Some (cert_org, _) \<Rightarrow>
                   if cert_org \<noteq> org then Some (OtherOrg san)
                   else map_option BadIdentity (check_identity uuid san connector_id))
          | us \<Rightarrow> Some (UriSanCount (length us)))"

text \<open>
  The two ends of the TLS inside a pipe. The client turns crypto/tls's verification of the name off
  and verifies the whole connection itself.
\<close>

definition alpn_h2 :: string where "alpn_h2 = ''h2''"
definition alpn_http1 :: string where "alpn_http1 = ''http/1.1''"

record ('cert, 'own) pipe_tls =
  pl_certificates :: "'own list"
  pl_min_version :: u16
  pl_protocols :: "string list"
  pl_skip_verify :: bool
  pl_verify :: "('cert list \<Rightarrow> verify_error option) option"

definition pipe_server_tls :: "'own \<Rightarrow> ('cert, 'own) pipe_tls" where
  "pipe_server_tls own = \<lparr>pl_certificates = [own], pl_min_version = 0x0304, pl_protocols = [alpn_h2, alpn_http1],
     pl_skip_verify = False, pl_verify = None\<rparr>"

definition pipe_client_tls ::
    "(string \<Rightarrow> string option) \<Rightarrow> ('cert \<Rightarrow> string list) \<Rightarrow> ('cert \<Rightarrow> 'cert list \<Rightarrow> 'roots \<Rightarrow> bool) \<Rightarrow>
     'roots \<Rightarrow> string \<Rightarrow> string \<Rightarrow> ('cert, 'own) pipe_tls" where
  "pipe_client_tls uuid uris chain_ok roots org connector_id = \<lparr>pl_certificates = [], pl_min_version = 0x0304,
     pl_protocols = [alpn_h2, alpn_http1], pl_skip_verify = True,
     pl_verify = Some (\<lambda>chain. verify_connector uuid uris chain_ok chain roots org connector_id)\<rparr>"

text \<open>The tenant identities, written out: the two shapes a SPIFFE ID may have.\<close>

definition org_id :: "string \<Rightarrow> string \<Rightarrow> string" where
  "org_id org n = tenant_prefix @ org @ ''/'' @ n"

definition connector_scoped_id :: "string \<Rightarrow> string \<Rightarrow> string \<Rightarrow> string" where
  "connector_scoped_id org n c = org_id org n @ ''/connector/'' @ c"

lemma split_two: "split_on c s = [x, y] \<Longrightarrow> s = x @ c # y \<and> c \<notin> set x \<and> c \<notin> set y"
  using split_on_join [of c s] split_on_no_sep [of _ c s] by auto

lemma split_four:
  "split_on c s = [x, y, z, w] \<Longrightarrow>
     s = x @ c # y @ c # z @ c # w \<and> c \<notin> set x \<and> c \<notin> set y \<and> c \<notin> set z \<and> c \<notin> set w"
  using split_on_join [of c s] split_on_no_sep [of _ c s] by auto

lemma tenant_id_Some:
  assumes "tenant_id uuid uri = Some (org, c)"
  shows "is_connector_id uuid org \<and>
    (\<exists>n. n \<noteq> [] \<and> CHR ''/'' \<notin> set n \<and>
      (c = [] \<and> uri = org_id org n \<or>
       is_connector_id uuid c \<and> uri = connector_scoped_id org n c))"
proof -
  obtain rest where rest: "uri = tenant_prefix @ rest"
    using assms by (auto simp: tenant_id_def cut_prefix_Some split: option.splits)
  define parts where "parts = split_on (CHR ''/'') rest"
  have found: "is_connector_id uuid org"
    "(\<exists>n. parts = [org, n] \<and> n \<noteq> [] \<and> c = []) \<or>
     (\<exists>n. parts = [org, n, ''connector'', c] \<and> n \<noteq> [] \<and> is_connector_id uuid c)"
  proof -
    have "tenant_parts uuid parts = Some (org, c)" and id: "is_connector_id uuid org"
      using assms rest by (auto simp: tenant_id_def parts_def split: option.splits if_splits)
    then show "(\<exists>n. parts = [org, n] \<and> n \<noteq> [] \<and> c = []) \<or>
        (\<exists>n. parts = [org, n, ''connector'', c] \<and> n \<noteq> [] \<and> is_connector_id uuid c)"
      by (cases "(uuid, parts)" rule: tenant_parts.cases) (auto split: if_splits)
    show "is_connector_id uuid org" by (rule id)
  qed
  from found(2) show ?thesis
  proof (elim disjE exE conjE)
    fix n
    assume n: "parts = [org, n]" "n \<noteq> []" "c = []"
    then have "uri = org_id org n" "CHR ''/'' \<notin> set n"
      using split_two [of "CHR ''/''" rest org n] by (simp_all add: parts_def rest org_id_def)
    then show ?thesis using found(1) n by blast
  next
    fix n
    assume n: "parts = [org, n, ''connector'', c]" "n \<noteq> []" "is_connector_id uuid c"
    then have "uri = connector_scoped_id org n c" "CHR ''/'' \<notin> set n"
      using split_four [of "CHR ''/''" rest org n "''connector''" c]
      by (simp_all add: parts_def rest org_id_def connector_scoped_id_def)
    then show ?thesis using found(1) n by blast
  qed
qed

lemma tenant_id_org:
  assumes "is_connector_id uuid org" and "CHR ''/'' \<notin> set org" and "CHR ''/'' \<notin> set n" and "n \<noteq> []"
  shows "tenant_id uuid (org_id org n) = Some (org, [])"
  using assms by (simp add: tenant_id_def org_id_def split_on_append split_on_id)

lemma tenant_id_scoped:
  assumes "is_connector_id uuid org" and "CHR ''/'' \<notin> set org" and "CHR ''/'' \<notin> set n" and "n \<noteq> []"
    and "is_connector_id uuid c" and "CHR ''/'' \<notin> set c"
  shows "tenant_id uuid (connector_scoped_id org n c) = Some (org, c)"
proof -
  have "split_on (CHR ''/'') ''connector'' = [''connector'']" by code_simp
  then have "split_on (CHR ''/'') (''connector'' @ CHR ''/'' # c) = [''connector'', c]"
    using assms(6) split_on_append [of "CHR ''/''" "''connector''" c] by (simp add: split_on_id)
  then have "split_on (CHR ''/'') (org @ CHR ''/'' # n @ CHR ''/'' # ''connector'' @ CHR ''/'' # c) =
      [org, n, ''connector'', c]"
    using assms by (simp only: split_on_append not_False_eq_True)
  then show ?thesis
    using assms by (simp add: tenant_id_def connector_scoped_id_def org_id_def)
qed

section \<open>The preface line\<close>

definition preface_tag :: string where "preface_tag = ''TRAVERSAL-TUNNEL/1''"
definition max_preface_len :: nat where "max_preface_len = 512"

record hello =
  hello_connector :: string
  hello_roots :: "string list"
  hello_kids :: "string list"

datatype preface_error = NotConnector string | BadValue string string | TooLong nat
  | BadPreface string | PrefaceTooLong | ReaderFailed

text \<open>Printable ASCII, neither a space nor a comma.\<close>

definition preface_char :: "char \<Rightarrow> bool" where
  "preface_char c = (\<not> (code c \<le> 32 \<or> 126 < code c \<or> c = CHR '',''))"

definition preface_value :: "string \<Rightarrow> bool" where
  "preface_value v = (list_all preface_char v \<and> v \<noteq> [])"

text \<open>One field of the line, left out when its list is empty.\<close>

definition preface_field :: "string \<Rightarrow> string list \<Rightarrow> preface_error + string" where
  "preface_field key values =
     (if values = [] then Ok []
      else case find (\<lambda>v. \<not> preface_value v) values of
        Some v \<Rightarrow> Err (BadValue key v)
      | None \<Rightarrow> Ok ('' '' @ key @ ''='' @ join_with (CHR '','') values))"

definition newline :: char where "newline = CHR 0x0A"

text \<open>WritePreface: the line it hands to its writer, or why it refuses.\<close>

definition write_preface :: "(string \<Rightarrow> string option) \<Rightarrow> hello \<Rightarrow> preface_error + string" where
  "write_preface uuid h =
     (if \<not> is_connector_id uuid (hello_connector h) then Err (NotConnector (hello_connector h))
      else case preface_field ''roots'' (hello_roots h) of
        Inl e \<Rightarrow> Err e
      | Inr r \<Rightarrow> (case preface_field ''kids'' (hello_kids h) of
          Inl e \<Rightarrow> Err e
        | Inr k \<Rightarrow>
            let line = preface_tag @ '' '' @ hello_connector h @ r @ k @ [newline] in
            if max_preface_len < length line then Err (TooLong (length line)) else Ok line))"

text \<open>The loop of ParsePreface over the fields, with the keys seen.\<close>

fun parse_fields :: "string list \<Rightarrow> hello \<Rightarrow> string list \<Rightarrow> hello option" where
  "parse_fields seen h [] = Some h"
| "parse_fields seen h (f # fs) =
     (case cut_at (CHR ''='') f of
        (key, v, False) \<Rightarrow> None
      | (key, v, True) \<Rightarrow>
          if key = [] \<or> key \<in> set seen then None
          else let values = (if v = [] then [] else split_on (CHR '','') v);
                   h' = (if key = ''roots'' then h\<lparr>hello_roots := values\<rparr>
                         else if key = ''kids'' then h\<lparr>hello_kids := values\<rparr> else h) in
            parse_fields (key # seen) h' fs)"

definition parse_preface :: "(string \<Rightarrow> string option) \<Rightarrow> string \<Rightarrow> hello option" where
  "parse_preface uuid line =
     (case split_on (CHR '' '') (trim_suffix [newline] line) of
        tag # c # fs \<Rightarrow>
          if tag \<noteq> preface_tag \<or> \<not> is_connector_id uuid c then None
          else parse_fields [] \<lparr>hello_connector = c, hello_roots = [], hello_kids = []\<rparr> fs
      | _ \<Rightarrow> None)"

text \<open>
  ReadPreface over the bytes a reader still holds, after which it fails (at the end of its input,
  or with an error). The result comes with the bytes left in the reader.
\<close>

function read_preface_loop ::
    "(string \<Rightarrow> string option) \<Rightarrow> string \<Rightarrow> string \<Rightarrow> (preface_error + hello) \<times> string" where
  "read_preface_loop uuid line input =
     (if max_preface_len \<le> length line then (Err PrefaceTooLong, input)
      else case input of
        [] \<Rightarrow> (Err ReaderFailed, [])
      | b # rest \<Rightarrow>
          if b = newline then
            (case parse_preface uuid (line @ [b]) of
               None \<Rightarrow> Err (BadPreface (line @ [b]))
             | Some h \<Rightarrow> Ok h, rest)
          else read_preface_loop uuid (line @ [b]) rest)"
  by pat_completeness auto
termination by (relation "measure (\<lambda>(uuid, line, input). length input)") auto

declare read_preface_loop.simps [simp del]

definition read_preface ::
    "(string \<Rightarrow> string option) \<Rightarrow> string \<Rightarrow> (preface_error + hello) \<times> string" where
  "read_preface uuid input = read_preface_loop uuid [] input"

subsection \<open>Reading what was written\<close>

lemma preface_char_seps: "preface_char c \<Longrightarrow> c \<noteq> CHR '' '' \<and> c \<noteq> CHR '','' \<and> c \<noteq> newline"
  by (auto simp: preface_char_def newline_def)

lemma preface_field_Ok:
  assumes "preface_field key vs = Ok r" and "vs \<noteq> []"
  shows "r = '' '' @ key @ ''='' @ join_with (CHR '','') vs \<and> (\<forall>v \<in> set vs. preface_value v)"
  using assms by (auto simp: preface_field_def find_None_iff split: option.splits)

lemma preface_values_chars:
  assumes "\<forall>v \<in> set vs. preface_value v" and "c \<in> set (join_with (CHR '','') vs)"
  shows "c \<noteq> CHR '' '' \<and> c \<noteq> newline"
  using assms set_join_with [of "CHR '',''" vs] preface_char_seps
  by (fastforce simp: preface_value_def list_all_iff newline_def)

lemma preface_values_split:
  assumes "\<forall>v \<in> set vs. preface_value v" and "vs \<noteq> []"
  shows "split_on (CHR '','') (join_with (CHR '','') vs) = vs" "join_with (CHR '','') vs \<noteq> []"
proof -
  have "c \<noteq> CHR '',''" if "v \<in> set vs" "c \<in> set v" for v c
    using assms(1) that preface_char_seps by (auto simp: preface_value_def list_all_iff)
  then show "split_on (CHR '','') (join_with (CHR '','') vs) = vs"
    using assms(2) by (intro join_split_on) auto
  show "join_with (CHR '','') vs \<noteq> []"
    using assms by (cases vs; cases "tl vs") (auto simp: preface_value_def)
qed

text \<open>The field list of a written line, and what parsing it does to the greeting.\<close>

definition field_list :: "string \<Rightarrow> string list \<Rightarrow> string list" where
  "field_list key vs = (if vs = [] then [] else [key @ ''='' @ join_with (CHR '','') vs])"

lemma preface_field_list:
  assumes "preface_field key vs = Ok r"
  shows "r = concat (map (\<lambda>f. '' '' @ f) (field_list key vs))"
  using assms preface_field_Ok [OF assms]
  by (auto simp: field_list_def preface_field_def)

lemma split_fields:
  assumes "CHR '' '' \<notin> set x" and "\<forall>f \<in> set fs. CHR '' '' \<notin> set f"
  shows "split_on (CHR '' '') (x @ concat (map (\<lambda>f. '' '' @ f) fs)) = x # fs"
  using assms
proof (induction fs arbitrary: x)
  case (Cons f fs)
  then show ?case by (simp add: split_on_append)
qed (simp add: split_on_id)

lemma field_list_sep:
  assumes "preface_field key vs = Ok r" and "CHR '' '' \<notin> set key" and "newline \<notin> set key"
    and "f \<in> set (field_list key vs)"
  shows "CHR '' '' \<notin> set f \<and> newline \<notin> set f"
  using assms preface_field_Ok [OF assms(1)] preface_values_chars [of vs]
  by (auto simp: field_list_def newline_def split: if_splits)

lemma parse_fields_values:
  assumes "preface_field key vs = Ok r" and "key \<notin> set seen" and "key \<noteq> []" and "CHR ''='' \<notin> set key"
  shows "parse_fields seen h (field_list key vs @ fs) =
    (if vs = [] then parse_fields seen h fs
     else parse_fields (key # seen)
       (if key = ''roots'' then h\<lparr>hello_roots := vs\<rparr>
        else if key = ''kids'' then h\<lparr>hello_kids := vs\<rparr> else h) fs)"
proof (cases "vs = []")
  case False
  then have v: "\<forall>v \<in> set vs. preface_value v" using preface_field_Ok [OF assms(1)] by blast
  have "cut_at (CHR ''='') (key @ ''='' @ join_with (CHR '','') vs) = (key, join_with (CHR '','') vs, True)"
    using assms(4) by (simp add: cut_at_append)
  then show ?thesis
    using False assms preface_values_split [OF v] by (simp add: field_list_def)
qed (simp add: field_list_def)

lemma parse_written_preface:
  assumes "write_preface uuid h = Ok line"
    and sep: "CHR '' '' \<notin> set (hello_connector h)"
  shows "parse_preface uuid line = Some (hello.truncate h)"
proof -
  obtain r k where r: "preface_field ''roots'' (hello_roots h) = Ok r"
    and k: "preface_field ''kids'' (hello_kids h) = Ok k"
    and id: "is_connector_id uuid (hello_connector h)"
    and line: "line = preface_tag @ '' '' @ hello_connector h @ r @ k @ [newline]"
    using assms(1) by (auto simp: write_preface_def Let_def split: if_splits sum.splits)
  define fs where "fs = field_list ''roots'' (hello_roots h) @ field_list ''kids'' (hello_kids h)"
  have "\<forall>f \<in> set fs. CHR '' '' \<notin> set f"
    using field_list_sep [OF r] field_list_sep [OF k] by (auto simp: fs_def newline_def)
  moreover have "line = (preface_tag @ concat (map (\<lambda>f. '' '' @ f) (hello_connector h # fs))) @ [newline]"
    using line preface_field_list [OF r] preface_field_list [OF k] by (simp add: fs_def)
  then have "trim_suffix [newline] line = preface_tag @ concat (map (\<lambda>f. '' '' @ f) (hello_connector h # fs))"
    by (simp only: trim_suffix_append)
  moreover have "CHR '' '' \<notin> set preface_tag" by code_simp
  ultimately have split: "split_on (CHR '' '') (trim_suffix [newline] line) =
      preface_tag # hello_connector h # fs"
    using split_fields [of preface_tag "hello_connector h # fs"] sep by simp
  have "parse_fields [] \<lparr>hello_connector = hello_connector h, hello_roots = [], hello_kids = []\<rparr> fs =
      Some (hello.truncate h)"
    unfolding fs_def
    using parse_fields_values [OF r, of "[]" _ "field_list ''kids'' (hello_kids h)"]
      parse_fields_values [OF k, of "[]" _ "[]"] parse_fields_values [OF k, of "[''roots'']" _ "[]"]
    by (auto simp: hello.truncate_def)
  then show ?thesis
    by (simp add: parse_preface_def split id)
qed

lemma read_preface_loop_line:
  assumes "newline \<notin> set l" and "length (line @ l) < max_preface_len"
  shows "read_preface_loop uuid line (l @ newline # rest) =
    (case parse_preface uuid (line @ l @ [newline]) of
       None \<Rightarrow> Err (BadPreface (line @ l @ [newline]))
     | Some h \<Rightarrow> Ok h, rest)"
  using assms
proof (induction l arbitrary: line)
  case Nil
  then show ?case by (subst read_preface_loop.simps) (simp split: option.splits)
next
  case (Cons c l)
  then have "c \<noteq> newline" "newline \<notin> set l" by auto
  with Cons show ?case by (subst read_preface_loop.simps) (simp split: option.splits)
qed

text \<open>Reading stops within the bound and leaves the rest of the input.\<close>

lemma read_preface_loop_bound:
  "length line \<le> max_preface_len \<Longrightarrow> read_preface_loop uuid line input = (res, rest) \<Longrightarrow>
     \<exists>taken. input = taken @ rest \<and> length line + length taken \<le> max_preface_len"
proof (induction uuid line input rule: read_preface_loop.induct)
  case (1 uuid line input)
  show ?case
  proof (cases "max_preface_len \<le> length line \<or> input = []")
    case True
    then show ?thesis using 1(2,3)
      by (subst (asm) read_preface_loop.simps) (auto split: if_splits)
  next
    case False
    then obtain b bs where input: "input = b # bs" by (cases input) auto
    show ?thesis
    proof (cases "b = newline")
      case True
      then have "rest = bs" using False 1(3) input
        by (subst (asm) read_preface_loop.simps) simp
      then show ?thesis using False input by (intro exI [of _ "[b]"]) simp
    next
      case F: False
      then have "read_preface_loop uuid (line @ [b]) bs = (res, rest)"
        using False 1(3) input by (subst (asm) read_preface_loop.simps) simp
      then obtain taken where "bs = taken @ rest" "length (line @ [b]) + length taken \<le> max_preface_len"
        using 1(1) [OF _ input F] False by force
      then show ?thesis using input by (intro exI [of _ "b # taken"]) simp
    qed
  qed
qed

section \<open>The CONNECT streams\<close>

text \<open>
  Errors of a read or a write: the clean end io.EOF, or a failure. A server stream keeps whether it
  was ended (CloseWrite) or aborted, and which of its deadlines were moved into the past to
  unblock a read or a write.
\<close>

datatype io_error = EOF | IOFailed string

record server_stream =
  ss_ended :: bool
  ss_aborted :: bool
  ss_read_past :: bool
  ss_write_past :: bool

definition new_server_stream :: server_stream where
  "new_server_stream =
     \<lparr>ss_ended = False, ss_aborted = False, ss_read_past = False, ss_write_past = False\<rparr>"

text \<open>Accept: the 200 is written first, so a stream that cannot go on is answered all the same.\<close>

definition accept_stream :: "string option \<Rightarrow> string option \<Rightarrow> nat \<times> (string + server_stream)" where
  "accept_stream duplex_error flush_error =
     (status_ok, case duplex_error of
        Some e \<Rightarrow> Err e
      | None \<Rightarrow> (case flush_error of Some e \<Rightarrow> Err e | None \<Rightarrow> Ok new_server_stream))"

definition server_write :: "nat \<times> io_error option \<Rightarrow> io_error option \<Rightarrow> nat \<times> io_error option" where
  "server_write written flush = (case written of (n, None) \<Rightarrow> (n, flush) | (n, Some e) \<Rightarrow> (n, Some e))"

definition server_close_write :: "server_stream \<Rightarrow> server_stream" where
  "server_close_write s = s\<lparr>ss_ended := True, ss_read_past := True\<rparr>"

definition server_abort :: "server_stream \<Rightarrow> server_stream" where
  "server_abort s = s\<lparr>ss_aborted := True, ss_read_past := True, ss_write_past := True\<rparr>"

text \<open>
  Read: the state is looked at before the body is read and again after it failed, because another
  goroutine may have ended the stream in between.
\<close>

definition server_read ::
    "server_stream \<Rightarrow> server_stream \<Rightarrow> nat \<times> io_error option \<Rightarrow> nat \<times> io_error option" where
  "server_read before after body =
     (if ss_ended before then (0, Some EOF)
      else let (n, err) = body in
        (n, if err \<noteq> None \<and> ss_ended after \<and> \<not> ss_aborted after then Some EOF else err))"

text \<open>Finish panics, which resets the stream, exactly when it was aborted.\<close>

definition server_finish_panics :: "server_stream \<Rightarrow> bool" where
  "server_finish_panics s = ss_aborted s"

lemma server_read_clean:
  "ss_ended after \<Longrightarrow> \<not> ss_aborted after \<Longrightarrow> snd (server_read before after b) \<in> {None, Some EOF}"
  by (cases b) (auto simp: server_read_def)

lemma server_finish_abort [simp]:
  "server_finish_panics (server_abort s)"
  "server_finish_panics (server_close_write s) = server_finish_panics s"
  by (simp_all add: server_finish_panics_def server_abort_def server_close_write_def)

text \<open>
  Connect: the answer of the round trip, and whether the open timer was stopped before it fired. A
  refusal carries the status and the label of the reason the peer sent, empty if it sent none.
\<close>

record refusal =
  refusal_status :: nat
  refusal_reason :: reason

datatype connect_error = RoundTripFailed string | DeadlineExceeded | ConnectRefused refusal

definition connect :: "bool \<Rightarrow> string + response \<Rightarrow> connect_error + unit" where
  "connect stopped answer =
     (case answer of
        Inl e \<Rightarrow> Err (RoundTripFailed e)
      | Inr resp \<Rightarrow>
          if \<not> stopped then Err DeadlineExceeded
          else if resp_status resp \<noteq> status_ok then
            let text = hget (resp_header resp) header_reason;
                r = (if text \<noteq> [] then label (reason_of text) else reason_of text) in
              Err (ConnectRefused \<lparr>refusal_status = resp_status resp, refusal_reason = r\<rparr>)
          else Ok ())"

text \<open>
  The stream Connect returns: the pipe its writes go into, which keeps the first way it was closed,
  the answer's body, and the request's context.
\<close>

datatype pipe_writer = WriterOpen | WriterClosed | WriterAborted

record client_stream =
  cs_writer :: pipe_writer
  cs_body_closed :: bool
  cs_cancelled :: bool

definition new_client_stream :: client_stream where
  "new_client_stream = \<lparr>cs_writer = WriterOpen, cs_body_closed = False, cs_cancelled = False\<rparr>"

definition close_writer :: "pipe_writer \<Rightarrow> client_stream \<Rightarrow> client_stream" where
  "close_writer how s = (if cs_writer s = WriterOpen then s\<lparr>cs_writer := how\<rparr> else s)"

definition client_close_write :: "client_stream \<Rightarrow> client_stream" where
  "client_close_write s = close_writer WriterClosed s"

definition client_close :: "client_stream \<Rightarrow> client_stream" where
  "client_close s = s\<lparr>cs_body_closed := True, cs_cancelled := True\<rparr>"

definition client_abort :: "client_stream \<Rightarrow> client_stream" where
  "client_abort s = client_close (close_writer WriterAborted s)"

text \<open>An abort always cancels the request, which resets the stream, whether or not it was half-closed before.\<close>

lemma client_abort_resets:
  "cs_cancelled (client_abort s) \<and> cs_writer (client_abort s) \<noteq> WriterOpen"
  "cs_writer s = WriterOpen \<Longrightarrow> cs_writer (client_abort s) = WriterAborted"
  by (auto simp: client_abort_def client_close_def close_writer_def)

definition is_no_tunnel :: "refusal option \<Rightarrow> bool" where
  "is_no_tunnel r = (case r of
     None \<Rightarrow> False
   | Some r \<Rightarrow> reason_text (refusal_reason r) = [] \<and> refusal_status r = status_service_unavailable)"

lemma reason_text_nonempty: "r \<in> set (known_reasons @ [Other]) \<Longrightarrow> reason_text r \<noteq> []"
  by (auto simp: known_reasons_def)

lemma connect_refused_closed:
  assumes "connect stopped answer = Err (ConnectRefused r)"
  shows "reason_text (refusal_reason r) = [] \<or> refusal_reason r \<in> set (known_reasons @ [Other])"
proof (cases answer)
  case (Inr resp)
  then show ?thesis
    using assms label_set [of "reason_of (hget (resp_header resp) header_reason)"]
    by (auto simp: connect_def Let_def reason_of_text split: if_splits)
qed (use assms in \<open>simp add: connect_def\<close>)

section \<open>Properties\<close>

text \<open>
  The documented form of a UUID's text: lower-case hexadecimal digits and hyphens, never empty. The
  witnesses use the function that accepts exactly the strings of 36 such characters.
\<close>

definition uuid_chars :: string where
  "uuid_chars = ''0123456789abcdef-''"

definition uuid_text :: "(string \<Rightarrow> string option) \<Rightarrow> bool" where
  "uuid_text uuid = (\<forall>s u. uuid s = Some u \<longrightarrow> u \<noteq> [] \<and> set u \<subseteq> set uuid_chars)"

definition plain_uuid :: "string \<Rightarrow> string option" where
  "plain_uuid s = (if length s = 36 \<and> set s \<subseteq> set uuid_chars then Some s else None)"

definition example_id :: string where
  "example_id = ''0b54ab4e-9c3d-4e9a-8f7a-1de4b3a52c11''"

lemma plain_uuid_text: "uuid_text plain_uuid"
  by (auto simp: uuid_text_def plain_uuid_def)

lemma example_id_ok: "is_connector_id plain_uuid example_id"
  by (simp add: is_connector_id_def plain_uuid_def example_id_def uuid_chars_def)

lemma connector_id_chars:
  assumes "uuid_text uuid" and "is_connector_id uuid s"
  shows "s \<noteq> []" "CHR '' '' \<notin> set s" "CHR ''/'' \<notin> set s"
  using assms unfolding uuid_text_def is_connector_id_def uuid_chars_def by force+

text \<open>
  A preface reads back. Whatever line WritePreface writes, ReadPreface recovers the greeting from
  it, roots and kids included, and leaves what follows the line in the reader.
\<close>

theorem preface_roundtrip:
  fixes h :: hello
  assumes "uuid_text uuid" and "write_preface uuid h = Ok line"
  shows "read_preface uuid (line @ rest) = (Ok h, rest)"
proof -
  obtain r k where r: "preface_field ''roots'' (hello_roots h) = Ok r"
    and k: "preface_field ''kids'' (hello_kids h) = Ok k"
    and id: "is_connector_id uuid (hello_connector h)"
    and line: "line = preface_tag @ '' '' @ hello_connector h @ r @ k @ [newline]"
    and len: "length line \<le> max_preface_len"
    using assms(2) by (auto simp: write_preface_def Let_def not_less split: if_splits sum.splits)
  have nl: "newline \<notin> set (preface_tag @ '' '' @ hello_connector h @ r @ k)"
  proof -
    have "newline \<notin> set preface_tag" "newline \<noteq> CHR '' ''" by code_simp+
    moreover have "newline \<notin> set (hello_connector h)"
      using assms(1) id unfolding uuid_text_def is_connector_id_def uuid_chars_def newline_def by force
    moreover have "newline \<notin> set r" "newline \<notin> set k"
      using preface_field_list [OF r] preface_field_list [OF k]
        field_list_sep [OF r] field_list_sep [OF k]
      by (auto simp: newline_def)
    ultimately show ?thesis by simp
  qed
  have parse: "parse_preface uuid line = Some h"
    using parse_written_preface [OF assms(2)] connector_id_chars(2) [OF assms(1) id]
    by (cases h) (simp add: hello.truncate_def)
  have split: "line = (preface_tag @ '' '' @ hello_connector h @ r @ k) @ [newline]" using line by simp
  show ?thesis
    using read_preface_loop_line [OF nl, of "[]" uuid rest] len parse
    unfolding read_preface_def split by simp
qed

lemma preface_roundtrip_witness:
  "\<exists>line. write_preface plain_uuid \<lparr>hello_connector = example_id, hello_roots = [''ab12'', ''cd34''], hello_kids = [''k=1'']\<rparr> = Ok line \<and>
     read_preface plain_uuid (line @ ''PRI'') =
       (Ok \<lparr>hello_connector = example_id, hello_roots = [''ab12'', ''cd34''], hello_kids = [''k=1'']\<rparr>, ''PRI'')"
proof -
  let ?h = "\<lparr>hello_connector = example_id, hello_roots = [''ab12'', ''cd34''], hello_kids = [''k=1'']\<rparr>"
  have "\<exists>line. write_preface plain_uuid ?h = Ok line"
    using example_id_ok
    by (simp add: write_preface_def preface_field_def preface_value_def preface_char_def preface_tag_def
        example_id_def max_preface_len_def Let_def)
  then show ?thesis using preface_roundtrip [OF plain_uuid_text] by blast
qed

text \<open>
  A peer that never ends its line is refused before it is buffered: whatever the input, reading a
  preface takes at most 512 bytes from the reader, and it fails unless a newline is among them.
\<close>

theorem read_preface_bounded:
  assumes "read_preface uuid input = (res, rest)"
  shows "\<exists>taken. input = taken @ rest \<and> length taken \<le> 512"
  using read_preface_loop_bound [of "[]" uuid input res rest] assms
  by (simp add: read_preface_def max_preface_len_def)

lemma read_preface_bounded_witness:
  "read_preface plain_uuid ''GET /'' = (Err ReaderFailed, []) \<and>
   (\<exists>taken. ''GET /'' = taken @ [] \<and> length taken \<le> 512)"
proof -
  have "read_preface plain_uuid ''GET /'' = (Err ReaderFailed, [])"
    by (simp add: read_preface_def read_preface_loop.simps max_preface_len_def newline_def)
  then show ?thesis using read_preface_bounded by blast
qed

text \<open>
  CheckIdentity admits exactly the two identities of a tenant: an org-scoped SPIFFE ID, or the
  connector-scoped one that names this very connector. No other string passes.
\<close>

theorem check_identity_iff:
  assumes "uuid_text uuid"
  shows "check_identity uuid san c = None \<longleftrightarrow>
    is_connector_id uuid c \<and>
    (\<exists>org n. is_connector_id uuid org \<and> n \<noteq> [] \<and> CHR ''/'' \<notin> set n \<and>
       (san = org_id org n \<or> san = connector_scoped_id org n c))"
proof
  assume ok: "check_identity uuid san c = None"
  then obtain org s where t: "tenant_id uuid san = Some (org, s)" "is_connector_id uuid c" "s = [] \<or> s = c"
    by (auto simp: check_identity_def split: if_splits option.splits)
  have "c \<noteq> []" using connector_id_chars(1) [OF assms t(2)] .
  then show "is_connector_id uuid c \<and>
    (\<exists>org n. is_connector_id uuid org \<and> n \<noteq> [] \<and> CHR ''/'' \<notin> set n \<and>
       (san = org_id org n \<or> san = connector_scoped_id org n c))"
    using tenant_id_Some [OF t(1)] t(2,3) connector_id_chars(1) [OF assms, of s] by blast
next
  assume "is_connector_id uuid c \<and>
    (\<exists>org n. is_connector_id uuid org \<and> n \<noteq> [] \<and> CHR ''/'' \<notin> set n \<and>
       (san = org_id org n \<or> san = connector_scoped_id org n c))"
  then obtain org n where n: "is_connector_id uuid c" "is_connector_id uuid org" "n \<noteq> []" "CHR ''/'' \<notin> set n"
    "san = org_id org n \<or> san = connector_scoped_id org n c" by blast
  then have "tenant_id uuid san = Some (org, []) \<or> tenant_id uuid san = Some (org, c)"
    using tenant_id_org [of uuid org n] tenant_id_scoped [of uuid org n c]
      connector_id_chars(3) [OF assms] by blast
  then show "check_identity uuid san c = None"
    using n(1) by (auto simp: check_identity_def)
qed

lemma check_identity_iff_witness:
  "uuid_text plain_uuid \<and>
   check_identity plain_uuid (connector_scoped_id example_id ''edge'' example_id) example_id = None"
proof -
  have "is_connector_id plain_uuid example_id \<and>
    (\<exists>org n. is_connector_id plain_uuid org \<and> n \<noteq> [] \<and> CHR ''/'' \<notin> set n \<and>
       (connector_scoped_id example_id ''edge'' example_id = org_id org n \<or>
        connector_scoped_id example_id ''edge'' example_id = connector_scoped_id org n example_id))"
    using example_id_ok by (intro conjI exI [of _ example_id] exI [of _ "''edge''"]) auto
  then show ?thesis using check_identity_iff [OF plain_uuid_text] plain_uuid_text by blast
qed

text \<open>
  A peer cannot widen the set of refusal reasons: whatever header an edge controller answers a
  CONNECT with, the refusal carries a known reason, Other, or none at all; and an answer counts as
  "no tunnel here, try another replica" exactly when it is a 503 without a reason.
\<close>

theorem connect_refusal_closed:
  assumes "connect stopped (Ok resp) = Err (ConnectRefused r)"
  shows "refusal_status r = resp_status resp \<and> refusal_status r \<noteq> 200 \<and>
    reason_text (refusal_reason r) \<in> insert [] (set (map reason_text (known_reasons @ [Other]))) \<and>
    (is_no_tunnel (Some r) \<longleftrightarrow> resp_status resp = 503 \<and> hget (resp_header resp) header_reason = [])"
proof -
  define sent where "sent = hget (resp_header resp) header_reason"
  have r: "resp_status resp \<noteq> status_ok" "refusal_status r = resp_status resp"
    "refusal_reason r = (if sent \<noteq> [] then label (reason_of sent) else reason_of sent)"
    using assms by (auto simp: connect_def Let_def sent_def split: if_splits)
  have "reason_text (refusal_reason r) = [] \<longleftrightarrow> sent = []"
    using r(3) label_set [of "reason_of sent"] reason_text_nonempty [of "label (reason_of sent)"]
    by (simp add: reason_of_text)
  moreover have "refusal_reason r \<in> set (known_reasons @ [Other])" if "sent \<noteq> []"
    using r(3) that label_set [of "reason_of sent"] by simp
  then have "reason_text (refusal_reason r) \<in> insert [] (set (map reason_text (known_reasons @ [Other])))"
    using calculation by (cases "sent = []") (simp, metis imageI insertI2 list.set_map)
  ultimately show ?thesis
    using r(1,2) by (auto simp: is_no_tunnel_def sent_def status_defs)
qed

lemma connect_refusal_closed_witness:
  "connect True (Ok \<lparr>resp_status = 403, resp_header = [''X-Traversal-Reason'' \<mapsto> [''made_up'']], resp_body = []\<rparr>) =
     Err (ConnectRefused \<lparr>refusal_status = 403, refusal_reason = Other\<rparr>) \<and>
   \<not> is_no_tunnel (Some \<lparr>refusal_status = 403, refusal_reason = Other\<rparr>)"
proof -
  let ?resp = "\<lparr>resp_status = 403, resp_header = [''X-Traversal-Reason'' \<mapsto> [''made_up'']], resp_body = []\<rparr>"
  have h: "hget (resp_header ?resp) header_reason = ''made_up''" by code_simp
  have l: "label (reason_of ''made_up'') = Other" by code_simp
  have "connect True (Ok ?resp) = Err (ConnectRefused \<lparr>refusal_status = 403, refusal_reason = Other\<rparr>)"
    using h l by (simp add: connect_def status_ok_def)
  then show ?thesis using connect_refusal_closed [of True ?resp] by fastforce
qed

end
