(* ===== verification/GoJson.thy ===== *)
theory GoJson
  imports GoNet
begin

text \<open>
  JSON values as Go's encoding/json/jsontext reads them, and standard-library base64. A JSON
  object keeps its members in the order of the text, repeated names included, so the strictness of
  encoding/json/v2 about names is a predicate here. Reading JSON text is the parameter \<open>parse\<close> of
  the functions that need it; base64 is modelled in full.
\<close>

section \<open>Values\<close>

datatype json = JNull | JBool bool | JNum string | JStr string | JArr "json list"
  | JObj "(string \<times> json) list"

text \<open>No object, at any depth, repeats a name exactly.\<close>

fun unique_names :: "json \<Rightarrow> bool" and unique_all :: "json list \<Rightarrow> bool"
  and unique_members :: "(string \<times> json) list \<Rightarrow> bool" where
  "unique_names (JArr js) = unique_all js"
| "unique_names (JObj ms) = (distinct (map fst ms) \<and> unique_members ms)"
| "unique_names _ = True"
| "unique_all [] = True"
| "unique_all (j # js) = (unique_names j \<and> unique_all js)"
| "unique_members [] = True"
| "unique_members ((k, j) # ms) = (unique_names j \<and> unique_members ms)"

text \<open>
  jsonv2.Unmarshal of a JSON integer into an integer type: digits only, with a minus sign for a
  signed type. \<open>parse\<close> only yields JSON numbers, so a leading zero does not arise.
\<close>

definition json_u16 :: "json \<Rightarrow> u16 option" where
  "json_u16 j = (case j of JNum s \<Rightarrow> map_option of_nat (parse_uint 16 s) | _ \<Rightarrow> None)"

definition json_i64 :: "json \<Rightarrow> i64 option" where
  "json_i64 j = (case j of
     JNum (c # cs) \<Rightarrow>
       if c = CHR ''-'' then
         (case parse_uint 64 cs of
            Some n \<Rightarrow> if n \<le> 2 ^ 63 then Some (- of_nat n) else None
          | None \<Rightarrow> None)
       else (case parse_uint 64 (c # cs) of
            Some n \<Rightarrow> if n < 2 ^ 63 then Some (of_nat n) else None
          | None \<Rightarrow> None)
   | _ \<Rightarrow> None)"

text \<open>The decimal text of a number that is not negative reads back.\<close>

lemma json_i64_unsigned:
  assumes "0 \<le> sint x"
  shows "json_i64 (JNum (format_uint (nat (sint x)))) = Some x"
proof -
  have n: "nat (sint x) < 2 ^ 63" using sint_i64_bounds [of x] assms by (simp add: nat_less_iff)
  then have p: "parse_uint 64 (format_uint (nat (sint x))) = Some (nat (sint x))"
    by (intro parse_uint_format) simp
  obtain c cs where f: "format_uint (nat (sint x)) = c # cs" by (cases "format_uint (nat (sint x))") auto
  then have "c \<noteq> CHR ''-''"
    using format_uint_digits [of c "nat (sint x)"] by (auto simp: is_digit_def)
  moreover have "(of_nat (nat (sint x)) :: i64) = x" using assms by simp
  ultimately show ?thesis using p n f by (simp add: json_i64_def)
qed

text \<open>A null decodes to the zero value of its Go type.\<close>

fun json_string :: "json \<Rightarrow> string option" where
  "json_string (JStr s) = Some s"
| "json_string JNull = Some []"
| "json_string _ = None"

section \<open>Base64\<close>

definition b64_alphabet :: "bool \<Rightarrow> string" where
  "b64_alphabet url = upper_letters @ lower_letters @ digit_chars @ (if url then ''-_'' else ''+/'')"

fun index_of :: "'a \<Rightarrow> 'a list \<Rightarrow> nat option" where
  "index_of x [] = None"
| "index_of x (y # ys) = (if x = y then Some 0 else map_option Suc (index_of x ys))"

abbreviation byte_char :: "nat \<Rightarrow> char" where
  "byte_char n \<equiv> char_of n"

text \<open>Encoding three bytes at a time; the padding character is left out by the raw encoding.\<close>

fun b64_encode :: "bool \<Rightarrow> bool \<Rightarrow> string \<Rightarrow> string" where
  "b64_encode url pad [] = []"
| "b64_encode url pad [a] =
     map (\<lambda>i. b64_alphabet url ! i) [code a div 4, code a mod 4 * 16] @ (if pad then ''=='' else [])"
| "b64_encode url pad [a, b] =
     map (\<lambda>i. b64_alphabet url ! i)
       [code a div 4, code a mod 4 * 16 + code b div 16, code b mod 16 * 4] @
     (if pad then ''='' else [])"
| "b64_encode url pad (a # b # c # s) =
     map (\<lambda>i. b64_alphabet url ! i)
       [code a div 4, code a mod 4 * 16 + code b div 16, code b mod 16 * 4 + code c div 64, code c mod 64] @
     b64_encode url pad s"

text \<open>
  Decoding: line breaks are skipped, then quanta of four characters. Without padding the last
  quantum may have two or three characters. A strict decoder also refuses non-zero trailing bits.
\<close>

fun b64_quanta :: "bool \<Rightarrow> bool \<Rightarrow> bool \<Rightarrow> nat option list \<Rightarrow> string option" where
  "b64_quanta pad strict fin [] = Some []"
| "b64_quanta pad strict fin [Some a, Some b] =
     (if pad \<and> \<not> fin \<or> strict \<and> b mod 16 \<noteq> 0 then None else Some [byte_char (a * 4 + b div 16)])"
| "b64_quanta pad strict fin [Some a, Some b, Some c] =
     (if pad \<and> \<not> fin \<or> strict \<and> c mod 4 \<noteq> 0 then None
      else Some [byte_char (a * 4 + b div 16), byte_char (b mod 16 * 16 + c div 4)])"
| "b64_quanta pad strict fin (Some a # Some b # Some c # Some d # s) =
     map_option (\<lambda>t. byte_char (a * 4 + b div 16) # byte_char (b mod 16 * 16 + c div 4) #
         byte_char (c mod 4 * 64 + d) # t)
       (b64_quanta pad strict fin s)"
| "b64_quanta pad strict fin _ = None"

text \<open>
  \<open>fin\<close> says that the text ended in the padding that completes its last quantum: two characters
  after a quantum of two, one after three.
\<close>

definition b64_decode :: "bool \<Rightarrow> bool \<Rightarrow> bool \<Rightarrow> string \<Rightarrow> string option" where
  "b64_decode url pad strict text =
     (let s = filter (\<lambda>c. c \<notin> {CHR 0x0A, CHR 0x0D}) text;
          body = (if pad then trim_right_set ''='' s else s);
          padding = length s - length body in
      if pad \<and> padding > 0 \<and> \<not> (2 \<le> length body mod 4 \<and> length body mod 4 + padding = 4) then None
      else b64_quanta pad strict (padding > 0) (map (\<lambda>c. index_of c (b64_alphabet url)) body))"

definition b64url_enc :: "string \<Rightarrow> string" where "b64url_enc = b64_encode True False"
definition b64url_dec :: "string \<Rightarrow> string option" where "b64url_dec = b64_decode True False False"
definition b64std_enc :: "string \<Rightarrow> string" where "b64std_enc = b64_encode False True"
definition b64std_dec :: "string \<Rightarrow> string option" where "b64std_dec = b64_decode False True True"

subsection \<open>Decoding what was encoded\<close>

lemma index_of_nth: "distinct xs \<Longrightarrow> i < length xs \<Longrightarrow> index_of (xs ! i) xs = Some i"
proof (induction xs arbitrary: i)
  case (Cons x xs)
  then show ?case by (cases i) auto
qed simp

lemma b64_alphabet_ok:
  "distinct (b64_alphabet url)" "length (b64_alphabet url) = 64"
  "set (b64_alphabet url) \<inter> {CHR 0x0A, CHR 0x0D, CHR ''='', CHR ''.''} = {}"
  by (cases url; simp add: b64_alphabet_def char_class_defs)+

lemma index_of_alphabet [simp]: "i < 64 \<Longrightarrow> index_of (b64_alphabet url ! i) (b64_alphabet url) = Some i"
  using b64_alphabet_ok [of url] by (simp add: index_of_nth)

lemma code_bound: "code c < 256"
  by simp

lemma byte_char_code [simp]: "byte_char (code c) = c"
  by simp

lemma horner_div_mod: "r < (k :: nat) \<Longrightarrow> (x * k + r) div k = x" "r < k \<Longrightarrow> (x * k + r) mod k = r"
  by simp_all

lemma b64_bytes:
  assumes "b < (256 :: nat)" and "c < 256"
  shows "a div 4 * 4 + (a mod 4 * 16 + b div 16) div 16 = a"
    "(a mod 4 * 16 + b div 16) mod 16 * 16 + (b mod 16 * 4 + c div 64) div 4 = b"
    "(b mod 16 * 4 + c div 64) mod 4 * 64 + c mod 64 = c"
proof -
  have "b div 16 < 16" "c div 64 < 4" using assms by auto
  then show "a div 4 * 4 + (a mod 4 * 16 + b div 16) div 16 = a"
    "(a mod 4 * 16 + b div 16) mod 16 * 16 + (b mod 16 * 4 + c div 64) div 4 = b"
    "(b mod 16 * 4 + c div 64) mod 4 * 64 + c mod 64 = c"
    by (simp_all only: horner_div_mod div_mult_mod_eq)
qed

lemma b64_sextets:
  assumes "a < (256 :: nat)" and "b < 256" and "c < 256"
  shows "a div 4 < 64" "a mod 4 * 16 < 64" "a mod 4 * 16 + b div 16 < 64"
    "b mod 16 * 4 + c div 64 < 64" "c mod 64 < 64" "b mod 16 * 4 < 64"
proof -
  have "b div 16 < 16" "c div 64 < 4" "a mod 4 < 4" "b mod 16 < 16" "a div 4 < 64"
    using assms by auto
  then show "a div 4 < 64" "a mod 4 * 16 < 64" "a mod 4 * 16 + b div 16 < 64"
    "b mod 16 * 4 + c div 64 < 64" "c mod 64 < 64" "b mod 16 * 4 < 64"
    by (linarith | simp)+
qed

lemmas code_sextets = b64_sextets [OF code_bound code_bound code_bound]
lemmas code_bytes = b64_bytes [OF code_bound code_bound]
lemmas code_bytes_simp = code_bytes [simplified]

lemma alphabet_nth: "i < 64 \<Longrightarrow> b64_alphabet url ! i \<in> set (b64_alphabet url)"
  using b64_alphabet_ok [of url] by simp

lemma b64_encode_chars: "\<not> pad \<Longrightarrow> c \<in> set (b64_encode url pad s) \<Longrightarrow> c \<in> set (b64_alphabet url)"
  by (induction url pad s rule: b64_encode.induct) (auto simp: alphabet_nth code_sextets)

lemma length_mod_3: "length (a # b # c # s) mod 3 = length s mod 3"
  by (metis add.commute length_Cons mod_add_self2 numeral_3_eq_3 add_Suc_right add_0_right)

lemma b64_quanta_encode_pad:
  "fin \<or> \<not> pad \<or> length s mod 3 = 0 \<Longrightarrow>
     b64_quanta pad strict fin (map (\<lambda>c. index_of c (b64_alphabet url)) (b64_encode url False s)) = Some s"
proof (induction url "False" s rule: b64_encode.induct)
  case (2 url a)
  then show ?case
    using b64_bytes(1) [of 0 0 "code a"] by (auto simp add: code_sextets)
next
  case (3 url a b)
  have "(code b mod 16 * 4) mod 4 = 0" "(code b mod 16 * 4) div 4 = code b mod 16" by simp_all
  with 3 show ?case
    using b64_bytes(1,2) [of "code b" 0 "code a"] by (auto simp add: code_sextets code_bytes)
next
  case (4 url a b c s)
  then have "fin \<or> \<not> pad \<or> length s mod 3 = 0" using length_mod_3 [of a b c s] by simp
  with 4 show ?case by (simp add: code_sextets code_bytes_simp)
qed simp

lemma b64_encode_length: "length (b64_encode url pad s) \<le> 4 * length s"
  by (induction url pad s rule: b64_encode.induct) auto

lemma b64url_no_dot: "CHR ''.'' \<notin> set (b64url_enc s)"
  using b64_encode_chars [of False "CHR ''.''" True s] b64_alphabet_ok [of True]
  by (auto simp: b64url_enc_def)

lemma b64url_dec_enc [simp]: "b64url_dec (b64url_enc s) = Some s"
proof -
  have "filter (\<lambda>c. c \<notin> {CHR 0x0A, CHR 0x0D}) (b64_encode True False s) = b64_encode True False s"
    using b64_encode_chars [of False _ True s] b64_alphabet_ok [of True]
    by (intro filter_True) auto
  then show ?thesis
    by (simp add: b64url_dec_def b64url_enc_def b64_decode_def b64_quanta_encode_pad)
qed

text \<open>The padded encoding is the raw one and the padding its last quantum needs.\<close>

lemma b64_encode_padded:
  "\<exists>k. b64_encode url True s = b64_encode url False s @ replicate k (CHR ''='') \<and>
     (if length s mod 3 = 0 then k = 0
      else 0 < k \<and> 2 \<le> length (b64_encode url False s) mod 4 \<and> length (b64_encode url False s) mod 4 + k = 4)"
proof (induction url "True" s rule: b64_encode.induct)
  case (2 url a)
  show ?case by (rule exI [of _ 2]) (simp add: numeral_2_eq_2)
next
  case (3 url a b)
  show ?case by (rule exI [of _ 1]) simp
next
  case (4 url a b c s)
  then obtain k where k: "b64_encode url True s = b64_encode url False s @ replicate k (CHR ''='')"
    "if length s mod 3 = 0 then k = 0
     else 0 < k \<and> 2 \<le> length (b64_encode url False s) mod 4 \<and> length (b64_encode url False s) mod 4 + k = 4" by blast
  note length_mod_3 [of a b c s]
  moreover have "length (b64_encode url False (a # b # c # s)) mod 4 = length (b64_encode url False s) mod 4" by simp
  ultimately show ?case using k by (intro exI [of _ k]) simp
qed simp

lemma trim_right_replicate:
  assumes "\<And>c. c \<in> set s \<Longrightarrow> c \<noteq> p"
  shows "trim_right_set [p] (s @ replicate k p) = s"
proof -
  have "dropWhile (\<lambda>c. c \<in> set [p]) (rev s) = rev s"
    using assms by (cases s rule: rev_cases) auto
  then show ?thesis by (simp add: trim_right_set_def) (subst dropWhile_append2; simp)
qed

text \<open>Decoding skips the line breaks an encoded text may be wrapped with.\<close>

lemma b64_decode_encode:
  assumes "filter (\<lambda>c. c \<notin> {CHR 0x0A, CHR 0x0D}) w = b64_encode url True s"
  shows "b64_decode url True strict w = Some s"
proof -
  obtain k where k: "b64_encode url True s = b64_encode url False s @ replicate k (CHR ''='')"
    "if length s mod 3 = 0 then k = 0
     else 0 < k \<and> 2 \<le> length (b64_encode url False s) mod 4 \<and> length (b64_encode url False s) mod 4 + k = 4"
    using b64_encode_padded by blast
  have "c \<noteq> CHR ''=''" if "c \<in> set (b64_encode url False s)" for c
    using b64_encode_chars [OF _ that] b64_alphabet_ok(3) [of url] by auto
  then have r: "trim_right_set ''='' (b64_encode url True s) = b64_encode url False s"
    unfolding k(1) by (rule trim_right_replicate)
  show ?thesis
  proof (cases "length s mod 3 = 0")
    case True
    then show ?thesis using k r assms by (simp add: b64_decode_def b64_quanta_encode_pad)
  next
    case False
    then show ?thesis using k r assms by (simp add: b64_decode_def b64_quanta_encode_pad)
  qed
qed

end
