(* ===== verification/Chain.thy ===== *)
theory Chain
  imports Hostname Rawpipe GoJson
begin

text \<open>
  connector-lib/capability/chain.go: chained capabilities. A certificate is known by the fields the
  code reads; X.509 parsing, chain verification and PEM decoding are the parameters \<open>x509_parse\<close>,
  \<open>x509_verify\<close> and \<open>pem\<close>. A public key is P-256 or not.
\<close>

datatype 'k pub_key = P256 'k | OtherKey

record 'k cert =
  cert_is_ca :: bool
  cert_digital_signature :: bool
  cert_ips :: nat
  cert_key :: "'k pub_key"
  cert_uris :: "string list"
  cert_raw :: string

record 'k chains =
  ch_roots :: "'k cert list"
  ch_host :: string

definition issuer_uri_prefix :: string where
  "issuer_uri_prefix = ''spiffe://traversal.com/capability-issuer/''"

definition issuer_prefix :: string where
  "issuer_prefix = ''traversal-raw-tunnel/''"

definition max_chain_certs :: nat where "max_chain_certs = 2"
definition max_chain_bytes :: nat where "max_chain_bytes = 1536"
definition max_environment_len :: nat where "max_environment_len = 32"

text \<open>An invalid capability; rawpipe.Errorf with the reason InvalidCapability.\<close>

definition reject :: "string \<Rightarrow> pipe_error" where
  "reject msg = Refused InvalidCapability msg"

text \<open>newChains: a root may be nil.\<close>

definition new_chains ::
    "(string \<Rightarrow> string) \<Rightarrow> 'k cert option list \<Rightarrow> string \<Rightarrow> string + 'k chains" where
  "new_chains ul roots host =
     (if parse_addr host \<noteq> None \<or> \<not> is_canonical ul host then
        Err ''capability: roots need a canonical controller host name''
      else if \<exists>r \<in> set roots. (case r of None \<Rightarrow> True | Some c \<Rightarrow> \<not> cert_is_ca c) then
        Err ''capability: every root must be a CA certificate''
      else Ok \<lparr>ch_roots = map the roots, ch_host = host\<rparr>)"

text \<open>The loop of parseChain, with the bytes read so far.\<close>

fun parse_chain_loop ::
    "(string \<Rightarrow> 'k cert option) \<Rightarrow> nat \<Rightarrow> string list \<Rightarrow> pipe_error + 'k cert list" where
  "parse_chain_loop x509_parse sofar [] = Ok []"
| "parse_chain_loop x509_parse sofar (enc # encs) =
     (case b64std_dec enc of
        None \<Rightarrow> Err (reject ''x5c is not base64 DER within its size limit'')
      | Some der \<Rightarrow>
          if max_chain_bytes < sofar + length der then
            Err (reject ''x5c is not base64 DER within its size limit'')
          else (case x509_parse der of
              None \<Rightarrow> Err (reject ''x5c holds an invalid certificate'')
            | Some c \<Rightarrow> (case parse_chain_loop x509_parse (sofar + length der) encs of
                Inl e \<Rightarrow> Err e | Inr cs \<Rightarrow> Ok (c # cs))))"

definition parse_chain ::
    "(string \<Rightarrow> 'k cert option) \<Rightarrow> string list \<Rightarrow> pipe_error + 'k cert list" where
  "parse_chain x509_parse x5c =
     (if x5c = [] \<or> max_chain_certs < length x5c then
        Err (reject ''x5c must hold one or two certificates'')
      else parse_chain_loop x509_parse 0 x5c)"

definition valid_environment :: "string \<Rightarrow> bool" where
  "valid_environment env =
     (if env = [] \<or> max_environment_len < length env \<or> hd env = CHR ''-'' then False
      else trim_set ''abcdefghijklmnopqrstuvwxyz0123456789-'' env = [])"

text \<open>
  CheckEnvironmentCertificate: the key the leaf certifies and the issuer its capabilities carry.
  \<open>x509_verify leaf intermediates roots now host\<close> is Certificate.Verify with those options and the
  CodeSigning usage. \<open>roots\<close> may be nil.
\<close>

definition check_environment_certificate ::
    "('k cert \<Rightarrow> 'k cert list \<Rightarrow> 'k cert list \<Rightarrow> instant \<Rightarrow> string \<Rightarrow> bool) \<Rightarrow>
     'k cert list \<Rightarrow> 'k cert list option \<Rightarrow> string \<Rightarrow> instant \<Rightarrow> pipe_error + ('k \<times> string)" where
  "check_environment_certificate x509_verify chain roots host now =
     (case (chain, roots) of
        (leaf # rest, Some pool) \<Rightarrow>
          if \<not> x509_verify leaf rest pool now host then
            Err (reject ''environment certificate does not chain to a trusted root for this controller host'')
          else if cert_is_ca leaf \<or> \<not> cert_digital_signature leaf \<or> cert_ips leaf \<noteq> 0 then
            Err (reject ''environment certificate is not a signing certificate for a host name'')
          else (case cert_key leaf of
              OtherKey \<Rightarrow> Err (reject ''environment certificate does not certify a P-256 key'')
            | P256 key \<Rightarrow>
                (case cert_uris leaf of
                   [uri] \<Rightarrow>
                     (case cut_prefix issuer_uri_prefix uri of
                        None \<Rightarrow> Err (reject ''environment certificate names no capability issuer'')
                      | Some env \<Rightarrow>
                          if \<not> valid_environment env then
                            Err (reject ''environment certificate names no capability issuer'')
                          else Ok (key, issuer_prefix @ env))
                 | _ \<Rightarrow> Err (reject ''environment certificate must name exactly one issuer'')))
      | _ \<Rightarrow> Err (reject ''no environment certificate or no roots''))"

section \<open>PEM bundles\<close>

record pem_block =
  pem_type :: string
  pem_headers :: "string \<Rightarrow> string option"
  pem_bytes :: string

text \<open>
  ParseSigningKey. The parsers of the two key formats yield a key of some type, or fail.
\<close>

definition parse_signing_key ::
    "(string \<Rightarrow> (pem_block \<times> string) option) \<Rightarrow> (string \<Rightarrow> 'k pub_key option) \<Rightarrow>
     (string \<Rightarrow> 'k pub_key option) \<Rightarrow> string \<Rightarrow> string + 'k" where
  "parse_signing_key pem parse_ec parse_pkcs8 data =
     (case pem data of
        None \<Rightarrow> Err ''capability: signing key: not PEM''
      | Some (block, _) \<Rightarrow>
          let parsed = (if pem_type block = ''EC PRIVATE KEY'' then Ok (parse_ec (pem_bytes block))
                else if pem_type block = ''PRIVATE KEY'' then Ok (parse_pkcs8 (pem_bytes block))
                else Err (''capability: signing key: unexpected '' @ pem_type block @ '' block'')) in
          (case parsed of
             Inl e \<Rightarrow> Err e
           | Inr (Some (P256 k)) \<Rightarrow> Ok k
           | Inr _ \<Rightarrow> Err ''capability: signing key: expected a P-256 private key''))"

text \<open>
  ParseRootsPEM, one block per round. The fuel is the length of the data, which every block PEM
  decoding yields shortens; \<open>None\<close> is running out of it.
\<close>

fun parse_roots_loop ::
    "(string \<Rightarrow> (pem_block \<times> string) option) \<Rightarrow> (string \<Rightarrow> 'k cert option) \<Rightarrow> nat \<Rightarrow> string \<Rightarrow>
     (string + 'k cert list) option" where
  "parse_roots_loop pem x509_parse fuel data =
     (case pem data of
        None \<Rightarrow> Some (if trim_space data \<noteq> [] then Err ''capability: roots: data outside PEM blocks'' else Ok [])
      | Some (block, rest) \<Rightarrow>
          if pem_type block \<noteq> ''CERTIFICATE'' then
            Some (Err ''capability: roots: expected CERTIFICATE blocks'')
          else (case x509_parse (pem_bytes block) of
              None \<Rightarrow> Some (Err ''capability: roots: each must be a CA certificate'')
            | Some c \<Rightarrow>
                if \<not> cert_is_ca c then Some (Err ''capability: roots: each must be a CA certificate'')
                else (case fuel of
                    0 \<Rightarrow> None
                  | Suc n \<Rightarrow> map_option (ok_cons c) (parse_roots_loop pem x509_parse n rest))))"

declare parse_roots_loop.simps [simp del]

definition parse_roots_pem ::
    "(string \<Rightarrow> (pem_block \<times> string) option) \<Rightarrow> (string \<Rightarrow> 'k cert option) \<Rightarrow> string \<Rightarrow>
     (string + 'k cert list) option" where
  "parse_roots_pem pem x509_parse data =
     (case parse_roots_loop pem x509_parse (length data) data of
        Some (Inr []) \<Rightarrow> Some (Err ''capability: roots: no certificates'')
      | r \<Rightarrow> r)"

text \<open>PEM decoding consumes what it yields.\<close>

definition pem_shrinks :: "(string \<Rightarrow> (pem_block \<times> string) option) \<Rightarrow> bool" where
  "pem_shrinks pem = (\<forall>s b r. pem s = Some (b, r) \<longrightarrow> length r < length s)"

section \<open>Laws\<close>

lemma parse_chain_loop_Ok:
  "parse_chain_loop xp sofar encs = Ok cs \<Longrightarrow> sofar \<le> max_chain_bytes \<Longrightarrow>
     \<exists>ders. list_all2 (\<lambda>e d. b64std_dec e = Some d) encs ders \<and>
       list_all2 (\<lambda>d c. xp d = Some c) ders cs \<and> sofar + length (concat ders) \<le> max_chain_bytes"
proof (induction encs arbitrary: sofar cs)
  case (Cons e encs)
  then obtain d c cs' where d: "b64std_dec e = Some d" "xp d = Some c" "cs = c # cs'"
      "sofar + length d \<le> max_chain_bytes" "parse_chain_loop xp (sofar + length d) encs = Ok cs'"
    by (auto split: option.splits if_splits sum.splits)
  then obtain ders where "list_all2 (\<lambda>e d. b64std_dec e = Some d) encs ders"
      "list_all2 (\<lambda>d c. xp d = Some c) ders cs'"
      "sofar + length d + length (concat ders) \<le> max_chain_bytes"
    using Cons.IH by blast
  with d show ?case by (intro exI [of _ "d # ders"]) simp
qed simp

lemma parse_chain_Ok:
  assumes "parse_chain xp x5c = Ok cs"
  shows "0 < length cs \<and> length cs \<le> max_chain_certs \<and>
    (\<exists>ders. list_all2 (\<lambda>e d. b64std_dec e = Some d) x5c ders \<and>
       list_all2 (\<lambda>d c. xp d = Some c) ders cs \<and> length (concat ders) \<le> max_chain_bytes)"
proof -
  have x: "x5c \<noteq> []" "length x5c \<le> max_chain_certs" "parse_chain_loop xp 0 x5c = Ok cs"
    using assms by (auto simp: parse_chain_def split: if_splits)
  obtain ders where d: "list_all2 (\<lambda>e d. b64std_dec e = Some d) x5c ders"
    "list_all2 (\<lambda>d c. xp d = Some c) ders cs" "length (concat ders) \<le> max_chain_bytes"
    using parse_chain_loop_Ok [OF x(3)] by auto
  then have "length cs = length x5c" by (metis list_all2_lengthD)
  then show ?thesis using x d by auto
qed

lemma check_environment_certificate_Ok:
  assumes "check_environment_certificate xv chain roots host now = Ok (key, issuer)"
  obtains leaf rest pool env where "chain = leaf # rest" "roots = Some pool"
    "xv leaf rest pool now host" "\<not> cert_is_ca leaf" "cert_digital_signature leaf"
    "cert_ips leaf = 0" "cert_key leaf = P256 key" "cert_uris leaf = [issuer_uri_prefix @ env]"
    "valid_environment env" "issuer = issuer_prefix @ env"
  using assms
  by (auto simp: check_environment_certificate_def cut_prefix_Some
      split: list.splits option.splits if_splits pub_key.splits)

lemma parse_roots_loop_fuel:
  "pem_shrinks pem \<Longrightarrow> length data \<le> fuel \<Longrightarrow> parse_roots_loop pem xp fuel data \<noteq> None"
proof (induction fuel arbitrary: data)
  case 0
  then have "pem data = None"
    by (metis le_zero_eq not_less_zero option.exhaust pem_shrinks_def prod.exhaust)
  then show ?case by (subst parse_roots_loop.simps) simp
next
  case (Suc n)
  have "parse_roots_loop pem xp n r \<noteq> None" if "pem data = Some (b, r)" for b r
    using Suc that by (auto simp: pem_shrinks_def dest!: spec [of _ data])
  then show ?case
    by (subst parse_roots_loop.simps) (auto split: option.splits)
qed

text \<open>Enough fuel: reading a bundle always returns.\<close>

lemma parse_roots_pem_total: "pem_shrinks pem \<Longrightarrow> parse_roots_pem pem xp data \<noteq> None"
  using parse_roots_loop_fuel [of pem data "length data" xp]
  by (auto simp: parse_roots_pem_def split: option.splits sum.splits list.splits)

lemma parse_roots_loop_ca:
  "parse_roots_loop pem xp fuel data = Some (Ok cs) \<Longrightarrow> \<forall>c \<in> set cs. cert_is_ca c"
proof (induction fuel arbitrary: data cs)
  case 0
  then show ?case
    by (subst (asm) parse_roots_loop.simps) (auto split: option.splits if_splits)
next
  case (Suc n)
  from Suc.prems show ?case
    by (subst (asm) parse_roots_loop.simps)
      (use Suc.IH in \<open>fastforce simp: ok_cons_Ok split: option.splits if_splits\<close>)
qed

lemma parse_roots_pem_ca:
  "parse_roots_pem pem xp data = Some (Ok cs) \<Longrightarrow> cs \<noteq> [] \<and> (\<forall>c \<in> set cs. cert_is_ca c)"
  by (auto simp: parse_roots_pem_def split: option.splits sum.splits list.splits dest: parse_roots_loop_ca)

end
