(* ===== verification/Jws.thy ===== *)
theory Jws
  imports GoJson
begin

text \<open>
  connector-lib/jws: the compact ES256 JWS. Parsing is strict: the header holds exactly the known
  keys, no key repeats exactly or by case at any depth of either segment, and every required key
  is present and not null. Parameters: \<open>parse\<close> reads a JSON text (jsontext), \<open>ulower\<close> lowers a
  string that is not ASCII, \<open>es256\<close> is golang-jwt's signature check, and the functions of \<open>sign_with\<close>
  marshal, sign and read ASN.1. The loop of foldedUnique is modelled on the decoder's tokens.
\<close>

section \<open>Keys that differ only by case\<close>

text \<open>The tokens of a value in the order jsontext.Decoder.ReadToken returns them.\<close>

datatype jtok = TObjOpen | TObjClose | TArrOpen | TArrClose | TStr string | TScalar

fun tokens :: "json \<Rightarrow> jtok list" and tokens_all :: "json list \<Rightarrow> jtok list"
  and tokens_members :: "(string \<times> json) list \<Rightarrow> jtok list" where
  "tokens JNull = [TScalar]"
| "tokens (JBool b) = [TScalar]"
| "tokens (JNum s) = [TScalar]"
| "tokens (JStr s) = [TStr s]"
| "tokens (JArr js) = TArrOpen # tokens_all js @ [TArrClose]"
| "tokens (JObj ms) = TObjOpen # tokens_members ms @ [TObjClose]"
| "tokens_all [] = []"
| "tokens_all (j # js) = tokens j @ tokens_all js"
| "tokens_members [] = []"
| "tokens_members ((k, j) # ms) = TStr k # tokens j @ tokens_members ms"

text \<open>
  The decoder's stack: for each open object or array, whether it is an object and how many names
  and values it has read (StackIndex). Each token that starts a value counts in its container.
\<close>

fun bump :: "(bool \<times> nat) list \<Rightarrow> (bool \<times> nat) list" where
  "bump [] = []"
| "bump ((obj, n) # st) = (obj, n + 1) # st"

text \<open>A string at an odd position of an object is a key.\<close>

fun at_key :: "(bool \<times> nat) list \<Rightarrow> bool" where
  "at_key ((True, n) # st) = odd n"
| "at_key _ = False"

fun folded_loop ::
    "(string \<Rightarrow> string) \<Rightarrow> (bool \<times> nat) list \<Rightarrow> string list list \<Rightarrow> jtok list \<Rightarrow> string option" where
  "folded_loop ul st seen [] = None"
| "folded_loop ul st seen (TObjOpen # ts) = folded_loop ul ((True, 0) # bump st) ([] # seen) ts"
| "folded_loop ul st seen (TObjClose # ts) = folded_loop ul (tl st) (tl seen) ts"
| "folded_loop ul st seen (TArrOpen # ts) = folded_loop ul ((False, 0) # bump st) seen ts"
| "folded_loop ul st seen (TArrClose # ts) = folded_loop ul (tl st) seen ts"
| "folded_loop ul st seen (TScalar # ts) = folded_loop ul (bump st) seen ts"
| "folded_loop ul st seen (TStr s # ts) =
     (if at_key (bump st) then
        let key = to_lower ul s in
          if key \<in> set (hd seen) then Some key
          else folded_loop ul (bump st) ((key # hd seen) # tl seen) ts
      else folded_loop ul (bump st) seen ts)"

definition folded_unique :: "(string \<Rightarrow> string) \<Rightarrow> json \<Rightarrow> string option" where
  "folded_unique ul j = folded_loop ul [] [] (tokens j)"

text \<open>What it computes: no object, at any depth, has two keys equal after lowering.\<close>

fun folded_ok :: "(string \<Rightarrow> string) \<Rightarrow> json \<Rightarrow> bool"
  and folded_ok_all :: "(string \<Rightarrow> string) \<Rightarrow> json list \<Rightarrow> bool"
  and folded_ok_members :: "(string \<Rightarrow> string) \<Rightarrow> (string \<times> json) list \<Rightarrow> bool" where
  "folded_ok ul (JArr js) = folded_ok_all ul js"
| "folded_ok ul (JObj ms) = (distinct (map (to_lower ul \<circ> fst) ms) \<and> folded_ok_members ul ms)"
| "folded_ok ul _ = True"
| "folded_ok_all ul [] = True"
| "folded_ok_all ul (j # js) = (folded_ok ul j \<and> folded_ok_all ul js)"
| "folded_ok_members ul [] = True"
| "folded_ok_members ul ((k, j) # ms) = (folded_ok ul j \<and> folded_ok_members ul ms)"

lemma folded_loop_tokens:
  "\<not> at_key (bump st) \<Longrightarrow> folded_loop ul st seen (tokens j @ ts) = None \<longleftrightarrow>
     folded_ok ul j \<and> folded_loop ul (bump st) seen ts = None"
  "\<not> at_key (bump ((False, n) # st)) \<Longrightarrow>
     folded_loop ul ((False, n) # st) seen (tokens_all js @ TArrClose # ts) = None \<longleftrightarrow>
     folded_ok_all ul js \<and> folded_loop ul st seen ts = None"
  "even n \<Longrightarrow>
     folded_loop ul ((True, n) # st) (ks # seen) (tokens_members ms @ TObjClose # ts) = None \<longleftrightarrow>
     distinct (map (to_lower ul \<circ> fst) ms) \<and> set ks \<inter> set (map (to_lower ul \<circ> fst) ms) = {} \<and>
     folded_ok_members ul ms \<and> folded_loop ul st seen ts = None"
proof (induction j and js and ms arbitrary: st seen ts and n st seen ts and n st ks seen ts
    rule: tokens_tokens_all_tokens_members.induct)
  case (10 k j ms)
  then show ?case by (auto simp: Let_def)
qed auto

lemma folded_unique_iff: "folded_unique ul j = None \<longleftrightarrow> folded_ok ul j"
  using folded_loop_tokens(1) [of "[]" ul "[]" j "[]"] by (simp add: folded_unique_def)

section \<open>Tokens\<close>

datatype jws_error = ErrMalformed | ErrHeader | ErrSignature | ErrClaims

record jws_header =
  hdr_alg :: string
  hdr_typ :: string
  hdr_kid :: string
  hdr_x5c :: "string list option"

text \<open>jsonKeys: from the json tags of a struct to its keys and whether each is required.\<close>

definition json_keys :: "string list \<Rightarrow> (string \<times> bool) list" where
  "json_keys tags = map (\<lambda>tag. let (name, opts, _) = cut_at (CHR '','') tag in (name, opts \<noteq> ''omitempty'')) tags"

definition header_tags :: "string list" where
  "header_tags = [''alg'', ''typ'', ''kid'', ''x5c,omitempty'']"

definition header_keys :: "bool \<Rightarrow> (string \<times> bool) list" where
  "header_keys chained =
     (if chained then json_keys header_tags else filter (\<lambda>(k, _). k \<noteq> ''x5c'') (json_keys header_tags))"

text \<open>Members decoded into a struct: a missing key or a null leaves the zero value.\<close>

definition string_field :: "(string \<times> json) list \<Rightarrow> string \<Rightarrow> string option" where
  "string_field ms k = (case map_of ms k of None \<Rightarrow> Some [] | Some j \<Rightarrow> json_string j)"

definition strings_field :: "(string \<times> json) list \<Rightarrow> string \<Rightarrow> string list option option" where
  "strings_field ms k =
     (case map_of ms k of
        None \<Rightarrow> Some None
      | Some JNull \<Rightarrow> Some None
      | Some (JArr js) \<Rightarrow>
          (case those (map json_string js) of None \<Rightarrow> None | Some ss \<Rightarrow> Some (Some ss))
      | Some _ \<Rightarrow> None)"

definition decode_header :: "(string \<times> json) list \<Rightarrow> jws_header option" where
  "decode_header ms =
     (case (string_field ms ''alg'', string_field ms ''typ'', string_field ms ''kid'', strings_field ms ''x5c'') of
        (Some a, Some t, Some k, Some x) \<Rightarrow>
          Some \<lparr>hdr_alg = a, hdr_typ = t, hdr_kid = k, hdr_x5c = x\<rparr>
      | _ \<Rightarrow> None)"

text \<open>jsonv2.Unmarshal into a map: an object, or null for the nil map.\<close>

fun members_of :: "json \<Rightarrow> (string \<times> json) list option" where
  "members_of (JObj ms) = Some ms"
| "members_of JNull = Some []"
| "members_of _ = None"

definition missing_required :: "(string \<times> bool) list \<Rightarrow> (string \<times> json) list \<Rightarrow> bool" where
  "missing_required keys ms =
     list_ex (\<lambda>(k, required). required \<and> (map_of ms k = None \<or> map_of ms k = Some JNull)) keys"

definition unknown_key :: "(string \<times> bool) list \<Rightarrow> (string \<times> json) list \<Rightarrow> bool" where
  "unknown_key keys ms = list_ex (\<lambda>(k, _). k \<notin> set (map fst keys)) ms"

definition decode_segment ::
    "(string \<Rightarrow> string) \<Rightarrow> (string \<Rightarrow> json option) \<Rightarrow> (string \<times> bool) list \<Rightarrow> bool \<Rightarrow>
     ((string \<times> json) list \<Rightarrow> 'v option) \<Rightarrow> string \<Rightarrow> 'v option" where
  "decode_segment ul parse keys ignore_unknown dec segment =
     (case b64url_dec segment of
        None \<Rightarrow> None
      | Some raw \<Rightarrow>
          (case parse raw of
             None \<Rightarrow> None
           | Some j \<Rightarrow>
               (case members_of j of
                  None \<Rightarrow> None
                | Some ms \<Rightarrow>
                    if \<not> unique_names j then None
                    else if folded_unique ul j \<noteq> None then None
                    else if missing_required keys ms then None
                    else if unknown_key keys ms \<and> \<not> ignore_unknown then None
                    else dec ms)))"

record jws_token =
  tok_header :: jws_header
  tok_input :: string
  tok_sig :: string

definition algorithm :: string where
  "algorithm = ''ES256''"

definition jws_parse ::
    "(string \<Rightarrow> string) \<Rightarrow> (string \<Rightarrow> json option) \<Rightarrow> string \<Rightarrow> nat \<Rightarrow> string \<Rightarrow> bool \<Rightarrow>
     jws_error + jws_token" where
  "jws_parse ul parse token max_len typ chained =
     (case split_on (CHR ''.'') token of
        [p0, p1, p2] \<Rightarrow>
          if max_len < length token then Err ErrMalformed
          else (case decode_segment ul parse (header_keys chained) False decode_header p0 of
              None \<Rightarrow> Err ErrHeader
            | Some h \<Rightarrow>
                if hdr_alg h \<noteq> algorithm \<or> hdr_typ h \<noteq> typ then Err ErrHeader
                else Ok \<lparr>tok_header = h, tok_input = p0 @ ''.'' @ p1, tok_sig = p2\<rparr>)
      | _ \<Rightarrow> Err ErrMalformed)"

text \<open>Token.Verify: the signature first, only then the claims.\<close>

definition jws_verify ::
    "(string \<Rightarrow> string) \<Rightarrow> (string \<Rightarrow> json option) \<Rightarrow> (string \<Rightarrow> string \<Rightarrow> 'key \<Rightarrow> bool) \<Rightarrow>
     string list \<Rightarrow> ((string \<times> json) list \<Rightarrow> 'c option) \<Rightarrow> bool \<Rightarrow> jws_token \<Rightarrow> 'key \<Rightarrow> jws_error + 'c" where
  "jws_verify ul parse es256 tags dec ignore_unknown t key =
     (case b64url_dec (tok_sig t) of
        None \<Rightarrow> Err ErrSignature
      | Some sig \<Rightarrow>
          if \<not> es256 (tok_input t) sig key then Err ErrSignature
          else let payload = fst (snd (cut_at (CHR ''.'') (tok_input t))) in
            (case decode_segment ul parse (json_keys tags) ignore_unknown dec payload of
               None \<Rightarrow> Err ErrClaims
             | Some c \<Rightarrow> Ok c))"

section \<open>Signing\<close>

datatype sign_error = ErrSigner | MarshalFailed | SignerFailed | BadSignature

definition p256_order :: int where
  "p256_order = 0xFFFFFFFF00000000FFFFFFFFFFFFFFFFBCE6FAADA7179E84F3B9CAC2FC632551"

definition in_p256_order :: "int \<Rightarrow> bool" where
  "in_p256_order n = (0 < n \<and> n < p256_order)"

text \<open>big.Int.FillBytes into 32 bytes, most significant first.\<close>

definition fill_bytes32 :: "int \<Rightarrow> string" where
  "fill_bytes32 n = map byte_char (to_fields 8 32 (nat n))"

definition raw_signature :: "(string \<Rightarrow> ((int \<times> int) \<times> string) option) \<Rightarrow> string \<Rightarrow> string option" where
  "raw_signature asn1 der =
     (case asn1 der of
        None \<Rightarrow> None
      | Some ((r, s), rest) \<Rightarrow>
          if rest \<noteq> [] \<or> \<not> in_p256_order r \<or> \<not> in_p256_order s then None
          else Some (fill_bytes32 r @ fill_bytes32 s))"

definition sign_with ::
    "('s \<Rightarrow> bool) \<Rightarrow> (jws_header \<Rightarrow> string option) \<Rightarrow> ('c \<Rightarrow> string option) \<Rightarrow>
     ('s \<Rightarrow> string \<Rightarrow> string option) \<Rightarrow> (string \<Rightarrow> ((int \<times> int) \<times> string) option) \<Rightarrow>
     's option \<Rightarrow> jws_header \<Rightarrow> 'c \<Rightarrow> sign_error + string" where
  "sign_with p256 marshal_header marshal_claims sign_der asn1 signer h c =
     (case signer of
        None \<Rightarrow> Err ErrSigner
      | Some k \<Rightarrow>
          if \<not> p256 k then Err ErrSigner
          else (case marshal_header (h\<lparr>hdr_alg := algorithm\<rparr>) of
              None \<Rightarrow> Err MarshalFailed
            | Some hdr \<Rightarrow> (case marshal_claims c of
                None \<Rightarrow> Err MarshalFailed
              | Some p \<Rightarrow>
                  let input = b64url_enc hdr @ ''.'' @ b64url_enc p in
                  (case sign_der k input of
                     None \<Rightarrow> Err SignerFailed
                   | Some der \<Rightarrow> (case raw_signature asn1 der of
                       None \<Rightarrow> Err BadSignature
                     | Some sig \<Rightarrow> Ok (input @ ''.'' @ b64url_enc sig))))))"

section \<open>What parsing and verifying establish\<close>

lemma decode_segment_Some:
  assumes "decode_segment ul parse keys ig dec seg = Some v"
  shows "\<exists>raw j ms. b64url_dec seg = Some raw \<and> parse raw = Some j \<and> members_of j = Some ms \<and>
    unique_names j \<and> folded_ok ul j \<and> \<not> missing_required keys ms \<and>
    (unknown_key keys ms \<longrightarrow> ig) \<and> dec ms = Some v"
  using assms
  by (auto simp: decode_segment_def folded_unique_iff split: option.splits if_splits)

lemma decode_segment_enc:
  assumes "parse raw = Some j" and "members_of j = Some ms" and "unique_names j" and "folded_ok ul j"
    and "\<not> missing_required keys ms" and "\<not> unknown_key keys ms"
  shows "decode_segment ul parse keys ig dec (b64url_enc raw) = dec ms"
proof -
  have "folded_unique ul j = None" using assms(4) by (simp add: folded_unique_iff)
  with assms show ?thesis by (simp add: decode_segment_def)
qed

lemma split_three: "split_on c s = [x, y, z] \<Longrightarrow>
    s = x @ c # y @ c # z \<and> c \<notin> set x \<and> c \<notin> set y \<and> c \<notin> set z"
  using split_on_join [of c s] split_on_no_sep [of _ c s] by auto

lemma unknown_key_map_of: "\<not> unknown_key keys ms \<Longrightarrow> k \<notin> fst ` set keys \<Longrightarrow> map_of ms k = None"
  by (fastforce simp: unknown_key_def list_ex_iff map_of_eq_None_iff)

lemma header_keys_plain: "''x5c'' \<notin> fst ` set (header_keys False)"
  by (auto simp: header_keys_def)

lemma decode_header_x5c:
  "decode_header ms = Some h \<Longrightarrow> map_of ms ''x5c'' = None \<Longrightarrow> hdr_x5c h = None"
  by (auto simp: decode_header_def strings_field_def split: option.splits)

lemma jws_parse_Ok:
  assumes "jws_parse ul parse token max_len typ chained = Ok t"
  obtains p0 p1 ms where "token = p0 @ ''.'' @ p1 @ ''.'' @ tok_sig t" "tok_input t = p0 @ ''.'' @ p1"
    "CHR ''.'' \<notin> set p0" "CHR ''.'' \<notin> set p1" "CHR ''.'' \<notin> set (tok_sig t)"
    "length token \<le> max_len" "hdr_alg (tok_header t) = algorithm" "hdr_typ (tok_header t) = typ"
    "decode_header ms = Some (tok_header t)" "\<not> unknown_key (header_keys chained) ms"
    "\<not> chained \<Longrightarrow> hdr_x5c (tok_header t) = None"
proof -
  obtain p0 p1 p2 where split: "split_on (CHR ''.'') token = [p0, p1, p2]"
    using assms by (auto simp: jws_parse_def split: list.splits)
  obtain h where h: "decode_segment ul parse (header_keys chained) False decode_header p0 = Some h"
    "hdr_alg h = algorithm" "hdr_typ h = typ" "length token \<le> max_len"
    "t = \<lparr>tok_header = h, tok_input = p0 @ ''.'' @ p1, tok_sig = p2\<rparr>"
    using assms by (auto simp: jws_parse_def split split: option.splits if_splits)
  obtain ms where ms: "decode_header ms = Some h" "\<not> unknown_key (header_keys chained) ms"
    using decode_segment_Some [OF h(1)] by auto
  have "hdr_x5c h = None" if "\<not> chained"
    using ms that unknown_key_map_of [OF ms(2)] header_keys_plain decode_header_x5c by auto
  then show ?thesis
    using that [of p0 p1 ms] split_three [OF split] h ms by auto
qed

text \<open>The claims come from the payload the signature covers.\<close>

lemma jws_verify_Ok:
  assumes "jws_verify ul parse es256 tags dec ig t key = Ok c"
  obtains sig where "b64url_dec (tok_sig t) = Some sig" "es256 (tok_input t) sig key"
    "decode_segment ul parse (json_keys tags) ig dec (fst (snd (cut_at (CHR ''.'') (tok_input t)))) = Some c"
  using assms by (auto simp: jws_verify_def Let_def split: option.splits if_splits)

section \<open>What signing produces\<close>

text \<open>json.Marshal of a header: its members in field order, an empty x5c left out.\<close>

definition header_json :: "jws_header \<Rightarrow> json" where
  "header_json h = JObj ([(''alg'', JStr (hdr_alg h)), (''typ'', JStr (hdr_typ h)), (''kid'', JStr (hdr_kid h))] @
     (case hdr_x5c h of
        None \<Rightarrow> []
      | Some [] \<Rightarrow> []
      | Some xs \<Rightarrow> [(''x5c'', JArr (map JStr xs))]))"

definition sent_header :: "jws_header \<Rightarrow> jws_header" where
  "sent_header h = h\<lparr>hdr_alg := algorithm, hdr_x5c := (if hdr_x5c h = Some [] then None else hdr_x5c h)\<rparr>"

lemma header_keys_eval:
  "header_keys True = [(''alg'', True), (''typ'', True), (''kid'', True), (''x5c'', False)]"
  "header_keys False = [(''alg'', True), (''typ'', True), (''kid'', True)]"
  by (simp_all add: header_keys_def json_keys_def header_tags_def)

lemma ascii_keys_lower:
  "to_lower ul ''alg'' = ''alg''" "to_lower ul ''typ'' = ''typ''" "to_lower ul ''kid'' = ''kid''"
  "to_lower ul ''x5c'' = ''x5c''"
  by (simp_all add: to_lower_def is_ascii_def ascii_lower_def upper_letters_def)

lemma folded_strings [simp]: "folded_ok_all ul (map JStr xs)" "unique_all (map JStr xs)"
  by (induction xs) auto

lemma those_strings [simp]: "those (map (json_string \<circ> JStr) xs) = Some xs"
  by (induction xs) auto

lemma header_json_decodes:
  assumes "chained \<or> hdr_x5c h = None \<or> hdr_x5c h = Some []"
    and "parse raw = Some (header_json (h :: jws_header))"
  shows "decode_segment ul parse (header_keys chained) False decode_header (b64url_enc raw) =
    Some (h\<lparr>hdr_x5c := (if hdr_x5c h = Some [] then None else hdr_x5c h)\<rparr>)"
proof -
  obtain ms where j: "header_json h = JObj ms" by (simp add: header_json_def)
  have "unique_names (header_json h)" "folded_ok ul (header_json h)"
    by (auto simp: header_json_def ascii_keys_lower split: option.splits list.splits)
  moreover have "\<not> missing_required (header_keys chained) ms"
    using j by (cases chained)
      (auto simp: header_json_def missing_required_def header_keys_eval split: option.splits list.splits)
  moreover have "\<not> unknown_key (header_keys chained) ms"
    using j assms(1) by (cases chained)
      (auto simp: header_json_def unknown_key_def header_keys_eval split: option.splits list.splits)
  moreover have "decode_header ms = Some (h\<lparr>hdr_x5c := (if hdr_x5c h = Some [] then None else hdr_x5c h)\<rparr>)"
  proof -
    consider "hdr_x5c h = None" | "hdr_x5c h = Some []" | x xs where "hdr_x5c h = Some (x # xs)"
      by (metis list.exhaust option.exhaust)
    then show ?thesis
      using j by cases (auto simp: header_json_def decode_header_def string_field_def strings_field_def)
  qed
  ultimately show ?thesis using decode_segment_enc [where parse = parse and dec = decode_header, OF assms(2), of ms] j by simp
qed

lemma sign_with_Ok:
  assumes "sign_with p256 mh mc sd asn1 signer h c = Ok token"
  obtains k hdr p der sig where "signer = Some k" "p256 k" "mh (h\<lparr>hdr_alg := algorithm\<rparr>) = Some hdr"
    "mc c = Some p" "sd k (b64url_enc hdr @ ''.'' @ b64url_enc p) = Some der"
    "raw_signature asn1 der = Some sig"
    "token = (b64url_enc hdr @ ''.'' @ b64url_enc p) @ ''.'' @ b64url_enc sig"
  using assms by (auto simp: sign_with_def Let_def split: option.splits if_splits)

lemma fill_bytes_value:
  assumes "in_p256_order n"
  shows "length (fill_bytes32 n) = 32" "of_fields 8 (map code (fill_bytes32 n)) = nat n"
proof -
  show "length (fill_bytes32 n) = 32" by (simp add: fill_bytes32_def)
  have "map (code \<circ> byte_char) (to_fields 8 32 (nat n)) = to_fields 8 32 (nat n)"
    using to_fields_bound [of _ 8 32 "nat n"] by (intro map_idI) simp
  moreover have "nat n < 2 ^ (8 * 32)"
    using assms by (simp add: in_p256_order_def p256_order_def nat_less_iff)
  ultimately show "of_fields 8 (map code (fill_bytes32 n)) = nat n"
    by (simp add: fill_bytes32_def of_to_fields)
qed

lemma raw_signature_length: "raw_signature asn1 der = Some sig \<Longrightarrow> length sig = 64"
  by (auto simp: raw_signature_def fill_bytes_value(1) split: option.splits if_splits)

text \<open>A signed token parses back to its header and verifies to its claims.\<close>

lemma jws_sign_parse:
  assumes token: "sign_with p256 mh mc sd asn1 signer h c = Ok token"
    and len: "length token \<le> max_len"
    and x5c: "chained \<or> hdr_x5c h = None \<or> hdr_x5c h = Some []"
    and header: "\<And>raw. mh (h\<lparr>hdr_alg := algorithm\<rparr>) = Some raw \<Longrightarrow>
      parse raw = Some (header_json (h\<lparr>hdr_alg := algorithm\<rparr>))"
  shows "\<exists>t. jws_parse ul parse token max_len (hdr_typ (h :: jws_header)) chained = Ok t \<and>
    tok_header t = sent_header h \<and> token = tok_input t @ ''.'' @ tok_sig t"
proof -
  obtain k hdr p der sig where t: "mh (h\<lparr>hdr_alg := algorithm\<rparr>) = Some hdr"
    "token = (b64url_enc hdr @ ''.'' @ b64url_enc p) @ ''.'' @ b64url_enc sig"
    using sign_with_Ok [OF token] by metis
  have "split_on (CHR ''.'') token = [b64url_enc hdr, b64url_enc p, b64url_enc sig]"
    using t(2) by (simp add: split_on_append split_on_id b64url_no_dot)
  moreover have "decode_segment ul parse (header_keys chained) False decode_header (b64url_enc hdr) =
      Some (sent_header h)"
    using header_json_decodes [where parse = parse, OF _ header [OF t(1)], of chained ul] x5c
    by (simp add: sent_header_def)
  ultimately show ?thesis
    using len t(2) by (simp add: jws_parse_def sent_header_def algorithm_def)
qed

lemma jws_sign_verify:
  assumes token: "sign_with p256 mh mc sd asn1 (Some k) h c = Ok token"
    and t: "token = tok_input t @ ''.'' @ tok_sig t" "CHR ''.'' \<notin> set (tok_sig t)"
    and payload: "\<And>raw. mc c = Some raw \<Longrightarrow> \<exists>j ms. parse raw = Some j \<and> members_of j = Some ms \<and>
      unique_names j \<and> folded_ok ul j \<and> \<not> missing_required (json_keys tags) ms \<and>
      \<not> unknown_key (json_keys tags) ms \<and> dec ms = Some c"
    and key: "\<And>input der sig. sd k input = Some der \<Longrightarrow> raw_signature asn1 der = Some sig \<Longrightarrow>
      es256 input sig key"
  shows "jws_verify ul parse es256 tags dec ig t key = Ok c"
proof -
  obtain hdr p der sig where s: "mc c = Some p" "sd k (b64url_enc hdr @ ''.'' @ b64url_enc p) = Some der"
    "raw_signature asn1 der = Some sig"
    "token = (b64url_enc hdr @ ''.'' @ b64url_enc p) @ ''.'' @ b64url_enc sig"
    using sign_with_Ok [OF token] by (metis option.inject)
  have "cut_last (CHR ''.'') token = Some (tok_input t, tok_sig t)"
    using t by (simp add: cut_last_Some)
  moreover have "cut_last (CHR ''.'') token = Some (b64url_enc hdr @ ''.'' @ b64url_enc p, b64url_enc sig)"
    using s(4) by (simp add: cut_last_Some b64url_no_dot)
  ultimately have ti: "tok_input t = b64url_enc hdr @ ''.'' @ b64url_enc p" "tok_sig t = b64url_enc sig"
    by auto
  obtain j ms where j: "parse p = Some j" "members_of j = Some ms" "unique_names j" "folded_ok ul j"
    "\<not> missing_required (json_keys tags) ms" "\<not> unknown_key (json_keys tags) ms" "dec ms = Some c"
    using payload [OF s(1)] by blast
  have "fst (snd (cut_at (CHR ''.'') (tok_input t))) = b64url_enc p"
    using ti by (simp add: cut_at_append b64url_no_dot)
  then show ?thesis
    using key [OF s(2,3)] ti decode_segment_enc [where parse = parse and dec = dec, OF j(1-6)] j(7) by (simp add: jws_verify_def)
qed

section \<open>Properties\<close>

text \<open>
  The token loop of foldedUnique refuses exactly the JSON values in which some object, at any
  depth, has two keys equal after lower-casing: its tracking of open objects and of key positions
  on the decoder's stack computes that recursive property.
\<close>

theorem folded_unique_exact: "folded_unique ulower j = None \<longleftrightarrow> folded_ok ulower j"
  by (rule folded_unique_iff)

text \<open>
  What Sign produces, Parse and Verify accept. If the JSON reader reads back what was marshalled,
  the claims decode, and the key accepts what its signer signs, then a token within the length limit
  parses to the header that was signed, with ES256 set, and verifies to the claims.
\<close>

theorem sign_then_verify:
  fixes h :: jws_header
  assumes "sign_with p256 mh mc sd asn1 (Some k) h c = Ok token" and "length token \<le> max_len"
    and "chained \<or> hdr_x5c h = None"
    and "mh (h\<lparr>hdr_alg := algorithm\<rparr>) = Some hraw"
    and "parse hraw = Some (header_json (h\<lparr>hdr_alg := algorithm\<rparr>))"
    and "mc c = Some praw" and "parse praw = Some (JObj ms)"
    and "unique_names (JObj ms)" and "folded_ok ulower (JObj ms)"
    and "\<not> missing_required (json_keys tags) ms" and "\<not> unknown_key (json_keys tags) ms"
    and "dec ms = Some c"
    and "\<And>input der sig. sd k input = Some der \<Longrightarrow> raw_signature asn1 der = Some sig \<Longrightarrow> es256 input sig key"
  shows "\<exists>t. jws_parse ulower parse token max_len (hdr_typ h) chained = Ok t \<and>
    tok_header t = sent_header h \<and> jws_verify ulower parse es256 tags dec ignore t key = Ok c"
proof -
  obtain t where t: "jws_parse ulower parse token max_len (hdr_typ h) chained = Ok t"
    "tok_header t = sent_header h" "token = tok_input t @ ''.'' @ tok_sig t"
    using jws_sign_parse [where parse = parse, OF assms(1,2)] assms(3-5) by (metis option.inject)
  have "CHR ''.'' \<notin> set (tok_sig t)" using jws_parse_Ok [OF t(1)] by metis
  then have "jws_verify ulower parse es256 tags dec ignore t key = Ok c"
    using assms(6-13) by (intro jws_sign_verify [OF assms(1) t(3)]) auto
  with t show ?thesis by blast
qed

lemma sign_then_verify_witness:
  "\<exists>token t. sign_with (\<lambda>k. True) (\<lambda>h. Some ''H'') (\<lambda>c. Some ''P'') (\<lambda>k input. Some ''D'')
      (\<lambda>der. Some ((1, 2), [])) (Some ()) \<lparr>hdr_alg = [], hdr_typ = ''t'', hdr_kid = ''k'', hdr_x5c = None\<rparr> () = Ok token \<and>
     jws_parse id (\<lambda>raw. if raw = ''H'' then Some (header_json \<lparr>hdr_alg = ''ES256'', hdr_typ = ''t'', hdr_kid = ''k'', hdr_x5c = None\<rparr>)
        else Some (JObj [])) token 4096 ''t'' False = Ok t \<and>
     jws_verify id (\<lambda>raw. if raw = ''H'' then Some (header_json \<lparr>hdr_alg = ''ES256'', hdr_typ = ''t'', hdr_kid = ''k'', hdr_x5c = None\<rparr>)
        else Some (JObj [])) (\<lambda>input sig key. key = ()) [] (\<lambda>ms. Some ()) False t () = Ok ()"
proof -
  let ?h = "\<lparr>hdr_alg = [], hdr_typ = ''t'', hdr_kid = ''k'', hdr_x5c = None\<rparr>"
  let ?sign = "sign_with (\<lambda>k. True) (\<lambda>h. Some ''H'') (\<lambda>c. Some ''P'') (\<lambda>k input. Some ''D'')
      (\<lambda>der. Some ((1, 2), [])) (Some ()) ?h ()"
  let ?sig = "fill_bytes32 1 @ fill_bytes32 2"
  let ?token = "(b64url_enc ''H'' @ ''.'' @ b64url_enc ''P'') @ ''.'' @ b64url_enc ?sig"
  have sig: "raw_signature (\<lambda>der. Some ((1, 2), [])) d = Some ?sig" for d
    by (simp add: raw_signature_def in_p256_order_def p256_order_def)
  then have s: "?sign = Ok ?token"
    by (simp add: sign_with_def Let_def)
  have l64: "length (b64url_enc ?sig) \<le> 4 * length ?sig"
    using b64_encode_length [of True False ?sig] by (simp only: b64url_enc_def)
  have "length (b64url_enc ''H'') \<le> 4" "length (b64url_enc ''P'') \<le> 4"
    using b64_encode_length [of True False "''H''"] b64_encode_length [of True False "''P''"]
    by (simp_all add: b64url_enc_def)
  moreover have "length ?sig = 64" by (simp add: fill_bytes_value in_p256_order_def p256_order_def)
  ultimately have len: "length ?token \<le> 4096" using l64 by simp
  let ?parse = "\<lambda>raw. if raw = ''H'' then Some (header_json \<lparr>hdr_alg = ''ES256'', hdr_typ = ''t'', hdr_kid = ''k'', hdr_x5c = None\<rparr>)
        else Some (JObj [])"
  have "\<exists>t. jws_parse id ?parse ?token 4096 (hdr_typ ?h) False = Ok t \<and> tok_header t = sent_header ?h \<and>
      jws_verify id ?parse (\<lambda>input sig key. key = ()) [] (\<lambda>ms. Some ()) False t () = Ok ()"
    by (rule sign_then_verify [OF s len, where hraw = "''H''" and praw = "''P''" and ms = "[]"])
      (auto simp: algorithm_def missing_required_def unknown_key_def json_keys_def)
  then show ?thesis using s by auto
qed

end
