(* ===== verification/ExpiryHeap.thy ===== *)
theory ExpiryHeap
  imports Prelude
begin

text \<open>
  The expiry queue of capability.Verifier: the methods of jtiHeap, and the functions of Go's
  container/heap it is used through, on a list as the backing slice. The queue contract its client
  relies on is a locale, interpreted on the heap.
\<close>

section \<open>Seen identifiers\<close>

record seen =
  seen_jti :: string
  seen_expires :: instant

type_synonym jti_heap = "seen list"

definition heap_less :: "jti_heap \<Rightarrow> nat \<Rightarrow> nat \<Rightarrow> bool" where
  "heap_less h i j = (seen_expires (h ! i) < seen_expires (h ! j))"

definition heap_swap :: "jti_heap \<Rightarrow> nat \<Rightarrow> nat \<Rightarrow> jti_heap" where
  "heap_swap h i j = h[i := h ! j, j := h ! i]"

text \<open>heap.up and heap.down.\<close>

function heap_up :: "jti_heap \<Rightarrow> nat \<Rightarrow> jti_heap" where
  "heap_up h j =
     (let i = (j - 1) div 2 in
      if i = j \<or> \<not> heap_less h j i then h else heap_up (heap_swap h i j) i)"
  by pat_completeness auto
termination by (relation "measure snd") auto

declare heap_up.simps [simp del]

function heap_down :: "jti_heap \<Rightarrow> nat \<Rightarrow> nat \<Rightarrow> jti_heap" where
  "heap_down h i n =
     (let j1 = 2 * i + 1 in
      if n \<le> j1 then h
      else let j = (if j1 + 1 < n \<and> heap_less h (j1 + 1) j1 then j1 + 1 else j1) in
        if \<not> heap_less h j i then h else heap_down (heap_swap h i j) j n)"
  by pat_completeness auto
termination by (relation "measure (\<lambda>(h, i, n). n - i)") (auto simp: Let_def)

declare heap_down.simps [simp del]

text \<open>heap.Push appends and sifts up; heap.Pop swaps the ends, sifts down and cuts the last.\<close>

definition heap_push :: "seen \<Rightarrow> jti_heap \<Rightarrow> jti_heap" where
  "heap_push x h = heap_up (h @ [x]) (length h)"

definition heap_pop :: "jti_heap \<Rightarrow> seen \<times> jti_heap" where
  "heap_pop h =
     (let n = length h - 1; g = heap_down (heap_swap h 0 n) 0 n in (last g, butlast g))"

section \<open>The heap order\<close>

text \<open>Every element below n, but those with index in a set of exceptions, is not before its parent.\<close>

definition heap_ok :: "jti_heap \<Rightarrow> nat \<Rightarrow> nat set \<Rightarrow> bool" where
  "heap_ok h n ex = (\<forall>j. 0 < j \<and> j < n \<and> j \<notin> ex \<longrightarrow>
     seen_expires (h ! ((j - 1) div 2)) \<le> seen_expires (h ! j))"

definition heap_inv :: "jti_heap \<Rightarrow> bool" where
  "heap_inv h = heap_ok h (length h) {}"

lemma length_heap_swap [simp]: "length (heap_swap h i j) = length h"
  by (simp add: heap_swap_def)

lemma nth_heap_swap:
  "i < length h \<Longrightarrow> j < length h \<Longrightarrow>
     heap_swap h i j ! k = (if k = j then h ! i else if k = i then h ! j else h ! k)"
  by (auto simp: heap_swap_def nth_list_update)

lemma mset_heap_swap [simp]: "i < length h \<Longrightarrow> j < length h \<Longrightarrow> mset (heap_swap h i j) = mset h"
  by (simp add: heap_swap_def mset_swap)

lemma length_heap_up [simp]: "length (heap_up h j) = length h"
  by (induction h j rule: heap_up.induct) (subst heap_up.simps, auto simp: Let_def)

lemma mset_heap_up: "j < length h \<Longrightarrow> mset (heap_up h j) = mset h"
proof (induction h j rule: heap_up.induct)
  case (1 h j)
  then show ?case by (subst heap_up.simps) (auto simp: Let_def)
qed

lemma length_heap_down [simp]: "length (heap_down h i n) = length h"
  by (induction h i n rule: heap_down.induct) (subst heap_down.simps, auto simp: Let_def)

lemma mset_heap_down: "n \<le> length h \<Longrightarrow> mset (heap_down h i n) = mset h"
proof (induction h i n rule: heap_down.induct)
  case (1 h i n)
  then show ?case by (subst heap_down.simps) (auto simp: Let_def)
qed

text \<open>
  Sifting up: only j may be before its parent, and its children are not before that parent. Sifting
  down is the mirror image: only the children of i may be before i.
\<close>

definition up_ok :: "jti_heap \<Rightarrow> nat \<Rightarrow> bool" where
  "up_ok h j = (heap_ok h (length h) {j} \<and>
     (\<forall>k. 0 < k \<and> k < length h \<and> (k - 1) div 2 = j \<and> 0 < j \<longrightarrow>
        seen_expires (h ! ((j - 1) div 2)) \<le> seen_expires (h ! k)))"

lemma heap_up_inv: "j < length h \<Longrightarrow> up_ok h j \<Longrightarrow> heap_inv (heap_up h j)"
proof (induction h j rule: heap_up.induct)
  case (1 h j)
  define i where "i = (j - 1) div 2"
  show ?case
  proof (cases "i = j \<or> \<not> heap_less h j i")
    case True
    then have "heap_inv h"
      using 1(3) by (auto simp: up_ok_def heap_inv_def heap_ok_def heap_less_def i_def)
    then show ?thesis using True by (subst heap_up.simps) (simp add: i_def Let_def)
  next
    case False
    then have ij: "i < j" "seen_expires (h ! j) < seen_expires (h ! i)"
      by (auto simp: i_def heap_less_def)
    have sw: "heap_swap h i j ! k = (if k = j then h ! i else if k = i then h ! j else h ! k)" for k
      using ij 1(2) by (simp add: nth_heap_swap)
    have "up_ok (heap_swap h i j) i"
      unfolding up_ok_def heap_ok_def
    proof (intro conjI allI impI)
      fix k
      assume k: "0 < k \<and> k < length (heap_swap h i j) \<and> k \<notin> {i}"
      then show "seen_expires (heap_swap h i j ! ((k - 1) div 2)) \<le> seen_expires (heap_swap h i j ! k)"
        using 1(3) ij unfolding sw up_ok_def heap_ok_def
        by (cases "k = j"; cases "(k - 1) div 2 = j"; cases "(k - 1) div 2 = i")
          (auto simp: i_def intro: order_trans less_imp_le)
    next
      fix k
      assume k: "0 < k \<and> k < length (heap_swap h i j) \<and> (k - 1) div 2 = i \<and> 0 < i"
      have "seen_expires (h ! ((i - 1) div 2)) \<le> seen_expires (h ! i)"
        using 1(2,3) ij k by (simp add: up_ok_def heap_ok_def)
      moreover have "seen_expires (h ! i) \<le> seen_expires (h ! k)" if "k \<noteq> j"
        using 1(3) k that by (auto simp: up_ok_def heap_ok_def)
      moreover have "(i - 1) div 2 < i" using k by (metis div_less_dividend diff_less le_less_trans
            div_le_dividend zero_less_one)
      ultimately show "seen_expires (heap_swap h i j ! ((i - 1) div 2)) \<le> seen_expires (heap_swap h i j ! k)"
        using ij k unfolding sw by auto
    qed
    then have "heap_inv (heap_up (heap_swap h i j) i)"
      using 1(1) [OF i_def False] 1(2) ij by simp
    then show ?thesis using False by (subst heap_up.simps) (simp add: i_def Let_def)
  qed
qed

definition down_ok :: "jti_heap \<Rightarrow> nat \<Rightarrow> nat \<Rightarrow> bool" where
  "down_ok h i n = (heap_ok h n {2 * i + 1, 2 * i + 2} \<and>
     (\<forall>k. 0 < i \<and> k < n \<and> k \<in> {2 * i + 1, 2 * i + 2} \<longrightarrow>
        seen_expires (h ! ((i - 1) div 2)) \<le> seen_expires (h ! k)))"

lemma child_of: "0 < (k :: nat) \<Longrightarrow> (k - 1) div 2 = i \<longleftrightarrow> k = 2 * i + 1 \<or> k = 2 * i + 2"
  by presburger

lemma heap_down_inv: "n \<le> length h \<Longrightarrow> down_ok h i n \<Longrightarrow> heap_ok (heap_down h i n) n {}"
proof (induction h i n rule: heap_down.induct)
  case (1 h i n)
  define j1 where "j1 = 2 * i + 1"
  define j where "j = (if j1 + 1 < n \<and> heap_less h (j1 + 1) j1 then j1 + 1 else j1)"
  have ok: "seen_expires (h ! ((k - 1) div 2)) \<le> seen_expires (h ! k)"
    if "0 < k" "k < n" "k \<notin> {2 * i + 1, 2 * i + 2}" for k
    using 1(3) that by (simp add: down_ok_def heap_ok_def)
  show ?case
  proof (cases "n \<le> j1 \<or> \<not> heap_less h j i")
    case True
    have "seen_expires (h ! i) \<le> seen_expires (h ! k)" if "k < n" "k \<in> {2 * i + 1, 2 * i + 2}" for k
      using True that by (auto simp: j_def j1_def heap_less_def split: if_splits)
    then have "heap_ok h n {}"
      unfolding heap_ok_def using ok child_of by (metis empty_iff insert_iff)
    moreover have "heap_down h i n = h"
      using True by (subst heap_down.simps) (auto simp: Let_def j_def j1_def)
    ultimately show ?thesis by simp
  next
    case False
    have j: "j < n" "i < j" "j \<in> {2 * i + 1, 2 * i + 2}" "seen_expires (h ! j) < seen_expires (h ! i)"
      using False by (auto simp: j_def j1_def heap_less_def)
    have least: "seen_expires (h ! j) \<le> seen_expires (h ! k)" if "k < n" "k \<in> {2 * i + 1, 2 * i + 2}" for k
      using that by (auto simp: j_def j1_def heap_less_def split: if_splits)
    have par: "(j - 1) div 2 = i" using j child_of [of j i] by auto
    have sw: "heap_swap h i j ! k = (if k = j then h ! i else if k = i then h ! j else h ! k)" for k
      using j 1(2) by (simp add: nth_heap_swap)
    have "down_ok (heap_swap h i j) j n"
      unfolding down_ok_def heap_ok_def
    proof (intro conjI allI impI)
      fix k
      assume k: "0 < k \<and> k < n \<and> k \<notin> {2 * j + 1, 2 * j + 2}"
      then have kj: "(k - 1) div 2 \<noteq> j" using child_of by blast
      show "seen_expires (heap_swap h i j ! ((k - 1) div 2)) \<le> seen_expires (heap_swap h i j ! k)"
      proof (cases "k \<in> {2 * i + 1, 2 * i + 2}")
        case True
        then have "k = 2 * i + 1 \<or> k = 2 * i + 2" by simp
        then have pk: "(k - 1) div 2 = i" using k child_of [of k i] by (simp only:)
        have "heap_swap h i j ! ((k - 1) div 2) = h ! j"
          unfolding pk sw using j(2) by (simp only: less_irrefl_nat if_True if_False split: if_split) blast
        moreover have "k \<noteq> i" using True by auto
        moreover have "seen_expires (h ! j) \<le> seen_expires (h ! k)" using least True k by blast
        moreover have "heap_swap h i j ! k = (if k = j then h ! i else h ! k)"
          using \<open>k \<noteq> i\<close> by (simp only: sw if_False)
        ultimately show ?thesis using j(4) by (simp only: split: if_split) (simp add: less_imp_le)
      next
        case F: False
        then have "(k - 1) div 2 \<noteq> i" using k child_of by blast
        moreover have "k = i \<Longrightarrow> seen_expires (h ! ((i - 1) div 2)) \<le> seen_expires (h ! j)"
          using 1(3) k j by (simp add: down_ok_def)
        moreover have "k \<noteq> j" using F j by auto
        moreover have "heap_swap h i j ! ((k - 1) div 2) = h ! ((k - 1) div 2)"
          using kj calculation(1) by (simp only: sw if_False)
        moreover have "seen_expires (h ! ((k - 1) div 2)) \<le> seen_expires (h ! k)"
          using ok [of k] k F by blast
        moreover have "heap_swap h i j ! k = (if k = i then h ! j else h ! k)"
          using \<open>k \<noteq> j\<close> by (simp only: sw if_False)
        ultimately show ?thesis by (simp only: split: if_split) blast
      qed
    next
      fix k
      assume k: "0 < j \<and> k < n \<and> k \<in> {2 * j + 1, 2 * j + 2}"
      then have "(k - 1) div 2 = j" using child_of by auto
      moreover have "k \<notin> {2 * i + 1, 2 * i + 2}" "k \<noteq> i" "k \<noteq> j" "0 < k" using k j by auto
      ultimately show "seen_expires (heap_swap h i j ! ((j - 1) div 2)) \<le> seen_expires (heap_swap h i j ! k)"
        unfolding sw using ok [of k] k j par by auto
    qed
    moreover have "heap_down h i n = heap_down (heap_swap h i j) j n"
      using False by (subst heap_down.simps) (auto simp: Let_def j_def j1_def)
    moreover have "down_ok (heap_swap h i j) j n \<Longrightarrow> heap_ok (heap_down (heap_swap h i j) j n) n {}"
      using 1(1) [OF j1_def [symmetric, THEN sym] _ j_def [symmetric, THEN sym]] False 1(2) j
      by (simp add: j1_def)
    ultimately show ?thesis by simp
  qed
qed

lemma heap_down_above: "n \<le> k \<Longrightarrow> n \<le> length h \<Longrightarrow> heap_down h i n ! k = h ! k"
proof (induction h i n rule: heap_down.induct)
  case (1 h i n)
  then show ?case by (subst heap_down.simps) (auto simp: Let_def nth_heap_swap)
qed

lemma heap_min: "heap_inv h \<Longrightarrow> k < length h \<Longrightarrow> seen_expires (h ! 0) \<le> seen_expires (h ! k)"
proof (induction k rule: less_induct)
  case (less k)
  show ?case
  proof (cases "k = 0")
    case False
    then have "(k - 1) div 2 < k" by auto
    then have "seen_expires (h ! 0) \<le> seen_expires (h ! ((k - 1) div 2))" using less by simp
    also have "\<dots> \<le> seen_expires (h ! k)"
      using less(2,3) False by (simp add: heap_inv_def heap_ok_def)
    finally show ?thesis .
  qed simp
qed

lemma heap_push_inv:
  assumes "heap_inv h"
  shows "heap_inv (heap_push x h)" "mset (heap_push x h) = add_mset x (mset h)"
proof -
  have "(k - 1) div 2 \<noteq> length h" if "k < Suc (length h)" "0 < k" for k
    using that child_of [of k "length h"] by auto
  then have "up_ok (h @ [x]) (length h)"
    using assms by (auto simp: up_ok_def heap_ok_def heap_inv_def nth_append)
  then show "heap_inv (heap_push x h)" by (simp add: heap_push_def heap_up_inv)
  show "mset (heap_push x h) = add_mset x (mset h)" by (simp add: heap_push_def mset_heap_up)
qed

lemma heap_pop_inv:
  assumes "heap_inv h" and "h \<noteq> []" and "heap_pop h = (x, h')"
  shows "x = h ! 0" "heap_inv h'" "mset h = add_mset x (mset h')"
proof -
  define n where "n = length h - 1"
  define g where "g = heap_down (heap_swap h 0 n) 0 n"
  have n: "n < length h" "0 < length h" using assms(2) by (auto simp: n_def)
  have xh: "x = last g" "h' = butlast g" using assms(3) by (auto simp: heap_pop_def g_def n_def Let_def)
  have len: "length g = Suc n" using n by (simp add: g_def n_def)
  then have "g \<noteq> []" by auto
  then have g: "g \<noteq> []" "g = h' @ [x]" using xh by simp_all
  have "last g = g ! n" using g(1) len by (simp add: last_conv_nth)
  also have "\<dots> = h ! 0" using n by (simp add: g_def heap_down_above nth_heap_swap)
  finally show x: "x = h ! 0" using xh by simp
  have "down_ok (heap_swap h 0 n) 0 n"
    using assms(1) n by (auto simp: down_ok_def heap_ok_def heap_inv_def nth_heap_swap)
  then have "heap_ok g n {}" using n by (simp add: g_def heap_down_inv)
  then show "heap_inv h'"
    using len xh by (auto simp: heap_inv_def heap_ok_def nth_butlast)
  have "mset g = mset h" using n by (simp add: g_def mset_heap_down)
  then show "mset h = add_mset x (mset h')" using g(2) by simp
qed

section \<open>The queue contract\<close>

text \<open>
  What the verifier relies on: pushing adds one element, the front is a least element, and popping
  removes it.
\<close>

locale expiry_queue =
  fixes q_inv :: "'q \<Rightarrow> bool" and q_elems :: "'q \<Rightarrow> seen multiset"
    and q_front :: "'q \<Rightarrow> seen option" and q_push :: "seen \<Rightarrow> 'q \<Rightarrow> 'q" and q_pop :: "'q \<Rightarrow> seen \<times> 'q"
  assumes push: "q_inv q \<Longrightarrow> q_inv (q_push x q) \<and> q_elems (q_push x q) = add_mset x (q_elems q)"
    and front_None: "q_inv q \<Longrightarrow> q_front q = None \<longleftrightarrow> q_elems q = {#}"
    and front_least: "q_inv q \<Longrightarrow> q_front q = Some x \<Longrightarrow> y \<in># q_elems q \<Longrightarrow> seen_expires x \<le> seen_expires y"
    and pop: "q_inv q \<Longrightarrow> q_front q = Some x \<Longrightarrow> q_pop q = (y, q') \<Longrightarrow>
      y = x \<and> q_inv q' \<and> q_elems q = add_mset x (q_elems q')"
begin

text \<open>
  Pruning at an instant: pop while the front has expired. The elements popped, and the queue left;
  the fuel is a bound on the size.
\<close>

fun prune :: "nat \<Rightarrow> instant \<Rightarrow> 'q \<Rightarrow> seen list \<times> 'q" where
  "prune 0 now q = ([], q)"
| "prune (Suc k) now q =
     (case q_front q of
        None \<Rightarrow> ([], q)
      | Some x \<Rightarrow>
          if seen_expires x < now then
            (let (y, q') = q_pop q; (ys, q'') = prune k now q' in (y # ys, q''))
          else ([], q))"

text \<open>Pruning removes exactly the expired elements.\<close>

lemma prune_exact:
  assumes "q_inv q" and "size (q_elems q) \<le> k" and "prune k now q = (ys, q')"
  shows "q_inv q' \<and> q_elems q' = {#x \<in># q_elems q. \<not> seen_expires x < now#} \<and>
    mset ys = {#x \<in># q_elems q. seen_expires x < now#}"
  using assms
proof (induction k arbitrary: q ys q')
  case 0
  then show ?case by simp
next
  case (Suc k)
  show ?case
  proof (cases "q_front q")
    case None
    then show ?thesis using Suc.prems front_None [of q] by simp
  next
    case (Some x)
    show ?thesis
    proof (cases "seen_expires x < now")
      case True
      obtain y q1 where p: "q_pop q = (y, q1)" by force
      obtain zs q2 where r: "prune k now q1 = (zs, q2)" by force
      have q1: "y = x" "q_inv q1" "q_elems q = add_mset x (q_elems q1)"
        using pop [OF Suc.prems(1) Some p] by auto
      have "ys = x # zs" "q' = q2" using Suc.prems(3) Some True p q1 r by auto
      moreover have "size (q_elems q1) \<le> k" using Suc.prems(2) q1(3) by simp
      ultimately show ?thesis
        using Suc.IH [OF q1(2) _ r] True unfolding q1(3) by simp
    next
      case False
      have none: "\<not> seen_expires y < now" if "y \<in># q_elems q" for y
        using front_least [OF Suc.prems(1) Some that] False by simp
      then have "{#x \<in># q_elems q. \<not> seen_expires x < now#} = q_elems q"
        "{#x \<in># q_elems q. seen_expires x < now#} = {#}"
        by (auto simp: filter_mset_eq_conv)
      then show ?thesis using Suc.prems Some False by simp
    qed
  qed
qed

end

definition heap_front :: "jti_heap \<Rightarrow> seen option" where
  "heap_front h = (if length h > 0 then Some (h ! 0) else None)"

interpretation jti_queue: expiry_queue heap_inv mset heap_front heap_push heap_pop
proof
  show "heap_inv q \<Longrightarrow> heap_inv (heap_push x q) \<and> mset (heap_push x q) = add_mset x (mset q)" for q x
    using heap_push_inv by blast
  show "heap_inv q \<Longrightarrow> heap_front q = None \<longleftrightarrow> mset q = {#}" for q
    by (simp add: heap_front_def)
  show "heap_inv q \<Longrightarrow> heap_front q = Some x \<Longrightarrow> y \<in># mset q \<Longrightarrow> seen_expires x \<le> seen_expires y" for q x y
    using heap_min by (auto simp: heap_front_def in_set_conv_nth split: if_splits)
  show "heap_inv q \<Longrightarrow> heap_front q = Some x \<Longrightarrow> heap_pop q = (y, q') \<Longrightarrow>
      y = x \<and> heap_inv q' \<and> mset q = add_mset x (mset q')" for q x y q'
    using heap_pop_inv by (fastforce simp: heap_front_def split: if_splits)
qed

end
