(* ===== verification/Capability.thy ===== *)
theory Capability
  imports Chain Jws ExpiryHeap "HOL-Library.List_Lexorder" "HOL-Library.Char_ord"
begin

text \<open>
  connector-lib/capability/capability.go: signing and verifying capabilities, the verifier's count
  of opens per identifier with its expiry queue, and the loading of the trust it holds. What the
  code calls outside the repository's logic is a record of functions: reading JSON text, lowering
  non-ASCII text, the ES256 check, X.509 parsing and chain verification.
\<close>

record 'k externals =
  ex_parse :: "string \<Rightarrow> json option"
  ex_lower :: "string \<Rightarrow> string"
  ex_es256 :: "string \<Rightarrow> string \<Rightarrow> 'k \<Rightarrow> bool"
  ex_x509_parse :: "string \<Rightarrow> 'k cert option"
  ex_x509_verify :: "'k cert \<Rightarrow> 'k cert list \<Rightarrow> 'k cert list \<Rightarrow> instant \<Rightarrow> string \<Rightarrow> bool"

section \<open>Claims\<close>

definition audience :: string where "audience = ''traversal-raw-tunnel''"
definition token_type :: string where "token_type = ''traversal-capability+jwt''"
definition subject_integration_proxy :: string where "subject_integration_proxy = ''integration-proxy''"
definition max_lifetime_seconds :: int where "max_lifetime_seconds = 300"
definition max_clock_skew :: duration where "max_clock_skew = 30 * nanos"
definition max_token_len :: nat where "max_token_len = 4096"
definition max_opens :: nat where "max_opens = 4"

record claims =
  cl_iss :: string
  cl_aud :: string
  cl_sub :: string
  cl_organization_id :: string
  cl_integration_id :: string
  cl_connector_id :: string
  cl_consumer_id :: string
  cl_session_id :: string
  cl_host :: string
  cl_port :: u16
  cl_jti :: string
  cl_iat :: i64
  cl_exp :: i64

definition claims_tags :: "string list" where
  "claims_tags = [''iss'', ''aud'', ''sub'', ''organization_id'', ''integration_id'', ''connector_id'',
     ''consumer_id'', ''session_id'', ''host'', ''port'', ''jti'', ''iat'', ''exp'']"

text \<open>jsonv2.Unmarshal into Claims.\<close>

definition u16_field :: "(string \<times> json) list \<Rightarrow> string \<Rightarrow> u16 option" where
  "u16_field ms k = (case map_of ms k of None \<Rightarrow> Some 0 | Some JNull \<Rightarrow> Some 0 | Some j \<Rightarrow> json_u16 j)"

definition i64_field :: "(string \<times> json) list \<Rightarrow> string \<Rightarrow> i64 option" where
  "i64_field ms k = (case map_of ms k of None \<Rightarrow> Some 0 | Some JNull \<Rightarrow> Some 0 | Some j \<Rightarrow> json_i64 j)"

definition decode_claims :: "(string \<times> json) list \<Rightarrow> claims option" where
  "decode_claims ms =
     (case (those (map (string_field ms) [''iss'', ''aud'', ''sub'', ''organization_id'',
          ''integration_id'', ''connector_id'', ''consumer_id'', ''session_id'', ''host'', ''jti'']),
        u16_field ms ''port'', i64_field ms ''iat'', i64_field ms ''exp'') of
        (Some [iss, aud, sub, org, integ, conn, cons, sess, host, jti], Some port, Some iat, Some exp) \<Rightarrow>
          Some \<lparr>cl_iss = iss, cl_aud = aud, cl_sub = sub, cl_organization_id = org,
            cl_integration_id = integ, cl_connector_id = conn, cl_consumer_id = cons,
            cl_session_id = sess, cl_host = host, cl_port = port, cl_jti = jti, cl_iat = iat, cl_exp = exp\<rparr>
      | _ \<Rightarrow> None)"

text \<open>
  Claims.valid. The window is int64 arithmetic on seconds; the guards before it keep it from
  wrapping.
\<close>

definition required_claims :: "claims \<Rightarrow> string list" where
  "required_claims c = [cl_iss c, cl_aud c, cl_sub c, cl_organization_id c, cl_integration_id c,
     cl_connector_id c, cl_consumer_id c, cl_session_id c, cl_jti c]"

definition claims_valid :: "(string \<Rightarrow> string) \<Rightarrow> claims \<Rightarrow> pipe_error option" where
  "claims_valid ul c =
     (if \<exists>s \<in> set (required_claims c). s = [] \<or> 256 < length s then
        Some (reject ''a claim is empty or too long'')
      else if \<not> has_prefix issuer_prefix (cl_iss c) \<or> cl_aud c \<noteq> audience then
        Some (reject ''wrong issuer or audience'')
      else if \<not> is_canonical ul (cl_host c) \<or> cl_port c = 0 then
        Some (reject ''destination is not canonical'')
      else if sint (cl_iat c) \<le> 0 \<or> sint (cl_exp c) \<le> sint (cl_iat c) \<or>
          max_lifetime_seconds < sint (cl_exp c - cl_iat c) then
        Some (reject ''bad validity window'')
      else None)"

section \<open>Signing\<close>

text \<open>sign: jws.Sign behind the shape check; \<open>jws_sign\<close> is the token of a header and claims.\<close>

definition sign_claims ::
    "(string \<Rightarrow> string) \<Rightarrow> (jws_header \<Rightarrow> claims \<Rightarrow> sign_error + string) \<Rightarrow> jws_header \<Rightarrow> claims \<Rightarrow>
     (pipe_error + sign_error) + string" where
  "sign_claims ul jws_sign h c =
     (case claims_valid ul c of
        Some e \<Rightarrow> Err (Inl e)
      | None \<Rightarrow> (case jws_sign h c of Inl e \<Rightarrow> Err (Inr e) | Inr t \<Rightarrow> Ok t))"

definition plain_header :: "string \<Rightarrow> jws_header" where
  "plain_header kid = \<lparr>hdr_alg = [], hdr_typ = token_type, hdr_kid = kid, hdr_x5c = None\<rparr>"

definition sign_chained ::
    "(string \<Rightarrow> string) \<Rightarrow> (jws_header \<Rightarrow> claims \<Rightarrow> sign_error + string) \<Rightarrow> string \<Rightarrow> string list \<Rightarrow>
     claims \<Rightarrow> (pipe_error + sign_error) + string" where
  "sign_chained ul jws_sign kid x5c c =
     (if x5c = [] \<or> max_chain_certs < length x5c \<or> max_chain_bytes < sum_list (map length x5c) then
        Err (Inl (OtherError ''capability: x5c must be 1 to 2 certificates, at most 1536 bytes''))
      else sign_claims ul jws_sign ((plain_header kid)\<lparr>hdr_x5c := Some (map b64std_enc x5c)\<rparr>) c)"

text \<open>Signer.Sign: chained if it has a chain.\<close>

definition signer_sign ::
    "(string \<Rightarrow> string) \<Rightarrow> (jws_header \<Rightarrow> claims \<Rightarrow> sign_error + string) \<Rightarrow> string \<Rightarrow> string list \<Rightarrow>
     claims \<Rightarrow> (pipe_error + sign_error) + string" where
  "signer_sign ul jws_sign kid chain c =
     (if length chain > 0 then sign_chained ul jws_sign kid chain c
      else sign_claims ul jws_sign (plain_header kid) c)"

section \<open>The verifier\<close>

record 'k verifier =
  v_issuer :: string
  v_keys :: "string \<Rightarrow> 'k option"
  v_chains :: "'k chains option"
  v_subject :: string
  v_opens :: "string \<Rightarrow> nat option"
  v_expiry :: jti_heap

text \<open>NewVerifier. A configured key may be nil or on another curve.\<close>

record 'k verifier_config =
  vc_issuer :: string
  vc_subject :: string
  vc_keys :: "(string \<times> 'k pub_key option) list"
  vc_roots :: "'k cert option list"
  vc_controller_host :: string

fun p256_of :: "'k pub_key option \<Rightarrow> 'k option" where
  "p256_of (Some (P256 k)) = Some k"
| "p256_of _ = None"

definition new_verifier :: "(string \<Rightarrow> string) \<Rightarrow> 'k verifier_config \<Rightarrow> string + 'k verifier" where
  "new_verifier ul cfg =
     (if vc_subject cfg = [] then Err ''capability: a subject is required''
      else if vc_keys cfg = [] \<and> vc_roots cfg = [] then Err ''capability: a key or a root is required''
      else if vc_keys cfg \<noteq> [] \<and> vc_issuer cfg = [] then
        Err ''capability: an issuer is required with keys''
      else if \<exists>(kid, k) \<in> set (vc_keys cfg). kid = [] \<or> p256_of k = None then
        Err ''capability: keys must be P-256 with a kid''
      else
        let v = \<lparr>v_issuer = vc_issuer cfg,
                 v_keys = (\<lambda>kid. Option.bind (map_of (vc_keys cfg) kid) p256_of),
                 v_chains = None, v_subject = vc_subject cfg, v_opens = Map.empty, v_expiry = []\<rparr> in
        if vc_roots cfg \<noteq> [] then
          (case new_chains ul (vc_roots cfg) (vc_controller_host cfg) of
             Inl e \<Rightarrow> Err e | Inr ch \<Rightarrow> Ok (v\<lparr>v_chains := Some ch\<rparr>))
        else Ok v)"

text \<open>take: prune the expired identifiers, then count one open within the limit.\<close>

lemma heap_pop_shorter: "h \<noteq> [] \<Longrightarrow> length (snd (heap_pop h)) < length h"
  by (cases h) (simp_all add: heap_pop_def Let_def)

function prune_loop ::
    "instant \<Rightarrow> (string \<Rightarrow> nat option) \<Rightarrow> jti_heap \<Rightarrow> (string \<Rightarrow> nat option) \<times> jti_heap" where
  "prune_loop now opens h =
     (if h \<noteq> [] \<and> seen_expires (h ! 0) < now then
        prune_loop now (opens(seen_jti (fst (heap_pop h)) := None)) (snd (heap_pop h))
      else (opens, h))"
  by pat_completeness auto
termination by (relation "measure (\<lambda>(now, opens, h). length h)") (auto simp: heap_pop_shorter)

declare prune_loop.simps [simp del]

definition opens_count :: "(string \<Rightarrow> nat option) \<Rightarrow> string \<Rightarrow> nat" where
  "opens_count opens j = (case opens j of None \<Rightarrow> 0 | Some n \<Rightarrow> n)"

definition take_open :: "string \<Rightarrow> instant \<Rightarrow> instant \<Rightarrow> 'k verifier \<Rightarrow> 'k verifier \<times> bool" where
  "take_open jti expires now v =
     (let (opens, h) = prune_loop now (v_opens v) (v_expiry v); n = opens_count opens jti in
      if max_opens \<le> n then (v\<lparr>v_opens := opens, v_expiry := h\<rparr>, False)
      else (v\<lparr>v_opens := opens(jti \<mapsto> n + 1),
              v_expiry := (if n = 0 then heap_push \<lparr>seen_jti = jti, seen_expires = expires\<rparr> h else h)\<rparr>, True))"

text \<open>signingKey: the key that must have signed, and the issuer the claims must carry.\<close>

definition signing_key ::
    "'k externals \<Rightarrow> 'k verifier \<Rightarrow> jws_header \<Rightarrow> instant \<Rightarrow> pipe_error + ('k \<times> string)" where
  "signing_key ex v h now =
     (let pinned = v_keys v (hdr_kid h) in
      case (hdr_x5c h, v_chains v) of
        (Some x5c, Some ch) \<Rightarrow>
          (case parse_chain (ex_x509_parse ex) x5c of
             Inl e \<Rightarrow> Err e
           | Inr certs \<Rightarrow>
               (case check_environment_certificate (ex_x509_verify ex) certs (Some (ch_roots ch)) (ch_host ch) now of
                  Inl e \<Rightarrow> Err e
                | Inr (key, issuer) \<Rightarrow>
                    if pinned \<noteq> None \<and> pinned \<noteq> Some key then
                      Err (reject ''kid names a pinned key the x5c certificate does not certify'')
                    else Ok (key, issuer)))
      | _ \<Rightarrow>
          (case pinned of
             Some k \<Rightarrow> Ok (k, v_issuer v)
           | None \<Rightarrow>
               if hdr_x5c h \<noteq> None then Err (reject ''x5c, and this verifier trusts no roots'')
               else Err (reject ''unknown kid'')))"

fun jws_error_text :: "jws_error \<Rightarrow> string" where
  "jws_error_text ErrMalformed = ''not a compact JWS''"
| "jws_error_text ErrHeader = ''bad header''"
| "jws_error_text ErrSignature = ''bad signature''"
| "jws_error_text ErrClaims = ''bad claims''"

definition parse_capability ::
    "'k externals \<Rightarrow> 'k verifier \<Rightarrow> string \<Rightarrow> instant \<Rightarrow> pipe_error + (claims \<times> string)" where
  "parse_capability ex v token now =
     (case jws_parse (ex_lower ex) (ex_parse ex) token max_token_len token_type True of
        Inl e \<Rightarrow> Err (reject (jws_error_text e))
      | Inr t \<Rightarrow>
          (case signing_key ex v (tok_header t) now of
             Inl e \<Rightarrow> Err e
           | Inr (key, issuer) \<Rightarrow>
               (case jws_verify (ex_lower ex) (ex_parse ex) (ex_es256 ex) claims_tags decode_claims True t key of
                  Inl e \<Rightarrow> Err (reject (jws_error_text e))
                | Inr c \<Rightarrow> (case claims_valid (ex_lower ex) c of
                    Some e \<Rightarrow> Err e
                  | None \<Rightarrow> Ok (c, issuer)))))"

text \<open>Verify, at the instant its clock reads.\<close>

definition verify ::
    "'k externals \<Rightarrow> instant \<Rightarrow> string \<Rightarrow> string \<Rightarrow> string \<Rightarrow> u16 \<Rightarrow> 'k verifier \<Rightarrow>
     'k verifier \<times> (pipe_error + claims)" where
  "verify ex now token connector host port v =
     (case parse_capability ex v token now of
        Inl e \<Rightarrow> (v, Err e)
      | Inr (c, issuer) \<Rightarrow>
          if cl_iss c \<noteq> issuer \<or> (v_issuer v \<noteq> [] \<and> cl_iss c \<noteq> v_issuer v) \<or>
              cl_aud c \<noteq> audience \<or> cl_sub c \<noteq> v_subject v then
            (v, Err (reject ''wrong issuer, audience or subject''))
          else if now + max_clock_skew < unix_time (cl_iat c) \<or>
              \<not> (now - max_clock_skew < unix_time (cl_exp c)) then
            (v, Err (reject ''expired or not yet valid''))
          else if cl_connector_id c \<noteq> connector then
            (v, Err (Refused WrongConnector ''for another connector''))
          else if cl_host c \<noteq> host \<or> cl_port c \<noteq> port then
            (v, Err (Refused WrongDestination ''for another destination''))
          else (case take_open (cl_jti c) (unix_time (cl_exp c) + max_clock_skew) now v of
              (v', True) \<Rightarrow> (v', Ok c)
            | (v', False) \<Rightarrow> (v', Err (Refused Exhausted ''open limit reached''))))"

section \<open>Loading trust\<close>

text \<open>ParseKeys: PUBLIC KEY blocks, each with a unique Key-ID. Fuel as in \<open>parse_roots_loop\<close>.\<close>

fun parse_keys_loop ::
    "(string \<Rightarrow> (pem_block \<times> string) option) \<Rightarrow> (string \<Rightarrow> 'k pub_key option) \<Rightarrow> nat \<Rightarrow>
     (string \<times> 'k) list \<Rightarrow> string \<Rightarrow> (string + (string \<times> 'k) list) option" where
  "parse_keys_loop pem parse_pkix fuel keys data =
     (case pem data of
        None \<Rightarrow> Some (Ok keys)
      | Some (block, rest) \<Rightarrow>
          let kid = (case pem_headers block ''Key-ID'' of Some k \<Rightarrow> k | None \<Rightarrow> []);
              bad = ''capability: key '' @ kid @ '' needs a unique Key-ID and a P-256 key'' in
          (case p256_of (parse_pkix (pem_bytes block)) of
             None \<Rightarrow> Some (Err bad)
           | Some k \<Rightarrow>
               if pem_type block \<noteq> ''PUBLIC KEY'' \<or> kid = [] \<or> map_of keys kid \<noteq> None then Some (Err bad)
               else (case fuel of 0 \<Rightarrow> None | Suc n \<Rightarrow> parse_keys_loop pem parse_pkix n ((kid, k) # keys) rest)))"

declare parse_keys_loop.simps [simp del]

definition parse_keys ::
    "(string \<Rightarrow> (pem_block \<times> string) option) \<Rightarrow> (string \<Rightarrow> 'k pub_key option) \<Rightarrow> string \<Rightarrow>
     (string + (string \<times> 'k) list) option" where
  "parse_keys pem parse_pkix data =
     (case parse_keys_loop pem parse_pkix (length data) [] data of
        Some (Inr []) \<Rightarrow> Some (Err ''capability: no keys'')
      | r \<Rightarrow> r)"

text \<open>rawpipe.RootFingerprint, with SHA-256 as a parameter.\<close>

definition hex_string :: "string \<Rightarrow> string" where
  "hex_string s = concat (map (\<lambda>c. [hex_char (code c div 16), hex_char (code c mod 16)]) s)"

definition root_fingerprint :: "(string \<Rightarrow> string) \<Rightarrow> string \<Rightarrow> string" where
  "root_fingerprint sha256 der = hex_string (take 8 (sha256 der))"

record loaded =
  ld_kids :: "string list"
  ld_roots :: "string list"

datatype trust_error = KeysBundle string | RootsBundle string | BadConfig string

definition parse_trust ::
    "(string \<Rightarrow> string) \<Rightarrow> (string \<Rightarrow> (pem_block \<times> string) option) \<Rightarrow> (string \<Rightarrow> 'k pub_key option) \<Rightarrow>
     (string \<Rightarrow> 'k cert option) \<Rightarrow> (string \<Rightarrow> string) \<Rightarrow>
     string \<Rightarrow> string \<Rightarrow> string \<Rightarrow> string \<Rightarrow> (trust_error + ('k verifier \<times> loaded)) option" where
  "parse_trust ul pem parse_pkix x509_parse sha256 key_pem root_pem issuer controller_host =
     (case (if trim_space key_pem \<noteq> [] then parse_keys pem parse_pkix key_pem else Some (Ok [])) of
        None \<Rightarrow> None
      | Some (Inl e) \<Rightarrow> Some (Err (KeysBundle e))
      | Some (Inr keys) \<Rightarrow>
          (case (if trim_space root_pem \<noteq> [] then parse_roots_pem pem x509_parse root_pem else Some (Ok [])) of
             None \<Rightarrow> None
           | Some (Inl e) \<Rightarrow> Some (Err (RootsBundle e))
           | Some (Inr roots) \<Rightarrow>
               (case new_verifier ul \<lparr>vc_issuer = issuer, vc_subject = subject_integration_proxy,
                    vc_keys = map (\<lambda>(kid, k). (kid, Some (P256 k))) keys, vc_roots = map Some roots,
                    vc_controller_host = controller_host\<rparr> of
                  Inl e \<Rightarrow> Some (Err (BadConfig e))
                | Inr v \<Rightarrow>
                    Some (Ok (v, \<lparr>ld_kids = sort (map fst keys),
                                  ld_roots = sort (map (root_fingerprint sha256 \<circ> cert_raw) roots)\<rparr>)))))"

section \<open>Opens per identifier: the abstract ledger\<close>

text \<open>
  What take promises, on a map from identifiers to their opens and expiry: entries past their expiry
  are gone, an identifier is opened at most four times while its entry stands, and the first open
  fixes the expiry.
\<close>

type_synonym ledger = "string \<Rightarrow> (nat \<times> instant) option"

definition ledger_prune :: "instant \<Rightarrow> ledger \<Rightarrow> ledger" where
  "ledger_prune now L = (\<lambda>j. case L j of
     Some (n, e) \<Rightarrow> if e < now then None else Some (n, e) | None \<Rightarrow> None)"

definition ledger_take :: "string \<Rightarrow> instant \<Rightarrow> instant \<Rightarrow> ledger \<Rightarrow> ledger \<times> bool" where
  "ledger_take jti expires now L =
     (let P = ledger_prune now L in
      case P jti of
        None \<Rightarrow> (P(jti \<mapsto> (1, expires)), True)
      | Some (n, e) \<Rightarrow> if n < max_opens then (P(jti \<mapsto> (n + 1, e)), True) else (P, False))"

definition expiry_of :: "jti_heap \<Rightarrow> string \<Rightarrow> instant option" where
  "expiry_of h = map_of (map (\<lambda>s. (seen_jti s, seen_expires s)) h)"

definition ledger_of :: "'k verifier \<Rightarrow> ledger" where
  "ledger_of v = (\<lambda>j. case (v_opens v j, expiry_of (v_expiry v) j) of
     (Some n, Some e) \<Rightarrow> Some (n, e) | _ \<Rightarrow> None)"

definition books_ok :: "(string \<Rightarrow> nat option) \<Rightarrow> jti_heap \<Rightarrow> bool" where
  "books_ok opens h = (heap_inv h \<and> distinct (map seen_jti h) \<and> dom opens = seen_jti ` set h \<and>
     (\<forall>j n. opens j = Some n \<longrightarrow> 1 \<le> n \<and> n \<le> max_opens))"

definition take_inv :: "'k verifier \<Rightarrow> bool" where
  "take_inv v = books_ok (v_opens v) (v_expiry v)"

text \<open>The pruning loop is the queue's, with the popped identifiers deleted from the counts.\<close>

definition delete_all :: "seen list \<Rightarrow> (string \<Rightarrow> nat option) \<Rightarrow> string \<Rightarrow> nat option" where
  "delete_all ys opens = foldl (\<lambda>m s. m(seen_jti s := None)) opens ys"

lemma delete_all_apply: "delete_all ys opens j = (if j \<in> seen_jti ` set ys then None else opens j)"
  by (induction ys arbitrary: opens) (auto simp: delete_all_def)

lemma prune_loop_queue:
  "length h \<le> k \<Longrightarrow> prune_loop now opens h =
     (delete_all (fst (jti_queue.prune k now h)) opens, snd (jti_queue.prune k now h))"
proof (induction k arbitrary: opens h)
  case 0
  then show ?case by (subst prune_loop.simps) (simp add: delete_all_def)
next
  case (Suc k)
  show ?case
  proof (cases "h \<noteq> [] \<and> seen_expires (h ! 0) < now")
    case True
    then have "length (snd (heap_pop h)) \<le> k" using Suc.prems heap_pop_shorter [of h] by simp
    moreover obtain x g where g: "heap_pop h = (x, g)" by force
    moreover obtain ys q where q: "jti_queue.prune k now g = (ys, q)" by force
    ultimately have "prune_loop now (opens(seen_jti x := None)) g = (delete_all (x # ys) opens, q)"
      using Suc.IH [of g "opens(seen_jti x := None)"] by (simp add: delete_all_def del: fun_upd_apply)
    moreover have "heap_front h = Some (h ! 0)" using True by (simp add: heap_front_def)
    ultimately show ?thesis
      using True g q by (subst prune_loop.simps) simp
  next
    case False
    then show ?thesis
      by (subst prune_loop.simps) (auto simp: heap_front_def delete_all_def)
  qed
qed

lemma expiry_of_set: "distinct (map seen_jti h) \<Longrightarrow> expiry_of h j = Some e \<longleftrightarrow>
    \<lparr>seen_jti = j, seen_expires = e\<rparr> \<in> set h"
proof -
  assume "distinct (map seen_jti h)"
  then have "expiry_of h j = Some e \<longleftrightarrow> (j, e) \<in> set (map (\<lambda>s. (seen_jti s, seen_expires s)) h)"
    unfolding expiry_of_def by (intro map_of_eq_Some_iff) (simp add: comp_def)
  also have "\<dots> \<longleftrightarrow> \<lparr>seen_jti = j, seen_expires = e\<rparr> \<in> set h"
  proof
    assume "(j, e) \<in> set (map (\<lambda>s. (seen_jti s, seen_expires s)) h)"
    then obtain s where "s \<in> set h" "seen_jti s = j" "seen_expires s = e" by auto
    then show "\<lparr>seen_jti = j, seen_expires = e\<rparr> \<in> set h" by (metis seen.surjective old.unit.exhaust)
  qed force
  finally show ?thesis .
qed

lemma prune_loop_books:
  assumes ok: "books_ok opens h" and p: "prune_loop now opens h = (opens', h')"
  shows "books_ok opens' h'" "set h' = {x \<in> set h. \<not> seen_expires x < now}"
    "opens' j = (if \<exists>x \<in> set h. seen_jti x = j \<and> seen_expires x < now then None else opens j)"
proof -
  obtain ys where q: "jti_queue.prune (length h) now h = (ys, h')" and o': "opens' = delete_all ys opens"
    using prune_loop_queue [of h "length h" now opens] p by (cases "jti_queue.prune (length h) now h") auto
  have pr: "heap_inv h'" "mset h' = {#x \<in># mset h. \<not> seen_expires x < now#}"
    "mset ys = {#x \<in># mset h. seen_expires x < now#}"
    using jti_queue.prune_exact [of h "length h" now ys h'] ok q by (auto simp: books_ok_def)
  have ys: "set ys = {x \<in> set h. seen_expires x < now}"
    using arg_cong [OF pr(3), of set_mset] by simp
  show h': "set h' = {x \<in> set h. \<not> seen_expires x < now}"
    using arg_cong [OF pr(2), of set_mset] by simp
  show app: "opens' j = (if \<exists>x \<in> set h. seen_jti x = j \<and> seen_expires x < now then None else opens j)" for j
    using ys by (auto simp: o' delete_all_apply)
  have dist: "distinct (map seen_jti h)" using ok by (simp add: books_ok_def)
  have "distinct (map seen_jti h')"
  proof -
    have "distinct h'"
      unfolding distinct_count_atmost_1
    proof
      fix a
      have "count (mset h) a = (if a \<in> set h then 1 else 0)"
        using dist distinct_count_atmost_1 [of h] by (simp add: distinct_map)
      then show "count (mset h') a = (if a \<in> set h' then 1 else 0)"
        using h' pr(2) by auto
    qed
    moreover have "inj_on seen_jti (set h')"
      using dist h' by (auto simp: distinct_map intro: inj_on_subset)
    ultimately show ?thesis by (simp add: distinct_map)
  qed
  moreover have "dom opens' = seen_jti ` set h'"
  proof -
    have uniq: "x = y" if "x \<in> set h" "y \<in> set h" "seen_jti x = seen_jti y" for x y
      using dist that by (auto simp: distinct_map inj_on_def)
    have dom: "opens j \<noteq> None \<longleftrightarrow> (\<exists>x \<in> set h. seen_jti x = j)" for j
    proof -
      have "j \<in> dom opens \<longleftrightarrow> j \<in> seen_jti ` set h" using ok by (simp add: books_ok_def)
      then show ?thesis by (auto simp: domIff)
    qed
    have "opens' j \<noteq> None \<longleftrightarrow> j \<in> seen_jti ` set h'" for j
    proof -
      have "opens' j \<noteq> None \<longleftrightarrow> (\<exists>x \<in> set h. seen_jti x = j) \<and> \<not> (\<exists>x \<in> set h. seen_jti x = j \<and> seen_expires x < now)"
        using app [of j] dom [of j] by simp
      also have "\<dots> \<longleftrightarrow> (\<exists>x \<in> set h. seen_jti x = j \<and> \<not> seen_expires x < now)"
        using uniq by metis
      finally show ?thesis unfolding h' by auto
    qed
    then show ?thesis by (auto simp: domIff)
  qed
  ultimately show "books_ok opens' h'"
    using ok pr(1) app by (auto simp: books_ok_def split: if_splits)
qed

lemma take_open_refines:
  fixes v :: "'k verifier"
  assumes inv: "take_inv v" and t: "take_open jti expires now v = (v', ok)"
  shows "take_inv v'" "ledger_take jti expires now (ledger_of v) = (ledger_of v', ok)"
proof -
  obtain opens h where p: "prune_loop now (v_opens v) (v_expiry v) = (opens, h)" by force
  have ok0: "books_ok (v_opens v) (v_expiry v)" using inv by (simp add: take_inv_def)
  note pr = prune_loop_books [OF ok0 p]
  have d0: "distinct (map seen_jti (v_expiry v))" and d: "distinct (map seen_jti h)"
    using ok0 pr(1) by (auto simp: books_ok_def)
  have exp: "expiry_of h j = Some e \<longleftrightarrow> expiry_of (v_expiry v) j = Some e \<and> \<not> e < now" for j e
    using pr(2) by (auto simp: expiry_of_set d0 d)
  define P where "P = (\<lambda>j. case (opens j, expiry_of h j) of (Some n, Some e) \<Rightarrow> Some (n, e) | _ \<Rightarrow> None)"
  have P: "P = ledger_prune now (ledger_of v)"
  proof
    fix j
    show "P j = ledger_prune now (ledger_of v) j"
    proof (cases "expiry_of (v_expiry v) j")
      case None
      then have "expiry_of h j = None" using exp [of j] by (cases "expiry_of h j") auto
      with None show ?thesis by (simp add: P_def ledger_prune_def ledger_of_def split: option.split)
    next
      case (Some e)
      then have mem: "\<lparr>seen_jti = j, seen_expires = e\<rparr> \<in> set (v_expiry v)" by (simp add: expiry_of_set d0)
      have uniq: "seen_expires x = e" if "x \<in> set (v_expiry v)" "seen_jti x = j" for x
      proof -
        have "x = \<lparr>seen_jti = j, seen_expires = e\<rparr>"
          using d0 mem that by (intro inj_onD [of seen_jti "set (v_expiry v)"]) (auto simp: distinct_map)
        then show ?thesis by simp
      qed
      show ?thesis
      proof (cases "e < now")
        case True
        then have "expiry_of h j = None" using exp [of j] Some by (metis option.exhaust option.inject)
        with True Some show ?thesis by (simp add: P_def ledger_prune_def ledger_of_def split: option.split)
      next
        case False
        then have "expiry_of h j = Some e" using exp Some by simp
        moreover have "opens j = v_opens v j" using pr(3) [of j] uniq False by auto
        ultimately show ?thesis using Some False
          by (simp add: P_def ledger_prune_def ledger_of_def split: option.split)
      qed
    qed
  qed
  have dom: "opens j = None \<longleftrightarrow> expiry_of h j = None" for j
  proof -
    have "opens j = None \<longleftrightarrow> j \<notin> seen_jti ` set h" using pr(1) by (auto simp: books_ok_def domIff)
    then show ?thesis
      by (simp add: expiry_of_def map_of_eq_None_iff image_image comp_def)
  qed
  have pos: "opens j = Some n \<Longrightarrow> 1 \<le> n \<and> n \<le> max_opens" for j n using pr(1) by (simp add: books_ok_def)
  show "take_inv v'" "ledger_take jti expires now (ledger_of v) = (ledger_of v', ok)"
  proof -
    consider (new) "opens jti = None" | (again) n where "opens jti = Some n" "n < max_opens"
      | (full) n where "opens jti = Some n" "max_opens \<le> n" by fastforce
    then have "take_inv v' \<and> ledger_take jti expires now (ledger_of v) = (ledger_of v', ok)"
    proof cases
      case new
      let ?s = "\<lparr>seen_jti = jti, seen_expires = expires\<rparr>"
      have v': "v' = v\<lparr>v_opens := opens(jti \<mapsto> 1), v_expiry := heap_push ?s h\<rparr>" "ok"
        using t p new by (auto simp: take_open_def opens_count_def max_opens_def)
      have "jti \<notin> seen_jti ` set h" using new pr(1) by (auto simp: books_ok_def domIff)
      then have books: "books_ok (opens(jti \<mapsto> 1)) (heap_push ?s h)"
      proof -
        have "mset (map seen_jti (heap_push ?s h)) = mset (jti # map seen_jti h)"
          using heap_push_inv(2) [of h ?s] pr(1) by (simp add: books_ok_def)
        then have "distinct (map seen_jti (heap_push ?s h))"
          using d \<open>jti \<notin> seen_jti ` set h\<close> by (metis distinct.simps(2) image_set mset_eq_imp_distinct_iff)
        moreover have "set (heap_push ?s h) = insert ?s (set h)"
          using heap_push_inv(2) [of h ?s] pr(1) by (metis books_ok_def set_mset_add_mset_insert set_mset_mset)
        moreover have "heap_inv (heap_push ?s h)"
          using heap_push_inv(1) pr(1) by (simp add: books_ok_def)
        ultimately show ?thesis
          using pr(1) by (auto simp: books_ok_def max_opens_def)
      qed
      moreover have "expiry_of (heap_push ?s h) = (expiry_of h)(jti \<mapsto> expires)"
      proof
        fix j
        have dp: "distinct (map seen_jti (heap_push ?s h))" using books by (simp add: books_ok_def)
        have "set (heap_push ?s h) = insert ?s (set h)"
          using heap_push_inv(2) [of h ?s] pr(1) by (metis books_ok_def set_mset_add_mset_insert set_mset_mset)
        moreover have "\<lparr>seen_jti = jti, seen_expires = e\<rparr> \<notin> set h" for e
          using \<open>jti \<notin> seen_jti ` set h\<close> by (metis imageI seen.select_convs(1))
        ultimately have "expiry_of (heap_push ?s h) j = Some e \<longleftrightarrow> ((expiry_of h)(jti \<mapsto> expires)) j = Some e" for e
          by (auto simp: expiry_of_set dp d)
        then show "expiry_of (heap_push ?s h) j = ((expiry_of h)(jti \<mapsto> expires)) j"
          by (metis not_None_eq)
      qed
      ultimately show ?thesis
        using v' new dom [of jti] unfolding P [symmetric] ledger_take_def
        by (auto simp: take_inv_def P_def ledger_of_def fun_eq_iff)
    next
      case (again n)
      have v': "v' = v\<lparr>v_opens := opens(jti \<mapsto> n + 1), v_expiry := h\<rparr>" "ok"
        using t p again pos [of jti n] by (auto simp: take_open_def opens_count_def)
      have "books_ok (opens(jti \<mapsto> n + 1)) h"
        using pr(1) again by (auto simp: books_ok_def dom_def)
      moreover obtain e where "expiry_of h jti = Some e" using dom [of jti] again by fastforce
      ultimately show ?thesis
        using v' again unfolding P [symmetric] ledger_take_def
        by (auto simp: take_inv_def P_def ledger_of_def fun_eq_iff)
    next
      case (full n)
      have v': "v' = v\<lparr>v_opens := opens, v_expiry := h\<rparr>" "\<not> ok"
        using t p full by (auto simp: take_open_def opens_count_def)
      moreover obtain e where "expiry_of h jti = Some e" using dom [of jti] full by fastforce
      ultimately show ?thesis
        using full pr(1) unfolding P [symmetric] ledger_take_def
        by (auto simp: take_inv_def P_def ledger_of_def fun_eq_iff)
    qed
    then show "take_inv v'" "ledger_take jti expires now (ledger_of v) = (ledger_of v', ok)" by auto
  qed
qed

section \<open>Verification\<close>

lemma parse_capability_Ok:
  assumes "parse_capability ex v token now = Ok (c, issuer)"
  obtains t key where "jws_parse (ex_lower ex) (ex_parse ex) token max_token_len token_type True = Ok t"
    "signing_key ex v (tok_header t) now = Ok (key, issuer)"
    "jws_verify (ex_lower ex) (ex_parse ex) (ex_es256 ex) claims_tags decode_claims True t key = Ok c"
    "claims_valid (ex_lower ex) c = None"
  using assms by (auto simp: parse_capability_def split: sum.splits option.splits)

text \<open>The window of valid claims, as integers: the int64 difference did not wrap.\<close>

lemma claims_valid_window:
  assumes "claims_valid ul c = None"
  shows "0 < sint (cl_iat c)" "sint (cl_iat c) < sint (cl_exp c)"
    "sint (cl_exp c) - sint (cl_iat c) \<le> max_lifetime_seconds"
proof -
  have g: "0 < sint (cl_iat c)" "sint (cl_iat c) < sint (cl_exp c)"
    "sint (cl_exp c - cl_iat c) \<le> max_lifetime_seconds"
    using assms by (auto simp: claims_valid_def split: if_splits)
  then show "0 < sint (cl_iat c)" "sint (cl_iat c) < sint (cl_exp c)" by blast+
  have "sint (cl_exp c - cl_iat c) = sint (cl_exp c) - sint (cl_iat c)"
    using g by (intro sint_i64_diff_pos) auto
  then show "sint (cl_exp c) - sint (cl_iat c) \<le> max_lifetime_seconds" using g by simp
qed

lemma claims_valid_None:
  "claims_valid ul c = None \<Longrightarrow> is_canonical ul (cl_host c) \<and> cl_port c \<noteq> 0 \<and> cl_jti c \<noteq> [] \<and>
     cl_aud c = audience \<and> has_prefix issuer_prefix (cl_iss c)"
  by (auto simp: claims_valid_def required_claims_def split: if_splits)

text \<open>The trust behind a signing key: a pinned key, or a certificate under a pinned root.\<close>

definition pinned_trust :: "'k verifier \<Rightarrow> jws_header \<Rightarrow> 'k \<Rightarrow> string \<Rightarrow> bool" where
  "pinned_trust v h key issuer = (v_keys v (hdr_kid h) = Some key \<and> issuer = v_issuer v)"

definition chained_trust ::
    "'k externals \<Rightarrow> 'k verifier \<Rightarrow> jws_header \<Rightarrow> instant \<Rightarrow> 'k \<Rightarrow> string \<Rightarrow> bool" where
  "chained_trust ex v h now key issuer =
     (\<exists>x5c ch leaf rest env. hdr_x5c h = Some x5c \<and> v_chains v = Some ch \<and>
        parse_chain (ex_x509_parse ex) x5c = Ok (leaf # rest) \<and>
        ex_x509_verify ex leaf rest (ch_roots ch) now (ch_host ch) \<and>
        \<not> cert_is_ca leaf \<and> cert_digital_signature leaf \<and> cert_key leaf = P256 key \<and>
        cert_uris leaf = [issuer_uri_prefix @ env] \<and> valid_environment env \<and>
        issuer = issuer_prefix @ env \<and> v_keys v (hdr_kid h) \<in> {None, Some key})"

lemma signing_key_Ok:
  assumes "signing_key ex v h now = Ok (key, issuer)"
  shows "pinned_trust v h key issuer \<or> chained_trust ex v h now key issuer"
proof (cases "\<exists>x5c ch. hdr_x5c h = Some x5c \<and> v_chains v = Some ch")
  case True
  then obtain x5c ch where x: "hdr_x5c h = Some x5c" "v_chains v = Some ch" by blast
  obtain certs where c: "parse_chain (ex_x509_parse ex) x5c = Ok certs"
    "check_environment_certificate (ex_x509_verify ex) certs (Some (ch_roots ch)) (ch_host ch) now = Ok (key, issuer)"
    "v_keys v (hdr_kid h) \<in> {None, Some key}"
    using assms x by (auto simp: signing_key_def Let_def split: sum.splits if_splits)
  obtain leaf rest env where l: "certs = leaf # rest"
    "ex_x509_verify ex leaf rest (ch_roots ch) now (ch_host ch)" "\<not> cert_is_ca leaf"
    "cert_digital_signature leaf" "cert_key leaf = P256 key" "cert_uris leaf = [issuer_uri_prefix @ env]"
    "valid_environment env" "issuer = issuer_prefix @ env"
    using check_environment_certificate_Ok [OF c(2)] by (metis option.inject)
  then have "chained_trust ex v h now key issuer"
    using x c(1,3) unfolding chained_trust_def by blast
  then show ?thesis ..
next
  case False
  then have "pinned_trust v h key issuer"
    using assms
    by (cases "hdr_x5c h"; cases "v_chains v")
      (auto simp: signing_key_def pinned_trust_def Let_def split: option.splits)
  then show ?thesis ..
qed

text \<open>What Verify has checked when it accepts, and that it counted the open.\<close>

lemma verify_Ok:
  assumes "verify ex now token connector host port v = (v', Ok c)"
  obtains t key issuer where
    "jws_parse (ex_lower ex) (ex_parse ex) token max_token_len token_type True = Ok t"
    "signing_key ex v (tok_header t) now = Ok (key, issuer)"
    "jws_verify (ex_lower ex) (ex_parse ex) (ex_es256 ex) claims_tags decode_claims True t key = Ok c"
    "claims_valid (ex_lower ex) c = None"
    "cl_iss c = issuer" "v_issuer v = [] \<or> cl_iss c = v_issuer v" "cl_aud c = audience" "cl_sub c = v_subject v"
    "unix_time (cl_iat c) \<le> now + max_clock_skew" "now - max_clock_skew < unix_time (cl_exp c)"
    "cl_connector_id c = connector" "cl_host c = host" "cl_port c = port"
    "take_open (cl_jti c) (unix_time (cl_exp c) + max_clock_skew) now v = (v', True)"
proof -
  obtain issuer where p: "parse_capability ex v token now = Ok (c, issuer)"
    and r: "cl_iss c = issuer" "v_issuer v = [] \<or> cl_iss c = v_issuer v" "cl_aud c = audience"
    "cl_sub c = v_subject v" "unix_time (cl_iat c) \<le> now + max_clock_skew"
    "now - max_clock_skew < unix_time (cl_exp c)" "cl_connector_id c = connector" "cl_host c = host"
    "cl_port c = port" "take_open (cl_jti c) (unix_time (cl_exp c) + max_clock_skew) now v = (v', True)"
    using assms by (auto simp: verify_def split: sum.splits if_splits prod.splits bool.splits)
  show ?thesis using parse_capability_Ok [OF p] that r by metis
qed

text \<open>Verify changes the verifier only by a take, of an identifier that is not yet expired.\<close>

lemma verify_step:
  assumes "verify ex now token connector host port v = (v', r)"
  shows "v' = v \<and> (\<forall>c. r \<noteq> Ok c) \<or>
    (\<exists>c ok. take_open (cl_jti c) (unix_time (cl_exp c) + max_clock_skew) now v = (v', ok) \<and>
       now < unix_time (cl_exp c) + max_clock_skew \<and> (if ok then r = Ok c else \<forall>c. r \<noteq> Ok c))"
proof (cases "parse_capability ex v token now")
  case (Inl e)
  then show ?thesis using assms by (auto simp: verify_def)
next
  case (Inr ci)
  obtain c issuer where ci: "ci = (c, issuer)" by force
  obtain w ok where t: "take_open (cl_jti c) (unix_time (cl_exp c) + max_clock_skew) now v = (w, ok)" by force
  have "v' = v \<and> (\<forall>c. r \<noteq> Ok c) \<or> v' = w \<and> now < unix_time (cl_exp c) + max_clock_skew \<and>
      r = (if ok then Ok c else Err (Refused Exhausted ''open limit reached''))"
    using assms Inr ci t by (cases ok) (auto simp: verify_def split: if_splits)
  then show ?thesis using t by (cases ok) auto
qed

lemma take_open_fixed:
  "take_open j e now v = (v', ok) \<Longrightarrow> v_issuer v' = v_issuer v \<and> v_keys v' = v_keys v \<and>
     v_chains v' = v_chains v \<and> v_subject v' = v_subject v"
  by (auto simp: take_open_def Let_def split: prod.splits if_splits)

section \<open>Runs of a verifier\<close>

record call =
  call_token :: string
  call_connector :: string
  call_host :: string
  call_port :: u16
  call_now :: instant

fun verify_run ::
    "'k externals \<Rightarrow> call list \<Rightarrow> 'k verifier \<Rightarrow> 'k verifier \<times> (pipe_error + claims) list" where
  "verify_run ex [] v = (v, [])"
| "verify_run ex (q # qs) v =
     (let (w, r) = verify ex (call_now q) (call_token q) (call_connector q) (call_host q) (call_port q) v;
          (u, rs) = verify_run ex qs w in (u, r # rs))"

definition accepts :: "string \<Rightarrow> pipe_error + claims \<Rightarrow> bool" where
  "accepts j r = (case r of Inl e \<Rightarrow> False | Inr c \<Rightarrow> cl_jti c = j)"

text \<open>
  Between two calls of a run, with k opens of j so far, none after t. An entry of j begins with the
  expiry of the capability that made it and ends once that has passed, so the expiries S of the
  entries so far differ, all but the standing one's have passed, and each entry counted at most four.
\<close>

definition entries_inv :: "string \<Rightarrow> instant set \<Rightarrow> nat \<Rightarrow> instant \<Rightarrow> ledger \<Rightarrow> bool" where
  "entries_inv j S k t L \<longleftrightarrow> finite S \<and>
     (case L j of
        None \<Rightarrow> k \<le> max_opens * card S \<and> (\<forall>e \<in> S. e < t)
      | Some (n, e) \<Rightarrow> e \<in> S \<and> n \<le> max_opens \<and> k + max_opens \<le> max_opens * card S + n \<and> (\<forall>e' \<in> S - {e}. e' < t))"

lemma entries_inv_later: "entries_inv j S k t L \<Longrightarrow> t \<le> now \<Longrightarrow> entries_inv j S k now L"
  by (cases "L j") (auto simp: entries_inv_def intro: less_le_trans)

lemma entries_inv_prune:
  assumes "entries_inv j S k t L" and "t \<le> now"
  shows "entries_inv j S k now (ledger_prune now L)"
proof (cases "\<exists>n e. L j = Some (n, e) \<and> e < now")
  case True
  then obtain n e where e: "L j = Some (n, e)" "e < now" by blast
  then have f: "finite S" "k \<le> max_opens * card S" "\<forall>e' \<in> S - {e}. e' < t" using assms(1) by (auto simp: entries_inv_def)
  have "\<forall>e' \<in> S. e' < now"
  proof
    fix e' assume "e' \<in> S"
    then show "e' < now" using f(3) e(2) assms(2) by (cases "e' = e") (auto intro: less_le_trans)
  qed
  then show ?thesis using e f by (simp add: entries_inv_def ledger_prune_def)
next
  case False
  then have "ledger_prune now L j = L j" by (auto simp: ledger_prune_def split: option.splits)
  then show ?thesis using entries_inv_later [OF assms] by (simp add: entries_inv_def)
qed

lemma entries_inv_bound: "entries_inv j S k t L \<Longrightarrow> k \<le> max_opens * card S"
  by (auto simp: entries_inv_def split: option.splits prod.splits)

lemma entries_inv_take:
  assumes "entries_inv j S k t L" and "t \<le> now" and "ledger_take i x now L = (L', ok)"
    and "i = j \<Longrightarrow> ok \<Longrightarrow> now < x"
  obtains S' where "S' \<subseteq> S \<union> (if i = j \<and> ok then {x} else {})"
    "entries_inv j S' (if i = j \<and> ok then k + 1 else k) now L'"
proof -
  have p: "entries_inv j S k now (ledger_prune now L)" using entries_inv_prune [OF assms(1,2)] .
  show ?thesis
  proof (cases "i = j")
    case False
    then have "L' j = ledger_prune now L j"
      using assms(3) by (auto simp: ledger_take_def Let_def split: option.splits if_splits prod.splits)
    then show ?thesis using p False by (intro that [of S]) (simp_all add: entries_inv_def)
  next
    case True
    show ?thesis
    proof (cases "ledger_prune now L j")
      case None
      then have l: "L' j = Some (1, x)" "ok" using assms(3) True by (auto simp: ledger_take_def)
      have f: "finite S" "\<forall>e \<in> S. e < now" "k \<le> max_opens * card S" using p None by (simp_all add: entries_inv_def)
      then have "x \<notin> S" using assms(4) True l(2) by fastforce
      then have "card (insert x S) = card S + 1" using f(1) by simp
      then have "entries_inv j (insert x S) (k + 1) now L'"
        using f l(1) by (simp add: entries_inv_def max_opens_def)
      then show ?thesis using True l(2) by (intro that [of "insert x S"]) auto
    next
      case (Some ne)
      obtain n e where ne: "ne = (n, e)" by force
      show ?thesis
        using assms(3) True Some ne p
        by (intro that [of S]) (auto simp: ledger_take_def entries_inv_def Let_def split: if_splits)
    qed
  qed
qed

definition expiries :: "string \<Rightarrow> (pipe_error + claims) list \<Rightarrow> i64 set" where
  "expiries j rs = {cl_exp c | c. Ok c \<in> set rs \<and> cl_jti c = j}"

lemma expiries_Cons: "expiries j (r # rs) = (if accepts j r then {cl_exp (projr r)} else {}) \<union> expiries j rs"
  by (cases r) (auto simp: expiries_def accepts_def)

lemma finite_expiries: "finite (expiries j rs)"
proof -
  have "expiries j rs \<subseteq> (\<lambda>r. cl_exp (projr r)) ` set rs" by (force simp: expiries_def)
  then show ?thesis by (rule finite_subset) simp
qed

abbreviation entry_expiry :: "i64 \<Rightarrow> instant" where
  "entry_expiry x \<equiv> unix_time x + max_clock_skew"

lemma verify_run_entries:
  assumes "take_inv v" and "entries_inv j S k t (ledger_of v)"
    and "sorted (t # map call_now qs)" and "verify_run ex qs v = (v', rs)"
  shows "\<exists>S'. S' \<subseteq> S \<union> entry_expiry ` expiries j rs \<and> length (filter (accepts j) rs) + k \<le> max_opens * card S'"
  using assms
proof (induction qs arbitrary: v k t rs S)
  case Nil
  then show ?case using entries_inv_bound by (auto intro: exI [of _ S])
next
  case (Cons q qs)
  obtain w r where w: "verify ex (call_now q) (call_token q) (call_connector q) (call_host q) (call_port q) v = (w, r)"
    by force
  obtain rs' where rs': "verify_run ex qs w = (v', rs')" "rs = r # rs'"
    using Cons.prems(4) w by (auto split: prod.splits)
  have t: "t \<le> call_now q" "sorted (call_now q # map call_now qs)" using Cons.prems(3) by auto
  have "\<exists>S1. take_inv w \<and> S1 \<subseteq> S \<union> (if accepts j r then {entry_expiry (cl_exp (projr r))} else {}) \<and>
      entries_inv j S1 (if accepts j r then k + 1 else k) (call_now q) (ledger_of w)"
    using verify_step [OF w]
  proof (elim disjE exE conjE)
    assume "w = v" "\<forall>c. r \<noteq> Ok c"
    then show ?thesis using Cons.prems(1) entries_inv_later [OF Cons.prems(2) t(1)]
      by (cases r) (auto simp: accepts_def)
  next
    fix c ok
    assume tk: "take_open (cl_jti c) (unix_time (cl_exp c) + max_clock_skew) (call_now q) v = (w, ok)"
      and fresh: "call_now q < unix_time (cl_exp c) + max_clock_skew"
      and r: "if ok then r = Ok c else \<forall>c. r \<noteq> Ok c"
    note ref = take_open_refines [OF Cons.prems(1) tk]
    obtain S1 where s: "S1 \<subseteq> S \<union> (if cl_jti c = j \<and> ok then {entry_expiry (cl_exp c)} else {})"
        "entries_inv j S1 (if cl_jti c = j \<and> ok then k + 1 else k) (call_now q) (ledger_of w)"
      using entries_inv_take [OF Cons.prems(2) t(1) ref(2)] fresh by blast
    have "accepts j r = (cl_jti c = j \<and> ok)" "accepts j r \<Longrightarrow> projr r = c"
      using r by (cases r; auto simp: accepts_def split: if_splits)+
    then show ?thesis using ref(1) s by (intro exI [of _ S1]) (auto split: if_splits)
  qed
  then obtain S1 where s1: "take_inv w" "S1 \<subseteq> S \<union> (if accepts j r then {entry_expiry (cl_exp (projr r))} else {})"
    "entries_inv j S1 (if accepts j r then k + 1 else k) (call_now q) (ledger_of w)" by blast
  obtain S' where s': "S' \<subseteq> S1 \<union> entry_expiry ` expiries j rs'"
    "length (filter (accepts j) rs') + (if accepts j r then k + 1 else k) \<le> max_opens * card S'"
    using Cons.IH [OF s1(1,3) t(2) rs'(1)] by blast
  have "S' \<subseteq> S \<union> entry_expiry ` expiries j rs" using s'(1) s1(2) rs'(2) by (auto simp: expiries_Cons split: if_splits)
  then show ?case using s'(2) rs'(2) by (intro exI [of _ S']) (simp split: if_splits)
qed

text \<open>A token over the limit is malformed, whatever it holds.\<close>

lemma jws_parse_long: "max_len < length token \<Longrightarrow> jws_parse ul parse token max_len typ chained = Err ErrMalformed"
  by (auto simp: jws_parse_def split: list.splits)

lemma verify_long:
  "max_token_len < length token \<Longrightarrow>
     verify ex now token connector host port v = (v, Err (reject (jws_error_text ErrMalformed)))"
  by (simp add: verify_def parse_capability_def jws_parse_long)

lemma new_verifier_fresh:
  assumes "new_verifier ul cfg = Ok v"
  shows "take_inv v" "ledger_of v = Map.empty"
  using assms
  by (auto simp: new_verifier_def Let_def take_inv_def books_ok_def heap_inv_def heap_ok_def
      ledger_of_def split: if_splits sum.splits)

section \<open>Properties\<close>

text \<open>
  A concrete capability for the witnesses: a verifier that pins one key, and a token whose segments
  are one byte each, read by a JSON parser that knows the two texts.
\<close>

definition example_claims :: claims where
  "example_claims = \<lparr>cl_iss = ''traversal-raw-tunnel/dev'', cl_aud = audience,
     cl_sub = subject_integration_proxy, cl_organization_id = ''o'', cl_integration_id = ''i'',
     cl_connector_id = ''c'', cl_consumer_id = ''u'', cl_session_id = ''s'', cl_host = ''db.internal'',
     cl_port = 5432, cl_jti = ''j'', cl_iat = 1000, cl_exp = 1060\<rparr>"

definition example_claims_json :: "(string \<times> json) list" where
  "example_claims_json = [(''iss'', JStr ''traversal-raw-tunnel/dev''), (''aud'', JStr ''traversal-raw-tunnel''),
     (''sub'', JStr ''integration-proxy''), (''organization_id'', JStr ''o''),
     (''integration_id'', JStr ''i''), (''connector_id'', JStr ''c''), (''consumer_id'', JStr ''u''),
     (''session_id'', JStr ''s''), (''host'', JStr ''db.internal''), (''port'', JNum ''5432''),
     (''jti'', JStr ''j''), (''iat'', JNum ''1000''), (''exp'', JNum ''1060''), (''note'', JStr ''ignored'')]"

definition example_externals :: "nat externals" where
  "example_externals = \<lparr>
     ex_parse = (\<lambda>raw. if raw = ''H'' then
         Some (JObj [(''alg'', JStr ''ES256''), (''typ'', JStr ''traversal-capability+jwt''), (''kid'', JStr ''k'')])
       else if raw = ''P'' then Some (JObj example_claims_json) else None),
     ex_lower = id, ex_es256 = (\<lambda>input sig key. sig = ''S'' \<and> key = 7),
     ex_x509_parse = (\<lambda>der. None), ex_x509_verify = (\<lambda>leaf rest roots now host. False)\<rparr>"

definition example_config :: "nat verifier_config" where
  "example_config = \<lparr>vc_issuer = ''traversal-raw-tunnel/dev'', vc_subject = subject_integration_proxy,
     vc_keys = [(''k'', Some (P256 7))], vc_roots = [], vc_controller_host = []\<rparr>"

definition example_token :: string where
  "example_token = ''SA.UA.Uw''"

definition example_verifier :: "nat verifier" where
  "example_verifier = \<lparr>v_issuer = ''traversal-raw-tunnel/dev'', v_keys = [''k'' \<mapsto> 7], v_chains = None,
     v_subject = subject_integration_proxy, v_opens = Map.empty, v_expiry = []\<rparr>"

definition example_now :: instant where
  "example_now = unix_time 1030"

lemma example_new: "new_verifier id example_config = Ok example_verifier"
  by (auto simp: new_verifier_def example_config_def example_verifier_def subject_integration_proxy_def)

lemma example_segments: "b64url_dec ''SA'' = Some ''H''" "b64url_dec ''UA'' = Some ''P''" "b64url_dec ''Uw'' = Some ''S''"
  by (simp_all add: b64url_dec_def b64_decode_def b64_alphabet_def char_class_defs char_of_def bit_0)

lemma example_claims_decode: "decode_claims example_claims_json = Some example_claims"
  by (simp add: decode_claims_def example_claims_json_def string_field_def u16_field_def i64_field_def
      json_u16_def json_i64_def parse_uint_def is_digit_def digit_val_def example_claims_def
      audience_def subject_integration_proxy_def)

lemma example_claims_valid: "claims_valid id example_claims = None"
proof -
  have "canonical id ''db.internal'' = (''db.internal'', True)" by code_simp
  then show ?thesis
    by (simp add: claims_valid_def required_claims_def example_claims_def is_canonical_iff audience_def
        subject_integration_proxy_def issuer_prefix_def has_prefix_def max_lifetime_seconds_def)
qed

lemma example_keys_fold:
  "folded_ok id (JObj [(''alg'', JStr a), (''typ'', JStr b), (''kid'', JStr c)])"
  "folded_ok id (JObj example_claims_json)"
  by (simp_all add: ascii_keys_lower)
    (simp add: example_claims_json_def to_lower_def is_ascii_def ascii_lower_def upper_letters_def)

definition example_token_parsed :: jws_token where
  "example_token_parsed = \<lparr>tok_header = \<lparr>hdr_alg = ''ES256'', hdr_typ = token_type, hdr_kid = ''k'', hdr_x5c = None\<rparr>,
     tok_input = ''SA.UA'', tok_sig = ''Uw''\<rparr>"

lemma example_parse:
  "jws_parse (ex_lower example_externals) (ex_parse example_externals) example_token max_token_len token_type True =
     Ok example_token_parsed"
proof -
  have "decode_segment id (ex_parse example_externals) (header_keys True) False decode_header ''SA'' =
      Some (tok_header example_token_parsed)"
    by (simp add: decode_segment_def example_segments example_externals_def folded_unique_iff
        example_keys_fold missing_required_def unknown_key_def header_keys_eval decode_header_def
        string_field_def strings_field_def example_token_parsed_def token_type_def ascii_keys_lower)
  then show ?thesis
    by (simp add: jws_parse_def example_token_def max_token_len_def example_token_parsed_def algorithm_def
        example_externals_def)
qed

lemma example_payload:
  "jws_verify (ex_lower example_externals) (ex_parse example_externals) (ex_es256 example_externals) claims_tags
     decode_claims True example_token_parsed 7 = Ok example_claims"
proof -
  have "decode_segment id (ex_parse example_externals) (json_keys claims_tags) True decode_claims ''UA'' =
      Some example_claims"
    using example_keys_fold(2)
    by (simp add: decode_segment_def example_segments example_externals_def folded_unique_iff
        example_claims_decode)
      (simp add: example_claims_json_def missing_required_def json_keys_def claims_tags_def)
  then show ?thesis
    by (simp add: jws_verify_def example_token_parsed_def example_segments example_externals_def)
qed

definition example_taken :: "nat verifier" where
  "example_taken = fst (take_open ''j'' (unix_time 1060 + max_clock_skew) example_now example_verifier)"

lemma example_times: "unix_time 1000 = 62135597800 * nanos" "unix_time 1060 = 62135597860 * nanos"
    "unix_time 1030 = 62135597830 * nanos"
  by (simp_all add: unix_time_exact)

lemma example_verify:
  "verify example_externals example_now example_token ''c'' ''db.internal'' 5432 example_verifier =
     (example_taken, Ok example_claims)"
proof -
  have "parse_capability example_externals example_verifier example_token example_now =
      Ok (example_claims, ''traversal-raw-tunnel/dev'')"
    using example_parse example_payload example_claims_valid
    by (simp add: parse_capability_def signing_key_def example_verifier_def example_token_parsed_def)
      (simp add: example_externals_def)
  moreover have "take_open ''j'' (unix_time 1060 + max_clock_skew) example_now example_verifier = (example_taken, True)"
    by (simp add: example_taken_def take_open_def example_verifier_def prune_loop.simps opens_count_def max_opens_def)
  ultimately show ?thesis
    by (simp add: verify_def example_claims_def example_verifier_def example_now_def example_times
        max_clock_skew_def nanos_def)
qed

text \<open>
  C1. Verify is sound. A capability it accepts was signed, over exactly the header and payload its
  claims were read from, by a key that is pinned under its kid or that an environment certificate
  certifies under a pinned root for this connector's controller host; the claims are for this
  connector, host and port, this verifier's subject and the issuer the key stands for; and they are
  within a window of at most five minutes, with thirty seconds of clock skew.
\<close>

theorem verify_sound:
  assumes "verify ex now token connector host port v = (v', Ok c)"
  shows "cl_connector_id c = connector \<and> cl_host c = host \<and> cl_port c = port \<and>
    cl_sub c = v_subject v \<and> (v_issuer v = [] \<or> cl_iss c = v_issuer v) \<and>
    unix_time (cl_iat c) - max_clock_skew \<le> now \<and> now < unix_time (cl_exp c) + max_clock_skew \<and>
    0 < sint (cl_exp c) - sint (cl_iat c) \<and> sint (cl_exp c) - sint (cl_iat c) \<le> 300 \<and>
    (\<exists>(t :: jws_token) payload sig key. token = tok_input t @ ''.'' @ tok_sig t \<and> length token \<le> 4096 \<and>
       hdr_alg (tok_header t) = ''ES256'' \<and> hdr_typ (tok_header t) = token_type \<and>
       b64url_dec (tok_sig t) = Some sig \<and> ex_es256 ex (tok_input t) sig key \<and>
       (\<exists>p0. tok_input t = p0 @ ''.'' @ payload \<and> CHR ''.'' \<notin> set p0) \<and>
       decode_segment (ex_lower ex) (ex_parse ex) (json_keys claims_tags) True decode_claims payload = Some c \<and>
       (pinned_trust v (tok_header t) key (cl_iss c) \<or> chained_trust ex v (tok_header t) now key (cl_iss c)))"
proof -
  obtain t key issuer where t: "jws_parse (ex_lower ex) (ex_parse ex) token max_token_len token_type True = Ok t"
    and key: "signing_key ex v (tok_header t) now = Ok (key, issuer)"
    and ver: "jws_verify (ex_lower ex) (ex_parse ex) (ex_es256 ex) claims_tags decode_claims True t key = Ok c"
    and valid: "claims_valid (ex_lower ex) c = None"
    and rest: "cl_iss c = issuer" "v_issuer v = [] \<or> cl_iss c = v_issuer v" "cl_sub c = v_subject v"
      "unix_time (cl_iat c) \<le> now + max_clock_skew" "now - max_clock_skew < unix_time (cl_exp c)"
      "cl_connector_id c = connector" "cl_host c = host" "cl_port c = port"
    using verify_Ok [OF assms] by metis
  obtain p0 p1 where p: "token = p0 @ ''.'' @ p1 @ ''.'' @ tok_sig t" "tok_input t = p0 @ ''.'' @ p1"
    "CHR ''.'' \<notin> set p0" "length token \<le> max_token_len" "hdr_alg (tok_header t) = algorithm"
    "hdr_typ (tok_header t) = token_type"
    using jws_parse_Ok [OF t] by metis
  have payload: "fst (snd (cut_at (CHR ''.'') (tok_input t))) = p1"
    using p(2,3) by (simp add: cut_at_append)
  obtain sig where s: "b64url_dec (tok_sig t) = Some sig" "ex_es256 ex (tok_input t) sig key"
    "decode_segment (ex_lower ex) (ex_parse ex) (json_keys claims_tags) True decode_claims p1 = Some c"
    using jws_verify_Ok [OF ver] payload by metis
  have trust: "pinned_trust v (tok_header t) key (cl_iss c) \<or> chained_trust ex v (tok_header t) now key (cl_iss c)"
    using signing_key_Ok [OF key] rest(1) by simp
  have token: "token = tok_input t @ ''.'' @ tok_sig t" using p(1,2) by simp
  have "\<exists>p0. tok_input t = p0 @ ''.'' @ p1 \<and> CHR ''.'' \<notin> set p0" using p(2,3) by blast
  then have signed: "\<exists>(t :: jws_token) payload sig key. token = tok_input t @ ''.'' @ tok_sig t \<and> length token \<le> 4096 \<and>
       hdr_alg (tok_header t) = ''ES256'' \<and> hdr_typ (tok_header t) = token_type \<and>
       b64url_dec (tok_sig t) = Some sig \<and> ex_es256 ex (tok_input t) sig key \<and>
       (\<exists>p0. tok_input t = p0 @ ''.'' @ payload \<and> CHR ''.'' \<notin> set p0) \<and>
       decode_segment (ex_lower ex) (ex_parse ex) (json_keys claims_tags) True decode_claims payload = Some c \<and>
       (pinned_trust v (tok_header t) key (cl_iss c) \<or> chained_trust ex v (tok_header t) now key (cl_iss c))"
    using token p(4-6) s trust unfolding algorithm_def max_token_len_def
    by - (rule exI [of _ t], rule exI [of _ p1], rule exI [of _ sig], rule exI [of _ key], intro conjI, assumption+)
  show ?thesis
    using claims_valid_window [OF valid] rest signed unfolding max_lifetime_seconds_def
    by (intro conjI) (simp_all only: diff_le_eq less_diff_eq diff_gt_0_iff_gt algebra_simps)
qed

lemma verify_sound_witness:
  "verify example_externals example_now example_token ''c'' ''db.internal'' 5432 example_verifier =
     (example_taken, Ok example_claims) \<and>
   (\<exists>(t :: jws_token) sig key. example_token = tok_input t @ ''.'' @ tok_sig t \<and> b64url_dec (tok_sig t) = Some sig \<and>
      ex_es256 example_externals (tok_input t) sig key)"
  using verify_sound [OF example_verify] example_verify by blast

text \<open>
  C9. A capability opens at most four pipes, ever. In any run of a new verifier whose clock does not
  go back, over any tokens and destinations, an identifier is accepted at most four times for each
  expiry that accepted capabilities carry it with: four times in all when, as Sign issues them, the
  identifier is that of one capability. Pruning an entry cannot reopen it, because by then Verify
  refuses every capability with the entry's expiry as expired. An identifier reused with a later
  expiry does open four more.
\<close>

theorem open_limit:
  assumes "new_verifier ulower cfg = Ok v" and "sorted (map call_now calls)"
    and "verify_run ex calls v = (v', results)"
  shows "length (filter (accepts j) results) \<le> 4 * card {cl_exp c | c. Ok c \<in> set results \<and> cl_jti c = j}"
proof (cases calls)
  case Nil
  then show ?thesis using assms(3) by simp
next
  case (Cons q qs)
  have e: "entries_inv j {} 0 (call_now q) (ledger_of v)"
    using new_verifier_fresh(2) [OF assms(1)] by (simp add: entries_inv_def)
  have o: "sorted (call_now q # map call_now calls)" using assms(2) Cons by auto
  have "\<exists>S \<subseteq> {} \<union> entry_expiry ` expiries j results. length (filter (accepts j) results) + 0 \<le> max_opens * card S"
    using verify_run_entries [OF new_verifier_fresh(1) [OF assms(1)] e o assms(3)] .
  then obtain S where s: "S \<subseteq> entry_expiry ` expiries j results" "length (filter (accepts j) results) \<le> max_opens * card S"
    by auto
  have "card S \<le> card (entry_expiry ` expiries j results)"
    using s(1) finite_expiries by (intro card_mono) auto
  also have "\<dots> \<le> card (expiries j results)" using finite_expiries by (rule card_image_le)
  finally have "max_opens * card S \<le> max_opens * card (expiries j results)" by (rule mult_le_mono2)
  then show ?thesis using s(2) by (simp add: max_opens_def expiries_def)
qed

lemma open_limit_witness:
  "\<exists>v' results. verify_run example_externals
      [\<lparr>call_token = example_token, call_connector = ''c'', call_host = ''db.internal'', call_port = 5432,
        call_now = example_now\<rparr>] example_verifier = (v', results) \<and>
     results = [Ok example_claims] \<and> length (filter (accepts ''j'') results) \<le> 4"
proof -
  let ?q = "\<lparr>call_token = example_token, call_connector = ''c'', call_host = ''db.internal'', call_port = 5432,
        call_now = example_now\<rparr>"
  have r: "verify_run example_externals [?q] example_verifier = (example_taken, [Ok example_claims])"
    by (simp add: example_verify)
  have "{cl_exp c | c. Ok c \<in> set [Ok example_claims :: pipe_error + claims] \<and> cl_jti c = ''j''} = {1060}"
    by (auto simp: example_claims_def)
  then have "length (filter (accepts ''j'') [Ok example_claims :: pipe_error + claims]) \<le> 4"
    using open_limit [OF example_new _ r, of "''j''"] by simp
  with r show ?thesis by blast
qed

text \<open>
  The entry goes with the expiry of the capability that made it, so an identifier that is reused with
  a later one counts anew: after four opens, a take that comes after the entry's expiry is granted.
\<close>

lemma reused_identifier_counts_anew:
  assumes "L j = Some (n, e)" and "e < now"
  shows "snd (ledger_take j x now L)"
  using assms by (simp add: ledger_take_def ledger_prune_def)

text \<open>
  C28. The heap-backed bookkeeping implements the ledger: whatever take does to the counts and the
  expiry heap is what the abstract ledger does, it answers the same, and the books stay consistent.
\<close>

theorem take_refines_ledger:
  assumes "take_inv v"
  shows "take_inv (fst (take_open jti expires now v)) \<and>
    ledger_take jti expires now (ledger_of v) =
      (ledger_of (fst (take_open jti expires now v)), snd (take_open jti expires now v))"
  using take_open_refines [OF assms, of jti expires now] by (cases "take_open jti expires now v") simp

lemma take_refines_ledger_witness:
  "take_inv example_verifier \<and>
   ledger_take ''j'' 9 5 (ledger_of example_verifier) =
     (ledger_of (fst (take_open ''j'' 9 5 example_verifier)), snd (take_open ''j'' 9 5 example_verifier))"
  using new_verifier_fresh(1) [OF example_new] take_refines_ledger [of example_verifier "''j''" 9 5] by blast

end
