(* ===== verification/Redact.thy ===== *)
theory Redact
  imports GoHttp GoJson "HOL-Library.AList" "HOL-Library.Multiset"
begin

text \<open>
  internal/redact/redact.go: compiling redaction rules, matching them to a host, and applying them
  to bytes and, per field, to JSON. The regular expressions of package regexp are a record of
  functions over an arbitrary type of compiled expressions: every theorem holds for any matcher.
  A Go map is an association list with distinct keys; the order in which the runtime iterates it
  is the parameter \<open>ord\<close>.
\<close>

section \<open>Rules\<close>

record 'r engine =
  rx_compile :: "string \<Rightarrow> string + 'r"
  rx_match :: "'r \<Rightarrow> string \<Rightarrow> bool"
  rx_replace :: "'r \<Rightarrow> string \<Rightarrow> string \<Rightarrow> string"

text \<open>Slices that the code tells apart from nil are options.\<close>

record rule =
  rule_name :: string
  rule_type :: string
  rule_pattern :: string
  rule_replacement :: string
  rule_redact_fields :: "string list option"
  rule_skip_fields :: "string list option"
  rule_hosts :: "string list"

record rules_file =
  rf_version :: string
  rf_default_replacement :: string
  rf_rules :: "rule list"

record 'r compiled_rule =
  cr_name :: string
  cr_re :: 'r
  cr_replacement :: string
  cr_structured :: bool
  cr_redact_fields :: "string list option"
  cr_skip_fields :: "string list option"
  cr_host_matchers :: "'r list option"

text \<open>WarnHostless: the rules it names, each with its position.\<close>

fun hostless_from :: "nat \<Rightarrow> rule list \<Rightarrow> (string \<times> nat) list" where
  "hostless_from i [] = []"
| "hostless_from i (r # rs) =
     (if rule_hosts r = [] then (rule_name r, i + 1) # hostless_from (i + 1) rs else hostless_from (i + 1) rs)"

definition warn_hostless :: "rules_file \<Rightarrow> (string \<times> nat) list" where
  "warn_hostless f = hostless_from 0 (rf_rules f)"

section \<open>Hosts\<close>

text \<open>\<open>idna\<close> is idna.Lookup.ToASCII.\<close>

definition idna_ascii_host :: "(string \<Rightarrow> string option) \<Rightarrow> string \<Rightarrow> string" where
  "idna_ascii_host idna host =
     (if is_ascii host then host else (case idna host of None \<Rightarrow> host | Some converted \<Rightarrow> converted))"

definition canonical_host :: "(string \<Rightarrow> string option) \<Rightarrow> (string \<Rightarrow> string) \<Rightarrow> string \<Rightarrow> string" where
  "canonical_host idna ul host = trim_suffix ''.'' (to_lower ul (idna_ascii_host idna host))"

definition applies_to_host :: "'r engine \<Rightarrow> 'r compiled_rule \<Rightarrow> string \<Rightarrow> bool" where
  "applies_to_host eng cr host =
     (case cr_host_matchers cr of None \<Rightarrow> True | Some ms \<Rightarrow> list_ex (\<lambda>m. rx_match eng m host) ms)"

definition has_rules_for_host ::
    "(string \<Rightarrow> string option) \<Rightarrow> (string \<Rightarrow> string) \<Rightarrow> 'r engine \<Rightarrow> 'r compiled_rule list \<Rightarrow> string \<Rightarrow> bool" where
  "has_rules_for_host idna ul eng rules host =
     list_ex (\<lambda>cr. applies_to_host eng cr (canonical_host idna ul host)) rules"

definition has_rules :: "'r compiled_rule list \<Rightarrow> bool" where
  "has_rules rules = (0 < length rules)"

text \<open>hasPathPrefixInSet: the field itself, then every prefix that ends before a separator.\<close>

definition field_sep :: char where "field_sep = CHR ''|''"

definition has_path_prefix_in_set :: "string \<Rightarrow> string list \<Rightarrow> bool" where
  "has_path_prefix_in_set field entries =
     (field \<in> set entries \<or>
      list_ex (\<lambda>i. field ! i = field_sep \<and> take i field \<in> set entries) [0..<length field])"

section \<open>Compiling\<close>

datatype compile_error =
    UnsupportedType string string
  | InvalidPattern string string
  | InvalidHostPattern string string string

text \<open>A host pattern spans the whole name and folds case.\<close>

definition anchored :: "string \<Rightarrow> string" where
  "anchored p = ''^(?i:'' @ p @ '')$''"

fun host_matchers_loop ::
    "'r engine \<Rightarrow> 'r list \<Rightarrow> bool \<Rightarrow> string list \<Rightarrow> (string \<times> string) + 'r list option" where
  "host_matchers_loop eng ms all [] = Ok (if all then None else Some ms)"
| "host_matchers_loop eng ms all (p # ps) =
     (if p = ''.*'' then host_matchers_loop eng ms True ps
      else (case rx_compile eng (anchored p) of
          Inl e \<Rightarrow> Err (p, e)
        | Inr m \<Rightarrow> host_matchers_loop eng (ms @ [m]) all ps))"

definition compile_host_matchers ::
    "'r engine \<Rightarrow> string list \<Rightarrow> (string \<times> string) + 'r list option" where
  "compile_host_matchers eng patterns =
     (if patterns = [] then Ok None else host_matchers_loop eng [] False patterns)"

definition compile_rule :: "'r engine \<Rightarrow> string \<Rightarrow> rule \<Rightarrow> compile_error + 'r compiled_rule" where
  "compile_rule eng dflt rl =
     (if rule_type rl \<notin> {''regex'', ''regex-structured-data''} then
        Err (UnsupportedType (rule_name rl) (rule_type rl))
      else (case rx_compile eng (rule_pattern rl) of
          Inl e \<Rightarrow> Err (InvalidPattern (rule_name rl) e)
        | Inr re \<Rightarrow>
            (case compile_host_matchers eng (rule_hosts rl) of
               Inl (p, e) \<Rightarrow> Err (InvalidHostPattern (rule_name rl) p e)
             | Inr ms \<Rightarrow>
                 let structured = (rule_type rl = ''regex-structured-data'') in
                 Ok \<lparr>cr_name = rule_name rl, cr_re = re,
                     cr_replacement = (if rule_replacement rl = [] then dflt else rule_replacement rl),
                     cr_structured = structured,
                     cr_redact_fields = (if structured then rule_redact_fields rl else None),
                     cr_skip_fields = (if structured then rule_skip_fields rl else None),
                     cr_host_matchers = ms\<rparr>)))"

definition default_replacement :: string where
  "default_replacement = ''[REDACTED]''"

definition compile_rules :: "'r engine \<Rightarrow> rules_file \<Rightarrow> compile_error + 'r compiled_rule list" where
  "compile_rules eng f =
     collect (compile_rule eng
       (if rf_default_replacement f = [] then default_replacement else rf_default_replacement f)) (rf_rules f)"

text \<open>Redactor: its state is the rule set; Update replaces it or leaves it.\<close>

definition new_redactor :: "'r compiled_rule list" where
  "new_redactor = []"

definition redactor_update ::
    "'r engine \<Rightarrow> rules_file \<Rightarrow> 'r compiled_rule list \<Rightarrow> 'r compiled_rule list \<times> compile_error option" where
  "redactor_update eng f rules =
     (case compile_rules eng f of Inl e \<Rightarrow> (rules, Some e) | Inr compiled \<Rightarrow> (compiled, None))"

section \<open>Bytes\<close>

definition apply_one_rule :: "'r engine \<Rightarrow> 'r compiled_rule \<Rightarrow> string \<Rightarrow> string \<times> bool" where
  "apply_one_rule eng cr src = (let out = rx_replace eng (cr_re cr) (cr_replacement cr) src in (out, out \<noteq> src))"

fun apply_loop :: "'r engine \<Rightarrow> string \<Rightarrow> 'r compiled_rule list \<Rightarrow> string \<Rightarrow> bool \<Rightarrow> string \<times> bool" where
  "apply_loop eng host [] result changed = (result, changed)"
| "apply_loop eng host (cr # crs) result changed =
     (if cr_structured cr \<or> \<not> applies_to_host eng cr host then apply_loop eng host crs result changed
      else let (result', rule_changed) = apply_one_rule eng cr result in
        apply_loop eng host crs result' (changed \<or> rule_changed))"

definition redact_apply ::
    "(string \<Rightarrow> string option) \<Rightarrow> (string \<Rightarrow> string) \<Rightarrow> 'r engine \<Rightarrow> 'r compiled_rule list \<Rightarrow> string \<Rightarrow>
     string \<Rightarrow> string \<times> bool" where
  "redact_apply idna ul eng rules host src =
     (if rules = [] then (src, False) else apply_loop eng (canonical_host idna ul host) rules src False)"

section \<open>JSON\<close>

text \<open>
  encoding/json into \<open>any\<close>: of two members with one name the last wins. Entries are written into
  a fresh map one by one.
\<close>

definition collect_map :: "(string \<times> 'v) list \<Rightarrow> (string \<times> 'v) list" where
  "collect_map entries = foldl (\<lambda>m (k, v). AList.update k v m) [] entries"

fun go_any :: "json \<Rightarrow> json" and go_any_all :: "json list \<Rightarrow> json list"
  and go_any_members :: "(string \<times> json) list \<Rightarrow> (string \<times> json) list" where
  "go_any (JArr js) = JArr (go_any_all js)"
| "go_any (JObj ms) = JObj (collect_map (go_any_members ms))"
| "go_any JNull = JNull"
| "go_any (JBool b) = JBool b"
| "go_any (JNum s) = JNum s"
| "go_any (JStr s) = JStr s"
| "go_any_all [] = []"
| "go_any_all (j # js) = go_any j # go_any_all js"
| "go_any_members [] = []"
| "go_any_members ((k, j) # ms) = (k, go_any j) # go_any_members ms"

definition child_path :: "string \<Rightarrow> string \<Rightarrow> string" where
  "child_path path k = (if path = [] then k else path @ [field_sep] @ k)"

definition skipped :: "'r compiled_rule \<Rightarrow> string \<Rightarrow> bool" where
  "skipped cr path = (case cr_skip_fields cr of None \<Rightarrow> False | Some fs \<Rightarrow> has_path_prefix_in_set path fs)"

definition in_scope :: "'r compiled_rule \<Rightarrow> string \<Rightarrow> bool" where
  "in_scope cr path = (case cr_redact_fields cr of None \<Rightarrow> True | Some fs \<Rightarrow> has_path_prefix_in_set path fs)"

text \<open>redactValueForRule; the flag is whether a rule matched below this node.\<close>

fun redact_value_for_rule ::
    "'r engine \<Rightarrow> ((string \<times> json) list \<Rightarrow> (string \<times> json) list) \<Rightarrow> 'r compiled_rule \<Rightarrow> string \<Rightarrow> json \<Rightarrow> json \<times> bool"
  and redact_items ::
    "'r engine \<Rightarrow> ((string \<times> json) list \<Rightarrow> (string \<times> json) list) \<Rightarrow> 'r compiled_rule \<Rightarrow> string \<Rightarrow> json list \<Rightarrow>
     json list \<times> bool"
  and redact_members ::
    "'r engine \<Rightarrow> ((string \<times> json) list \<Rightarrow> (string \<times> json) list) \<Rightarrow> 'r compiled_rule \<Rightarrow> string \<Rightarrow>
     (string \<times> json) list \<Rightarrow> (string \<times> json) list \<times> bool" where
  "redact_value_for_rule eng ord cr path (JObj ms) =
     (if skipped cr path then (JObj ms, False)
      else let (out, hit) = redact_members eng ord cr path ms in (JObj (collect_map (ord out)), hit))"
| "redact_value_for_rule eng ord cr path (JArr js) =
     (if skipped cr path then (JArr js, False)
      else let (out, hit) = redact_items eng ord cr path js in (JArr out, hit))"
| "redact_value_for_rule eng ord cr path (JStr s) =
     (if skipped cr path \<or> \<not> in_scope cr path then (JStr s, False)
      else let (out, hit) = apply_one_rule eng cr s in (JStr out, hit))"
| "redact_value_for_rule eng ord cr path (JNum s) =
     (if skipped cr path \<or> \<not> in_scope cr path then (JNum s, False)
      else let (out, hit) = apply_one_rule eng cr s in if hit then (JStr out, True) else (JNum s, False))"
| "redact_value_for_rule eng ord cr path JNull = (JNull, False)"
| "redact_value_for_rule eng ord cr path (JBool b) = (JBool b, False)"
| "redact_items eng ord cr path [] = ([], False)"
| "redact_items eng ord cr path (j # js) =
     (let (out, hit) = redact_value_for_rule eng ord cr path j; (outs, hits) = redact_items eng ord cr path js in
      (out # outs, hit \<or> hits))"
| "redact_members eng ord cr path [] = ([], False)"
| "redact_members eng ord cr path ((k, child) # ms) =
     (let cp = child_path path k; (outs, hits) = redact_members eng ord cr path ms in
      if skipped cr cp then ((k, child) # outs, hits)
      else
        let (new_key, key_hit) = (if in_scope cr path then apply_one_rule eng cr k else (k, False));
            (out, hit) = redact_value_for_rule eng ord cr cp child in
        ((new_key, out) # outs, key_hit \<or> hit \<or> hits))"

fun redact_value ::
    "'r engine \<Rightarrow> ((string \<times> json) list \<Rightarrow> (string \<times> json) list) \<Rightarrow> string \<Rightarrow> 'r compiled_rule list \<Rightarrow>
     json \<Rightarrow> bool \<Rightarrow> json \<times> bool" where
  "redact_value eng ord path [] v matched = (v, matched)"
| "redact_value eng ord path (cr # crs) v matched =
     (if \<not> cr_structured cr then redact_value eng ord path crs v matched
      else let (v', hit) = redact_value_for_rule eng ord cr path v in
        redact_value eng ord path crs v' (matched \<or> hit))"

text \<open>
  Reading one document: what Decode answers, then what the next token is. A syntax error carries
  its offset, and nothing else of the body.
\<close>

datatype json_fault = FaultAt nat | FaultUnknown
datatype decoded = DecodedEndsEarly | DecodeFault json_fault | Decoded json
datatype next_token = AtEOF | AnotherToken nat | TokenFault json_fault

datatype json_refusal = EndsMidDocument | DoesNotParse json_fault | MoreThanOne nat | TrailingBytes json_fault
  | MarshalJson string

definition apply_json ::
    "(string \<Rightarrow> string option) \<Rightarrow> (string \<Rightarrow> string) \<Rightarrow> 'r engine \<Rightarrow>
     ((string \<times> json) list \<Rightarrow> (string \<times> json) list) \<Rightarrow> (string \<Rightarrow> decoded) \<Rightarrow> (string \<Rightarrow> next_token) \<Rightarrow>
     (json \<Rightarrow> string + string) \<Rightarrow> 'r compiled_rule list \<Rightarrow> string \<Rightarrow> string \<Rightarrow> json_refusal + (string \<times> bool)" where
  "apply_json idna ul eng ord decode next_tok encode rules host src =
     (let active = filter (\<lambda>cr. cr_structured cr \<and> applies_to_host eng cr (canonical_host idna ul host)) rules in
      if active = [] then Ok (src, False)
      else (case decode src of
          DecodedEndsEarly \<Rightarrow> Err EndsMidDocument
        | DecodeFault e \<Rightarrow> Err (DoesNotParse e)
        | Decoded j \<Rightarrow>
            (case next_tok src of
               AnotherToken first_end \<Rightarrow> Err (MoreThanOne first_end)
             | TokenFault e \<Rightarrow> Err (TrailingBytes e)
             | AtEOF \<Rightarrow>
                 let (value, matched) = redact_value eng ord [] active (go_any j) False in
                 (case encode value of
                    Inl e \<Rightarrow> Err (MarshalJson e)
                  | Inr buf \<Rightarrow> Ok (trim_right_set [CHR 0x0A] buf, matched)))))"

section \<open>Laws of rule sets\<close>

lemma collect_Err_elem: "collect f xs = Err e \<Longrightarrow> \<exists>x \<in> set xs. f x = Err e"
  by (induction xs) (auto split: sum.splits)

lemma host_matchers_loop_Ok:
  "host_matchers_loop eng acc all ps = Ok r \<longleftrightarrow>
     (\<exists>ms. list_all2 (\<lambda>p m. rx_compile eng (anchored p) = Ok m) (filter (\<lambda>p. p \<noteq> ''.*'') ps) ms \<and>
        r = (if all \<or> ''.*'' \<in> set ps then None else Some (acc @ ms)))"
proof (induction eng acc all ps rule: host_matchers_loop.induct)
  case (2 eng ms all p ps)
  show ?case
  proof (cases "p = ''.*''")
    case False
    then show ?thesis using 2(2) by (auto simp: list_all2_Cons1 split: sum.splits)
  qed (use 2(1) in auto)
qed auto

lemma compile_host_matchers_Ok:
  "compile_host_matchers eng ps = Ok r \<longleftrightarrow>
     (\<exists>ms. list_all2 (\<lambda>p m. rx_compile eng (anchored p) = Ok m) (filter (\<lambda>p. p \<noteq> ''.*'') ps) ms \<and>
        r = (if ps = [] \<or> ''.*'' \<in> set ps then None else Some ms))"
  by (auto simp: compile_host_matchers_def host_matchers_loop_Ok)

text \<open>Whether a rule fires on a host, from its patterns.\<close>

definition host_selected :: "'r engine \<Rightarrow> string list \<Rightarrow> string \<Rightarrow> bool" where
  "host_selected eng ps host =
     (ps = [] \<or> ''.*'' \<in> set ps \<or>
      (\<exists>p \<in> set ps. \<exists>m. rx_compile eng (anchored p) = Ok m \<and> rx_match eng m host))"

lemma compile_host_selected:
  assumes "compile_host_matchers eng ps = Ok r" and "cr_host_matchers cr = r"
  shows "applies_to_host eng cr host \<longleftrightarrow> host_selected eng ps host"
proof (cases "ps = [] \<or> ''.*'' \<in> set ps")
  case True
  then have "r = None" using assms(1) by (auto simp: compile_host_matchers_Ok)
  with assms(2) True show ?thesis by (auto simp: applies_to_host_def host_selected_def)
next
  case False
  then obtain ms where ms: "r = Some ms" "list_all2 (\<lambda>p m. rx_compile eng (anchored p) = Ok m) ps ms"
    using assms(1) filter_True [of ps "\<lambda>p. p \<noteq> ''.*''"] unfolding compile_host_matchers_Ok by metis
  have "list_ex (\<lambda>m. rx_match eng m host) ms \<longleftrightarrow>
      (\<exists>p \<in> set ps. \<exists>m. rx_compile eng (anchored p) = Ok m \<and> rx_match eng m host)"
    using ms(2) by (induction rule: list_all2_induct) auto
  with ms(1) assms(2) False show ?thesis by (simp add: applies_to_host_def host_selected_def)
qed

lemma compile_rule_Ok:
  "compile_rule eng dflt rl = Ok cr \<Longrightarrow>
     compile_host_matchers eng (rule_hosts rl) = Ok (cr_host_matchers cr) \<and>
     rx_compile eng (rule_pattern rl) = Ok (cr_re cr) \<and> cr_name cr = rule_name rl \<and>
     cr_replacement cr = (if rule_replacement rl = [] then dflt else rule_replacement rl) \<and>
     cr_structured cr = (rule_type rl = ''regex-structured-data'') \<and>
     (rule_type rl = ''regex'' \<or> rule_type rl = ''regex-structured-data'')"
  by (auto simp: compile_rule_def Let_def split: if_splits sum.splits)

text \<open>hasPathPrefixInSet on the paths the walk builds: the entry or any ancestor of it.\<close>

lemma has_path_prefix_iff:
  "has_path_prefix_in_set field fs \<longleftrightarrow>
     (\<exists>e \<in> set fs. field = e \<or> (\<exists>rest. field = e @ field_sep # rest))"
proof -
  have "(\<exists>i < length field. field ! i = field_sep \<and> take i field \<in> set fs) \<longleftrightarrow>
      (\<exists>e \<in> set fs. \<exists>rest. field = e @ field_sep # rest)"
  proof
    assume "\<exists>i < length field. field ! i = field_sep \<and> take i field \<in> set fs"
    then show "\<exists>e \<in> set fs. \<exists>rest. field = e @ field_sep # rest"
      by (metis id_take_nth_drop)
  next
    assume "\<exists>e \<in> set fs. \<exists>rest. field = e @ field_sep # rest"
    then obtain e rest where "e \<in> set fs" "field = e @ field_sep # rest" by blast
    then show "\<exists>i < length field. field ! i = field_sep \<and> take i field \<in> set fs"
      by (intro exI [of _ "length e"]) auto
  qed
  then show ?thesis by (auto simp: has_path_prefix_in_set_def list_ex_iff)
qed

lemma child_path_inherits:
  "path \<noteq> [] \<Longrightarrow> has_path_prefix_in_set path fs \<Longrightarrow> has_path_prefix_in_set (child_path path k) fs"
  unfolding has_path_prefix_iff child_path_def by (simp add: append_assoc) (metis append_Cons append_assoc)

section \<open>What a structured rule does to a document\<close>

text \<open>
  The tokens of a document that a rule can rewrite: keys, strings and numbers; the rest are
  constants. \<open>occs\<close> lists them with the path whose scope decides and every path, from the root
  down, that can exclude them.
\<close>

datatype leaf = LKey string | LText string | LNum string | LConst json

fun leaves :: "json \<Rightarrow> leaf list" and leaves_all :: "json list \<Rightarrow> leaf list"
  and leaves_members :: "(string \<times> json) list \<Rightarrow> leaf list" where
  "leaves (JObj ms) = leaves_members ms"
| "leaves (JArr js) = leaves_all js"
| "leaves (JStr s) = [LText s]"
| "leaves (JNum s) = [LNum s]"
| "leaves JNull = [LConst JNull]"
| "leaves (JBool b) = [LConst (JBool b)]"
| "leaves_all [] = []"
| "leaves_all (j # js) = leaves j @ leaves_all js"
| "leaves_members [] = []"
| "leaves_members ((k, j) # ms) = LKey k # leaves j @ leaves_members ms"

type_synonym occ = "string list \<times> string \<times> leaf"

fun occs :: "string list \<Rightarrow> string \<Rightarrow> json \<Rightarrow> occ list" and occs_all :: "string list \<Rightarrow> string \<Rightarrow> json list \<Rightarrow> occ list"
  and occs_members :: "string list \<Rightarrow> string \<Rightarrow> (string \<times> json) list \<Rightarrow> occ list" where
  "occs anc path (JObj ms) = occs_members anc path ms"
| "occs anc path (JArr js) = occs_all anc path js"
| "occs anc path (JStr s) = [(anc, path, LText s)]"
| "occs anc path (JNum s) = [(anc, path, LNum s)]"
| "occs anc path JNull = [(anc, path, LConst JNull)]"
| "occs anc path (JBool b) = [(anc, path, LConst (JBool b))]"
| "occs_all anc path [] = []"
| "occs_all anc path (j # js) = occs anc path j @ occs_all anc path js"
| "occs_members anc path [] = []"
| "occs_members anc path ((k, j) # ms) =
     (let cp = child_path path k in
      (cp # anc, path, LKey k) # occs (cp # anc) cp j @ occs_members anc path ms)"

definition replaced :: "'r engine \<Rightarrow> 'r compiled_rule \<Rightarrow> string \<Rightarrow> string" where
  "replaced eng cr s = rx_replace eng (cr_re cr) (cr_replacement cr) s"

fun redact_leaf :: "'r engine \<Rightarrow> 'r compiled_rule \<Rightarrow> leaf \<Rightarrow> leaf" where
  "redact_leaf eng cr (LKey s) = LKey (replaced eng cr s)"
| "redact_leaf eng cr (LText s) = LText (replaced eng cr s)"
| "redact_leaf eng cr (LNum s) = (if replaced eng cr s = s then LNum s else LText (replaced eng cr s))"
| "redact_leaf eng cr (LConst j) = LConst j"

fun redact_occ :: "'r engine \<Rightarrow> 'r compiled_rule \<Rightarrow> occ \<Rightarrow> leaf" where
  "redact_occ eng cr (anc, path, l) =
     (if list_ex (skipped cr) anc \<or> \<not> in_scope cr path then l else redact_leaf eng cr l)"

lemma leaves_occs:
  "map (snd \<circ> snd) (occs anc path j) = leaves j"
  "map (snd \<circ> snd) (occs_all anc path js) = leaves_all js"
  "map (snd \<circ> snd) (occs_members anc path ms) = leaves_members ms"
  by (induction j and js and ms arbitrary: anc path and anc path and anc path
      rule: leaves_leaves_all_leaves_members.induct) (auto simp: Let_def)

lemma occs_skipped:
  "list_ex (skipped cr) anc \<Longrightarrow> map (redact_occ eng cr) (occs anc path j) = leaves j"
  "list_ex (skipped cr) anc \<Longrightarrow> map (redact_occ eng cr) (occs_all anc path js) = leaves_all js"
  "list_ex (skipped cr) anc \<Longrightarrow> map (redact_occ eng cr) (occs_members anc path ms) = leaves_members ms"
  by (induction j and js and ms arbitrary: anc path and anc path and anc path
      rule: leaves_leaves_all_leaves_members.induct) (auto simp: Let_def)

lemma apply_one_rule_simp: "apply_one_rule eng cr s = (replaced eng cr s, replaced eng cr s \<noteq> s)"
  by (simp add: apply_one_rule_def replaced_def Let_def)

lemma collect_map_snoc: "collect_map (xs @ [(k, v)]) = AList.update k v (collect_map xs)"
  by (simp add: collect_map_def)

lemma set_update_subset: "set (AList.update k v m) \<subseteq> insert (k, v) (set m)"
  by (induction m) auto

lemma collect_map_subset: "set (collect_map xs) \<subseteq> set xs"
proof (induction xs rule: rev_induct)
  case (snoc e xs)
  obtain k v where e: "e = (k, v)" by force
  have "set (collect_map (xs @ [e])) \<subseteq> insert (k, v) (set (collect_map xs))"
    unfolding e collect_map_snoc by (rule set_update_subset)
  then show ?case using snoc e by auto
qed (simp add: collect_map_def)

lemma update_fresh: "k \<notin> fst ` set m \<Longrightarrow> AList.update k v m = m @ [(k, v)]"
  by (induction m) auto

lemma collect_map_distinct: "distinct (map fst xs) \<Longrightarrow> collect_map xs = xs"
proof (induction xs rule: rev_induct)
  case (snoc e xs)
  then show ?case by (cases e) (simp add: collect_map_snoc update_fresh image_iff)
qed (simp add: collect_map_def)

lemma collect_map_ordered:
  assumes "mset (ord xs) = mset xs" and "distinct (map fst xs)"
  shows "mset (collect_map (ord xs)) = mset xs"
proof -
  have "mset (map fst (ord xs)) = mset (map fst xs)" using assms(1) by (metis mset_map)
  then have "distinct (map fst (ord xs))" using assms(2) by (metis mset_eq_imp_distinct_iff)
  then show ?thesis using assms(1) by (simp add: collect_map_distinct)
qed

lemma leaves_members_mset: "mset ms = mset ms' \<Longrightarrow> mset (leaves_members ms) = mset (leaves_members ms')"
proof -
  have "mset (leaves_members ms) = (\<Sum>(k, j) \<in># mset ms. add_mset (LKey k) (mset (leaves j)))" for ms
    by (induction ms) auto
  then show "mset ms = mset ms' \<Longrightarrow> mset (leaves_members ms) = mset (leaves_members ms')" by simp
qed

lemma leaves_members_set: "set (leaves_members ms) = (\<Union>(k, j) \<in> set ms. insert (LKey k) (set (leaves j)))"
  by (induction ms) auto

lemma leaves_members_subset: "set ms \<subseteq> set ms' \<Longrightarrow> set (leaves_members ms) \<subseteq> set (leaves_members ms')"
  by (simp add: leaves_members_set UN_mono)

text \<open>No two keys of an object collapse to one under the rule.\<close>

fun new_keys :: "'r engine \<Rightarrow> 'r compiled_rule \<Rightarrow> string \<Rightarrow> (string \<times> json) list \<Rightarrow> string list" where
  "new_keys eng cr path [] = []"
| "new_keys eng cr path ((k, j) # ms) =
     (if skipped cr (child_path path k) \<or> \<not> in_scope cr path then k else replaced eng cr k) # new_keys eng cr path ms"

fun clash_free :: "'r engine \<Rightarrow> 'r compiled_rule \<Rightarrow> string \<Rightarrow> json \<Rightarrow> bool"
  and clash_free_all :: "'r engine \<Rightarrow> 'r compiled_rule \<Rightarrow> string \<Rightarrow> json list \<Rightarrow> bool"
  and clash_free_members :: "'r engine \<Rightarrow> 'r compiled_rule \<Rightarrow> string \<Rightarrow> (string \<times> json) list \<Rightarrow> bool" where
  "clash_free eng cr path (JObj ms) = (distinct (new_keys eng cr path ms) \<and> clash_free_members eng cr path ms)"
| "clash_free eng cr path (JArr js) = clash_free_all eng cr path js"
| "clash_free eng cr path _ = True"
| "clash_free_all eng cr path [] = True"
| "clash_free_all eng cr path (j # js) = (clash_free eng cr path j \<and> clash_free_all eng cr path js)"
| "clash_free_members eng cr path [] = True"
| "clash_free_members eng cr path ((k, j) # ms) =
     (clash_free eng cr (child_path path k) j \<and> clash_free_members eng cr path ms)"

text \<open>The walk as its value and its flag.\<close>

lemma redact_walk:
  "fst (redact_value_for_rule eng ord cr path (JObj ms)) =
     (if skipped cr path then JObj ms else JObj (collect_map (ord (fst (redact_members eng ord cr path ms)))))"
  "fst (redact_value_for_rule eng ord cr path (JArr js)) =
     (if skipped cr path then JArr js else JArr (fst (redact_items eng ord cr path js)))"
  "fst (redact_value_for_rule eng ord cr path (JStr s)) =
     (if skipped cr path \<or> \<not> in_scope cr path then JStr s else JStr (replaced eng cr s))"
  "fst (redact_value_for_rule eng ord cr path (JNum s)) =
     (if skipped cr path \<or> \<not> in_scope cr path \<or> replaced eng cr s = s then JNum s else JStr (replaced eng cr s))"
  "fst (redact_items eng ord cr path (j # js)) =
     fst (redact_value_for_rule eng ord cr path j) # fst (redact_items eng ord cr path js)"
  "fst (redact_members eng ord cr path ((k, j) # ms)) =
     (if skipped cr (child_path path k) then (k, j)
      else (if in_scope cr path then replaced eng cr k else k,
            fst (redact_value_for_rule eng ord cr (child_path path k) j))) # fst (redact_members eng ord cr path ms)"
  by (simp_all add: Let_def split_def apply_one_rule_simp)

lemma redact_flag:
  "snd (redact_value_for_rule eng ord cr path (JObj ms)) =
     (\<not> skipped cr path \<and> snd (redact_members eng ord cr path ms))"
  "snd (redact_value_for_rule eng ord cr path (JArr js)) =
     (\<not> skipped cr path \<and> snd (redact_items eng ord cr path js))"
  "snd (redact_value_for_rule eng ord cr path (JStr s)) =
     (\<not> skipped cr path \<and> in_scope cr path \<and> replaced eng cr s \<noteq> s)"
  "snd (redact_value_for_rule eng ord cr path (JNum s)) =
     (\<not> skipped cr path \<and> in_scope cr path \<and> replaced eng cr s \<noteq> s)"
  "snd (redact_items eng ord cr path (j # js)) =
     (snd (redact_value_for_rule eng ord cr path j) \<or> snd (redact_items eng ord cr path js))"
  "snd (redact_members eng ord cr path ((k, j) # ms)) =
     (\<not> skipped cr (child_path path k) \<and>
        (in_scope cr path \<and> replaced eng cr k \<noteq> k \<or>
         snd (redact_value_for_rule eng ord cr (child_path path k) j)) \<or>
      snd (redact_members eng ord cr path ms))"
  by (simp_all add: Let_def split_def apply_one_rule_simp)

lemmas redact_rec = redact_walk redact_flag
  redact_value_for_rule.simps(5,6) redact_items.simps(1) redact_members.simps(1)

declare redact_value_for_rule.simps [simp del] redact_items.simps [simp del] redact_members.simps [simp del]

lemma redact_members_keys: "map fst (fst (redact_members eng ord cr path ms)) = new_keys eng cr path ms"
  by (induction ms) (auto simp: redact_rec)

text \<open>Once a path is excluded so is everything below it, the root's empty path apart.\<close>

definition guarded :: "'r compiled_rule \<Rightarrow> string list \<Rightarrow> string \<Rightarrow> bool" where
  "guarded cr anc path = (path \<in> set anc \<and> (list_ex (skipped cr) anc \<longrightarrow> skipped cr path))"

lemma guarded_child:
  "guarded cr anc path \<Longrightarrow> \<not> skipped cr path \<Longrightarrow> guarded cr (child_path path k # anc) (child_path path k)"
  by (auto simp: guarded_def)

lemma guarded_skips: "guarded cr anc path \<Longrightarrow> list_ex (skipped cr) anc = skipped cr path"
  by (auto simp: guarded_def list_ex_iff)

lemma occs_skipped_set:
  "list_ex (skipped cr) anc \<Longrightarrow> redact_occ eng cr ` set (occs anc path j) = set (leaves j)"
  using occs_skipped(1) [of cr anc eng path j] by (metis list.set_map)

lemma redact_leaves_subset:
  assumes "\<And>xs. set (ord xs) \<subseteq> set xs"
  shows "guarded cr anc path \<Longrightarrow>
      set (leaves (fst (redact_value_for_rule eng ord cr path j))) \<subseteq> redact_occ eng cr ` set (occs anc path j)"
    and "guarded cr anc path \<Longrightarrow> \<not> skipped cr path \<Longrightarrow>
      set (leaves_all (fst (redact_items eng ord cr path js))) \<subseteq> redact_occ eng cr ` set (occs_all anc path js)"
    and "guarded cr anc path \<Longrightarrow> \<not> skipped cr path \<Longrightarrow>
      set (leaves_members (fst (redact_members eng ord cr path ms))) \<subseteq> redact_occ eng cr ` set (occs_members anc path ms)"
proof (induction j and js and ms arbitrary: anc path and anc path and anc path
    rule: leaves_leaves_all_leaves_members.induct)
  case (1 ms)
  show ?case
  proof (cases "skipped cr path")
    case True
    then show ?thesis
      using guarded_skips [OF 1(2)] occs_skipped_set [of cr anc eng path "JObj ms"]
      by (simp add: redact_rec)
  next
    case False
    have "set (collect_map (ord (fst (redact_members eng ord cr path ms)))) \<subseteq> set (fst (redact_members eng ord cr path ms))"
      using collect_map_subset assms by blast
    then have "set (leaves_members (collect_map (ord (fst (redact_members eng ord cr path ms))))) \<subseteq>
        set (leaves_members (fst (redact_members eng ord cr path ms)))"
      by (rule leaves_members_subset)
    with 1(1) [OF 1(2) False] show ?thesis using False by (simp add: redact_rec)
  qed
next
  case (2 js)
  then show ?case
    using guarded_skips [OF 2(2)] occs_skipped_set [of cr anc eng path "JArr js"]
    by (cases "skipped cr path") (simp_all add: redact_rec)
next
  case (10 k j ms)
  have "set (leaves_members (fst (redact_members eng ord cr path ms))) \<subseteq> redact_occ eng cr ` set (occs_members anc path ms)"
    using 10 by blast
  moreover have "set (leaves (fst (redact_value_for_rule eng ord cr (child_path path k) j))) \<subseteq>
      redact_occ eng cr ` set (occs (child_path path k # anc) (child_path path k) j)"
    using 10 guarded_child by blast
  moreover have "list_ex (skipped cr) (child_path path k # anc) = skipped cr (child_path path k)"
    using guarded_skips [OF 10(3)] 10(4) by simp
  ultimately show ?case
    using occs_skipped_set [of cr "child_path path k # anc" eng "child_path path k" j]
    by (cases "skipped cr (child_path path k)")
      (auto simp: redact_rec Let_def)
next
  case (8 j js)
  then show ?case by (simp add: redact_rec image_Un) blast
qed (auto simp: redact_rec guarded_skips)

lemma redact_leaves_exact:
  assumes "\<And>xs. mset (ord xs) = mset xs"
  shows "guarded cr anc path \<Longrightarrow> clash_free eng cr path j \<Longrightarrow>
      mset (leaves (fst (redact_value_for_rule eng ord cr path j))) = mset (map (redact_occ eng cr) (occs anc path j))"
    and "guarded cr anc path \<Longrightarrow> \<not> skipped cr path \<Longrightarrow> clash_free_all eng cr path js \<Longrightarrow>
      mset (leaves_all (fst (redact_items eng ord cr path js))) = mset (map (redact_occ eng cr) (occs_all anc path js))"
    and "guarded cr anc path \<Longrightarrow> \<not> skipped cr path \<Longrightarrow> clash_free_members eng cr path ms \<Longrightarrow>
      mset (leaves_members (fst (redact_members eng ord cr path ms))) =
        mset (map (redact_occ eng cr) (occs_members anc path ms))"
proof (induction j and js and ms arbitrary: anc path and anc path and anc path
    rule: leaves_leaves_all_leaves_members.induct)
  case (1 ms)
  show ?case
  proof (cases "skipped cr path")
    case True
    then show ?thesis
      using guarded_skips [OF 1(2)] occs_skipped(1) [of cr anc eng path "JObj ms"] by (simp add: redact_rec)
  next
    case False
    have "mset (collect_map (ord (fst (redact_members eng ord cr path ms)))) = mset (fst (redact_members eng ord cr path ms))"
      using 1(3) by (intro collect_map_ordered assms) (simp add: redact_members_keys)
    then have "mset (leaves_members (collect_map (ord (fst (redact_members eng ord cr path ms))))) =
        mset (leaves_members (fst (redact_members eng ord cr path ms)))"
      by (rule leaves_members_mset)
    with 1(1) [OF 1(2) False] 1(3) show ?thesis using False by (simp add: redact_rec)
  qed
next
  case (2 js)
  then show ?case
    using guarded_skips [OF 2(2)] occs_skipped(1) [of cr anc eng path "JArr js"]
    by (cases "skipped cr path") (simp_all add: redact_rec)
next
  case (8 j js)
  then show ?case by (simp add: redact_rec)
next
  case (10 k j ms)
  have ms: "mset (leaves_members (fst (redact_members eng ord cr path ms))) = mset (map (redact_occ eng cr) (occs_members anc path ms))"
    using 10 by simp
  have j: "mset (leaves (fst (redact_value_for_rule eng ord cr (child_path path k) j))) =
      mset (map (redact_occ eng cr) (occs (child_path path k # anc) (child_path path k) j))"
    using 10(1) [OF guarded_child [OF 10(3,4)]] 10(5) by simp
  have "list_ex (skipped cr) (child_path path k # anc) = skipped cr (child_path path k)"
    using guarded_skips [OF 10(3)] 10(4) by simp
  then show ?case
    using ms j occs_skipped(1) [of cr "child_path path k # anc" eng "child_path path k" j]
    by (cases "skipped cr (child_path path k)") (simp_all add: redact_rec Let_def)
qed (auto simp: redact_rec guarded_skips)

lemma no_hit_skipped:
  assumes "list_ex (skipped cr) anc"
  shows "\<not> list_ex (\<lambda>occ. redact_occ eng cr occ \<noteq> snd (snd occ)) (occs anc path j)"
proof -
  have "map (redact_occ eng cr) (occs anc path j) = map (snd \<circ> snd) (occs anc path j)"
    using occs_skipped(1) [OF assms] leaves_occs(1) [of anc path j] by simp
  then show ?thesis by (simp add: list_ex_iff)
qed

lemma redact_hit_exact:
  shows "guarded cr anc path \<Longrightarrow> snd (redact_value_for_rule eng ord cr path j) =
      list_ex (\<lambda>occ. redact_occ eng cr occ \<noteq> snd (snd occ)) (occs anc path j)"
    and "guarded cr anc path \<Longrightarrow> \<not> skipped cr path \<Longrightarrow> snd (redact_items eng ord cr path js) =
      list_ex (\<lambda>occ. redact_occ eng cr occ \<noteq> snd (snd occ)) (occs_all anc path js)"
    and "guarded cr anc path \<Longrightarrow> \<not> skipped cr path \<Longrightarrow> snd (redact_members eng ord cr path ms) =
      list_ex (\<lambda>occ. redact_occ eng cr occ \<noteq> snd (snd occ)) (occs_members anc path ms)"
proof (induction j and js and ms arbitrary: anc path and anc path and anc path
    rule: leaves_leaves_all_leaves_members.induct)
  case (1 ms)
  then show ?case
    using no_hit_skipped [of cr anc eng path "JObj ms"] guarded_skips [OF 1(2)]
    by (cases "skipped cr path") (simp_all add: redact_rec)
next
  case (2 js)
  then show ?case
    using no_hit_skipped [of cr anc eng path "JArr js"] guarded_skips [OF 2(2)]
    by (cases "skipped cr path") (simp_all add: redact_rec)
next
  case (10 k j ms)
  have "list_ex (skipped cr) (child_path path k # anc) = skipped cr (child_path path k)"
    using guarded_skips [OF 10(3)] 10(4) by simp
  then show ?case
    using 10(2) [OF 10(3,4)] 10(1) [OF guarded_child [OF 10(3,4), of k]]
      no_hit_skipped [of cr "child_path path k # anc" eng "child_path path k" j]
    by (cases "skipped cr (child_path path k)") (auto simp: redact_rec Let_def)
qed (auto simp: redact_rec guarded_skips)

section \<open>Hosts and rule sets\<close>

lemma list_all2_ex: "(\<exists>ys. list_all2 P xs ys) \<longleftrightarrow> (\<forall>x \<in> set xs. \<exists>y. P x y)"
  by (induction xs) (auto simp: list_all2_Cons1)

lemma compile_host_matchers_succeeds:
  "(\<exists>r. compile_host_matchers eng ps = Ok r) \<longleftrightarrow>
     (\<forall>p \<in> set ps. p \<noteq> ''.*'' \<longrightarrow> (\<exists>m. rx_compile eng (anchored p) = Ok m))"
  by (auto simp: compile_host_matchers_Ok list_all2_ex)

lemma list_all2_compiled:
  assumes "compile_rules eng f = Ok crs" and "cr \<in> set crs"
  obtains rl where "rl \<in> set (rf_rules f)"
    "compile_rule eng (if rf_default_replacement f = [] then default_replacement else rf_default_replacement f) rl = Ok cr"
proof -
  obtain i where i: "i < length crs" "cr = crs ! i" using assms(2) by (metis in_set_conv_nth)
  have "list_all2 (\<lambda>rl cr. compile_rule eng (if rf_default_replacement f = [] then default_replacement
      else rf_default_replacement f) rl = Ok cr) (rf_rules f) crs"
    using assms(1) by (simp add: compile_rules_def collect_Ok)
  then show ?thesis
    using i that [of "rf_rules f ! i"] by (auto simp: list_all2_conv_all_nth)
qed

lemma apply_loop_none:
  "\<forall>cr \<in> set crs. \<not> applies_to_host eng cr host \<Longrightarrow> apply_loop eng host crs src changed = (src, changed)"
  by (induction crs) auto

lemma canonical_host_ascii:
  assumes "is_ascii host"
  shows "canonical_host idna ul host = trim_suffix ''.'' (ascii_lower host)"
  using assms by (simp add: canonical_host_def idna_ascii_host_def to_lower_def)

lemma ascii_lower_no_dot: "ascii_lower (host @ ''.'') = ascii_lower host @ ''.''"
  by (simp add: ascii_lower_def upper_letters_def)

lemma lower_char_dot: "lower_char c = CHR ''.'' \<longleftrightarrow> c = CHR ''.''"
proof -
  have "list_all (\<lambda>c. lower_char c \<noteq> CHR ''.'') upper_letters" by code_simp
  moreover have "CHR ''.'' \<notin> set upper_letters" by code_simp
  ultimately show ?thesis by (cases "c \<in> set upper_letters") (auto simp: list_all_iff)
qed

lemma canonical_host_spelling:
  assumes "is_ascii a" and "is_ascii b" and "ascii_lower a = ascii_lower b" and "last a \<noteq> CHR ''.''"
  shows "canonical_host idna ul a = canonical_host idna ul (b @ ''.'')"
proof -
  have "trim_suffix ''.'' (ascii_lower a) = ascii_lower a"
  proof (cases "a = []")
    case False
    then show ?thesis
      using assms(4) by (intro trim_suffix_char_idem) (simp add: ascii_lower_def last_map lower_char_dot)
  qed (simp add: ascii_lower_def trim_suffix_def cut_suffix_def)
  moreover have "is_ascii (b @ ''.'')" using assms(2) by (simp add: is_ascii_def)
  ultimately show ?thesis
    using assms(1,3) by (simp add: canonical_host_ascii ascii_lower_no_dot)
qed

section \<open>Properties\<close>

text \<open>
  A matcher for the witnesses: an expression is a literal text, matched anywhere, and replaced
  everywhere; a text with an unclosed group does not compile.
\<close>

definition literal_engine :: "string engine" where
  "literal_engine = \<lparr>
     rx_compile = (\<lambda>p. if p = ''('' then Err ''missing )'' else Ok p),
     rx_match = (\<lambda>re s. re = anchored s),
     rx_replace = (\<lambda>re rep s. replace_all_str re rep s)\<rparr>"

definition example_rule :: rule where
  "example_rule = \<lparr>rule_name = ''card'', rule_type = ''regex-structured-data'', rule_pattern = ''42'',
     rule_replacement = [], rule_redact_fields = None, rule_skip_fields = Some [''user|note''],
     rule_hosts = [''api'']\<rparr>"

definition example_rules_file :: rules_file where
  "example_rules_file = \<lparr>rf_version = ''1'', rf_default_replacement = ''#'', rf_rules = [example_rule]\<rparr>"

definition example_compiled :: "string compiled_rule" where
  "example_compiled = \<lparr>cr_name = ''card'', cr_re = ''42'', cr_replacement = ''#'', cr_structured = True,
     cr_redact_fields = None, cr_skip_fields = Some [''user|note''], cr_host_matchers = Some [anchored ''api'']\<rparr>"

lemma example_compiles: "compile_rules literal_engine example_rules_file = Ok [example_compiled]"
  by (simp add: compile_rules_def example_rules_file_def compile_rule_def example_rule_def literal_engine_def
      compile_host_matchers_def example_compiled_def anchored_def)

definition example_document :: json where
  "example_document = JObj [(''user'', JObj [(''id'', JNum ''1427''), (''note'', JStr ''42'')])]"

lemma example_replaced:
  "replaced literal_engine example_compiled ''1427'' = ''1#7''" "replaced literal_engine example_compiled ''user'' = ''user''"
  "replaced literal_engine example_compiled ''id'' = ''id''"
  by (simp_all add: replaced_def literal_engine_def example_compiled_def replace_all_str.simps)

lemma example_paths:
  "\<not> skipped example_compiled []" "\<not> skipped example_compiled ''user''" "\<not> skipped example_compiled ''user|id''"
  "skipped example_compiled ''user|note''" "in_scope example_compiled p"
  by (auto simp: skipped_def in_scope_def example_compiled_def has_path_prefix_iff field_sep_def)

lemma example_child: "child_path [] k = k" "child_path ''user'' ''id'' = ''user|id''" "child_path ''user'' ''note'' = ''user|note''"
  by (simp_all add: child_path_def field_sep_def)

lemma example_redacted:
  "redact_value_for_rule literal_engine id example_compiled [] example_document =
     (JObj [(''user'', JObj [(''id'', JStr ''1#7''), (''note'', JStr ''42'')])], True)"
  by (rule prod_eqI)
    (simp_all add: example_document_def redact_rec example_paths example_child example_replaced collect_map_def)

text \<open>
  Whether a rule fires on a host depends on the set of its host patterns only: neither the
  order of the list nor a wildcard among them hides an invalid pattern, and a rule that compiled
  fires exactly on the hosts that one of its patterns spans, or on all of them with no pattern or
  a wildcard.
\<close>

theorem host_filter_exact:
  assumes "compile_rules eng f = Ok crs" and "cr \<in> set crs"
  shows "\<exists>rl \<in> set (rf_rules f). cr_name cr = rule_name rl \<and>
    (\<forall>p \<in> set (rule_hosts rl). p \<noteq> ''.*'' \<longrightarrow> (\<exists>m. rx_compile eng (anchored p) = Ok m)) \<and>
    (\<forall>host. applies_to_host eng cr host \<longleftrightarrow> host_selected eng (rule_hosts rl) host)"
proof -
  obtain rl where rl: "rl \<in> set (rf_rules f)" "compile_host_matchers eng (rule_hosts rl) = Ok (cr_host_matchers cr)"
    "cr_name cr = rule_name rl"
    using list_all2_compiled [OF assms] compile_rule_Ok by metis
  moreover have "applies_to_host eng cr host \<longleftrightarrow> host_selected eng (rule_hosts rl) host" for host
    using compile_host_selected [OF rl(2)] by simp
  ultimately show ?thesis using compile_host_matchers_succeeds [of eng "rule_hosts rl"] by blast
qed

text \<open>
  An update is all or nothing. If it fails, the rules stay as they are and some rule of the
  file does not compile; if it succeeds, the new rules are the file's, in order, with the file's
  default replacement, or [REDACTED], where a rule has none.
\<close>

theorem update_atomic:
  "case redactor_update eng f rules of
     (rules', Some e) \<Rightarrow> rules' = rules \<and> (\<exists>rl \<in> set (rf_rules f). \<exists>dflt. compile_rule eng dflt rl = Err e)
   | (rules', None) \<Rightarrow> list_all2 (\<lambda>rl cr. cr_name cr = rule_name rl \<and>
        rx_compile eng (rule_pattern rl) = Ok (cr_re cr) \<and>
        cr_structured cr = (rule_type rl = ''regex-structured-data'') \<and>
        cr_replacement cr = (if rule_replacement rl \<noteq> [] then rule_replacement rl
          else if rf_default_replacement f \<noteq> [] then rf_default_replacement f else ''[REDACTED]''))
        (rf_rules f) rules'"
proof (cases "compile_rules eng f")
  case (Inl e)
  then have "\<exists>rl \<in> set (rf_rules f). \<exists>dflt. compile_rule eng dflt rl = Err e"
    unfolding compile_rules_def by (metis collect_Err_elem)
  with Inl show ?thesis by (simp add: redactor_update_def)
next
  case (Inr crs)
  then have "list_all2 (\<lambda>rl cr. compile_rule eng (if rf_default_replacement f = [] then default_replacement
      else rf_default_replacement f) rl = Ok cr) (rf_rules f) crs"
    by (simp add: compile_rules_def collect_Ok)
  then have "list_all2 (\<lambda>rl cr. cr_name cr = rule_name rl \<and>
        rx_compile eng (rule_pattern rl) = Ok (cr_re cr) \<and>
        cr_structured cr = (rule_type rl = ''regex-structured-data'') \<and>
        cr_replacement cr = (if rule_replacement rl \<noteq> [] then rule_replacement rl
          else if rf_default_replacement f \<noteq> [] then rf_default_replacement f else ''[REDACTED]''))
        (rf_rules f) crs"
    by (rule list_all2_mono) (auto simp: default_replacement_def dest: compile_rule_Ok)
  then show ?thesis by (simp add: redactor_update_def Inr)
qed

text \<open>
  Two spellings of one name carry one rule set: an ASCII host in any case, with or without its
  trailing dot, passes the same gate, and bytes and JSON come out the same.
\<close>

theorem one_host_one_rule_set:
  assumes "is_ascii a" and "is_ascii b" and "ascii_lower a = ascii_lower b" and "last a \<noteq> CHR ''.''"
  shows "has_rules_for_host idna ul eng rules a = has_rules_for_host idna ul eng rules (b @ ''.'') \<and>
    redact_apply idna ul eng rules a src = redact_apply idna ul eng rules (b @ ''.'') src \<and>
    apply_json idna ul eng ord decode next_tok encode rules a src =
      apply_json idna ul eng ord decode next_tok encode rules (b @ ''.'') src"
  using canonical_host_spelling [OF assms, of idna ul]
  by (simp add: has_rules_for_host_def redact_apply_def apply_json_def)

text \<open>
  The gate is sound: a response whose host no rule targets comes out of both paths byte for
  byte as it went in, unparsed and unflagged.
\<close>

theorem gate_sound:
  assumes "\<not> has_rules_for_host idna ul eng rules host"
  shows "redact_apply idna ul eng rules host src = (src, False) \<and>
    apply_json idna ul eng ord decode next_tok encode rules host src = Ok (src, False)"
proof -
  have none: "\<forall>cr \<in> set rules. \<not> applies_to_host eng cr (canonical_host idna ul host)"
    using assms by (auto simp: has_rules_for_host_def list_ex_iff)
  then have "filter (\<lambda>cr. cr_structured cr \<and> applies_to_host eng cr (canonical_host idna ul host)) rules = []"
    by (auto simp: filter_empty_conv)
  with none show ?thesis by (simp add: redact_apply_def apply_json_def apply_loop_none)
qed

text \<open>
  C6. Nothing in scope survives. Whatever the order in which the runtime iterates maps, and even
  when redacted keys collide, every key, string and number of the output is one of the document's
  after redaction: replaced if its path is in scope and neither it nor a path above it is excluded,
  untouched otherwise.
\<close>

theorem redact_no_leak:
  assumes "\<And>xs. set (ord xs) \<subseteq> set xs"
  shows "set (leaves (fst (redact_value_for_rule eng ord cr [] doc))) \<subseteq> redact_occ eng cr ` set (occs [[]] [] doc)"
  by (rule redact_leaves_subset(1) [OF assms]) (simp add: guarded_def)

text \<open>
  C29. Redaction loses nothing and its flag is exact. If no two keys of an object collapse, the
  output has every token of the document, redacted as its paths say and no other way; and the flag
  is set exactly when some token changed.
\<close>

theorem redact_exact:
  assumes "\<And>xs. mset (ord xs) = mset xs" and "clash_free eng cr [] doc"
  shows "mset (leaves (fst (redact_value_for_rule eng ord cr [] doc))) =
      mset (map (redact_occ eng cr) (occs [[]] [] doc)) \<and>
    (snd (redact_value_for_rule eng ord cr [] doc) \<longleftrightarrow>
      (\<exists>occ \<in> set (occs [[]] [] doc). redact_occ eng cr occ \<noteq> snd (snd occ)))"
proof -
  have g: "guarded cr [[]] []" by (simp add: guarded_def)
  show ?thesis
    using redact_leaves_exact(1) [OF assms(1) g assms(2)] redact_hit_exact(1) [OF g, of eng ord doc]
    by (simp add: list_ex_iff)
qed

lemma host_filter_exact_witness:
  "compile_rules literal_engine example_rules_file = Ok [example_compiled] \<and>
   (\<exists>rl \<in> set (rf_rules example_rules_file). applies_to_host literal_engine example_compiled ''api'' \<longleftrightarrow>
      host_selected literal_engine (rule_hosts rl) ''api'')"
  using host_filter_exact [OF example_compiles, of example_compiled] example_compiles by auto

lemma one_host_one_rule_set_witness:
  "redact_apply (\<lambda>h. None) id literal_engine [example_compiled] ''API'' ''42'' =
     redact_apply (\<lambda>h. None) id literal_engine [example_compiled] (''api'' @ ''.'') ''42''"
proof -
  have "is_ascii ''API''" "is_ascii ''api''" "ascii_lower ''API'' = ascii_lower ''api''" by code_simp+
  then show ?thesis by (rule one_host_one_rule_set [THEN conjunct2, THEN conjunct1]) simp
qed

lemma gate_sound_witness:
  "redact_apply (\<lambda>h. None) id literal_engine [example_compiled] ''db'' ''42'' = (''42'', False)"
proof -
  have "canonical_host (\<lambda>h. None) id ''db'' = ''db''" by code_simp
  then have "\<not> has_rules_for_host (\<lambda>h. None) id literal_engine [example_compiled] ''db''"
    by (simp add: has_rules_for_host_def applies_to_host_def example_compiled_def literal_engine_def anchored_def)
  then show ?thesis using gate_sound by blast
qed

lemma redact_no_leak_witness:
  "LText ''1#7'' \<in> set (leaves (fst (redact_value_for_rule literal_engine id example_compiled [] example_document))) \<and>
   set (leaves (fst (redact_value_for_rule literal_engine id example_compiled [] example_document))) \<subseteq>
     redact_occ literal_engine example_compiled ` set (occs [[]] [] example_document)"
  using redact_no_leak [of id literal_engine example_compiled example_document] by (simp add: example_redacted)

lemma redact_exact_witness:
  "clash_free literal_engine example_compiled [] example_document \<and>
   (snd (redact_value_for_rule literal_engine id example_compiled [] example_document) \<longleftrightarrow>
      (\<exists>occ \<in> set (occs [[]] [] example_document). redact_occ literal_engine example_compiled occ \<noteq> snd (snd occ)))"
proof -
  have "clash_free literal_engine example_compiled [] example_document"
    by (simp add: example_document_def example_paths example_child example_replaced)
  then show ?thesis using redact_exact [of id literal_engine example_compiled example_document] by simp
qed

end
