(* ===== verification/SignedConfig.thy ===== *)
theory SignedConfig
  imports Capability
begin

text \<open>
  connector-lib/signedconfig: a config document behind one signature line. Signing a token is a
  function of the header and the claims (jws.Sign with its key); verifying uses the same externals
  as capabilities do. \<open>sha256\<close> is the digest of a document.
\<close>

section \<open>Claims\<close>

definition config_prefix :: string where "config_prefix = ''# traversal-signature: ''"
definition config_token_type :: string where "config_token_type = ''traversal-config+jwt''"
definition config_audience :: string where "config_audience = ''traversal-connector-config''"
definition config_max_token_len :: nat where "config_max_token_len = 2048"
definition config_clock_skew :: duration where "config_clock_skew = 5 * 60 * nanos"

lemmas config_constants = config_prefix_def config_token_type_def config_audience_def
  config_max_token_len_def config_clock_skew_def

record config_claims =
  cc_aud :: string
  cc_connector_id :: string
  cc_version :: u64
  cc_sha256 :: string
  cc_iat :: i64
  cc_exp :: i64

definition config_tags :: "string list" where
  "config_tags = [''aud'', ''connector_id'', ''version'', ''sha256'', ''iat'', ''exp'']"

text \<open>jsonv2.Unmarshal into Claims; a uint64 is read as the other unsigned integers are.\<close>

definition u64_field :: "(string \<times> json) list \<Rightarrow> string \<Rightarrow> u64 option" where
  "u64_field ms k = (case map_of ms k of
     None \<Rightarrow> Some 0
   | Some JNull \<Rightarrow> Some 0
   | Some (JNum s) \<Rightarrow> map_option of_nat (parse_uint 64 s)
   | Some _ \<Rightarrow> None)"

definition decode_config_claims :: "(string \<times> json) list \<Rightarrow> config_claims option" where
  "decode_config_claims ms =
     (case (string_field ms ''aud'', string_field ms ''connector_id'', u64_field ms ''version'',
        string_field ms ''sha256'', i64_field ms ''iat'', i64_field ms ''exp'') of
        (Some aud, Some conn, Some ver, Some sha, Some iat, Some exp) \<Rightarrow>
          Some \<lparr>cc_aud = aud, cc_connector_id = conn, cc_version = ver, cc_sha256 = sha,
            cc_iat = iat, cc_exp = exp\<rparr>
      | _ \<Rightarrow> None)"

text \<open>time.Time.Unix: whole seconds since 1970, as int64.\<close>

definition time_unix :: "instant \<Rightarrow> i64" where
  "time_unix t = of_int (t div nanos) - unix_to_internal"

section \<open>Sign and Verify\<close>

definition config_sign ::
    "(string \<Rightarrow> string) \<Rightarrow> (jws_header \<Rightarrow> config_claims \<Rightarrow> sign_error + string) \<Rightarrow> string \<Rightarrow> string \<Rightarrow>
     u64 \<Rightarrow> instant \<Rightarrow> instant \<Rightarrow> string \<Rightarrow> (string + sign_error) + string" where
  "config_sign sha256 jws_sign kid connector version issued expires document =
     (if kid = [] \<or> connector = [] \<or> version = 0 then
        Err (Inl ''signedconfig: kid, connector and version are required'')
      else if sint (time_unix issued) \<le> 0 \<or> \<not> issued < expires then
        Err (Inl ''signedconfig: expires must be after issued'')
      else
        (case jws_sign \<lparr>hdr_alg = [], hdr_typ = config_token_type, hdr_kid = kid, hdr_x5c = None\<rparr>
            \<lparr>cc_aud = config_audience, cc_connector_id = connector, cc_version = version,
             cc_sha256 = hex_string (sha256 document), cc_iat = time_unix issued,
             cc_exp = time_unix expires\<rparr> of
           Inl e \<Rightarrow> Err (Inr e)
         | Inr token \<Rightarrow> Ok ((config_prefix @ token @ [CHR 0x0A]) @ document)))"

text \<open>The claims are checked in this order; the first that fails is the answer.\<close>

definition config_claims_error ::
    "(string \<Rightarrow> string) \<Rightarrow> string \<Rightarrow> instant \<Rightarrow> string \<Rightarrow> config_claims \<Rightarrow> string option" where
  "config_claims_error sha256 connector now document c =
     (if cc_aud c \<noteq> config_audience then Some ''config signature is for another audience''
      else if cc_connector_id c \<noteq> connector then Some ''config is for another connector''
      else if cc_version c = 0 then Some ''config signature has no version''
      else if sint (cc_iat c) \<le> 0 \<or> sint (cc_exp c) \<le> sint (cc_iat c) then
        Some ''config signature has a bad validity window''
      else if now + config_clock_skew < unix_time (cc_iat c) then
        Some ''config signature is not valid yet''
      else if \<not> now - config_clock_skew < unix_time (cc_exp c) then Some ''config signature has expired''
      else if cc_sha256 c \<noteq> hex_string (sha256 document) then Some ''config does not match its signature''
      else None)"

definition config_verify ::
    "'k externals \<Rightarrow> (string \<Rightarrow> string) \<Rightarrow> string \<Rightarrow> string \<Rightarrow> (string \<Rightarrow> 'k option) \<Rightarrow> instant \<Rightarrow>
     string + (string \<times> config_claims)" where
  "config_verify ex sha256 obj connector keys now =
     (let (line, document, ok) = cut_at (CHR 0x0A) obj in
      case cut_prefix config_prefix (trim_suffix [CHR 0x0D] line) of
        None \<Rightarrow> Err ''config is not signed''
      | Some token \<Rightarrow>
          if \<not> ok then Err ''config is not signed''
          else (case jws_parse (ex_lower ex) (ex_parse ex) token config_max_token_len config_token_type False of
              Inl ErrMalformed \<Rightarrow> Err ''config signature is not a compact JWS''
            | Inl _ \<Rightarrow> Err ''config signature has a bad header''
            | Inr t \<Rightarrow>
                (case keys (hdr_kid (tok_header t)) of
                   None \<Rightarrow> Err ''config is signed by an unknown key''
                 | Some key \<Rightarrow>
                     (case jws_verify (ex_lower ex) (ex_parse ex) (ex_es256 ex) config_tags
                         decode_config_claims False t key of
                        Inl ErrSignature \<Rightarrow> Err ''config signature does not verify''
                      | Inl _ \<Rightarrow> Err ''config signature has bad claims''
                      | Inr c \<Rightarrow>
                          (case config_claims_error sha256 connector now document c of
                             Some e \<Rightarrow> Err e
                           | None \<Rightarrow> Ok (document, c))))))"

section \<open>Laws\<close>

lemma config_claims_ok:
  "config_claims_error sha256 connector now document c = None \<longleftrightarrow>
     cc_aud c = config_audience \<and> cc_connector_id c = connector \<and> cc_version c \<noteq> 0 \<and>
     0 < sint (cc_iat c) \<and> sint (cc_iat c) < sint (cc_exp c) \<and>
     unix_time (cc_iat c) \<le> now + config_clock_skew \<and> now - config_clock_skew < unix_time (cc_exp c) \<and>
     cc_sha256 c = hex_string (sha256 document)"
  by (auto simp: config_claims_error_def)

lemma config_verify_Ok:
  assumes "config_verify ex sha256 obj connector keys now = Ok (document, c)"
  obtains line token t key where
    "obj = line @ CHR 0x0A # document" "CHR 0x0A \<notin> set line"
    "trim_suffix [CHR 0x0D] line = config_prefix @ token"
    "jws_parse (ex_lower ex) (ex_parse ex) token config_max_token_len config_token_type False = Ok t"
    "keys (hdr_kid (tok_header t)) = Some key"
    "jws_verify (ex_lower ex) (ex_parse ex) (ex_es256 ex) config_tags decode_config_claims False t key = Ok c"
    "config_claims_error sha256 connector now document c = None"
proof -
  obtain line doc ok where cut: "cut_at (CHR 0x0A) obj = (line, doc, ok)" by (metis prod.collapse)
  obtain token where tk: "cut_prefix config_prefix (trim_suffix [CHR 0x0D] line) = Some token" "ok"
    using assms cut by (cases "cut_prefix config_prefix (trim_suffix [CHR 0x0D] line)")
      (auto simp: config_verify_def split: if_splits)
  obtain t where t: "jws_parse (ex_lower ex) (ex_parse ex) token config_max_token_len config_token_type False = Ok t"
    using assms cut tk by (auto simp: config_verify_def split: sum.splits jws_error.splits)
  obtain key where k: "keys (hdr_kid (tok_header t)) = Some key"
    using assms cut tk t by (auto simp: config_verify_def split: option.splits)
  obtain c' where c: "jws_verify (ex_lower ex) (ex_parse ex) (ex_es256 ex) config_tags decode_config_claims False t key = Ok c'"
    using assms cut tk t k by (auto simp: config_verify_def split: sum.splits jws_error.splits)
  have fin: "config_claims_error sha256 connector now doc c' = None" "doc = document" "c' = c"
    using assms cut tk t k c by (auto simp: config_verify_def split: option.splits)
  have "obj = line @ CHR 0x0A # doc" "CHR 0x0A \<notin> set line"
    using cut tk(2) cut_at_True [of "CHR 0x0A" obj line doc] by simp_all
  moreover have "trim_suffix [CHR 0x0D] line = config_prefix @ token"
    using tk(1) by (simp only: cut_prefix_Some)
  ultimately show ?thesis
    using that [of line token t key] t k c fin by metis
qed

text \<open>What Verify accepts is what it would accept at any time of the window, never outside it.\<close>

lemma sint_of_int_i64: "- (2 ^ 63) \<le> n \<Longrightarrow> n < 2 ^ 63 \<Longrightarrow> sint (of_int n :: i64) = n"
  by (simp add: signed_of_int signed_take_bit_int_eq_self)

lemma unix_time_unix:
  assumes "- (2 ^ 63) \<le> t div nanos" and "t div nanos < 2 ^ 63"
  shows "unix_time (time_unix t) = (t div nanos) * nanos"
  using assms by (simp add: unix_time_def time_unix_def sint_of_int_i64)

lemma time_unix_value:
  assumes "0 \<le> t div nanos" and "t div nanos < 2 ^ 63"
  shows "sint (time_unix t) = t div nanos - 62135596800"
proof -
  have "sint (of_int (t div nanos) :: i64) = t div nanos" using assms by (simp add: sint_of_int_i64)
  then show ?thesis
    unfolding time_unix_def using assms by (subst sint_i64_diff) simp_all
qed

text \<open>json.Marshal of claims with a positive window, and that it decodes to them.\<close>

definition config_members :: "config_claims \<Rightarrow> (string \<times> json) list" where
  "config_members c =
     [(''aud'', JStr (cc_aud c)), (''connector_id'', JStr (cc_connector_id c)),
      (''version'', JNum (format_uint (unat (cc_version c)))), (''sha256'', JStr (cc_sha256 c)),
      (''iat'', JNum (format_uint (nat (sint (cc_iat c))))),
      (''exp'', JNum (format_uint (nat (sint (cc_exp c)))))]"

lemma parse_uint_u64 [simp]: "parse_uint 64 (format_uint (unat (x :: u64))) = Some (unat x)"
  using unsigned_less [of x] by (intro parse_uint_format) simp

lemma decode_config_members:
  assumes "0 \<le> sint (cc_iat c)" and "0 \<le> sint (cc_exp c)"
  shows "decode_config_claims (config_members c) = Some c"
  using assms by (simp add: decode_config_claims_def config_members_def string_field_def u64_field_def
      i64_field_def json_i64_unsigned)

lemma config_members_ok:
  "unique_names (JObj (config_members c))" "folded_ok ul (JObj (config_members c))"
  "\<not> missing_required (json_keys config_tags) (config_members c)"
  "\<not> unknown_key (json_keys config_tags) (config_members c)"
  by (auto simp: config_members_def missing_required_def unknown_key_def json_keys_def config_tags_def
      to_lower_def is_ascii_def ascii_lower_def upper_letters_def)

text \<open>The signature line holds no line break of its own.\<close>

lemma b64url_no_break: "CHR 0x0A \<notin> set (b64url_enc s)" "CHR 0x0D \<notin> set (b64url_enc s)"
  using b64_encode_chars [of False _ True s] b64_alphabet_ok(3) [of True] by (auto simp: b64url_enc_def)

lemma signed_line:
  assumes "sign_with p256 mh mc sd asn1 signer h c = Ok token"
  shows "cut_at (CHR 0x0A) ((config_prefix @ token @ [CHR 0x0A]) @ document) = (config_prefix @ token, document, True)"
    "trim_suffix [CHR 0x0D] (config_prefix @ token) = config_prefix @ token"
proof -
  obtain hdr p sig where t: "token = (b64url_enc hdr @ ''.'' @ b64url_enc p) @ ''.'' @ b64url_enc sig"
    using sign_with_Ok [OF assms] by metis
  have "CHR 0x0A \<notin> set (config_prefix @ token)" "CHR 0x0D \<notin> set (config_prefix @ token)"
    using b64url_no_break t by (auto simp: config_prefix_def)
  then show "cut_at (CHR 0x0A) ((config_prefix @ token @ [CHR 0x0A]) @ document) = (config_prefix @ token, document, True)"
    "trim_suffix [CHR 0x0D] (config_prefix @ token) = config_prefix @ token"
    using cut_at_append [of "CHR 0x0A" "config_prefix @ token" document]
      trim_suffix_none [of "config_prefix @ token" "[CHR 0x0D]"]
    by (simp, metis in_set_conv_decomp)
qed

lemma config_sign_Ok:
  assumes "config_sign sha256 jws_sign kid connector version issued expires document = Ok obj"
  obtains token c where
    "c = \<lparr>cc_aud = config_audience, cc_connector_id = connector, cc_version = version,
       cc_sha256 = hex_string (sha256 document), cc_iat = time_unix issued, cc_exp = time_unix expires\<rparr>"
    "jws_sign \<lparr>hdr_alg = [], hdr_typ = config_token_type, hdr_kid = kid, hdr_x5c = None\<rparr> c = Ok token"
    "obj = (config_prefix @ token @ [CHR 0x0A]) @ document"
    "connector \<noteq> []" "version \<noteq> 0" "0 < sint (time_unix issued)" "issued < expires"
  using assms by (auto simp: config_sign_def split: if_splits sum.splits)

text \<open>A signature line that is too long is refused, whatever it signs.\<close>

lemma config_verify_long:
  assumes "config_sign sha256 (sign_with p256 mh mc sd asn1 (Some k)) kid connector version issued expires
      document = Ok obj" and "length document + 24 + 2048 < length obj"
  shows "config_verify ex sha256 obj verifying keys now = Err ''config signature is not a compact JWS''"
proof -
  obtain token c where t: "sign_with p256 mh mc sd asn1 (Some k)
      \<lparr>hdr_alg = [], hdr_typ = config_token_type, hdr_kid = kid, hdr_x5c = None\<rparr> c = Ok token"
    "obj = (config_prefix @ token @ [CHR 0x0A]) @ document"
    using config_sign_Ok [OF assms(1)] by metis
  have "config_max_token_len < length token"
    using assms(2) t(2) by (simp add: config_prefix_def config_max_token_len_def)
  moreover have "cut_prefix config_prefix (config_prefix @ token) = Some token" by (simp add: cut_prefix_Some)
  ultimately show ?thesis
    using signed_line [OF t(1)] t(2) by (simp add: config_verify_def jws_parse_long)
qed

text \<open>Verify of what Sign produced is the check of the claims that were signed.\<close>

lemma config_verify_signed:
  assumes "config_sign sha256 (sign_with p256 mh mc sd asn1 (Some k)) kid connector version issued expires
      document = Ok obj"
    and "keys kid = Some key"
    and "\<And>h raw. mh h = Some raw \<Longrightarrow> ex_parse ex raw = Some (header_json h)"
    and "\<And>c raw. mc c = Some raw \<Longrightarrow> ex_parse ex raw = Some (JObj (config_members c))"
    and "\<And>input der sig. sd k input = Some der \<Longrightarrow> raw_signature asn1 der = Some sig \<Longrightarrow>
      ex_es256 ex input sig key"
    and "length obj \<le> length document + 24 + 2048"
    and "0 \<le> sint (time_unix expires)"
    and c: "c = \<lparr>cc_aud = config_audience, cc_connector_id = connector, cc_version = version,
       cc_sha256 = hex_string (sha256 document), cc_iat = time_unix issued, cc_exp = time_unix expires\<rparr>"
  shows "config_verify ex sha256 obj verifying keys now =
    (case config_claims_error sha256 verifying now document c of Some e \<Rightarrow> Err e | None \<Rightarrow> Ok (document, c))"
proof -
  let ?h = "\<lparr>hdr_alg = [], hdr_typ = config_token_type, hdr_kid = kid, hdr_x5c = None\<rparr>"
  obtain token where sign: "sign_with p256 mh mc sd asn1 (Some k) ?h c = Ok token"
    and o: "obj = (config_prefix @ token @ [CHR 0x0A]) @ document"
    and v: "version \<noteq> 0" "0 < sint (time_unix issued)"
    using config_sign_Ok [OF assms(1)] c by metis
  have len: "length token \<le> config_max_token_len"
    using assms(6) o by (simp add: config_prefix_def config_max_token_len_def)
  obtain w where w: "jws_parse (ex_lower ex) (ex_parse ex) token config_max_token_len (hdr_typ ?h) False = Ok w"
    "tok_header w = sent_header ?h" "token = tok_input w @ ''.'' @ tok_sig w"
    using jws_sign_parse [where parse = "ex_parse ex" and ul = "ex_lower ex" and chained = False,
        OF sign len] assms(3) by auto
  have "CHR ''.'' \<notin> set (tok_sig w)" using jws_parse_Ok [OF w(1)] by metis
  moreover have "0 \<le> sint (cc_iat c)" "0 \<le> sint (cc_exp c)" using v(2) assms(7) c by simp_all
  ultimately have "jws_verify (ex_lower ex) (ex_parse ex) (ex_es256 ex) config_tags decode_config_claims False w key = Ok c"
    using config_members_ok [where c = c] assms(4,5) decode_config_members [of c]
    by (intro jws_sign_verify [OF sign w(3)]) (auto intro!: exI)
  moreover have "keys (hdr_kid (tok_header w)) = Some key" using w(2) assms(2) by (simp add: sent_header_def)
  ultimately show ?thesis
    using signed_line(1) [OF sign, of document] signed_line(2) [OF sign] w(1)
    unfolding o config_verify_def by simp
qed

text \<open>A signer for the witnesses: each segment is one byte, read back by the externals.\<close>

definition example_signed :: "config_claims \<Rightarrow> nat externals" where
  "example_signed c = example_externals\<lparr>
     ex_parse := (\<lambda>raw. if raw = ''H'' then Some (header_json
         \<lparr>hdr_alg = algorithm, hdr_typ = config_token_type, hdr_kid = ''k'', hdr_x5c = None\<rparr>)
       else Some (JObj (config_members c))),
     ex_es256 := (\<lambda>input sig key. key = 7)\<rparr>"

definition example_claims_until :: "instant \<Rightarrow> config_claims" where
  "example_claims_until expires = \<lparr>cc_aud = config_audience, cc_connector_id = ''c'', cc_version = 3,
     cc_sha256 = hex_string ''D'', cc_iat = time_unix (unix_time 1000), cc_exp = time_unix expires\<rparr>"

definition example_config_claims :: config_claims where
  "example_config_claims = example_claims_until (unix_time 1060)"

lemmas example_config_claims_eq = example_config_claims_def example_claims_until_def

definition example_jws_sign :: "config_claims \<Rightarrow> jws_header \<Rightarrow> config_claims \<Rightarrow> sign_error + string" where
  "example_jws_sign claims = sign_with (\<lambda>k. True)
     (\<lambda>h. if h = \<lparr>hdr_alg = algorithm, hdr_typ = config_token_type, hdr_kid = ''k'', hdr_x5c = None\<rparr>
        then Some ''H'' else None)
     (\<lambda>c. if c = claims then Some ''P'' else None) (\<lambda>k input. Some ''D'')
     (\<lambda>der. Some ((1, 2), [])) (Some ())"

definition example_signed_config :: string where
  "example_signed_config =
     (config_prefix @ ((b64url_enc ''H'' @ ''.'' @ b64url_enc ''P'') @ ''.'' @
        b64url_enc (fill_bytes32 1 @ fill_bytes32 2)) @ [CHR 0x0A]) @ ''doc''"

lemma example_config_signs:
  assumes "unix_time 1000 < expires"
  shows "config_sign (\<lambda>d. ''D'') (example_jws_sign (example_claims_until expires)) ''k'' ''c'' 3 (unix_time 1000)
     expires ''doc'' = Ok example_signed_config"
proof -
  have sig: "raw_signature (\<lambda>der. Some ((1, 2), [])) d = Some (fill_bytes32 1 @ fill_bytes32 2)" for d
    by (simp add: raw_signature_def in_p256_order_def p256_order_def)
  have "sint (time_unix (unix_time 1000)) = 1000"
    by (subst time_unix_value) (simp_all add: example_times nanos_def)
  then show ?thesis
    using assms by (simp add: config_sign_def example_jws_sign_def sign_with_def Let_def sig example_claims_until_def
        example_signed_config_def)
qed

lemma example_signed_config_length: "length example_signed_config \<le> length ''doc'' + 24 + 2048"
proof -
  have "length (b64url_enc (fill_bytes32 1 @ fill_bytes32 2)) \<le> 4 * 64"
    using b64_encode_length [of True False "fill_bytes32 1 @ fill_bytes32 2"]
    by (simp add: b64url_enc_def fill_bytes_value in_p256_order_def p256_order_def)
  moreover have "length (b64url_enc ''H'') \<le> 4" "length (b64url_enc ''P'') \<le> 4"
    using b64_encode_length [of True False "''H''"] b64_encode_length [of True False "''P''"]
    by (simp_all add: b64url_enc_def)
  ultimately show ?thesis by (simp add: example_signed_config_def config_prefix_def)
qed

lemma example_reads_back:
  "(if h = \<lparr>hdr_alg = algorithm, hdr_typ = config_token_type, hdr_kid = ''k'', hdr_x5c = None\<rparr> then Some ''H'' else None)
     = Some raw \<Longrightarrow> ex_parse (example_signed c) raw = Some (header_json h)"
  "(if d = c then Some ''P'' else None) = Some raw \<Longrightarrow> ex_parse (example_signed c) raw = Some (JObj (config_members d))"
  "ex_es256 (example_signed c) input sig 7"
  by (auto simp: example_signed_def split: if_splits)

lemma example_config_verifies:
  "config_verify (example_signed example_config_claims) (\<lambda>d. ''D'') example_signed_config ''c'' [''k'' \<mapsto> 7]
     (unix_time 1030) = Ok (''doc'', example_config_claims)"
proof -
  have u: "sint (time_unix (unix_time 1000)) = 1000" "sint (time_unix (unix_time 1060)) = 1060"
    by (subst time_unix_value; simp add: example_times nanos_def)+
  have w: "unix_time (time_unix (unix_time 1000)) = unix_time 1000" "unix_time (time_unix (unix_time 1060)) = unix_time 1060"
    by (subst unix_time_unix; simp add: example_times nanos_def)+
  have "config_claims_error (\<lambda>d. ''D'') ''c'' (unix_time 1030) ''doc'' example_config_claims = None"
    by (simp add: config_claims_ok example_config_claims_eq u w)
      (simp add: example_times nanos_def config_clock_skew_def)
  then show ?thesis
    using example_reads_back example_signed_config_length u
    by (subst config_verify_signed [where key = 7 and c = example_config_claims,
          OF example_config_signs [of "unix_time 1060", unfolded example_jws_sign_def]])
      (auto simp: example_config_claims_eq example_times nanos_def)
qed

section \<open>Properties\<close>

text \<open>
  C27. Verify is sound. The document it returns is every byte after the first line; that line is the
  prefix and a compact JWS of at most 2048 bytes, signed by the key under its kid over the very
  claims returned; they bind the digest of that document to this connector and a non-zero version,
  within the window and five minutes of skew.
\<close>

theorem config_verify_sound:
  assumes "config_verify ex sha256 obj connector keys now = Ok (document, c)"
  shows "cc_aud c = ''traversal-connector-config'' \<and> cc_connector_id c = connector \<and> cc_version c \<noteq> 0 \<and>
    cc_sha256 c = hex_string (sha256 document) \<and>
    unix_time (cc_iat c) - config_clock_skew \<le> now \<and> now < unix_time (cc_exp c) + config_clock_skew \<and>
    (\<exists>(t :: jws_token) eol payload sig key.
       obj = config_prefix @ tok_input t @ ''.'' @ tok_sig t @ eol @ document \<and>
       eol \<in> {[CHR 0x0A], [CHR 0x0D, CHR 0x0A]} \<and> length (tok_input t) + 1 + length (tok_sig t) \<le> 2048 \<and>
       hdr_typ (tok_header t) = config_token_type \<and> keys (hdr_kid (tok_header t)) = Some key \<and>
       b64url_dec (tok_sig t) = Some sig \<and> ex_es256 ex (tok_input t) sig key \<and>
       (\<exists>p0. tok_input t = p0 @ ''.'' @ payload \<and> CHR ''.'' \<notin> set p0) \<and>
       decode_segment (ex_lower ex) (ex_parse ex) (json_keys config_tags) False decode_config_claims payload = Some c)"
proof -
  obtain line token t key where l: "obj = line @ CHR 0x0A # document"
    "trim_suffix [CHR 0x0D] line = config_prefix @ token"
    and t: "jws_parse (ex_lower ex) (ex_parse ex) token config_max_token_len config_token_type False = Ok t"
    and k: "keys (hdr_kid (tok_header t)) = Some key"
    and v: "jws_verify (ex_lower ex) (ex_parse ex) (ex_es256 ex) config_tags decode_config_claims False t key = Ok c"
    and c: "config_claims_error sha256 connector now document c = None"
    using config_verify_Ok [OF assms] by metis
  obtain p0 p1 where p: "token = p0 @ ''.'' @ p1 @ ''.'' @ tok_sig t" "tok_input t = p0 @ ''.'' @ p1"
    "CHR ''.'' \<notin> set p0" "length token \<le> config_max_token_len" "hdr_typ (tok_header t) = config_token_type"
    using jws_parse_Ok [OF t] by metis
  have "fst (snd (cut_at (CHR ''.'') (tok_input t))) = p1" using p(2,3) by (simp add: cut_at_append)
  then obtain sig where s: "b64url_dec (tok_sig t) = Some sig" "ex_es256 ex (tok_input t) sig key"
    "decode_segment (ex_lower ex) (ex_parse ex) (json_keys config_tags) False decode_config_claims p1 = Some c"
    using jws_verify_Ok [OF v] by metis
  have "line = config_prefix @ token \<or> line = (config_prefix @ token) @ [CHR 0x0D]"
    using l(2) by (auto simp: trim_suffix_def cut_suffix_Some split: option.splits)
  then obtain eol where e: "eol \<in> {[CHR 0x0A], [CHR 0x0D, CHR 0x0A]}" "obj = config_prefix @ token @ eol @ document"
    using l(1) by force
  have "obj = config_prefix @ tok_input t @ ''.'' @ tok_sig t @ eol @ document"
    "length (tok_input t) + 1 + length (tok_sig t) \<le> 2048"
    using e(2) p(1,2,4) by (simp_all add: config_max_token_len_def)
  then have ex: "\<exists>(t :: jws_token) eol payload sig key.
       obj = config_prefix @ tok_input t @ ''.'' @ tok_sig t @ eol @ document \<and>
       eol \<in> {[CHR 0x0A], [CHR 0x0D, CHR 0x0A]} \<and> length (tok_input t) + 1 + length (tok_sig t) \<le> 2048 \<and>
       hdr_typ (tok_header t) = config_token_type \<and> keys (hdr_kid (tok_header t)) = Some key \<and>
       b64url_dec (tok_sig t) = Some sig \<and> ex_es256 ex (tok_input t) sig key \<and>
       (\<exists>p0. tok_input t = p0 @ ''.'' @ payload \<and> CHR ''.'' \<notin> set p0) \<and>
       decode_segment (ex_lower ex) (ex_parse ex) (json_keys config_tags) False decode_config_claims payload = Some c"
    using e(1) p(2,3,5) k s by blast
  then show ?thesis using c by (simp only: config_claims_ok config_audience_def) (simp add: algebra_simps)
qed



lemma config_verify_sound_witness:
  "config_verify (example_signed example_config_claims) (\<lambda>d. ''D'') example_signed_config ''c'' [''k'' \<mapsto> 7]
     (unix_time 1030) = Ok (''doc'', example_config_claims) \<and> cc_version example_config_claims \<noteq> 0"
proof -
  have "config_verify (example_signed example_config_claims) (\<lambda>d. ''D'') example_signed_config ''c''
     [''k'' \<mapsto> 7] (unix_time 1030) = Ok (''doc'', example_config_claims)"
    by (rule example_config_verifies)
  then show ?thesis using config_verify_sound by blast
qed

text \<open>
  Sign and Verify disagree about the shortest windows. Sign asks that expires is after issued,
  but the claims hold whole seconds: a window that starts and ends within one second is signed, and
  Verify refuses what was signed at every time.
\<close>

theorem config_empty_window:
  assumes "config_sign sha256 (sign_with p256 mh mc sd asn1 (Some k)) kid connector version issued expires
      document = Ok obj"
    and "keys kid = Some key"
    and "\<And>h raw. mh h = Some raw \<Longrightarrow> ex_parse ex raw = Some (header_json h)"
    and "\<And>c raw. mc c = Some raw \<Longrightarrow> ex_parse ex raw = Some (JObj (config_members c))"
    and "\<And>input der sig. sd k input = Some der \<Longrightarrow> raw_signature asn1 der = Some sig \<Longrightarrow>
      ex_es256 ex input sig key"
    and "length obj \<le> length document + 24 + 2048"
    and "issued div nanos = expires div nanos"
  shows "config_verify ex sha256 obj connector keys now = Err ''config signature has a bad validity window''"
proof -
  have v: "version \<noteq> 0" "0 < sint (time_unix issued)" using config_sign_Ok [OF assms(1)] by metis+
  have "time_unix expires = time_unix issued" using assms(7) by (simp add: time_unix_def)
  then show ?thesis
    using v by (subst config_verify_signed [where ?sha256.0 = sha256 and mh = mh and mc = mc and sd = sd and ?asn1.0 = asn1
          and ex = ex and keys = keys and issued = issued and expires = expires, OF assms(1-6) _ refl]) (simp_all add: config_claims_error_def)
qed

lemma config_empty_window_witness:
  "config_verify (example_signed (example_claims_until (unix_time 1000 + 5))) (\<lambda>d. ''D'') example_signed_config ''c''
     [''k'' \<mapsto> 7] now = Err ''config signature has a bad validity window''"
  using config_empty_window [where key = 7 and keys = "[''k'' \<mapsto> 7]" and now = now
      and ex = "example_signed (example_claims_until (unix_time 1000 + 5))",
      OF example_config_signs [of "unix_time 1000 + 5", unfolded example_jws_sign_def]]
    example_signed_config_length
  by (simp add: example_reads_back example_times nanos_def)

end
