(* ===== verification/RuleLoader.thy ===== *)
theory RuleLoader
  imports Redact SignedConfig "HOL-Library.Sublist"
begin

text \<open>
  internal/redact/remote.go and file.go: where rules come from. A published document is parsed and
  checked by ParseConfig; RemoteLoader polls it over HTTP, optionally signed, and FileLoader polls
  a local file. TOML is read by parameters; a poll is one step on the loader and the rules of the
  redactor, given what the fetch or the read answered.
\<close>

section \<open>The interface of the redactor\<close>

text \<open>
  What a loader relies on when it calls Update: a rule set that compiles is installed whole, one
  that does not leaves the installed rules as they are.
\<close>

locale rule_store =
  fixes compile :: "'f \<Rightarrow> 'e + 'c" and update :: "'f \<Rightarrow> 'c \<Rightarrow> 'c \<times> 'e option"
  assumes update_ok: "compile f = Ok c \<Longrightarrow> update f s = (c, None)"
    and update_err: "compile f = Err e \<Longrightarrow> update f s = (s, Some e)"
begin

lemma update_failed: "update f s = (s', Some e) \<Longrightarrow> s' = s \<and> compile f = Err e"
  using update_ok update_err by (cases "compile f") auto

lemma update_installed: "update f s = (s', None) \<Longrightarrow> compile f = Ok s'"
  using update_ok update_err by (cases "compile f") auto

text \<open>The rules in place are those of the last file that compiled.\<close>

lemma last_good:
  "fold (\<lambda>f s. fst (update f s)) fs s =
     (case filter (\<lambda>c. \<exists>x. c = Ok x) (map compile (rev fs)) of [] \<Rightarrow> s | c # _ \<Rightarrow> projr c)"
proof (induction fs arbitrary: s rule: rev_induct)
  case (snoc f fs)
  then show ?case using update_ok update_err by (cases "compile f") auto
qed simp

end

interpretation redactor: rule_store "compile_rules eng" "redactor_update eng" for eng
  by unfold_locales (simp_all add: redactor_update_def)

section \<open>Published documents\<close>

text \<open>The decoded TOML; a field that may be nil is an option.\<close>

record redaction_doc =
  rd_default_replacement :: string
  rd_rules :: "rule list option"

record config_doc =
  cd_schema_version :: int
  cd_redaction :: "redaction_doc option"

definition max_config_bytes :: nat where
  "max_config_bytes = 1024 * 1024"

fun check_rules :: "string list \<Rightarrow> rule list \<Rightarrow> string option" where
  "check_rules names [] = None"
| "check_rules names (r # rs) =
     (if rule_name r = [] \<or> rule_name r \<in> set names \<or> rule_pattern r = [] then
        Some ''rules require unique nonempty names and nonempty patterns''
      else if rule_type r \<noteq> ''regex'' \<and> rule_type r \<noteq> ''regex-structured-data'' then
        Some ''unsupported redaction rule type''
      else if rule_type r = ''regex'' \<and> (rule_redact_fields r \<noteq> None \<or> rule_skip_fields r \<noteq> None) then
        Some ''field filters require regex-structured-data''
      else check_rules (rule_name r # names) rs)"

definition parse_config :: "(string \<Rightarrow> config_doc option) \<Rightarrow> string \<Rightarrow> string + rules_file" where
  "parse_config toml data =
     (if max_config_bytes < length data then Err ''config exceeds 1 MiB''
      else (case toml data of
          None \<Rightarrow> Err ''invalid config TOML or unknown fields''
        | Some doc \<Rightarrow>
            (case cd_redaction doc of
               None \<Rightarrow> Err ''config requires schema_version=1 and explicit redaction.rules''
             | Some rd \<Rightarrow>
                 (case rd_rules rd of
                    None \<Rightarrow> Err ''config requires schema_version=1 and explicit redaction.rules''
                  | Some rules \<Rightarrow>
                      if cd_schema_version doc \<noteq> 1 then
                        Err ''config requires schema_version=1 and explicit redaction.rules''
                      else (case check_rules [] rules of
                          Some e \<Rightarrow> Err e
                        | None \<Rightarrow> Ok \<lparr>rf_version = [], rf_default_replacement = rd_default_replacement rd,
                            rf_rules = rules\<rparr>)))))"

definition validate_config :: "(string \<Rightarrow> config_doc option) \<Rightarrow> 'r engine \<Rightarrow> string \<Rightarrow> string option" where
  "validate_config toml eng data =
     (case parse_config toml data of
        Inl e \<Rightarrow> Some e
      | Inr rules \<Rightarrow>
          (case compile_rules eng rules of
             Inl e \<Rightarrow> Some ''redaction pattern or host expression failed to compile''
           | Inr compiled \<Rightarrow> None))"

section \<open>The remote loader\<close>

text \<open>
  Its fields that change, with the status it publishes; the rules of its redactor go beside it.
  \<open>rl_last_success\<close> is None for the zero time.
\<close>

record remote_loader =
  rl_etag :: string
  rl_hash :: string
  rl_loaded :: bool
  rl_version :: u64
  rl_issued :: i64
  rl_document :: string
  rl_rule_count :: nat
  rl_last_success :: "instant option"

definition new_remote_loader :: "bool \<Rightarrow> string \<Rightarrow> bool \<Rightarrow> duration \<Rightarrow> string + remote_loader" where
  "new_remote_loader has_client url has_redactor interval =
     (if \<not> has_client \<or> \<not> has_redactor \<or> url = [] \<or> interval \<le> 0 \<or> 24 * 60 * 60 * nanos < interval then
        Err ''config loader requires client, URL, redactor and interval in (0, 24h]''
      else Ok \<lparr>rl_etag = [], rl_hash = [], rl_loaded = False, rl_version = 0, rl_issued = 0,
        rl_document = [], rl_rule_count = 0, rl_last_success = None\<rparr>)"

text \<open>The request is conditional once a response carried an ETag.\<close>

definition config_request :: "remote_loader \<Rightarrow> header" where
  "config_request l = (if rl_etag l \<noteq> [] then hset ''If-None-Match'' (rl_etag l) Map.empty else Map.empty)"

text \<open>What the fetch answered: no response, or a status, a body that may not be readable, an ETag.\<close>

datatype fetch =
    InvalidRequest
  | FetchFailed string
  | Fetched int "string option" string

type_synonym config_verifier = "instant \<Rightarrow> string \<Rightarrow> string + (string \<times> config_claims)"

text \<open>RequireSignature.\<close>

definition require_signature ::
    "'k externals \<Rightarrow> (string \<Rightarrow> string) \<Rightarrow> string \<Rightarrow> (string \<Rightarrow> 'k option) \<Rightarrow> config_verifier" where
  "require_signature ex sha256 connector keys = (\<lambda>now obj. config_verify ex sha256 obj connector keys now)"

text \<open>
  The signed part of a 200: whether the object is to be applied, with the document, version, iat
  and digest to remember.
\<close>

datatype signed_check =
    Unsigned string
  | RolledBack string
  | Checked bool string u64 i64 string

definition check_signed ::
    "(string \<Rightarrow> string) \<Rightarrow> config_verifier option \<Rightarrow> instant \<Rightarrow> string \<Rightarrow> bool \<Rightarrow> remote_loader \<Rightarrow> signed_check" where
  "check_signed sha256 verifier now data changed l =
     (case verifier of
        None \<Rightarrow> Checked changed data (rl_version l) (rl_issued l) (rl_document l)
      | Some vf \<Rightarrow>
          if \<not> changed then Checked changed data (rl_version l) (rl_issued l) (rl_document l)
          else (case vf now data of
              Inl e \<Rightarrow> Unsigned e
            | Inr (doc, c) \<Rightarrow>
                let digest = sha256 doc in
                if rl_loaded l \<and> cc_iat c <s rl_issued l then
                  RolledBack ''config was issued before the applied one; retaining the applied one''
                else if rl_loaded l \<and> cc_version c = rl_version l \<and> digest = rl_document l then
                  Checked False doc (cc_version c) (cc_iat c) digest
                else if rl_loaded l \<and> cc_version c \<le> rl_version l then
                  RolledBack (''config version '' @ format_uint (unat (cc_version c)) @ '' is not newer than the applied '' @
                    format_uint (unat (rl_version l)) @ ''; retaining it'')
                else Checked True doc (cc_version c) (cc_iat c) digest))"

definition remote_refresh ::
    "(string \<Rightarrow> config_doc option) \<Rightarrow> (string \<Rightarrow> string) \<Rightarrow> 'r engine \<Rightarrow> config_verifier option \<Rightarrow> instant \<Rightarrow> fetch \<Rightarrow>
     remote_loader \<times> 'r compiled_rule list \<Rightarrow>
     (remote_loader \<times> 'r compiled_rule list) \<times> string \<times> string option" where
  "remote_refresh toml sha256 eng verifier now answer st =
     (let (l, rules) = st; fail = (\<lambda>outcome e. (st, outcome, Some e)) in
      case answer of
        InvalidRequest \<Rightarrow> fail ''error'' ''invalid config request''
      | FetchFailed e \<Rightarrow> fail ''error'' (''config fetch failed: '' @ e)
      | Fetched sc body etag \<Rightarrow>
          if sc = 404 then
            fail ''error'' (if rl_loaded l then ''previously loaded config is missing; retaining last-known-good rules''
              else ''config endpoint returned HTTP 404; publish a valid config before enabling OTA'')
          else if sc = 304 then
            (if \<not> rl_loaded l \<or> rl_etag l = [] then fail ''error'' ''unexpected config 304 without an accepted version''
             else ((l\<lparr>rl_last_success := Some now\<rparr>, rules), ''unchanged'', None))
          else if sc = 200 then
            (case body of
               None \<Rightarrow> fail ''error'' ''could not read config response''
             | Some bytes \<Rightarrow>
                 let data = take (max_config_bytes + 1) bytes;
                     hash = sha256 data;
                     keep = (\<lambda>l' version issued document. l'\<lparr>rl_hash := hash, rl_etag := etag, rl_loaded := True,
                       rl_version := version, rl_issued := issued, rl_document := document, rl_last_success := Some now\<rparr>) in
                 (case check_signed sha256 verifier now data (\<not> rl_loaded l \<or> hash \<noteq> rl_hash l) l of
                    Unsigned e \<Rightarrow> fail ''unsigned'' e
                  | RolledBack e \<Rightarrow> fail ''rolled_back'' e
                  | Checked False doc version issued document \<Rightarrow>
                      ((keep l version issued document, rules), ''unchanged'', None)
                  | Checked True doc version issued document \<Rightarrow>
                      (case parse_config toml doc of
                         Inl e \<Rightarrow> fail ''error'' e
                       | Inr f \<Rightarrow>
                           (case redactor_update eng f rules of
                              (rules', Some e) \<Rightarrow> ((l, rules'), ''error'',
                                Some ''config rules failed to compile; retaining last-known-good rules'')
                            | (rules', None) \<Rightarrow>
                                ((keep (l\<lparr>rl_rule_count := length (rf_rules f)\<rparr>) version issued document, rules'),
                                 ''applied'', None)))))
          else fail ''error'' (''config endpoint returned HTTP '' @ format_uint (nat sc)))"

text \<open>Run: one refresh per tick until the context is done; an error only logs.\<close>

fun remote_run ::
    "(string \<Rightarrow> config_doc option) \<Rightarrow> (string \<Rightarrow> string) \<Rightarrow> 'r engine \<Rightarrow> config_verifier option \<Rightarrow>
     (instant \<times> fetch) list \<Rightarrow> remote_loader \<times> 'r compiled_rule list \<Rightarrow> remote_loader \<times> 'r compiled_rule list" where
  "remote_run toml sha256 eng verifier [] st = st"
| "remote_run toml sha256 eng verifier ((now, answer) # ticks) st =
     remote_run toml sha256 eng verifier ticks (fst (remote_refresh toml sha256 eng verifier now answer st))"

section \<open>The signed loader as a state machine\<close>

text \<open>
  What polling promises, on the config that is applied: none, or a version, its iat, the digest of
  its document and the rules compiled from it. \<open>install\<close> parses and compiles a document.
\<close>

type_synonym 'c applied = "(u64 \<times> i64 \<times> string \<times> 'c) option"

inductive signed_step ::
    "(string \<Rightarrow> string) \<Rightarrow> config_verifier \<Rightarrow> (string \<Rightarrow> 'c option) \<Rightarrow> 'c applied \<Rightarrow> 'c applied \<Rightarrow> bool"
  for sha vf install where
  stay: "signed_step sha vf install s s"
| first: "vf now obj = Ok (doc, c) \<Longrightarrow> install doc = Some rules \<Longrightarrow>
     signed_step sha vf install None (Some (cc_version c, cc_iat c, sha doc, rules))"
| newer: "vf now obj = Ok (doc, c) \<Longrightarrow> install doc = Some rules' \<Longrightarrow> sint iat \<le> sint (cc_iat c) \<Longrightarrow>
     version < cc_version c \<Longrightarrow>
     signed_step sha vf install (Some (version, iat, digest, rules)) (Some (cc_version c, cc_iat c, sha doc, rules'))"
| resigned: "vf now obj = Ok (doc, c) \<Longrightarrow> sint iat \<le> sint (cc_iat c) \<Longrightarrow> cc_version c = version \<Longrightarrow>
     sha doc = digest \<Longrightarrow>
     signed_step sha vf install (Some (version, iat, digest, rules)) (Some (version, cc_iat c, digest, rules))"

inductive_cases signed_step_from: "signed_step sha vf install (Some (v, i, d, rs)) t"

abbreviation signed_steps ::
    "(string \<Rightarrow> string) \<Rightarrow> config_verifier \<Rightarrow> (string \<Rightarrow> 'c option) \<Rightarrow> 'c applied \<Rightarrow> 'c applied \<Rightarrow> bool" where
  "signed_steps sha vf install \<equiv> (signed_step sha vf install)\<^sup>*\<^sup>*"

lemma signed_steps_keep: "signed_steps sha vf install s t \<Longrightarrow> s \<noteq> None \<Longrightarrow> t \<noteq> None"
  by (induction rule: rtranclp_induct) (auto elim: signed_step.cases)

lemma signed_steps_forward:
  assumes "signed_steps sha vf install s t" and "s = Some (v, i, d, rs)" and "t = Some (v', i', d', rs')"
  shows "v \<le> v' \<and> sint i \<le> sint i' \<and> (v = v' \<longrightarrow> d = d' \<and> rs = rs')"
  using assms
proof (induction arbitrary: v' i' d' rs' rule: rtranclp_induct)
  case (step u w)
  obtain v1 i1 d1 rs1 where u: "u = Some (v1, i1, d1, rs1)"
    using signed_steps_keep [OF step.hyps(1)] step.prems(1) by (metis not_None_eq prod_cases4 option.distinct(1))
  have "v1 \<le> v' \<and> sint i1 \<le> sint i' \<and> (v1 = v' \<longrightarrow> d1 = d' \<and> rs1 = rs')"
    using step.hyps(2) step.prems(2) unfolding u by (auto elim!: signed_step_from)
  then show ?case using step.IH [OF step.prems(1) u] by fastforce
qed simp

lemma signed_steps_authentic:
  assumes "signed_steps sha vf install s t" and "s = None" and "t = Some (v, i, d, rs)"
  shows "\<exists>now obj doc c. vf now obj = Ok (doc, c) \<and> cc_version c = v \<and> sha doc = d \<and> install doc = Some rs"
  using assms
proof (induction arbitrary: v i d rs rule: rtranclp_induct)
  case (step u w)
  from step.hyps(2) step.prems(2) step.IH [OF step.prems(1)] show ?case
    by (auto elim!: signed_step.cases)
qed simp

text \<open>The loader refines it.\<close>

definition applied_of :: "remote_loader \<times> 'c \<Rightarrow> 'c applied" where
  "applied_of st = (let (l, rules) = st in
     if rl_loaded l then Some (rl_version l, rl_issued l, rl_document l, rules) else None)"

definition install_document ::
    "(string \<Rightarrow> config_doc option) \<Rightarrow> 'r engine \<Rightarrow> string \<Rightarrow> 'r compiled_rule list option" where
  "install_document toml eng doc =
     (case parse_config toml doc of Inl e \<Rightarrow> None | Inr f \<Rightarrow>
        (case compile_rules eng f of Inl e \<Rightarrow> None | Inr rules \<Rightarrow> Some rules))"

lemma check_signed_Checked:
  assumes "check_signed sha256 (Some vf) now data changed l = Checked apply doc version issued document"
  shows "(\<not> changed \<and> \<not> apply \<and> version = rl_version l \<and> issued = rl_issued l \<and> document = rl_document l) \<or>
    (changed \<and> (\<exists>c. vf now data = Ok (doc, c) \<and> version = cc_version c \<and> issued = cc_iat c \<and> document = sha256 doc \<and>
       (rl_loaded l \<longrightarrow> sint (rl_issued l) \<le> sint (cc_iat c) \<and>
          (if apply then rl_version l < cc_version c else rl_version l = cc_version c \<and> rl_document l = sha256 doc)) \<and>
       (\<not> rl_loaded l \<longrightarrow> apply)))"
  using assms
  by (auto simp: check_signed_def Let_def word_sless_alt split: if_splits sum.splits)

lemma remote_refresh_cases:
  assumes "remote_refresh toml sha256 eng verifier now answer (l, rules) = ((l', rules'), outcome, err)"
  obtains (failed) e where "err = Some e" "l' = l" "rules' = rules" "outcome \<in> {''error'', ''unsigned'', ''rolled_back''}"
  | (not_modified) "err = None" "rl_loaded l" "l' = l\<lparr>rl_last_success := Some now\<rparr>" "rules' = rules" "outcome = ''unchanged''"
  | (fetched) data doc ap version issued document where "err = None"
      "check_signed sha256 verifier now data (\<not> rl_loaded l \<or> sha256 data \<noteq> rl_hash l) l =
         Checked ap doc version issued document"
      "rl_loaded l'" "rl_version l' = version" "rl_issued l' = issued" "rl_document l' = document"
      "if ap then install_document toml eng doc = Some rules' else rules' = rules"
      "outcome = (if ap then ''applied'' else ''unchanged'')" "rl_last_success l' = Some now"
      "rl_rule_count l' = (if ap then length rules' else rl_rule_count l)"
      "\<exists>bytes etag. answer = Fetched 200 (Some bytes) etag \<and> data = take (max_config_bytes + 1) bytes"
proof (cases "\<exists>bytes etag. answer = Fetched 200 (Some bytes) etag")
  case True
  then obtain bytes etag where a: "answer = Fetched 200 (Some bytes) etag" by blast
  define data where "data = take (max_config_bytes + 1) bytes"
  show ?thesis
  proof (cases "check_signed sha256 verifier now data (\<not> rl_loaded l \<or> sha256 data \<noteq> rl_hash l) l")
    case (Checked ap doc version issued document)
    show ?thesis
    proof (cases ap)
      case False
      then show ?thesis
        using assms a Checked fetched [OF _ Checked] data_def
        by (auto simp: remote_refresh_def Let_def)
    next
      case ap: True
      show ?thesis
      proof (cases "parse_config toml doc")
        case (Inl e)
        then show ?thesis
          using assms a Checked ap failed data_def by (auto simp: remote_refresh_def Let_def)
      next
        case (Inr f)
        show ?thesis
        proof (cases "compile_rules eng f")
          case (Inl e)
          then show ?thesis
            using assms a Checked ap Inr failed data_def redactor.update_err [OF Inl]
            by (auto simp: remote_refresh_def Let_def)
        next
          case c: (Inr compiled)
          have "length compiled = length (rf_rules f)" using c by (auto simp: compile_rules_def dest: collect_length)
          then show ?thesis
            using assms a Checked ap Inr c fetched [OF _ Checked] data_def redactor.update_ok [OF c]
            by (auto simp: remote_refresh_def Let_def install_document_def)
        qed
      qed
    qed
  qed (use assms a failed data_def in \<open>auto simp: remote_refresh_def Let_def\<close>)
next
  case False
  have "(\<exists>e. err = Some e) \<and> l' = l \<and> rules' = rules \<and> outcome = ''error'' \<or>
      err = None \<and> rl_loaded l \<and> l' = l\<lparr>rl_last_success := Some now\<rparr> \<and> rules' = rules \<and> outcome = ''unchanged''"
  proof (cases answer)
    case (Fetched sc body etag)
    consider "sc = 404" | "sc = 304" | "sc = 200" "body = None" | "sc \<noteq> 404" "sc \<noteq> 304" "sc \<noteq> 200"
      using False Fetched by (metis option.exhaust)
    then show ?thesis
      using assms Fetched by cases (auto simp: remote_refresh_def split: if_splits)
  qed (use assms in \<open>auto simp: remote_refresh_def\<close>)
  then show ?thesis using failed not_modified by blast
qed

lemma remote_refresh_steps:
  "signed_step sha256 vf (install_document toml eng) (applied_of st)
     (applied_of (fst (remote_refresh toml sha256 eng (Some vf) now answer st)))"
proof -
  obtain l rules where st: "st = (l, rules)" by force
  obtain l' rules' outcome err where r:
    "remote_refresh toml sha256 eng (Some vf) now answer (l, rules) = ((l', rules'), outcome, err)"
    by (metis prod.exhaust)
  from r show ?thesis
  proof (cases rule: remote_refresh_cases)
    case (fetched data doc ap version issued document)
    consider (same) "rl_loaded l" "\<not> ap" "version = rl_version l" "issued = rl_issued l" "document = rl_document l"
      | (verified) c where "vf now data = Ok (doc, c)" "version = cc_version c" "issued = cc_iat c"
        "document = sha256 doc" "rl_loaded l \<longrightarrow> sint (rl_issued l) \<le> sint (cc_iat c) \<and>
          (if ap then rl_version l < cc_version c else rl_version l = cc_version c \<and> rl_document l = sha256 doc)"
        "\<not> rl_loaded l \<longrightarrow> ap"
      using check_signed_Checked [OF fetched(2)] by blast
    then show ?thesis
    proof cases
      case same
      then show ?thesis using fetched st r by (simp add: applied_of_def signed_step.stay)
    next
      case (verified c)
      then show ?thesis
        using fetched st r
        by (cases "rl_loaded l"; cases ap)
          (auto simp: applied_of_def intro: signed_step.first [where vf = vf, OF verified(1)]
            signed_step.newer [where vf = vf, OF verified(1)] signed_step.resigned [where vf = vf, OF verified(1)])
    qed
  qed (use st r in \<open>simp_all add: applied_of_def signed_step.stay\<close>)
qed

lemma remote_run_steps:
  "signed_steps sha256 vf (install_document toml eng) (applied_of st)
     (applied_of (remote_run toml sha256 eng (Some vf) ticks st))"
proof (induction toml sha256 eng "Some vf" ticks st rule: remote_run.induct)
  case (2 toml sha256 eng now answer ticks st)
  then show ?case
    using remote_refresh_steps [of sha256 vf toml eng st now answer] by (auto intro: converse_rtranclp_into_rtranclp)
qed simp

section \<open>The local file\<close>

text \<open>
  FileLoader. \<open>toml_rules\<close> decodes a file into its rules and whether the array was absent (nil),
  \<open>toml_doc\<close> into whether it has a schema_version and a redaction.rules; a read that fails is Inl.
\<close>

record file_loader =
  fl_path :: string
  fl_interval :: duration
  fl_last_hash :: string
  fl_loaded :: bool
  fl_failures :: nat

definition new_file_loader :: "string \<Rightarrow> duration \<Rightarrow> file_loader" where
  "new_file_loader path interval = \<lparr>fl_path = path, fl_interval = interval, fl_last_hash = [],
     fl_loaded = False, fl_failures = 0\<rparr>"

record toml_reader =
  toml_rules :: "string \<Rightarrow> (rules_file \<times> bool) option"
  toml_doc :: "string \<Rightarrow> (bool \<times> bool) option"

definition file_refresh ::
    "toml_reader \<Rightarrow> (string \<Rightarrow> string) \<Rightarrow> 'r engine \<Rightarrow> string + string \<Rightarrow>
     file_loader \<times> 'r compiled_rule list \<Rightarrow> (file_loader \<times> 'r compiled_rule list) \<times> string option" where
  "file_refresh toml sha256 eng read st =
     (let (l, rules) = st in
      case read of
        Inl e \<Rightarrow> (st, Some (''read local redaction rules: '' @ e))
      | Inr data \<Rightarrow>
          if fl_loaded l \<and> sha256 data = fl_last_hash l then (st, None)
          else (case toml_rules toml data of
              None \<Rightarrow> (st, Some ''invalid local redaction TOML'')
            | Some (f, rules_nil) \<Rightarrow>
                (case (if rules_nil then
                         (case toml_doc toml data of
                            None \<Rightarrow> Some ''invalid local redaction TOML''
                          | Some (versioned, ota_rules) \<Rightarrow>
                              if versioned \<and> ota_rules then Some ''OTA document supplied as local rules; use top-level rules instead of redaction.rules''
                              else None)
                       else None) of
                   Some e \<Rightarrow> (st, Some e)
                 | None \<Rightarrow>
                     (case redactor_update eng f rules of
                        (rules', Some e) \<Rightarrow> ((l, rules'), Some ''local redaction rules failed to compile; retaining last-known-good rules'')
                      | (rules', None) \<Rightarrow> ((l\<lparr>fl_last_hash := sha256 data, fl_loaded := True\<rparr>, rules'), None)))))"

definition file_load_initial ::
    "toml_reader \<Rightarrow> (string \<Rightarrow> string) \<Rightarrow> 'r engine \<Rightarrow> bool \<Rightarrow> string + string \<Rightarrow>
     file_loader \<times> 'r compiled_rule list \<Rightarrow> (file_loader \<times> 'r compiled_rule list) \<times> string option" where
  "file_load_initial toml sha256 eng has_redactor read st =
     (if fl_path (fst st) = [] \<or> \<not> has_redactor \<or> fl_interval (fst st) \<le> 0 then
        (st, Some ''local loader requires a path, redactor and positive reload interval'')
      else file_refresh toml sha256 eng read st)"

definition max_consecutive_file_failures :: nat where
  "max_consecutive_file_failures = 3"

definition file_poll ::
    "toml_reader \<Rightarrow> (string \<Rightarrow> string) \<Rightarrow> 'r engine \<Rightarrow> string + string \<Rightarrow>
     file_loader \<times> 'r compiled_rule list \<Rightarrow> (file_loader \<times> 'r compiled_rule list) \<times> string option" where
  "file_poll toml sha256 eng read st =
     (case file_refresh toml sha256 eng read st of
        ((l, rules), Some e) \<Rightarrow>
          let l' = l\<lparr>fl_failures := fl_failures l + 1\<rparr> in
          ((l', rules),
           if max_consecutive_file_failures \<le> fl_failures l' then
             Some (''local redaction failed '' @ format_uint (fl_failures l') @ '' consecutive reloads: '' @ e)
           else None)
      | ((l, rules), None) \<Rightarrow> ((l\<lparr>fl_failures := 0\<rparr>, rules), None))"

text \<open>Run, on the reads of its ticks until the context is done; an error ends it.\<close>

fun file_ticks ::
    "toml_reader \<Rightarrow> (string \<Rightarrow> string) \<Rightarrow> 'r engine \<Rightarrow> (string + string) list \<Rightarrow>
     file_loader \<times> 'r compiled_rule list \<Rightarrow> (file_loader \<times> 'r compiled_rule list) \<times> string option" where
  "file_ticks toml sha256 eng [] st = (st, None)"
| "file_ticks toml sha256 eng (read # reads) st =
     (case file_poll toml sha256 eng read st of
        (st', Some e) \<Rightarrow> (st', Some e)
      | (st', None) \<Rightarrow> file_ticks toml sha256 eng reads st')"

definition file_run ::
    "toml_reader \<Rightarrow> (string \<Rightarrow> string) \<Rightarrow> 'r engine \<Rightarrow> (string + string) list \<Rightarrow>
     file_loader \<times> 'r compiled_rule list \<Rightarrow> (file_loader \<times> 'r compiled_rule list) \<times> string option" where
  "file_run toml sha256 eng reads st =
     (if \<not> fl_loaded (fst st) then (st, Some ''local redaction rules must be loaded before polling'')
      else file_ticks toml sha256 eng reads st)"

text \<open>Which reloads succeed, if polling never stopped.\<close>

fun file_outcomes ::
    "toml_reader \<Rightarrow> (string \<Rightarrow> string) \<Rightarrow> 'r engine \<Rightarrow> (string + string) list \<Rightarrow>
     file_loader \<times> 'r compiled_rule list \<Rightarrow> bool list" where
  "file_outcomes toml sha256 eng [] st = []"
| "file_outcomes toml sha256 eng (read # reads) st =
     (let (st', e) = file_refresh toml sha256 eng read st in
      (e = None) # file_outcomes toml sha256 eng reads st')"

lemma file_refresh_failed: "file_refresh toml sha256 eng read st = (st', Some e) \<Longrightarrow> st' = st"
  by (cases st)
    (auto simp: file_refresh_def Let_def split: sum.splits if_splits option.splits prod.splits
      dest: redactor.update_failed)

text \<open>A loader that had loaded nothing installs what the file it read compiles to.\<close>

lemma file_refresh_first:
  assumes "file_refresh toml sha256 eng read (l, rules) = ((l', rules'), None)" and "\<not> fl_loaded l"
  shows "fl_loaded l' \<and> fl_path l' = fl_path l \<and> (\<exists>data f rules_nil. read = Ok data \<and>
    toml_rules toml data = Some (f, rules_nil) \<and> compile_rules eng f = Ok rules')"
  using assms
  by (auto simp: file_refresh_def Let_def split: sum.splits option.splits prod.splits if_splits
      dest: redactor.update_installed)

lemma file_refresh_loaded: "file_refresh toml sha256 eng read st = (st', None) \<Longrightarrow> fl_loaded (fst st')"
  by (cases st)
    (auto simp: file_refresh_def Let_def split: sum.splits if_splits option.splits prod.splits)

text \<open>The count of failures is not read by refresh, so polling sees the same outcomes as the free run.\<close>

definition recount :: "nat \<Rightarrow> file_loader \<times> 'c \<Rightarrow> file_loader \<times> 'c" where
  "recount n st = ((fst st)\<lparr>fl_failures := n\<rparr>, snd st)"

lemma file_refresh_recount:
  "file_refresh toml sha256 eng read (recount n st) =
     (let (st', e) = file_refresh toml sha256 eng read st in (recount n st', e))"
  by (cases st)
    (auto simp: file_refresh_def recount_def Let_def split: sum.splits option.splits prod.splits)

lemma file_outcomes_recount:
  "file_outcomes toml sha256 eng reads (recount n st) = file_outcomes toml sha256 eng reads st"
  by (induction toml sha256 eng reads st rule: file_outcomes.induct)
    (auto simp: file_refresh_recount Let_def split: prod.splits)

text \<open>Counting to three is looking for three failures in a row.\<close>

fun third_failure :: "nat \<Rightarrow> bool list \<Rightarrow> bool" where
  "third_failure k [] = False"
| "third_failure k (True # os) = third_failure 0 os"
| "third_failure k (False # os) = (max_consecutive_file_failures \<le> k + 1 \<or> third_failure (k + 1) os)"

lemma third_failure_iff:
  "k < 3 \<Longrightarrow> third_failure k os \<longleftrightarrow> sublist [False, False, False] (replicate k False @ os)"
proof (induction k os rule: third_failure.induct)
  case (2 k os)
  then have "third_failure k (True # os) \<longleftrightarrow> sublist [False, False, False] os" by simp
  moreover have "k \<in> {0, 1, 2}" using 2 by auto
  ultimately show ?case by (auto simp: sublist_Cons_right numeral_2_eq_2)
next
  case (3 k os)
  have "k = 0 \<or> k = 1 \<or> k = 2" using 3 by auto
  then show ?case
    using 3 by (auto simp: max_consecutive_file_failures_def sublist_Cons_right numeral_2_eq_2)
qed (auto simp: sublist_Cons_right dest: sublist_length_le)

lemma file_poll_outcome:
  "file_poll toml sha256 eng read st =
     (let (st', e) = file_refresh toml sha256 eng read st in
      case e of
        None \<Rightarrow> (recount 0 st', None)
      | Some err \<Rightarrow> (recount (fl_failures (fst st) + 1) st',
          if max_consecutive_file_failures \<le> fl_failures (fst st) + 1 then
            Some (''local redaction failed '' @ format_uint (fl_failures (fst st) + 1) @ '' consecutive reloads: '' @ err)
          else None))"
  using file_refresh_failed [of toml sha256 eng read st]
  by (auto simp: file_poll_def recount_def Let_def split: prod.splits option.splits)

lemma file_ticks_stop:
  "snd (file_ticks toml sha256 eng reads st) \<noteq> None \<longleftrightarrow>
     third_failure (fl_failures (fst st)) (file_outcomes toml sha256 eng reads st)"
proof (induction toml sha256 eng reads st rule: file_ticks.induct)
  case (2 toml sha256 eng read reads st)
  obtain st' e where r: "file_refresh toml sha256 eng read st = (st', e)" by (metis prod.exhaust)
  have f: "fl_failures (fst (recount n st')) = n" for n by (simp add: recount_def)
  show ?case
    using 2 r by (cases e) (auto simp: file_poll_outcome f file_outcomes_recount)
qed simp

section \<open>What ParseConfig accepts\<close>

lemma check_rules_None:
  "check_rules names rs = None \<longleftrightarrow>
     distinct (map rule_name rs) \<and> set names \<inter> set (map rule_name rs) = {} \<and>
     (\<forall>r \<in> set rs. rule_name r \<noteq> [] \<and> rule_pattern r \<noteq> [] \<and>
        (rule_type r = ''regex-structured-data'' \<or>
         rule_type r = ''regex'' \<and> rule_redact_fields r = None \<and> rule_skip_fields r = None))"
  by (induction names rs rule: check_rules.induct) auto

section \<open>Properties\<close>

text \<open>A published document, its object and a loader that has just polled it, for the witnesses.\<close>

definition example_config_toml :: "string \<Rightarrow> config_doc option" where
  "example_config_toml d = (if d = ''doc'' then
     Some \<lparr>cd_schema_version = 1, cd_redaction = Some \<lparr>rd_default_replacement = ''#'', rd_rules = Some [example_rule]\<rparr>\<rparr>
   else None)"

definition fresh_remote_loader :: remote_loader where
  "fresh_remote_loader = \<lparr>rl_etag = [], rl_hash = [], rl_loaded = False, rl_version = 0, rl_issued = 0,
     rl_document = [], rl_rule_count = 0, rl_last_success = None\<rparr>"

definition example_remote_verifier :: config_verifier where
  "example_remote_verifier = require_signature (example_signed example_config_claims) (\<lambda>d. ''D'') ''c'' [''k'' \<mapsto> 7]"

definition example_polled :: remote_loader where
  "example_polled = \<lparr>rl_etag = ''e1'', rl_hash = ''D'', rl_loaded = True, rl_version = 3,
     rl_issued = time_unix (unix_time 1000), rl_document = ''D'', rl_rule_count = 1,
     rl_last_success = Some (unix_time 1030)\<rparr>"

lemma example_fresh: "new_remote_loader True ''u'' True nanos = Ok fresh_remote_loader"
  by (simp add: new_remote_loader_def fresh_remote_loader_def nanos_def)

lemma example_parse_config: "parse_config example_config_toml ''doc'' =
    Ok \<lparr>rf_version = [], rf_default_replacement = ''#'', rf_rules = [example_rule]\<rparr>"
  by (simp add: parse_config_def example_config_toml_def example_rule_def max_config_bytes_def)

lemma example_compile_parsed:
  "compile_rules literal_engine \<lparr>rf_version = [], rf_default_replacement = ''#'', rf_rules = [example_rule]\<rparr> =
     Ok [example_compiled]"
  using example_compiles by (simp add: compile_rules_def example_rules_file_def)

lemma example_poll:
  "remote_refresh example_config_toml (\<lambda>d. ''D'') literal_engine (Some example_remote_verifier) (unix_time 1030)
     (Fetched 200 (Some example_signed_config) ''e1'') (fresh_remote_loader, []) =
   ((example_polled, [example_compiled]), ''applied'', None)"
proof -
  have "length example_signed_config \<le> max_config_bytes + 1"
    using example_signed_config_length by (simp add: max_config_bytes_def)
  then have t: "take (Suc max_config_bytes) example_signed_config = example_signed_config" by simp
  have "check_signed (\<lambda>d. ''D'') (Some example_remote_verifier) (unix_time 1030) example_signed_config
      (\<not> rl_loaded fresh_remote_loader \<or> ''D'' \<noteq> rl_hash fresh_remote_loader) fresh_remote_loader =
      Checked True ''doc'' 3 (time_unix (unix_time 1000)) ''D''"
    using example_config_verifies
    by (simp add: check_signed_def example_remote_verifier_def require_signature_def fresh_remote_loader_def
        example_config_claims_eq)
  then show ?thesis
    by (simp add: remote_refresh_def Let_def t example_parse_config redactor.update_ok [OF example_compile_parsed])
      (simp add: fresh_remote_loader_def example_polled_def)
qed

text \<open>
  A refresh never half-applies. If it returns an error, for any response and whether configs are
  signed or not, the loader and the rules are what they were; if it returns none, a config is loaded,
  and the rules changed only if the outcome says applied. So a first load that succeeds has rules.
\<close>

theorem refresh_keeps_last_good:
  "case remote_refresh toml sha256 eng verifier now answer (l, rules) of
     (st, outcome, Some e) \<Rightarrow> st = (l, rules)
   | (st, outcome, None) \<Rightarrow> rl_loaded (fst st) \<and> (outcome \<noteq> ''applied'' \<longrightarrow> snd st = rules)"
proof -
  obtain l' rules' outcome err where r:
    "remote_refresh toml sha256 eng verifier now answer (l, rules) = ((l', rules'), outcome, err)"
    by (metis prod.exhaust)
  from r show ?thesis
  proof (cases rule: remote_refresh_cases)
    case (fetched data doc ap version issued document)
    then show ?thesis using r by (cases ap) auto
  qed (use r in auto)
qed

lemma refresh_keeps_last_good_witness:
  "rl_loaded (fst (fst (remote_refresh example_config_toml (\<lambda>d. ''D'') literal_engine (Some example_remote_verifier)
     (unix_time 1030) (Fetched 200 (Some example_signed_config) ''e1'') (fresh_remote_loader, []))))"
  using refresh_keeps_last_good [where toml = example_config_toml and eng = literal_engine
      and verifier = "Some example_remote_verifier" and l = fresh_remote_loader and rules = "[]"
      and ?sha256.0 = "\<lambda>d. ''D''" and now = "unix_time 1030" and answer = "Fetched 200 (Some example_signed_config) ''e1''"]
  by (simp add: example_poll)

text \<open>
  C14. A signed loader never rolls back. Over any sequence of responses, at any times, once a config
  is applied its version and its iat only go up, and the rules change only with the version.
\<close>

theorem signed_config_monotone:
  assumes "rl_loaded l"
    and "remote_run toml sha256 eng (Some vf) ticks (l, rules) = (l', rules')"
  shows "rl_loaded l' \<and> rl_version l \<le> rl_version l' \<and> sint (rl_issued l) \<le> sint (rl_issued l') \<and>
    (rl_version l' = rl_version l \<longrightarrow> rl_document l' = rl_document l \<and> rules' = rules)"
proof -
  have steps: "signed_steps sha256 vf (install_document toml eng)
      (Some (rl_version l, rl_issued l, rl_document l, rules)) (applied_of (l', rules'))"
    using remote_run_steps [of sha256 vf toml eng "(l, rules)" ticks] assms by (simp add: applied_of_def)
  have "rl_loaded l'" using signed_steps_keep [OF steps] by (auto simp: applied_of_def split: if_splits)
  then show ?thesis using signed_steps_forward [OF steps refl] by (auto simp: applied_of_def)
qed

lemma signed_config_monotone_witness:
  "rl_loaded example_polled \<and>
   rl_version example_polled \<le> rl_version (fst (remote_run example_config_toml (\<lambda>d. ''D'') literal_engine
      (Some example_remote_verifier) [(unix_time 1030, Fetched 304 None [])] (example_polled, [])))"
  using signed_config_monotone [of example_polled example_config_toml "\<lambda>d. ''D''" literal_engine
      example_remote_verifier "[(unix_time 1030, Fetched 304 None [])]" "[]"]
  by (simp add: example_polled_def remote_refresh_def split_def)

text \<open>
  C11. The rules in force are authentic. A loader that requires signatures and has polled any number
  of times from a fresh start holds rules compiled from a document that Verify accepted, at some time
  of that run, as signed for this connector by one of its keys, at the version the loader holds.
\<close>

theorem rules_in_force_signed:
  assumes "new_remote_loader has_client url has_redactor interval = Ok l0"
    and "remote_run toml sha256 eng (Some (require_signature ex sha256 connector keys)) ticks (l0, rules0) = (l, rules)"
    and "rl_loaded l"
  shows "\<exists>now obj doc c. config_verify ex sha256 obj connector keys now = Ok (doc, c) \<and>
    cc_connector_id c = connector \<and> cc_version c = rl_version l \<and>
    cc_sha256 c = hex_string (sha256 doc) \<and> install_document toml eng doc = Some rules"
proof -
  have "\<not> rl_loaded l0" using assms(1) by (auto simp: new_remote_loader_def split: if_splits)
  then have steps: "signed_steps sha256 (require_signature ex sha256 connector keys) (install_document toml eng) None
      (Some (rl_version l, rl_issued l, rl_document l, rules))"
    using remote_run_steps [of sha256 "require_signature ex sha256 connector keys" toml eng "(l0, rules0)" ticks] assms(2,3)
    by (simp add: applied_of_def)
  obtain now obj doc c where c: "config_verify ex sha256 obj connector keys now = Ok (doc, c)"
    "cc_version c = rl_version l" "install_document toml eng doc = Some rules"
    using signed_steps_authentic [OF steps refl refl] unfolding require_signature_def by blast
  obtain line where "config_claims_error sha256 connector now doc c = None"
    using config_verify_Ok [OF c(1)] by metis
  then show ?thesis using c unfolding config_claims_ok by blast
qed

lemma rules_in_force_signed_witness:
  "\<exists>now obj doc c. config_verify (example_signed example_config_claims) (\<lambda>d. ''D'') obj ''c'' [''k'' \<mapsto> 7] now = Ok (doc, c) \<and>
     cc_version c = 3 \<and> install_document example_config_toml literal_engine doc = Some [example_compiled]"
proof -
  have "remote_run example_config_toml (\<lambda>d. ''D'') literal_engine
      (Some (require_signature (example_signed example_config_claims) (\<lambda>d. ''D'') ''c'' [''k'' \<mapsto> 7]))
      [(unix_time 1030, Fetched 200 (Some example_signed_config) ''e1'')] (fresh_remote_loader, []) =
      (example_polled, [example_compiled])"
    using example_poll by (simp add: example_remote_verifier_def)
  from rules_in_force_signed [OF example_fresh this] show ?thesis
    by (simp add: example_polled_def) blast
qed

text \<open>
  C37. The offline validator and the loader agree: a document passes ValidateConfig exactly if a
  loader without signatures that has none yet applies it when it is served.
\<close>

theorem validate_is_what_loads:
  assumes "\<not> rl_loaded l"
  shows "validate_config toml eng body = None \<longleftrightarrow>
    (\<exists>st. remote_refresh toml sha256 eng None now (Fetched 200 (Some body) etag) (l, rules) = (st, ''applied'', None))"
proof (cases "length body \<le> max_config_bytes")
  case True
  then have t: "take (Suc max_config_bytes) body = body" by simp
  show ?thesis
  proof (cases "parse_config toml body")
    case (Inl e)
    then show ?thesis using assms t by (simp add: validate_config_def remote_refresh_def check_signed_def Let_def)
  next
    case (Inr f)
    then show ?thesis
      using assms t redactor.update_ok [of eng f] redactor.update_err [of eng f]
      by (cases "compile_rules eng f")
        (auto simp: validate_config_def remote_refresh_def check_signed_def Let_def)
  qed
next
  case False
  then have "parse_config toml body = Err ''config exceeds 1 MiB''"
    "parse_config toml (take (Suc max_config_bytes) body) = Err ''config exceeds 1 MiB''"
    by (simp_all add: parse_config_def)
  then show ?thesis using assms by (simp add: validate_config_def remote_refresh_def check_signed_def Let_def)
qed

lemma validate_is_what_loads_witness:
  "validate_config example_config_toml literal_engine ''doc'' = None \<and>
   (\<exists>st. remote_refresh example_config_toml id literal_engine None 5 (Fetched 200 (Some ''doc'') [])
      (fresh_remote_loader, []) = (st, ''applied'', None))"
proof -
  have "validate_config example_config_toml literal_engine ''doc'' = None"
    by (simp add: validate_config_def example_parse_config example_compile_parsed)
  moreover have "\<not> rl_loaded fresh_remote_loader" by (simp add: fresh_remote_loader_def)
  ultimately show ?thesis using validate_is_what_loads by blast
qed

text \<open>
  What ParseConfig accepts: at most 1 MiB that decodes, of schema version 1, with an explicit
  rule list in which names are unique and not empty, patterns not empty, types known, and field
  filters only on structured rules. It hands on those rules and the default replacement.
\<close>

theorem parse_config_exact:
  "parse_config toml data = Ok f \<longleftrightarrow>
     length data \<le> 1048576 \<and>
     (\<exists>rd rules. toml data = Some \<lparr>cd_schema_version = 1, cd_redaction = Some rd\<rparr> \<and> rd_rules rd = Some rules \<and>
        f = \<lparr>rf_version = [], rf_default_replacement = rd_default_replacement rd, rf_rules = rules\<rparr> \<and>
        distinct (map rule_name rules) \<and>
        (\<forall>r \<in> set rules. rule_name r \<noteq> [] \<and> rule_pattern r \<noteq> [] \<and>
           (rule_type r = ''regex-structured-data'' \<or>
            rule_type r = ''regex'' \<and> rule_redact_fields r = None \<and> rule_skip_fields r = None)))"
proof (cases "toml data")
  case None
  then show ?thesis by (simp add: parse_config_def)
next
  case (Some doc)
  show ?thesis
  proof (cases doc)
    case (fields version redaction)
    have cases_None: "(case check_rules [] rules of None \<Rightarrow> Ok x | Some e \<Rightarrow> Err e) = Ok f \<longleftrightarrow>
        check_rules [] rules = None \<and> x = f" for rules and x :: rules_file
      by (cases "check_rules [] rules") auto
    show ?thesis
    proof (cases redaction)
      case (Some rd)
      then show ?thesis
        using fields \<open>toml data = Some doc\<close>
        by (cases "rd_rules rd") (auto simp: parse_config_def max_config_bytes_def cases_None check_rules_None)
    qed (use fields Some in \<open>simp add: parse_config_def\<close>)
  qed
qed

lemma parse_config_exact_witness:
  "parse_config example_config_toml ''doc'' =
     Ok \<lparr>rf_version = [], rf_default_replacement = ''#'', rf_rules = [example_rule]\<rparr> \<and>
   distinct (map rule_name [example_rule])"
  using parse_config_exact [of example_config_toml "''doc''"
      "\<lparr>rf_version = [], rf_default_replacement = ''#'', rf_rules = [example_rule]\<rparr>"] example_parse_config by blast

text \<open>
  C38. The local file may fail twice. Polling of a loaded file ends with an error exactly when three
  reloads in a row fail; a reload that fails leaves the rules in force, and one that succeeds,
  unchanged content included, starts the count again.
\<close>

theorem file_loader_three_failures:
  assumes "fl_loaded (fst st)" and "fl_failures (fst st) = 0"
  shows "snd (file_run toml sha256 eng reads st) \<noteq> None \<longleftrightarrow>
    sublist [False, False, False] (file_outcomes toml sha256 eng reads st)"
  using assms file_ticks_stop [of toml sha256 eng reads st]
    third_failure_iff [of 0 "file_outcomes toml sha256 eng reads st"] unfolding file_run_def by simp

definition example_file_loader :: file_loader where
  "example_file_loader = \<lparr>fl_path = ''p'', fl_interval = nanos, fl_last_hash = ''h'', fl_loaded = True, fl_failures = 0\<rparr>"

lemma file_loader_three_failures_witness:
  "snd (file_run \<lparr>toml_rules = (\<lambda>d. None), toml_doc = (\<lambda>d. None)\<rparr> id literal_engine
      [Inl ''e'', Inl ''e'', Inr ''h'', Inl ''e'', Inl ''e'', Inl ''e''] (example_file_loader, [])) \<noteq> None \<and>
   snd (file_run \<lparr>toml_rules = (\<lambda>d. None), toml_doc = (\<lambda>d. None)\<rparr> id literal_engine
      [Inl ''e'', Inl ''e'', Inr ''h'', Inl ''e'', Inl ''e''] (example_file_loader, [])) = None"
  using file_loader_three_failures [of "(example_file_loader, [])" "\<lparr>toml_rules = (\<lambda>d. None), toml_doc = (\<lambda>d. None)\<rparr>"
      id literal_engine "[Inl ''e'', Inl ''e'', Inr ''h'', Inl ''e'', Inl ''e'', Inl ''e'']"]
    file_loader_three_failures [of "(example_file_loader, [])" "\<lparr>toml_rules = (\<lambda>d. None), toml_doc = (\<lambda>d. None)\<rparr>"
      id literal_engine "[Inl ''e'', Inl ''e'', Inr ''h'', Inl ''e'', Inl ''e'']"]
  by (simp add: example_file_loader_def file_refresh_def sublist_Cons_right)

text \<open>
  A reload of the local file that fails changes nothing, and one that succeeds leaves the loader
  loaded; so the rules in force are always those of the last reload that succeeded.
\<close>

theorem file_keeps_last_good:
  "case file_refresh toml sha256 eng read st of
     (st', Some e) \<Rightarrow> st' = st
   | (st', None) \<Rightarrow> fl_loaded (fst st')"
  using file_refresh_failed [of toml sha256 eng read st] file_refresh_loaded [of toml sha256 eng read st]
  by (auto split: prod.splits option.splits)

end
