(* ===== verification/GoMime.thy ===== *)
theory GoMime
  imports GoHttp
begin

text \<open>
  mime.ParseMediaType: the media type before the first semicolon, then its parameters. What the
  connector uses of the answer is the type and which of two kinds the error is, so parameter
  values are kept only to compare repeated names. \<open>ulower\<close> lowers a string that is not ASCII.
\<close>

definition mime_token_char :: "char \<Rightarrow> bool" where
  "mime_token_char c = (token_char c \<or> c \<in> {CHR ''{'', CHR ''}''})"

definition consume_token :: "string \<Rightarrow> string \<times> string" where
  "consume_token v = (takeWhile mime_token_char v, dropWhile mime_token_char v)"

definition trim_left_space :: "string \<Rightarrow> string" where
  "trim_left_space s = trim_left_seqs space_seqs s"

definition tspecials :: string where
  "tspecials = ''()<>@,;:[]?=/'' @ [CHR 0x22, CHR 0x5C]"

text \<open>The rest of a quoted string after its opening quote; None if the quote does not close.\<close>

fun consume_quoted :: "string \<Rightarrow> string \<Rightarrow> (string \<times> string) option" where
  "consume_quoted acc [] = None"
| "consume_quoted acc (c # cs) =
     (if c = CHR 0x22 then Some (acc, cs)
      else if c = CHR 0x5C then
        (case cs of
           d # ds \<Rightarrow> if d \<in> set tspecials then consume_quoted (acc @ [d]) ds else consume_quoted (acc @ [c]) cs
         | [] \<Rightarrow> consume_quoted (acc @ [c]) cs)
      else if c = CHR 0x0D \<or> c = CHR 0x0A then None
      else consume_quoted (acc @ [c]) cs)"

definition consume_value :: "string \<Rightarrow> string \<times> string" where
  "consume_value v =
     (case v of
        [] \<Rightarrow> ([], [])
      | c # cs \<Rightarrow>
          if c \<noteq> CHR 0x22 then consume_token v
          else (case consume_quoted [] cs of None \<Rightarrow> ([], v) | Some (x, rest) \<Rightarrow> (x, rest)))"

text \<open>One parameter with its leading semicolon: None if there is none that can be read.\<close>

definition consume_media_param :: "string \<Rightarrow> (string \<times> string \<times> string) option" where
  "consume_media_param v =
     (case trim_left_space v of
        c # rest \<Rightarrow>
          if c \<noteq> CHR '';'' then None
          else
            let (key, rest) = consume_token (trim_left_space rest) in
            if key = [] then None
            else (case trim_left_space rest of
                d # rest \<Rightarrow>
                  if d \<noteq> CHR ''='' then None
                  else
                    let rest = trim_left_space rest; (val, rest2) = consume_value rest in
                    if val = [] \<and> rest2 = rest then None else Some (ascii_lower key, val, rest2)
              | [] \<Rightarrow> None)
      | [] \<Rightarrow> None)"

datatype media_type =
    MediaType string
  | InvalidParameter string
  | NoMediaType

definition valid_media_type :: "string \<Rightarrow> bool" where
  "valid_media_type s =
     (let (typ, rest) = consume_token s in
      typ \<noteq> [] \<and>
      (case rest of
         [] \<Rightarrow> True
       | c # cs \<Rightarrow> c = CHR ''/'' \<and> (let (sub, rest) = consume_token cs in sub \<noteq> [] \<and> rest = [])))"

lemma trim_left_seqs_length: "length (trim_left_seqs seqs s) \<le> length s"
proof (induction seqs s rule: trim_left_seqs.induct)
  case (1 seqs s)
  show ?case
  proof (cases "find (\<lambda>p. p \<noteq> [] \<and> has_prefix p s) seqs")
    case None
    then show ?thesis by (subst trim_left_seqs.simps) simp
  next
    case (Some p)
    with 1 [OF Some] show ?thesis by (subst trim_left_seqs.simps) simp
  qed
qed

lemma trim_left_space_length: "length (trim_left_space s) \<le> length s"
  by (simp add: trim_left_space_def trim_left_seqs_length)

lemma consume_quoted_length: "consume_quoted acc v = Some (x, rest) \<Longrightarrow> length rest \<le> length v"
  by (induction acc v rule: consume_quoted.induct) (auto split: if_splits list.splits)

lemma consume_value_length: "length (snd (consume_value v)) \<le> length v"
proof (cases v)
  case (Cons c cs)
  show ?thesis
  proof (cases "c = CHR 0x22")
    case True
    then show ?thesis
      using Cons consume_quoted_length [of "[]" cs]
      by (cases "consume_quoted [] cs") (auto simp: consume_value_def le_SucI)
  next
    case False
    then show ?thesis
      using Cons length_dropWhile_le [of mime_token_char v] by (simp add: consume_value_def consume_token_def)
  qed
qed (simp add: consume_value_def)

lemma consume_media_param_length:
  assumes "consume_media_param v = Some (k, x, rest)"
  shows "length rest < length v"
proof -
  obtain c r0 where a: "trim_left_space v = c # r0"
    using assms by (auto simp: consume_media_param_def split: list.splits)
  obtain d r1 where b: "trim_left_space (snd (consume_token (trim_left_space r0))) = d # r1"
    and c: "rest = snd (consume_value (trim_left_space r1))"
    using assms a by (auto simp: consume_media_param_def Let_def split: list.splits if_splits prod.splits)
  have "length r0 < length v" using trim_left_space_length [of v] a by simp
  moreover have "length (snd (consume_token (trim_left_space r0))) \<le> length r0"
    using trim_left_space_length [of r0] length_dropWhile_le [of mime_token_char "trim_left_space r0"]
    by (simp add: consume_token_def)
  moreover have "length r1 < length (snd (consume_token (trim_left_space r0)))"
    using trim_left_space_length [of "snd (consume_token (trim_left_space r0))"] b by simp
  moreover have "length rest \<le> length r1"
    using consume_value_length [of "trim_left_space r1"] trim_left_space_length [of r1] c by simp
  ultimately show ?thesis by simp
qed

lemma media_params_decreases:
  "consume_media_param (trim_left_space v) = Some (k, x, rest) \<Longrightarrow> length rest < length v"
  using consume_media_param_length [of "trim_left_space v"] trim_left_space_length [of v]
  by (meson less_le_trans)

text \<open>
  The parameter loop. A repeated name with another value is an error of its own, which drops the
  type; what cannot be read is ErrInvalidMediaParameter, which keeps it.
\<close>

function media_params :: "string \<Rightarrow> (string \<times> string) list \<Rightarrow> string \<Rightarrow> media_type" where
  "media_params mt params v =
     (let v = trim_left_space v in
      if v = [] then MediaType mt
      else (case consume_media_param v of
          None \<Rightarrow> if trim_space v = '';'' then MediaType mt else InvalidParameter mt
        | Some (key, x, rest) \<Rightarrow>
            (case map_of params key of
               Some y \<Rightarrow> if y \<noteq> x then NoMediaType else media_params mt ((key, x) # params) rest
             | None \<Rightarrow> media_params mt ((key, x) # params) rest)))"
  by pat_completeness auto
termination
  by (relation "measure (\<lambda>(mt, params, v). length v)") (auto dest: media_params_decreases)

declare media_params.simps [simp del]

definition parse_media_type :: "(string \<Rightarrow> string) \<Rightarrow> string \<Rightarrow> media_type" where
  "parse_media_type ul v =
     (let base = fst (cut_at (CHR '';'') v); mt = trim_space (to_lower ul base) in
      if \<not> valid_media_type mt then NoMediaType else media_params mt [] (drop (length base) v))"

end
