(* ===== verification/Upstream.thy ===== *)
theory Upstream
  imports RuleLoader GoMime Rawpipe
begin

text \<open>
  internal/upstream: forwarding a request to its destination and streaming the answer back, or
  buffering and redacting it when a rule covers the host. The transport's answer, gzip, the clock
  and the redactor's parameters are inputs; what a body does when it is read is part of it.
\<close>

section \<open>Bodies and limits\<close>

text \<open>A body that ends, one whose read fails after some bytes, one that stays open.\<close>

datatype body_source = Ends string | Breaks string string | Stalls string

datatype read_result = ReadOk string | ReadTooLarge | ReadFailed string | ReadStalled

text \<open>readLimited: at most one byte past the limit is read.\<close>

fun read_limited :: "body_source \<Rightarrow> int \<Rightarrow> read_result" where
  "read_limited (Ends s) limit =
     (if limit \<le> 0 then ReadOk s else if limit < int (length (take (nat limit + 1) s)) then ReadTooLarge else ReadOk s)"
| "read_limited (Breaks s e) limit =
     (if 0 < limit \<and> nat limit + 1 \<le> length s then ReadTooLarge else ReadFailed e)"
| "read_limited (Stalls s) limit =
     (if 0 < limit \<and> nat limit + 1 \<le> length s then ReadTooLarge else ReadStalled)"

definition bytes_per_mb :: i64 where "bytes_per_mb = 2 ^ 20"
definition default_body_size_mb :: i64 where "default_body_size_mb = 32"
definition default_decoded_body_size_mb :: i64 where "default_decoded_body_size_mb = 256"
definition default_max_concurrent_redactions :: i64 where "default_max_concurrent_redactions = 8"
definition default_request_timeout :: duration where "default_request_timeout = 60 * nanos"

text \<open>finite and positive, in int64 arithmetic.\<close>

definition finite_limit :: "i64 \<Rightarrow> i64 \<Rightarrow> i64" where
  "finite_limit limit_mb default_mb = (if 0 <s limit_mb then limit_mb * bytes_per_mb else default_mb * bytes_per_mb)"

definition positive_limit :: "i64 \<Rightarrow> i64 \<Rightarrow> i64" where
  "positive_limit n dflt = (if 0 <s n then n else dflt)"

record client_limits =
  cl_max_request :: i64
  cl_max_body :: i64
  cl_max_decoded :: i64
  cl_buffer_for :: duration
  cl_stream_cap :: duration
  cl_redactions :: i64

record client_config =
  cfg_request_timeout :: duration
  cfg_max_request_mb :: i64
  cfg_max_response_mb :: i64
  cfg_max_decoded_mb :: i64
  cfg_stream_max_lifetime :: duration
  cfg_max_redactions :: i64

text \<open>New, apart from the transports and the trust it hands to crypto/tls.\<close>

definition new_client :: "client_config \<Rightarrow> client_limits" where
  "new_client cfg =
     (let timeout = (if cfg_request_timeout cfg \<le> 0 then default_request_timeout else cfg_request_timeout cfg) in
      \<lparr>cl_max_request = cfg_max_request_mb cfg * bytes_per_mb,
       cl_max_body = finite_limit (cfg_max_response_mb cfg) default_body_size_mb,
       cl_max_decoded = finite_limit (cfg_max_decoded_mb cfg) default_decoded_body_size_mb,
       cl_buffer_for = timeout, cl_stream_cap = cfg_stream_max_lifetime cfg,
       cl_redactions = positive_limit (cfg_max_redactions cfg) default_max_concurrent_redactions\<rparr>)"

section \<open>Content codings and media types\<close>

datatype coding = CodingIdentity | CodingGzip | CodingDeflate | CodingZstd | CodingBr | CodingOther

definition named_codings :: "(string \<times> coding) list" where
  "named_codings = [(''identity'', CodingIdentity), (''gzip'', CodingGzip), (''deflate'', CodingDeflate),
     (''zstd'', CodingZstd), (''br'', CodingBr)]"

definition coding_tokens :: "(string \<Rightarrow> string) \<Rightarrow> string list \<Rightarrow> string list" where
  "coding_tokens ul vals =
     map (to_lower ul) (filter (\<lambda>t. t \<noteq> []) (map trim_space (concat (map (split_on (CHR '','')) vals))))"

definition classify_content_coding :: "(string \<Rightarrow> string) \<Rightarrow> string list \<Rightarrow> coding" where
  "classify_content_coding ul vals =
     (case coding_tokens ul vals of
        [] \<Rightarrow> CodingIdentity
      | [t] \<Rightarrow> (case map_of named_codings t of Some c \<Rightarrow> c | None \<Rightarrow> CodingOther)
      | _ \<Rightarrow> CodingOther)"

definition can_decode :: "coding \<Rightarrow> bool" where
  "can_decode c = (c = CodingIdentity \<or> c = CodingGzip)"

definition media_type_of :: "(string \<Rightarrow> string) \<Rightarrow> string \<Rightarrow> string" where
  "media_type_of ul content_type =
     (case parse_media_type ul content_type of MediaType mt \<Rightarrow> mt | InvalidParameter mt \<Rightarrow> mt | NoMediaType \<Rightarrow> [])"

definition is_json :: "string \<Rightarrow> bool" where
  "is_json mt = (mt = ''application/json'' \<or> mt = ''text/json'' \<or> has_suffix ''+json'' mt)"

definition is_grpc :: "(string \<Rightarrow> string) \<Rightarrow> string \<Rightarrow> bool" where
  "is_grpc ul content_type = has_prefix ''application/grpc'' (media_type_of ul content_type)"

definition redactable :: "string \<Rightarrow> bool" where
  "redactable mt = (mt = [] \<or> has_prefix ''text/'' mt \<or> is_json mt \<or> has_suffix ''+xml'' mt \<or>
     mt \<in> set [''application/xml'', ''application/javascript'', ''application/x-www-form-urlencoded'',
       ''application/yaml'', ''application/x-ndjson''])"

section \<open>Responses\<close>

text \<open>
  A response's body: a stream as it came, one under the stream cap, or bytes held in memory with a
  redaction slot. \<open>ur_duplex\<close> says the body is an io.ReadWriteCloser, as after an upgrade.
\<close>

datatype up_body =
    Stream body_source
  | CappedUpgrade body_source
  | CappedStream bool body_source
  | Held string

record up_response =
  ur_status :: nat
  ur_header :: header
  ur_trailer :: "header option"
  ur_body :: up_body
  ur_duplex :: bool
  ur_length :: int

fun source_of :: "up_body \<Rightarrow> body_source" where
  "source_of (Stream s) = s"
| "source_of (CappedUpgrade s) = s"
| "source_of (CappedStream g s) = s"
| "source_of (Held s) = Ends s"

definition traversal_headers :: string where "traversal_headers = ''X-Traversal-''"
definition header_redacted :: string where "header_redacted = ''X-Traversal-Redacted''"

text \<open>
  stripTraversalHeaders. strings.EqualFold on as many bytes as the ASCII prefix has is equality up
  to ASCII case: the runes that fold to its letters otherwise are longer in UTF-8.
\<close>

definition traversal_name :: "string \<Rightarrow> bool" where
  "traversal_name name = (length traversal_headers \<le> length name \<and>
     ascii_lower (take (length traversal_headers) name) = ascii_lower traversal_headers)"

definition strip_traversal_headers :: "header \<Rightarrow> header" where
  "strip_traversal_headers h = (\<lambda>name. if traversal_name name then None else h name)"

definition content_dependent_headers :: "string list" where
  "content_dependent_headers = [''etag'', ''last-modified'', ''content-md5'', ''digest'', ''content-digest'', ''repr-digest'']"

text \<open>replaceBody. The trailers go with the body they followed.\<close>

definition replace_body :: "string \<Rightarrow> bool \<Rightarrow> bool \<Rightarrow> up_response \<Rightarrow> up_response" where
  "replace_body body redacted representation_changed r =
     (let h = hdel ''Trailer'' (ur_header r);
          h = (if redacted then hset header_redacted ''true'' h else h);
          h = (if representation_changed then fold hdel content_dependent_headers h else h);
          h = (if 0 < length body then hset ''Content-Length'' (format_uint (length body)) h else h) in
      r\<lparr>ur_trailer := None, ur_header := h, ur_body := Held body, ur_length := int (length body)\<rparr>)"

section \<open>Streams of hosts no rule covers\<close>

definition cap_stream :: "(string \<Rightarrow> string) \<Rightarrow> duration \<Rightarrow> bool \<Rightarrow> up_response \<Rightarrow> up_response" where
  "cap_stream ul stream_cap rules_exist r =
     (if stream_cap \<le> 0 \<or> \<not> rules_exist then r
      else
        let mt = media_type_of ul (hget (ur_header r) ''Content-Type'') in
        if ur_status r = 101 then
          (if ur_duplex r then r\<lparr>ur_body := CappedUpgrade (source_of (ur_body r))\<rparr> else r)
        else if mt = ''text/event-stream'' \<or> is_grpc ul mt then
          r\<lparr>ur_body := CappedStream (is_grpc ul mt) (source_of (ur_body r))\<rparr>
        else r)"

text \<open>cappedBody.Read: what one read of the capped body answers, and the trailers after it.\<close>

datatype read_err = ReadEOF | ReadErr string

definition capped_read ::
    "bool \<Rightarrow> bool \<Rightarrow> nat \<times> read_err option \<Rightarrow> header option \<Rightarrow> (nat \<times> read_err option) \<times> header option" where
  "capped_read grpc expired inner trailer =
     (let (n, err) = inner in
      if err = None \<or> err = Some ReadEOF \<or> \<not> expired then ((n, err), trailer)
      else if grpc then
        ((n, Some ReadEOF),
         Some (hset ''Grpc-Message'' ''stream reached TRAVERSAL_UNCOVERED_STREAM_MAX_LIFETIME; reconnect''
           (hset ''Grpc-Status'' ''14'' (case trailer of None \<Rightarrow> Map.empty | Some t \<Rightarrow> t))))
      else ((n, Some ReadEOF), trailer))"

section \<open>Buffering and redacting\<close>

text \<open>
  The redactor a client holds, with its parameters. The loader may replace its rules at any moment,
  and each call loads them anew: \<open>rx_rules\<close> is what Forward's check sees, \<open>rx_answer_rules\<close> what the
  first call on the response sees (HasRules or ApplyJSON), \<open>rx_text_rules\<close> what Apply sees.
\<close>

record 'r redaction =
  rx_engine :: "'r engine"
  rx_rules :: "'r compiled_rule list"
  rx_answer_rules :: "'r compiled_rule list"
  rx_text_rules :: "'r compiled_rule list"
  rx_idna :: "string \<Rightarrow> string option"
  rx_lower :: "string \<Rightarrow> string"
  rx_order :: "(string \<times> json) list \<Rightarrow> (string \<times> json) list"
  rx_decode :: "string \<Rightarrow> decoded"
  rx_next :: "string \<Rightarrow> next_token"
  rx_encode :: "json \<Rightarrow> string + string"
  rx_gunzip :: "string \<Rightarrow> string + body_source"
  rx_gzip :: "string \<Rightarrow> string + string"

definition covers :: "'r redaction \<Rightarrow> string \<Rightarrow> bool" where
  "covers rx host = has_rules_for_host (rx_idna rx) (rx_lower rx) (rx_engine rx) (rx_rules rx) host"

definition redact_text :: "'r redaction \<Rightarrow> string \<Rightarrow> string \<Rightarrow> string \<times> bool" where
  "redact_text rx host body = redact_apply (rx_idna rx) (rx_lower rx) (rx_engine rx) (rx_text_rules rx) host body"

definition redact_json :: "'r redaction \<Rightarrow> string \<Rightarrow> string \<Rightarrow> json_refusal + (string \<times> bool)" where
  "redact_json rx host body =
     apply_json (rx_idna rx) (rx_lower rx) (rx_engine rx) (rx_order rx) (rx_decode rx) (rx_next rx) (rx_encode rx)
       (rx_answer_rules rx) host body"

text \<open>Client.redact: per field on JSON, then by bytes on every body.\<close>

definition client_redact :: "'r redaction \<Rightarrow> string \<Rightarrow> string \<Rightarrow> string \<Rightarrow> json_refusal + (string \<times> bool)" where
  "client_redact rx host content_type body =
     (case (if is_json (media_type_of (rx_lower rx) content_type) then redact_json rx host body else Ok (body, False)) of
        Inl e \<Rightarrow> Err e
      | Inr (body', changed) \<Rightarrow>
          let (body'', byte_changed) = redact_text rx host body' in Ok (body'', changed \<or> byte_changed))"

text \<open>Why a covered response is not sent: its label, and the reason that answers it.\<close>

datatype refusal_label = Unredactable | UnsupportedEncoding | PartialContent | BodyTooLarge | DecodedTooLarge
  | DecodeFailed | NoEnd | MalformedJson | NoSlot

datatype up_error = Dropped refusal_label reason | Failed pipe_error

abbreviation refused_as :: "refusal_label \<Rightarrow> up_error" where
  "refused_as l \<equiv> Dropped l RedactionUnsupported"

definition client_read :: "client_limits \<Rightarrow> body_source \<Rightarrow> refusal_label + string" where
  "client_read lim body =
     (case read_limited body (sint (cl_max_body lim)) of
        ReadOk b \<Rightarrow> Ok b
      | ReadStalled \<Rightarrow> Err NoEnd
      | ReadTooLarge \<Rightarrow> Err BodyTooLarge
      | ReadFailed e \<Rightarrow> Err DecodeFailed)"

definition decode_gzip :: "'r redaction \<Rightarrow> string \<Rightarrow> int \<Rightarrow> refusal_label + string" where
  "decode_gzip rx src limit =
     (case rx_gunzip rx src of
        Inl e \<Rightarrow> Err DecodeFailed
      | Inr s \<Rightarrow> (case read_limited s limit of
            ReadOk b \<Rightarrow> Ok b
          | ReadTooLarge \<Rightarrow> Err DecodedTooLarge
          | _ \<Rightarrow> Err DecodeFailed))"

definition client_buffer ::
    "client_limits \<Rightarrow> 'r redaction \<Rightarrow> string \<Rightarrow> coding \<Rightarrow> up_response \<Rightarrow> up_error + up_response" where
  "client_buffer lim rx host cod r =
     (case client_read lim (source_of (ur_body r)) of
        Inl l \<Rightarrow> Err (refused_as l)
      | Inr body \<Rightarrow>
          if body = [] then Ok (replace_body body False False r)
          else if \<not> can_decode cod then Err (refused_as UnsupportedEncoding)
          else (case (if cod = CodingGzip then decode_gzip rx body (sint (cl_max_decoded lim)) else Ok body) of
              Inl l \<Rightarrow> Err (refused_as l)
            | Inr plaintext \<Rightarrow>
                if plaintext = [] then Ok (replace_body body False False r)
                else (case client_redact rx host (hget (ur_header r) ''Content-Type'') plaintext of
                    Inl e \<Rightarrow> Err (refused_as MalformedJson)
                  | Inr (redacted, changed) \<Rightarrow>
                      if cod = CodingGzip then
                        (case rx_gzip rx redacted of
                           Inl e \<Rightarrow> Err (Failed (OtherError (''re-encode the response: '' @ e)))
                         | Inr final \<Rightarrow>
                             Ok (replace_body final changed True
                               (r\<lparr>ur_header := hset ''Content-Encoding'' ''gzip'' (ur_header r)\<rparr>)))
                      else Ok (replace_body redacted changed (redacted \<noteq> body) r))))"

text \<open>
  acquire and releasing: a slot is taken at once or when one comes free; what a response does with
  its slot is a list of operations on the channel.
\<close>

datatype slot_op = TakeSlot | GiveSlot
datatype slot_wait = SlotFree | SlotFreed | WaitCallerGone | WaitTimedOut

definition acquire :: "slot_wait \<Rightarrow> up_error + slot_op list" where
  "acquire w =
     (case w of
        SlotFree \<Rightarrow> Ok [TakeSlot]
      | SlotFreed \<Rightarrow> Ok [TakeSlot]
      | WaitCallerGone \<Rightarrow> Err (Failed (OtherError ''context canceled''))
      | WaitTimedOut \<Rightarrow> Err (Dropped NoSlot Capacity))"

text \<open>Closing a held body gives its slot back once.\<close>

definition close_held :: "bool \<Rightarrow> bool \<times> slot_op list" where
  "close_held released = (True, if released then [] else [GiveSlot])"

definition respond ::
    "client_limits \<Rightarrow> 'r redaction \<Rightarrow> slot_wait \<Rightarrow> string \<Rightarrow> bool \<Rightarrow> up_response \<Rightarrow>
     slot_op list \<times> (up_error + up_response)" where
  "respond lim rx w host covered r0 =
     (let r = r0\<lparr>ur_header := strip_traversal_headers (ur_header r0)\<rparr>;
          cod = classify_content_coding (rx_lower rx) (hvalues (ur_header r) ''Content-Encoding'') in
      if \<not> covered then ([], Ok (cap_stream (rx_lower rx) (cl_stream_cap lim) (has_rules (rx_answer_rules rx)) r))
      else
        let r = r\<lparr>ur_header := hdel ''Accept-Ranges'' (ur_header r)\<rparr>;
            mt = media_type_of (rx_lower rx) (hget (ur_header r) ''Content-Type'') in
        if ur_status r = 101 \<or> mt = ''text/event-stream'' \<or> is_grpc (rx_lower rx) mt \<or> \<not> redactable mt then
          ([], Err (refused_as Unredactable))
        else if ur_status r = 206 then ([], Err (refused_as PartialContent))
        else (case acquire w of
            Inl e \<Rightarrow> ([], Err e)
          | Inr ops \<Rightarrow>
              (case client_buffer lim rx host cod r of
                 Inl e \<Rightarrow> (ops @ [GiveSlot], Err e)
               | Inr r' \<Rightarrow> (ops, Ok r'))))"

section \<open>Forward\<close>

datatype transport = Auto | H2C | Http1

text \<open>What is sent upstream: over which transport, to which target, with which Host.\<close>

record sent_request =
  sr_transport :: transport
  sr_scheme :: string
  sr_target :: string
  sr_host :: string

datatype answer = Refusal response | Relayed up_response | CallerGone

definition unredactable_request :: "(string \<Rightarrow> string) \<Rightarrow> header \<Rightarrow> string" where
  "unredactable_request ul h =
     (if hget h ''Upgrade'' \<noteq> [] then ''an upgraded connection cannot be redacted''
      else if is_grpc ul (hget h ''Content-Type'') then ''gRPC cannot be redacted''
      else [])"

fun up_reason :: "up_error \<Rightarrow> reason" where
  "up_reason (Dropped l reason) = reason"
| "up_reason (Failed e) = reason_of_error e UpstreamFailed"

text \<open>fail; \<open>describe\<close> is the sanitized text of an error.\<close>

definition fail_answer :: "(up_error \<Rightarrow> string) \<Rightarrow> bool \<Rightarrow> header \<Rightarrow> up_error \<Rightarrow> answer" where
  "fail_answer describe caller_gone h e =
     (if caller_gone then CallerGone else Refusal (refuse_response h (up_reason e) (describe e)))"

definition pick_transport :: "(string \<Rightarrow> string) \<Rightarrow> header \<Rightarrow> url \<Rightarrow> transport" where
  "pick_transport ul h target =
     (if hget h ''Upgrade'' \<noteq> [] then Http1
      else if url_scheme target = ''http'' \<and> is_grpc ul (hget h ''Content-Type'') then H2C
      else Auto)"

text \<open>
  The interim writer. ReverseProxy hands it each 1xx response but 101 that comes before the answer:
  its headers are copied to those of the writer, which the interim writer strips as it writes the
  status, and which are cleared once they are out. Keys are those net/http read, so canonical.
\<close>

definition interim_header :: "nat \<Rightarrow> header \<Rightarrow> header" where
  "interim_header sc h = (if sc < status_ok then strip_traversal_headers h else h)"

definition copy_header :: "header \<Rightarrow> header \<Rightarrow> header" where
  "copy_header dst src =
     (\<lambda>k. case src k of
        None \<Rightarrow> dst k
      | Some vs \<Rightarrow> if vs = [] then dst k else Some ((case dst k of None \<Rightarrow> [] | Some ws \<Rightarrow> ws) @ vs))"

definition is_interim :: "nat \<Rightarrow> bool" where
  "is_interim sc = (100 \<le> sc \<and> sc \<le> 199 \<and> sc \<noteq> 101)"

fun relay_interims :: "header \<Rightarrow> (nat \<times> header) list \<Rightarrow> (nat \<times> header) list \<times> header" where
  "relay_interims h [] = ([], h)"
| "relay_interims h ((sc, ih) # rest) =
     (if is_interim sc then
        let (out, h') = relay_interims Map.empty rest in ((sc, interim_header sc (copy_header h ih)) # out, h')
      else relay_interims h rest)"

text \<open>
  What httputil.ReverseProxy does besides. It removes the hop-by-hop headers of a response before
  ModifyResponse sees it, those its Connection header names first, unless it is a 101; a request
  whose Upgrade is not printable goes to the error handler unsent; and after ModifyResponse a 101
  becomes a splice only if it answers the protocol asked for, its body can be written to and the
  caller's connection can be taken over, with the response's head written to it. Otherwise the
  error handler gets it; if the connection was taken by then, the caller hears nothing.
\<close>

definition text_trim :: "string \<Rightarrow> string" where
  "text_trim s = (let sp = (\<lambda>c. c \<in> set [CHR '' '', CHR 0x09, CHR 0x0A, CHR 0x0D]) in
     rev (dropWhile sp (rev (dropWhile sp s))))"

definition connection_options :: "header \<Rightarrow> string list" where
  "connection_options h =
     filter (\<lambda>k. k \<noteq> []) (map text_trim (concat (map (split_on (CHR '','')) (hvalues h ''Connection''))))"

definition hop_headers :: "string list" where
  "hop_headers = [''Connection'', ''Proxy-Connection'', ''Keep-Alive'', ''Proxy-Authenticate'', ''Proxy-Authorization'',
     ''Te'', ''Trailer'', ''Transfer-Encoding'', ''Upgrade'']"

definition remove_hop_by_hop :: "header \<Rightarrow> header" where
  "remove_hop_by_hop h = fold hdel hop_headers (fold hdel (connection_options h) h)"

definition sans_hops :: "up_response \<Rightarrow> up_response" where
  "sans_hops r = (if ur_status r = 101 then r else r\<lparr>ur_header := remove_hop_by_hop (ur_header r)\<rparr>)"

definition trim_ows :: "string \<Rightarrow> string" where
  "trim_ows s = (let sp = (\<lambda>c. c = CHR '' '' \<or> c = CHR 0x09) in rev (dropWhile sp (rev (dropWhile sp s))))"

definition contains_token :: "string list \<Rightarrow> string \<Rightarrow> bool" where
  "contains_token vals token =
     list_ex (\<lambda>t. ascii_lower (trim_ows t) = ascii_lower token) (concat (map (split_on (CHR '','')) vals))"

definition upgrade_type :: "header \<Rightarrow> string" where
  "upgrade_type h = (if contains_token (hvalues h ''Connection'') ''Upgrade'' then hget h ''Upgrade'' else [])"

definition is_print :: "string \<Rightarrow> bool" where
  "is_print s = list_all (\<lambda>c. 32 \<le> (of_char c :: nat) \<and> (of_char c :: nat) \<le> 126) s"

text \<open>Taking over the caller's connection: done, not supported by the writer, failed, or done and its head not written.\<close>

datatype takeover = Hijacked | NoHijacker string | HijackFailed string | HeadUnwritten string

text \<open>
  What happens around a request beside its round trip: whether the caller is gone by the time it
  fails, the interim responses, how a takeover ends, and strconv.Quote.
\<close>

record exchange =
  xc_gone :: bool
  xc_interims :: "(nat \<times> header) list"
  xc_takeover :: takeover
  xc_quote :: "string \<Rightarrow> string"

text \<open>handleUpgradeResponse: why there is no splice, and whether the caller's connection was taken by then.\<close>

definition switch_error :: "exchange \<Rightarrow> header \<Rightarrow> up_response \<Rightarrow> (bool \<times> pipe_error) option" where
  "switch_error x reqh r =
     (let want = upgrade_type reqh; got = upgrade_type (ur_header r);
          err = (\<lambda>taken e. Some (taken, OtherError e)) in
      if \<not> is_print got then err False (''backend tried to switch to invalid protocol '' @ xc_quote x got)
      else if ascii_lower want \<noteq> ascii_lower got then
        err False (''backend tried to switch protocol '' @ xc_quote x got @ '' when '' @ xc_quote x want @ '' was requested'')
      else if \<not> ur_duplex r then err False ''internal error: 101 switching protocols response with non-writable body''
      else (case xc_takeover x of
          Hijacked \<Rightarrow> None
        | NoHijacker t \<Rightarrow> err False (''can't switch protocols using non-Hijacker ResponseWriter type '' @ t)
        | HijackFailed e \<Rightarrow> err False (''Hijack failed on protocol switch: '' @ e)
        | HeadUnwritten e \<Rightarrow> err True e))"

text \<open>What becomes of the response ModifyResponse let through: an error of the switch, if it is a 101.\<close>

definition after_modify :: "exchange \<Rightarrow> header \<Rightarrow> up_response \<Rightarrow> (bool \<times> pipe_error) option" where
  "after_modify x reqh r = (if ur_status r = 101 then switch_error x reqh r else None)"

text \<open>The interim responses are a request's own, so there are none unless it was sent.\<close>

definition interims_passed :: "exchange \<Rightarrow> header \<Rightarrow> sent_request option \<Rightarrow> (nat \<times> header) list" where
  "interims_passed x h sent = (case sent of None \<Rightarrow> [] | Some s \<Rightarrow> fst (relay_interims h (xc_interims x)))"

definition invalid_upgrade :: "exchange \<Rightarrow> header \<Rightarrow> pipe_error option" where
  "invalid_upgrade x reqh =
     (if is_print (upgrade_type reqh) then None
      else Some (OtherError (''client tried to switch to invalid protocol '' @ xc_quote x (upgrade_type reqh))))"

definition forward ::
    "client_limits \<Rightarrow> 'r redaction \<Rightarrow> (up_error \<Rightarrow> string) \<Rightarrow> slot_wait \<Rightarrow> exchange \<Rightarrow>
     (sent_request \<Rightarrow> pipe_error + up_response) \<Rightarrow> header \<Rightarrow> request \<Rightarrow> i64 option \<Rightarrow> url \<Rightarrow>
     sent_request option \<times> slot_op list \<times> answer" where
  "forward lim rx describe w x roundtrip h r body target =
     (let host = url_hostname target; covered = covers rx host in
      if (case body of None \<Rightarrow> False | Some len \<Rightarrow> 0 <s cl_max_request lim \<and> cl_max_request lim <s len) then
        (None, [], Refusal (http_error h
          (''request body exceeds '' @ format_uint (unat (cl_max_request lim)) @ '' bytes'') 413))
      else if covered \<and> unredactable_request (rx_lower rx) (req_header r) \<noteq> [] then
        (None, [], fail_answer describe (xc_gone x) h (refused_as Unredactable))
      else (case invalid_upgrade x (req_header r) of
          Some e \<Rightarrow> (None, [], fail_answer describe (xc_gone x) h (Failed e))
        | None \<Rightarrow>
            let sent = \<lparr>sr_transport = pick_transport (rx_lower rx) (req_header r) target,
                        sr_scheme = url_scheme target, sr_target = url_host target, sr_host = req_host r\<rparr>;
                fail = (\<lambda>gone. fail_answer describe gone (snd (relay_interims h (xc_interims x)))) in
            (case roundtrip sent of
               Inl e \<Rightarrow> (Some sent, [], fail (xc_gone x) (Failed e))
             | Inr resp \<Rightarrow>
                 (case respond lim rx w host covered (sans_hops resp) of
                    (ops, Inl e) \<Rightarrow> (Some sent, ops, fail (xc_gone x) e)
                  | (ops, Inr resp') \<Rightarrow>
                      (case after_modify x (req_header r) resp' of
                         Some (taken, e) \<Rightarrow> (Some sent, ops, fail (xc_gone x \<or> taken) (Failed e))
                       | None \<Rightarrow> (Some sent, ops, Relayed resp'))))))"

section \<open>Laws\<close>

lemma client_read_Ok:
  "client_read lim src = Ok body \<Longrightarrow> src = Ends body \<and> (0 < sint (cl_max_body lim) \<longrightarrow> int (length body) \<le> sint (cl_max_body lim))"
  by (cases src) (auto simp: client_read_def split: if_splits)

lemma decode_gzip_Ok:
  "decode_gzip rx src limit = Ok plain \<Longrightarrow> rx_gunzip rx src = Ok (Ends plain) \<and> (0 < limit \<longrightarrow> int (length plain) \<le> limit)"
  by (cases "rx_gunzip rx src"; cases "projr (rx_gunzip rx src)")
    (auto simp: decode_gzip_def split: if_splits)

text \<open>What a covered response carries for the body that was read.\<close>

definition redacts_to :: "client_limits \<Rightarrow> 'r redaction \<Rightarrow> string \<Rightarrow> string \<Rightarrow> coding \<Rightarrow> string \<Rightarrow> string \<Rightarrow> bool \<Rightarrow> bool" where
  "redacts_to lim rx host content_type cod body out changed =
     (if body = [] then out = [] \<and> \<not> changed
      else can_decode cod \<and>
       (\<exists>plain. (if cod = CodingGzip then rx_gunzip rx body = Ok (Ends plain) else plain = body) \<and>
         (if plain = [] then out = body \<and> \<not> changed
          else \<exists>red. client_redact rx host content_type plain = Ok (red, changed) \<and>
            (if cod = CodingGzip then rx_gzip rx red = Ok out else out = red))))"

lemma client_buffer_Ok:
  assumes "client_buffer lim rx host cod r = Ok r'"
  obtains body out changed h rep where "source_of (ur_body r) = Ends body"
    "redacts_to lim rx host (hget (ur_header r) ''Content-Type'') cod body out changed"
    "r' = replace_body out changed rep (r\<lparr>ur_header := h\<rparr>)"
    "h = ur_header r \<or> h = hset ''Content-Encoding'' ''gzip'' (ur_header r)"
    "0 < sint (cl_max_body lim) \<longrightarrow> int (length body) \<le> sint (cl_max_body lim)"
    "out \<noteq> body \<longrightarrow> rep"
proof -
  obtain body where b: "client_read lim (source_of (ur_body r)) = Ok body"
    using assms by (cases "client_read lim (source_of (ur_body r))") (auto simp: client_buffer_def)
  note rd = client_read_Ok [OF b]
  have self: "r = r\<lparr>ur_header := ur_header r\<rparr>" by simp
  show ?thesis
  proof (cases "body = []")
    case True
    then show ?thesis
      using that [where body = body and out = "[]" and changed = False and h = "ur_header r" and rep = False] assms b rd by (simp add: client_buffer_def redacts_to_def)
  next
    case ne: False
    then have dec: "can_decode cod" using assms b by (simp add: client_buffer_def split: if_splits)
    obtain plain where p: "(if cod = CodingGzip then decode_gzip rx body (sint (cl_max_decoded lim)) else Ok body) = Ok plain"
      using assms b ne dec by (auto simp: client_buffer_def split: sum.splits if_splits)
    then have plain: "if cod = CodingGzip then rx_gunzip rx body = Ok (Ends plain) else plain = body"
      by (auto dest: decode_gzip_Ok split: if_splits)
    show ?thesis
    proof (cases "plain = []")
      case True
      then show ?thesis
        using that [where body = body and out = body and changed = False and h = "ur_header r" and rep = False] assms b rd ne dec p plain
        by (auto simp: client_buffer_def redacts_to_def)
    next
      case pne: False
      obtain red changed where red: "client_redact rx host (hget (ur_header r) ''Content-Type'') plain = Ok (red, changed)"
        using assms b ne dec p pne by (auto simp: client_buffer_def split: sum.splits prod.splits)
      show ?thesis
      proof (cases "cod = CodingGzip")
        case True
        then obtain out where "rx_gzip rx red = Ok out"
          "r' = replace_body out changed True (r\<lparr>ur_header := hset ''Content-Encoding'' ''gzip'' (ur_header r)\<rparr>)"
          using assms b ne dec p pne red by (auto simp: client_buffer_def split: sum.splits)
        then show ?thesis
          using that [where body = body and out = out and changed = changed and rep = True and
            h = "hset ''Content-Encoding'' ''gzip'' (ur_header r)"] rd ne dec plain pne red True
          by (auto simp: redacts_to_def)
      next
        case False
        then have "r' = replace_body red changed (red \<noteq> body) r"
          using assms b ne dec p pne red by (auto simp: client_buffer_def)
        then show ?thesis
          using that [where body = body and out = red and changed = changed and h = "ur_header r" and rep = "red \<noteq> body"] rd ne dec plain pne red False
          by (auto simp: redacts_to_def)
      qed
    qed
  qed
qed

text \<open>Headers of the namespace: none after stripping, and setting or deleting others adds none.\<close>

definition no_traversal :: "header \<Rightarrow> bool" where
  "no_traversal h = (\<forall>name. traversal_name name \<longrightarrow> h name = None)"

lemma header_names:
  "canonical_key header_redacted = ''X-Traversal-Redacted''" "canonical_key ''Content-Length'' = ''Content-Length''"
  "canonical_key ''Content-Encoding'' = ''Content-Encoding''" "\<not> traversal_name ''Content-Length''"
  "\<not> traversal_name ''Content-Encoding''"
  by code_simp+

lemma no_traversal_intros:
  "no_traversal (strip_traversal_headers h)"
  "no_traversal h \<Longrightarrow> no_traversal (hdel k h)"
  "no_traversal h \<Longrightarrow> no_traversal (fold hdel ks h)"
  "no_traversal h \<Longrightarrow> no_traversal (hset ''Content-Length'' v h)"
  "no_traversal h \<Longrightarrow> no_traversal (hset ''Content-Encoding'' v h)"
proof -
  show del: "no_traversal h \<Longrightarrow> no_traversal (hdel k h)" for k h by (simp add: no_traversal_def hdel_def)
  show "no_traversal h \<Longrightarrow> no_traversal (fold hdel ks h)" by (induction ks arbitrary: h) (auto intro: del)
qed (auto simp: no_traversal_def strip_traversal_headers_def hset_def header_names)

text \<open>With the marker set first, the later header changes leave it the only one.\<close>

definition only_marker :: "header \<Rightarrow> bool" where
  "only_marker h = (\<forall>name v. traversal_name name \<longrightarrow> h name = Some v \<longrightarrow> name = ''X-Traversal-Redacted'' \<and> v = [''true''])"

lemma only_marker_intros:
  "no_traversal h \<Longrightarrow> only_marker (hset header_redacted ''true'' h)"
  "only_marker h \<Longrightarrow> only_marker (fold hdel ks h)"
  "only_marker h \<Longrightarrow> only_marker (hset ''Content-Length'' v h)"
  "no_traversal h \<Longrightarrow> only_marker h"
proof -
  have del: "only_marker h \<Longrightarrow> only_marker (hdel k h)" for k h by (auto simp: only_marker_def hdel_def)
  show "only_marker h \<Longrightarrow> only_marker (fold hdel ks h)" by (induction ks arbitrary: h) (auto intro: del)
qed (auto simp: only_marker_def no_traversal_def hset_def header_names split: if_splits)

lemma replace_body_markers:
  assumes "no_traversal (ur_header r)"
  shows "only_marker (ur_header (replace_body body redacted changed r))"
proof (cases redacted)
  case True
  have "only_marker (hset header_redacted ''true'' (hdel ''Trailer'' (ur_header r)))"
    using assms by (intro only_marker_intros(1) no_traversal_intros(2))
  then show ?thesis using True by (auto simp: replace_body_def Let_def intro: only_marker_intros(2,3))
next
  case False
  then have "no_traversal (ur_header (replace_body body redacted changed r))"
    using assms by (auto simp: replace_body_def Let_def intro!: no_traversal_intros)
  then show ?thesis by (rule only_marker_intros(4))
qed

text \<open>Every answer that is relayed went through respond.\<close>

lemma forward_Relayed:
  assumes "forward lim rx describe w x roundtrip h r body target = (sent, ops, Relayed r')"
  obtains s resp where "sent = Some s" "roundtrip s = Ok resp" "sr_target s = url_host target" "sr_host s = req_host r"
    "respond lim rx w (url_hostname target) (covers rx (url_hostname target)) (sans_hops resp) = (ops, Ok r')"
    "covers rx (url_hostname target) \<Longrightarrow> unredactable_request (rx_lower rx) (req_header r) = []"
    "after_modify x (req_header r) r' = None"
proof -
  let ?s = "\<lparr>sr_transport = pick_transport (rx_lower rx) (req_header r) target,
                    sr_scheme = url_scheme target, sr_target = url_host target, sr_host = req_host r\<rparr>"
  have f: "fail_answer describe gone h e \<noteq> Relayed r'" for gone h e by (simp add: fail_answer_def)
  have ok: "covers rx (url_hostname target) \<Longrightarrow> unredactable_request (rx_lower rx) (req_header r) = []"
    and u: "invalid_upgrade x (req_header r) = None"
    using assms f by (auto simp: forward_def Let_def split: if_splits option.splits)
  obtain resp where r: "roundtrip ?s = Ok resp" "sent = Some ?s"
    using assms f u by (cases "roundtrip ?s") (auto simp: forward_def Let_def split: if_splits option.splits prod.splits sum.splits)
  obtain o2 e where e: "respond lim rx w (url_hostname target) (covers rx (url_hostname target)) (sans_hops resp) = (o2, e)" by force
  have "e = Ok r' \<and> o2 = ops \<and> after_modify x (req_header r) r' = None"
    using assms f r e u by (cases e) (auto simp: forward_def Let_def split: if_splits option.splits)
  then show ?thesis using that [OF r(2,1)] ok e by simp
qed

lemma respond_uncovered:
  "respond lim rx w host False resp = (ops, Ok r') \<Longrightarrow> ops = [] \<and> ur_header r' = strip_traversal_headers (ur_header resp) \<and>
     ur_status r' = ur_status resp \<and> source_of (ur_body r') = source_of (ur_body resp) \<and> ur_trailer r' = ur_trailer resp"
  by (auto simp: respond_def cap_stream_def Let_def)

lemma respond_covered:
  assumes "respond lim rx w host True resp = (ops, Ok r')"
  obtains h0 where "ops = [TakeSlot]" "ur_status resp \<notin> {101, 206}" "ur_status r' = ur_status resp" "ur_trailer r' = None"
    "h0 = hdel ''Accept-Ranges'' (strip_traversal_headers (ur_header resp))"
    "hget h0 ''Content-Type'' = hget (ur_header resp) ''Content-Type''"
    "redactable (media_type_of (rx_lower rx) (hget h0 ''Content-Type''))"
    "media_type_of (rx_lower rx) (hget h0 ''Content-Type'') \<noteq> ''text/event-stream''"
    "client_buffer lim rx host (classify_content_coding (rx_lower rx) (hvalues (ur_header resp) ''Content-Encoding''))
       (resp\<lparr>ur_header := h0\<rparr>) = Ok r'"
proof -
  define h0 where "h0 = hdel ''Accept-Ranges'' (strip_traversal_headers (ur_header resp))"
  have n: "canonical_key ''Content-Type'' = ''Content-Type''" "canonical_key ''Accept-Ranges'' = ''Accept-Ranges''"
    "\<not> traversal_name ''Content-Type''"
    by code_simp+
  have ct: "hget h0 ''Content-Type'' = hget (ur_header resp) ''Content-Type''"
    and ce: "hvalues (strip_traversal_headers (ur_header resp)) ''Content-Encoding'' = hvalues (ur_header resp) ''Content-Encoding''"
    by (simp_all add: h0_def hget_def hvalues_def hdel_def strip_traversal_headers_def n header_names)
  from assms have b: "ops = [TakeSlot]" "ur_status resp \<notin> {101, 206}"
    "redactable (media_type_of (rx_lower rx) (hget h0 ''Content-Type''))"
    "media_type_of (rx_lower rx) (hget h0 ''Content-Type'') \<noteq> ''text/event-stream''"
    "client_buffer lim rx host (classify_content_coding (rx_lower rx) (hvalues (ur_header resp) ''Content-Encoding''))
       (resp\<lparr>ur_header := h0\<rparr>) = Ok r'"
    unfolding ce [symmetric] h0_def
    by (auto simp: respond_def acquire_def Let_def split: if_splits sum.splits slot_wait.splits)
  from b(5) have "ur_status r' = ur_status resp \<and> ur_trailer r' = None"
    by (rule client_buffer_Ok) (simp add: replace_body_def Let_def)
  then show ?thesis using that [OF b(1,2)] h0_def ct b(3-5) by blast
qed

text \<open>Closing a held body any number of times.\<close>

fun closes :: "nat \<Rightarrow> bool \<Rightarrow> slot_op list" where
  "closes 0 released = []"
| "closes (Suc n) released = (let (released', ops) = close_held released in ops @ closes n released')"

lemma closes_released [simp]: "closes n True = []"
  by (induction n) (simp_all add: close_held_def)

lemma closes_once: "0 < n \<Longrightarrow> closes n False = [GiveSlot]"
  by (cases n) (simp_all add: close_held_def)

lemma respond_slots:
  "respond lim rx w host covered resp = (ops, res) \<Longrightarrow>
     count_list ops TakeSlot = count_list ops GiveSlot + (if covered \<and> (\<exists>r. res = Ok r) then 1 else 0)"
  by (cases res) (auto simp: respond_def acquire_def Let_def split: if_splits sum.splits slot_wait.splits)

lemma interims_stripped: "(sc, ih) \<in> set (fst (relay_interims h ims)) \<Longrightarrow> no_traversal ih"
  by (induction h ims rule: relay_interims.induct)
    (auto simp: is_interim_def interim_header_def status_ok_def no_traversal_intros(1) split: prod.splits if_splits)

lemma respond_markers:
  assumes "respond lim rx w host covered resp = (ops, Ok r')"
  shows "only_marker (ur_header r') \<and> (\<not> covered \<longrightarrow> no_traversal (ur_header r')) \<and> (covered \<longrightarrow> ur_trailer r' = None)"
proof (cases covered)
  case False
  then have "no_traversal (ur_header r')" using respond_uncovered assms no_traversal_intros(1) by metis
  then show ?thesis using False only_marker_intros(4) by simp
next
  case True
  obtain h0 cod where b: "h0 = hdel ''Accept-Ranges'' (strip_traversal_headers (ur_header resp))"
    "client_buffer lim rx host cod (resp\<lparr>ur_header := h0\<rparr>) = Ok r'" "ur_trailer r' = None"
    using respond_covered assms True by (metis (full_types))
  obtain out changed rep h1 where e: "r' = replace_body out changed rep (resp\<lparr>ur_header := h0, ur_header := h1\<rparr>)"
    "h1 = h0 \<or> h1 = hset ''Content-Encoding'' ''gzip'' h0"
    using b(2) by (rule client_buffer_Ok) simp
  then have "no_traversal h1" using b(1) by (auto intro!: no_traversal_intros)
  then have "only_marker (ur_header r')" unfolding e(1) by (intro replace_body_markers) simp
  then show ?thesis using True b(3) by simp
qed

text \<open>A covered answer that respond lets through is relayed: it is no 101, so no switch can fail.\<close>

lemma forward_slots:
  assumes "forward lim rx describe w x roundtrip h r body target = (sent, ops, ans)"
  obtains (nothing) "ops = []" "\<not> (covers rx (url_hostname target) \<and> (\<exists>r'. ans = Relayed r'))"
  | (responded) resp res where "respond lim rx w (url_hostname target) (covers rx (url_hostname target)) resp = (ops, res)"
      "covers rx (url_hostname target) \<Longrightarrow> (\<exists>r'. ans = Relayed r') \<longleftrightarrow> (\<exists>r'. res = Ok r')"
proof -
  let ?c = "covers rx (url_hostname target)"
  let ?s = "\<lparr>sr_transport = pick_transport (rx_lower rx) (req_header r) target,
                    sr_scheme = url_scheme target, sr_target = url_host target, sr_host = req_host r\<rparr>"
  have f: "fail_answer describe gone h e \<noteq> Relayed r'" for gone h e r' by (simp add: fail_answer_def)
  show ?thesis
  proof (cases "sent = None \<or> (\<exists>e. roundtrip ?s = Inl e)")
    case True
    then have "ops = [] \<and> (\<forall>r'. ans \<noteq> Relayed r')"
      using assms f by (auto simp: forward_def Let_def split: if_splits sum.splits prod.splits option.splits)
    then have "ops = []" "\<not> (?c \<and> (\<exists>r'. ans = Relayed r'))" by simp_all
    then show ?thesis by (rule nothing)
  next
    case False
    then obtain resp where resp: "roundtrip ?s = Ok resp" by (cases "roundtrip ?s") auto
    obtain o2 res where d: "respond lim rx w (url_hostname target) ?c (sans_hops resp) = (o2, res)" by force
    have "invalid_upgrade x (req_header r) = None"
      using False assms by (auto simp: forward_def Let_def split: if_splits option.splits)
    then have b: "o2 = ops" "ans = (case res of
         Inl e \<Rightarrow> fail_answer describe (xc_gone x) (snd (relay_interims h (xc_interims x))) e
       | Inr r' \<Rightarrow> (case after_modify x (req_header r) r' of
           Some (taken, e) \<Rightarrow> fail_answer describe (xc_gone x \<or> taken) (snd (relay_interims h (xc_interims x))) (Failed e)
         | None \<Rightarrow> Relayed r'))"
      using False assms resp d by (auto simp: forward_def Let_def split: if_splits option.splits sum.splits)
    have "(\<exists>r'. ans = Relayed r') \<longleftrightarrow> (\<exists>r'. res = Ok r')" if ?c
    proof (cases res)
      case (Inr r')
      then have "respond lim rx w (url_hostname target) True (sans_hops resp) = (o2, Ok r')" using d that by simp
      then have "ur_status r' \<noteq> 101" by (rule respond_covered) auto
      then show ?thesis using b(2) Inr by (simp add: after_modify_def)
    qed (simp add: b(2) f)
    then show ?thesis by (rule responded [OF d [unfolded b(1)]])
  qed
qed

section \<open>Properties\<close>

text \<open>
  A covered host and its answers for the witnesses: one structured rule on the host api, and a
  decoder that knows one document.
\<close>

definition example_redaction :: "string redaction" where
  "example_redaction = \<lparr>rx_engine = literal_engine, rx_rules = [example_compiled],
     rx_answer_rules = [example_compiled], rx_text_rules = [example_compiled], rx_idna = (\<lambda>h. None), rx_lower = id,
     rx_order = id, rx_decode = (\<lambda>src. Decoded example_document), rx_next = (\<lambda>src. AtEOF),
     rx_encode = (\<lambda>j. Ok ''redacted''), rx_gunzip = (\<lambda>s. Err ''corrupt''), rx_gzip = Ok\<rparr>"

definition example_limits :: client_limits where
  "example_limits = new_client \<lparr>cfg_request_timeout = 0, cfg_max_request_mb = 1, cfg_max_response_mb = 0,
     cfg_max_decoded_mb = 0, cfg_stream_max_lifetime = 0, cfg_max_redactions = 0\<rparr>"

definition example_target :: url where
  "example_target = \<lparr>url_scheme = ''https'', url_user = False, url_host = ''api'', url_path = [], url_raw_query = [],
     url_fragment = []\<rparr>"

definition example_request :: request where
  "example_request = \<lparr>req_method = ''GET'', req_proto_major = 1, req_host = ''api'', req_url = example_target,
     req_header = Map.empty\<rparr>"

definition example_upstream :: "sent_request \<Rightarrow> pipe_error + up_response" where
  "example_upstream = (\<lambda>s. Ok \<lparr>ur_status = 200,
     ur_header = [''Content-Type'' \<mapsto> [''application/json''], ''x-traversal-reason'' \<mapsto> [''no_raw_tunnel'']],
     ur_trailer = Some Map.empty, ur_body = Stream (Ends ''raw''), ur_duplex = False, ur_length = 3\<rparr>)"

definition example_exchange :: exchange where
  "example_exchange = \<lparr>xc_gone = False, xc_interims = [(103, [''X-Traversal-Redacted'' \<mapsto> [''true''], ''Link'' \<mapsto> [''l'']])],
     xc_takeover = Hijacked, xc_quote = id\<rparr>"

definition example_relayed :: up_response where
  "example_relayed = \<lparr>ur_status = 200,
     ur_header = [''Content-Type'' \<mapsto> [''application/json''], ''X-Traversal-Redacted'' \<mapsto> [''true''], ''Content-Length'' \<mapsto> [''8'']],
     ur_trailer = None, ur_body = Held ''redacted'', ur_duplex = False, ur_length = 8\<rparr>"

lemma example_limits_eq: "sint (cl_max_body example_limits) = 33554432" "cl_max_request example_limits = 1048576"
  by (simp_all add: example_limits_def new_client_def finite_limit_def bytes_per_mb_def default_body_size_mb_def)

lemma example_covers: "covers example_redaction (url_hostname example_target)"
proof -
  have "url_hostname example_target = ''api''" "canonical_host (\<lambda>h. None) id ''api'' = ''api''" by code_simp+
  then show ?thesis
    by (simp add: covers_def example_redaction_def has_rules_for_host_def applies_to_host_def example_compiled_def literal_engine_def)
qed


lemma example_host: "canonical_host (\<lambda>h. None) id ''api'' = ''api''" "url_hostname example_target = ''api''"
  by code_simp+

lemma example_media: "media_type_of id ''application/json'' = ''application/json''"
  "parse_media_type id ''application/json; a=1; a=2'' = NoMediaType"
  by code_simp+

lemma example_client_redact:
  "client_redact example_redaction ''api'' ''application/json'' ''raw'' = Ok (''redacted'', True)"
proof -
  have a: "applies_to_host literal_engine example_compiled ''api''" "cr_structured example_compiled"
    by (simp_all add: applies_to_host_def example_compiled_def literal_engine_def)
  have d: "go_any example_document = example_document"
    by (simp add: example_document_def collect_map_def)
  have "redact_json example_redaction ''api'' ''raw'' = Ok (''redacted'', True)"
    by (simp add: redact_json_def example_redaction_def apply_json_def example_host a d example_redacted
        trim_right_set_def)
  moreover have "redact_text example_redaction ''api'' ''redacted'' = (''redacted'', False)"
    by (simp add: redact_text_def example_redaction_def redact_apply_def a)
  ultimately show ?thesis
    by (simp add: client_redact_def example_media is_json_def example_redaction_def)
qed

lemma example_header_names: "canonical_key ''Content-Type'' = ''Content-Type''" "canonical_key ''Accept-Ranges'' = ''Accept-Ranges''"
  "canonical_key ''Trailer'' = ''Trailer''" "traversal_name ''x-traversal-reason''" "\<not> traversal_name ''Content-Type''"
  "format_uint 8 = ''8''" "classify_content_coding id [] = CodingIdentity"
  "map canonical_key content_dependent_headers =
     [''Etag'', ''Last-Modified'', ''Content-Md5'', ''Digest'', ''Content-Digest'', ''Repr-Digest'']"
  by code_simp+

lemma example_stripped:
  "strip_traversal_headers [''Content-Type'' \<mapsto> [''application/json''], ''x-traversal-reason'' \<mapsto> [''no_raw_tunnel'']] =
     [''Content-Type'' \<mapsto> [''application/json'']]"
  by (rule ext) (simp add: strip_traversal_headers_def example_header_names)

lemma fold_hdel: "fold hdel ks h = (\<lambda>k. if k \<in> set (map canonical_key ks) then None else h k)"
  by (induction ks arbitrary: h) (auto simp: hdel_def)

lemma example_hop_headers: "map canonical_key hop_headers = hop_headers" by code_simp

lemma example_sans_hops:
  "remove_hop_by_hop [''Content-Type'' \<mapsto> a, ''x-traversal-reason'' \<mapsto> b] = [''Content-Type'' \<mapsto> a, ''x-traversal-reason'' \<mapsto> b]"
proof -
  have "canonical_key ''Connection'' = ''Connection''" by code_simp
  then have "connection_options [''Content-Type'' \<mapsto> a, ''x-traversal-reason'' \<mapsto> b] = []"
    by (simp add: connection_options_def hvalues_def)
  then show ?thesis
    unfolding remove_hop_by_hop_def fold_hdel example_hop_headers by (intro ext) (auto simp: hop_headers_def)
qed

lemma example_upgrade: "upgrade_type Map.empty = []"
proof -
  have "contains_token [] ''Upgrade'' = False" by (simp add: contains_token_def)
  then show ?thesis by (simp add: upgrade_type_def hvalues_def)
qed

lemma example_forward:
  "forward example_limits example_redaction (\<lambda>e. []) SlotFree example_exchange example_upstream Map.empty example_request None
     example_target =
   (Some \<lparr>sr_transport = Auto, sr_scheme = ''https'', sr_target = ''api'', sr_host = ''api''\<rparr>, [TakeSlot],
    Relayed example_relayed)"
proof -
  let ?h = "[''Content-Type'' \<mapsto> [''application/json'']]"
  have h: "hdel ''Accept-Ranges'' ?h = ?h" "hdel ''Trailer'' ?h = ?h" "hget ?h ''Content-Type'' = ''application/json''"
    "hvalues ?h ''Content-Encoding'' = []"
    by (auto simp: hdel_def hget_def hvalues_def example_header_names header_names)
  have m: "redactable ''application/json''" "\<not> is_grpc id ''application/json''"
    by (simp_all add: redactable_def is_json_def is_grpc_def example_media has_prefix_def)
  have hs: "hset ''Content-Length'' ''8'' (fold hdel content_dependent_headers (hset header_redacted ''true'' ?h)) =
      ur_header example_relayed"
    by (rule ext) (simp add: fold_hdel hset_def header_names example_header_names example_relayed_def)
  have r: "replace_body ''redacted'' True True
      \<lparr>ur_status = 200, ur_header = ?h, ur_trailer = Some Map.empty, ur_body = Stream (Ends ''raw''),
       ur_duplex = False, ur_length = 3\<rparr> = example_relayed"
  proof -
    have f: "format_uint (length ''redacted'') = ''8''" by code_simp
    then show ?thesis
      using hs unfolding replace_body_def Let_def by (simp add: h f [simplified] example_relayed_def)
  qed
  have b: "client_buffer example_limits example_redaction ''api'' CodingIdentity
      \<lparr>ur_status = 200, ur_header = ?h, ur_trailer = Some Map.empty, ur_body = Stream (Ends ''raw''),
       ur_duplex = False, ur_length = 3\<rparr> = Ok example_relayed"
    using r by (simp add: client_buffer_def client_read_def example_limits_eq can_decode_def h example_client_redact)
  have "respond example_limits example_redaction SlotFree ''api'' True
      \<lparr>ur_status = 200, ur_header = [''Content-Type'' \<mapsto> [''application/json''], ''x-traversal-reason'' \<mapsto> [''no_raw_tunnel'']],
       ur_trailer = Some Map.empty, ur_body = Stream (Ends ''raw''), ur_duplex = False, ur_length = 3\<rparr> =
      ([TakeSlot], Ok example_relayed)"
    using b by (simp add: respond_def Let_def example_stripped h m example_media acquire_def example_redaction_def example_header_names)
  moreover have "unredactable_request id Map.empty = []" "pick_transport id Map.empty example_target = Auto"
    by code_simp+
  moreover have "url_scheme example_target = ''https''" "url_host example_target = ''api''"
    "rx_lower example_redaction = id" "req_header example_request = Map.empty" "req_host example_request = ''api''"
    by (simp_all add: example_target_def example_redaction_def example_request_def)
  ultimately show ?thesis
    using example_covers
    by (simp add: forward_def Let_def example_host example_upstream_def sans_hops_def example_sans_hops invalid_upgrade_def
        example_upgrade is_print_def after_modify_def example_relayed_def)
qed

text \<open>
  C24. Only the connector speaks as the connector. Of whatever X-Traversal- headers a destination
  sends, in any case, none reaches the caller, in no interim response and not in the answer; the one
  such header of a relayed answer is X-Traversal-Redacted: true, and only on a host some rule covers,
  whose answer has no trailers. The trailers of a host no rule covers are relayed as they came.
\<close>

theorem traversal_headers_ours:
  assumes "forward lim rx describe w x roundtrip h r body target = (sent, ops, ans)" and "traversal_name name"
  shows "(\<forall>(sc, ih) \<in> set (interims_passed x h sent). ih name = None) \<and>
    (\<forall>r' v. ans = Relayed r' \<and> ur_header r' name = Some v \<longrightarrow>
       covers rx (url_hostname target) \<and> name = ''X-Traversal-Redacted'' \<and> v = [''true'']) \<and>
    (\<forall>r'. ans = Relayed r' \<and> covers rx (url_hostname target) \<longrightarrow> ur_trailer r' = None)"
proof -
  have "\<forall>(sc, ih) \<in> set (fst (relay_interims h (xc_interims x))). ih name = None"
    using interims_stripped assms(2) by (fastforce simp: no_traversal_def)
  then have "\<forall>(sc, ih) \<in> set (interims_passed x h sent). ih name = None"
    by (simp add: interims_passed_def split: option.splits)
  moreover have "only_marker (ur_header r') \<and> (\<not> covers rx (url_hostname target) \<longrightarrow> no_traversal (ur_header r')) \<and>
      (covers rx (url_hostname target) \<longrightarrow> ur_trailer r' = None)" if "ans = Relayed r'" for r'
    using forward_Relayed [OF assms(1) [unfolded that]] respond_markers by metis
  ultimately show ?thesis using assms(2) by (auto simp: no_traversal_def only_marker_def)
qed

lemma traversal_headers_ours_witness:
  "ur_header example_relayed ''X-Traversal-Redacted'' = Some [''true''] \<and>
   covers example_redaction (url_hostname example_target) \<and>
   (\<exists>ih. interims_passed example_exchange Map.empty (fst (forward example_limits example_redaction (\<lambda>e. []) SlotFree
      example_exchange example_upstream Map.empty example_request None example_target)) = [(103, ih)] \<and>
      ih ''X-Traversal-Redacted'' = None \<and> ih ''Link'' = Some [''l''])"
proof -
  have n: "traversal_name ''X-Traversal-Redacted''" "\<not> traversal_name ''Link''" by code_simp+
  have "ur_header example_relayed ''X-Traversal-Redacted'' = Some [''true'']"
    by (simp add: example_relayed_def)
  then have a: "ur_header example_relayed ''X-Traversal-Redacted'' = Some [''true'']"
    "covers example_redaction (url_hostname example_target)"
    "\<forall>(sc, ih) \<in> set (interims_passed example_exchange Map.empty (Some \<lparr>sr_transport = Auto, sr_scheme = ''https'',
       sr_target = ''api'', sr_host = ''api''\<rparr>)). ih ''X-Traversal-Redacted'' = None"
    using traversal_headers_ours [OF example_forward n(1)] by blast+
  let ?ih = "interim_header 103 (copy_header Map.empty [''X-Traversal-Redacted'' \<mapsto> [''true''], ''Link'' \<mapsto> [''l'']])"
  have i: "interims_passed example_exchange Map.empty (Some q) = [(103, ?ih)]" for q
    by (simp add: interims_passed_def example_exchange_def is_interim_def)
  have "?ih ''Link'' = Some [''l'']"
    using n(2) by (simp add: interim_header_def status_ok_def strip_traversal_headers_def copy_header_def)
  then show ?thesis using a(1,2) a(3) [unfolded i] unfolding example_forward fst_conv i by simp
qed

text \<open>What is outside: an uncovered host's trailer of that name.\<close>

lemma uncovered_trailers_pass:
  assumes "forward lim rx describe w x roundtrip h r body target = (sent, ops, Relayed r')"
    and "\<not> covers rx (url_hostname target)"
  shows "\<exists>s resp. sent = Some s \<and> roundtrip s = Ok resp \<and> ur_trailer r' = ur_trailer resp"
proof -
  obtain s resp where f: "sent = Some s" "roundtrip s = Ok resp"
    "respond lim rx w (url_hostname target) False (sans_hops resp) = (ops, Ok r')"
    using forward_Relayed [OF assms(1)] assms(2) by metis
  then show ?thesis using respond_uncovered [OF f(3)] by (auto simp: sans_hops_def)
qed

text \<open>
  C5. A covered response is never sent as it came. What is relayed from a host some rule covers is
  held whole: the destination's body ended, within the limit; it was decoded as its own
  Content-Encoding says and redacted as its own Content-Type says, and a gzip body re-encoded; the
  status is not 101 or 206 and the media type one the rules apply to and no event stream; there are
  no trailers and the length is that of the new body. The headers are those ReverseProxy leaves,
  without the hop-by-hop ones.
\<close>

theorem covered_response_redacted:
  assumes "forward lim rx describe w x roundtrip h r body target = (sent, ops, Relayed r')"
    and "covers rx (url_hostname target)"
  shows "\<exists>s resp raw out changed. sent = Some s \<and> roundtrip s = Ok resp \<and>
    source_of (ur_body resp) = Ends raw \<and>
    (0 < sint (cl_max_body lim) \<longrightarrow> int (length raw) \<le> sint (cl_max_body lim)) \<and>
    redactable (media_type_of (rx_lower rx) (hget (remove_hop_by_hop (ur_header resp)) ''Content-Type'')) \<and>
    media_type_of (rx_lower rx) (hget (remove_hop_by_hop (ur_header resp)) ''Content-Type'') \<noteq> ''text/event-stream'' \<and>
    ur_status r' = ur_status resp \<and> ur_status r' \<notin> {101, 206} \<and>
    redacts_to lim rx (url_hostname target) (hget (remove_hop_by_hop (ur_header resp)) ''Content-Type'')
      (classify_content_coding (rx_lower rx) (hvalues (remove_hop_by_hop (ur_header resp)) ''Content-Encoding''))
      raw out changed \<and>
    ur_body r' = Held out \<and> ur_length r' = int (length out) \<and> ur_trailer r' = None"
proof -
  obtain s resp where f: "sent = Some s" "roundtrip s = Ok resp"
    "respond lim rx w (url_hostname target) True (sans_hops resp) = (ops, Ok r')"
    using forward_Relayed [OF assms(1)] assms(2) by (metis (full_types))
  have sans_hops_body: "source_of (ur_body (sans_hops resp)) = source_of (ur_body resp)" by (simp add: sans_hops_def)
  let ?h = "ur_header (sans_hops resp)"
  let ?cod = "classify_content_coding (rx_lower rx) (hvalues ?h ''Content-Encoding'')"
  obtain h0 where b: "ur_status (sans_hops resp) \<notin> {101, 206}" "ur_status r' = ur_status (sans_hops resp)" "ur_trailer r' = None"
    "hget h0 ''Content-Type'' = hget ?h ''Content-Type''"
    "redactable (media_type_of (rx_lower rx) (hget h0 ''Content-Type''))"
    "media_type_of (rx_lower rx) (hget h0 ''Content-Type'') \<noteq> ''text/event-stream''"
    "client_buffer lim rx (url_hostname target) ?cod ((sans_hops resp)\<lparr>ur_header := h0\<rparr>) = Ok r'"
    using respond_covered [OF f(3)] by metis
  obtain raw out changed h1 rep where e: "source_of (ur_body resp) = Ends raw"
    "redacts_to lim rx (url_hostname target) (hget h0 ''Content-Type'') ?cod raw out changed"
    "r' = replace_body out changed rep ((sans_hops resp)\<lparr>ur_header := h1\<rparr>)"
    "0 < sint (cl_max_body lim) \<longrightarrow> int (length raw) \<le> sint (cl_max_body lim)"
    using b(7) by (rule client_buffer_Ok) (simp add: sans_hops_body)
  have p: "?h = remove_hop_by_hop (ur_header resp)" "ur_status (sans_hops resp) = ur_status resp"
    using b(1) by (auto simp: sans_hops_def)
  have "ur_body r' = Held out" "ur_length r' = int (length out)"
    unfolding e(3) by (simp_all add: replace_body_def Let_def)
  then show ?thesis using f(1,2) b e p by metis
qed

lemma covered_response_redacted_witness:
  "covers example_redaction (url_hostname example_target) \<and> ur_body example_relayed = Held ''redacted'' \<and>
   (\<exists>raw changed. redacts_to example_limits example_redaction ''api'' ''application/json'' CodingIdentity raw ''redacted'' changed)"
proof -
  have "ur_body example_relayed = Held ''redacted''" by (simp add: example_relayed_def)
  moreover have "hget [''Content-Type'' \<mapsto> [''application/json''], ''x-traversal-reason'' \<mapsto> b] ''Content-Type'' = ''application/json''"
    "hvalues [''Content-Type'' \<mapsto> a, ''x-traversal-reason'' \<mapsto> b] ''Content-Encoding'' = []" for a b
    by (simp_all add: hget_def hvalues_def example_header_names header_names)
  ultimately show ?thesis
    using covered_response_redacted [OF example_forward example_covers] example_covers
    by (auto simp: example_host example_upstream_def example_sans_hops example_header_names example_redaction_def)
qed

text \<open>
  The headers the coding is read from are the destination's to shorten: one its Connection header
  names is gone before ModifyResponse looks, so a gzip body whose Content-Encoding is named there
  counts as not encoded, and the rules are applied to the compressed bytes.
\<close>

lemma named_encoding_is_lost:
  "classify_content_coding id (hvalues (remove_hop_by_hop [''Content-Encoding'' \<mapsto> [''gzip''],
     ''Connection'' \<mapsto> [''content-encoding'']]) ''Content-Encoding'') = CodingIdentity"
proof -
  have "connection_options [''Content-Encoding'' \<mapsto> [''gzip''], ''Connection'' \<mapsto> [''content-encoding'']] = [''content-encoding'']"
    by code_simp
  moreover have "canonical_key ''content-encoding'' = ''Content-Encoding''" by code_simp
  ultimately show ?thesis
    by (simp add: remove_hop_by_hop_def fold_hdel hvalues_def header_names hdel_def example_header_names)
qed

text \<open>
  C30. Redaction slots balance. Every path of a request gives back the slot it took, except a relayed
  covered response, which holds one; and closing its body, however often, gives it back once.
\<close>

theorem redaction_slots_balance:
  assumes "forward lim rx describe w x roundtrip h r body target = (sent, ops, ans)" and "0 < n"
  shows "count_list (ops @ (if covers rx (url_hostname target) \<and> (\<exists>r'. ans = Relayed r') then closes n False else [])) TakeSlot =
    count_list (ops @ (if covers rx (url_hostname target) \<and> (\<exists>r'. ans = Relayed r') then closes n False else [])) GiveSlot"
  using assms(1)
proof (cases rule: forward_slots)
  case (responded resp res)
  then show ?thesis using respond_slots [OF responded(1)] closes_once [OF assms(2)] by auto
qed simp

lemma redaction_slots_balance_witness:
  "count_list ([TakeSlot] @ closes 2 False) TakeSlot = count_list ([TakeSlot] @ closes 2 False) GiveSlot"
  using redaction_slots_balance [OF example_forward, of 2] example_covers by simp

text \<open>
  A repeated parameter moves a JSON body out of per-field redaction. mime.ParseMediaType answers
  a parameter name given twice with two values by an error of its own and no type, so the body counts
  as having no media type: it is still forwarded, but structured rules never see it. On a host with
  only structured rules, what application/json would have redacted is sent untouched.
\<close>

theorem duplicate_parameter_skips_fields:
  assumes "\<forall>cr \<in> set (rx_text_rules rx). cr_structured cr"
  shows "redactable (media_type_of (rx_lower rx) ''application/json; a=1; a=2'') \<and>
    client_redact rx host ''application/json; a=1; a=2'' body = Ok (body, False) \<and>
    client_redact rx host ''application/json'' body =
      (case redact_json rx host body of Inl e \<Rightarrow> Err e | Inr (out, changed) \<Rightarrow> Ok (out, changed))"
proof -
  have skip: "apply_loop eng h rules src changed = (src, changed)"
    if "\<forall>cr \<in> set rules. cr_structured cr" for eng :: "'a engine" and h rules src changed
    using that by (induction rules) auto
  then have untouched: "redact_text rx host b = (b, False)" for b
    using assms by (simp add: redact_text_def redact_apply_def)
  have low: "to_lower (rx_lower rx) ''application/json'' = ''application/json''"
    by (simp add: to_lower_def is_ascii_def ascii_lower_def upper_letters_def)
  have cut: "cut_at (CHR '';'') ''application/json; a=1; a=2'' = (''application/json'', '' a=1; a=2'', True)"
    "cut_at (CHR '';'') ''application/json'' = (''application/json'', [], False)"
    by code_simp+
  have params: "trim_space ''application/json'' = ''application/json''" "valid_media_type ''application/json''"
    "media_params ''application/json'' [] ''; a=1; a=2'' = NoMediaType"
    "media_params ''application/json'' [] [] = MediaType ''application/json''"
    by code_simp+
  have "parse_media_type (rx_lower rx) ''application/json; a=1; a=2'' = NoMediaType"
    "parse_media_type (rx_lower rx) ''application/json'' = MediaType ''application/json''"
    unfolding parse_media_type_def cut Let_def fst_conv low params by (simp_all add: params)
  then have m: "media_type_of (rx_lower rx) ''application/json; a=1; a=2'' = []"
    "media_type_of (rx_lower rx) ''application/json'' = ''application/json''"
    by (simp_all add: media_type_of_def)
  have "\<not> is_json []" "is_json ''application/json''" "redactable []" by code_simp+
  then show ?thesis
    using m untouched by (auto simp: client_redact_def Let_def split: sum.splits prod.splits)
qed

lemma duplicate_parameter_skips_fields_witness:
  "client_redact example_redaction ''api'' ''application/json; a=1; a=2'' ''raw'' = Ok (''raw'', False) \<and>
   client_redact example_redaction ''api'' ''application/json'' ''raw'' = Ok (''redacted'', True)"
proof -
  have "\<forall>cr \<in> set (rx_text_rules example_redaction). cr_structured cr"
    by (simp add: example_redaction_def example_compiled_def)
  then show ?thesis using duplicate_parameter_skips_fields example_client_redact by blast
qed

text \<open>
  A buffered response has a limit: whatever the configured sizes, up to 2^43 MB, the limits of a
  new client on bytes read and on bytes decoded are positive and do not wrap. Beyond that the product
  with 2^20 wraps, and a configured 2^44 MB is a limit of 0, which readLimited takes for none.
\<close>

theorem buffer_limits_positive:
  assumes "sint (cfg_max_response_mb cfg) < 2 ^ 43" and "sint (cfg_max_decoded_mb cfg) < 2 ^ 43"
  shows "0 < sint (cl_max_body (new_client cfg)) \<and> 0 < sint (cl_max_decoded (new_client cfg)) \<and>
    (0 < sint (cfg_max_response_mb cfg) \<longrightarrow>
       sint (cl_max_body (new_client cfg)) = sint (cfg_max_response_mb cfg) * 2 ^ 20) \<and>
    0 < cl_buffer_for (new_client cfg) \<and>
    finite_limit (2 ^ 44) default_body_size_mb = 0 \<and> read_limited (Ends s) 0 = ReadOk s"
proof -
  have mult: "sint (mb * bytes_per_mb) = sint mb * 2 ^ 20" if "0 < sint mb" "sint mb < 2 ^ 43" for mb :: i64
    using that by (simp add: bytes_per_mb_def sint_word_ariths signed_take_bit_int_eq_self)
  have "sint (default_body_size_mb * bytes_per_mb) = 2 ^ 25" "sint (default_decoded_body_size_mb * bytes_per_mb) = 2 ^ 28"
    by (simp_all add: default_body_size_mb_def default_decoded_body_size_mb_def bytes_per_mb_def)
  then show ?thesis
    using mult [of "cfg_max_response_mb cfg"] mult [of "cfg_max_decoded_mb cfg"] assms
    by (auto simp: new_client_def finite_limit_def word_sless_alt Let_def default_request_timeout_def nanos_def
        bytes_per_mb_def)
qed

lemma buffer_limits_positive_witness:
  "0 < sint (cl_max_body example_limits) \<and> 0 < cl_buffer_for example_limits"
  using buffer_limits_positive [of "\<lparr>cfg_request_timeout = 0, cfg_max_request_mb = 1, cfg_max_response_mb = 0,
     cfg_max_decoded_mb = 0, cfg_stream_max_lifetime = 0, cfg_max_redactions = 0\<rparr>"]
  by (simp add: example_limits_def)

end
