(* ===== verification/PipeServer.thy ===== *)
theory PipeServer
  imports Drain Capability Upstream
begin

text \<open>
  internal/pipeserver: serving pipes on the tunnels (server.go), the requests inside a pipe
  (forward.go) and readiness of the tunnels (tunnels.go). Every CONNECT has a handler of its own;
  what handlers share is the server: the verifier, behind its mutex, and the tracker of open pipes,
  behind its own. So a handler is a sequence of atomic stages, and the step relation interleaves
  the stages of all handlers with the start of a drain.
\<close>

section \<open>The server\<close>

record pipe_limits =
  pl_max_streams :: int
  pl_stream_window :: int
  pl_connection_window :: int
  pl_idle_timeout :: duration

record 'k server =
  sv_connector_id :: string
  sv_verifier :: "'k verifier"
  sv_max_pipes :: int
  sv_pipe_limits :: pipe_limits
  sv_tunnels :: int
  sv_max_lifetime :: duration
  sv_pipes :: tracker

definition stream_window :: int where "stream_window = 512 * 1024"
definition ping_after :: duration where "ping_after = 45 * nanos"
definition ping_timeout :: duration where "ping_timeout = 15 * nanos"

text \<open>
  h2 and the HTTP/2 settings inside a pipe. Go's int does not wrap here: the settings are at most
  4096 pipes. A setting Go leaves at zero is absent from the second.
\<close>

record http2_config =
  h2_max_streams :: int
  h2_stream_buffer :: int
  h2_connection_buffer :: int
  h2_max_frame :: int
  h2_ping_after :: duration
  h2_ping_timeout :: duration

definition per_tunnel :: "'k server \<Rightarrow> int" where
  "per_tunnel s = (let tunnels = max 1 (sv_tunnels s) in max 1 ((sv_max_pipes s + tunnels - 1) div tunnels))"

definition tunnel_h2 :: "'k server \<Rightarrow> http2_config" where
  "tunnel_h2 s =
     \<lparr>h2_max_streams = min (per_tunnel s + 16) (2 ^ 20), h2_stream_buffer = stream_window,
      h2_connection_buffer = min (per_tunnel s * stream_window) (2 ^ 30), h2_max_frame = 256 * 1024,
      h2_ping_after = ping_after, h2_ping_timeout = ping_timeout\<rparr>"

definition pipe_h2 :: "'k server \<Rightarrow> http2_config" where
  "pipe_h2 s =
     (let l = sv_pipe_limits s in
      \<lparr>h2_max_streams = min (pl_max_streams l) (2 ^ 20), h2_stream_buffer = min (pl_stream_window l) (2 ^ 30),
       h2_connection_buffer = min (pl_connection_window l) (2 ^ 30), h2_max_frame = 0,
       h2_ping_after = 0, h2_ping_timeout = 0\<rparr>)"

section \<open>Opening a pipe\<close>

definition probe_host :: string where "probe_host = ''traversal-connector.internal''"
definition probe_authority :: string where "probe_authority = probe_host @ '':443''"
definition probe_path :: string where "probe_path = ''/readyz''"
definition drain_method :: string where "drain_method = ''TRAVERSAL-DRAIN''"

text \<open>A url.URL of which only the host is set.\<close>

definition host_url :: "string \<Rightarrow> string \<Rightarrow> url" where
  "host_url scheme host = \<lparr>url_scheme = scheme, url_user = False, url_host = host, url_path = [],
     url_raw_query = [], url_fragment = []\<rparr>"

definition destination :: "string \<Rightarrow> u16 \<Rightarrow> string" where
  "destination host port = join_host_port host (format_uint (unat port))"

text \<open>Server.open in its three stages: what it reads of the request, the capability, the pipe cap.\<close>

definition open_check :: "(string \<Rightarrow> string) \<Rightarrow> 'k server \<Rightarrow> request \<Rightarrow> pipe_error + (string \<times> u16)" where
  "open_check ul s r =
     (let sp = split_authority ul (req_host r) in
      if tr_draining (sv_pipes s) then Err (Refused Draining ''draining'')
      else if req_method r \<noteq> ''CONNECT'' then
        Err (Refused ProtocolError ''expected CONNECT to a canonical host:port'')
      else (case sp of
          None \<Rightarrow> Err (Refused ProtocolError ''expected CONNECT to a canonical host:port'')
        | Some hp \<Rightarrow> Ok hp))"

definition open_verify ::
    "'k externals \<Rightarrow> instant \<Rightarrow> 'k server \<Rightarrow> request \<Rightarrow> string \<Rightarrow> u16 \<Rightarrow> 'k server \<times> (pipe_error + (url \<times> claims))" where
  "open_verify ex now s r host port =
     (case verify ex now (hget (req_header r) header_capability) (sv_connector_id s) host port (sv_verifier s) of
        (v, Inl e) \<Rightarrow> (s\<lparr>sv_verifier := v\<rparr>, Err e)
      | (v, Inr c) \<Rightarrow>
          (s\<lparr>sv_verifier := v\<rparr>,
           if host = probe_host \<and> destination host port \<noteq> probe_authority then
             Err (Refused WrongDestination ''probes are on port 443'')
           else Ok (host_url [] (destination host port), c)))"

definition open_admit :: "'k server \<Rightarrow> 'k server \<times> bool" where
  "open_admit s = (let (t, ok) = tracker_add (sv_max_pipes s) (sv_pipes s) in (s\<lparr>sv_pipes := t\<rparr>, ok))"

definition pipe_open ::
    "'k externals \<Rightarrow> instant \<Rightarrow> 'k server \<Rightarrow> request \<Rightarrow> 'k server \<times> (pipe_error + (url \<times> claims))" where
  "pipe_open ex now s r =
     (case open_check (ex_lower ex) s r of
        Inl e \<Rightarrow> (s, Err e)
      | Inr (host, port) \<Rightarrow>
          (case open_verify ex now s r host port of
             (s', Inl e) \<Rightarrow> (s', Err e)
           | (s', Inr uc) \<Rightarrow>
               (case open_admit s' of
                  (s'', False) \<Rightarrow> (s'', Err (Refused Capacity ''pipe cap reached''))
                | (s'', True) \<Rightarrow> (s'', Ok uc))))"

text \<open>serve answers a refused open with the reason of its error.\<close>

definition serve_refusal :: "pipe_error \<Rightarrow> response" where
  "serve_refusal e =
     (let reason = reason_of_error e ProtocolError in refuse_response Map.empty reason (reason_text reason))"

text \<open>ServeConn: a drain request runs its callback once, every other request is a pipe.\<close>

datatype conn_action = ReplaceTunnel | Ignored | ServePipe

definition serve_conn_request :: "bool \<Rightarrow> request \<Rightarrow> conn_action \<times> bool" where
  "serve_conn_request drained r =
     (if req_method r = drain_method then (if drained then Ignored else ReplaceTunnel, True)
      else (ServePipe, drained))"

text \<open>servePipe, from the outcome of the pipe's TLS and whether its lifetime ran out.\<close>

datatype outcome = Completed | Limit | CallerAborted | DestAborted

definition serve_pipe :: "string option \<Rightarrow> bool \<Rightarrow> string \<times> outcome" where
  "serve_pipe handshake expired =
     (case handshake of
        None \<Rightarrow> ([], CallerAborted)
      | Some proto \<Rightarrow> (proto, if expired then Limit else Completed))"

section \<open>Requests inside a pipe\<close>

definition request_scheme :: "request \<Rightarrow> string + string" where
  "request_scheme r =
     (if req_proto_major r = 2 then
        (let v = hget (req_header r) header_upstream_scheme in
         if v = [] then Ok ''https''
         else if v = ''http'' \<or> v = ''https'' then Ok v
         else Err (header_upstream_scheme @ '' is http or https''))
      else if url_scheme (req_url r) = ''http'' \<or> url_scheme (req_url r) = ''https'' then Ok (url_scheme (req_url r))
      else Err ''HTTP/1.1 requests in a pipe are in absolute form (GET https://host/path)'')"

text \<open>What forward does with a request: answer it, hand it to the readiness probe, or send it upstream.\<close>

datatype pipe_answer = PipeRefusal response | PipeNotFound response | Probe | ToUpstream url request

definition pipe_forward :: "(string \<Rightarrow> string) \<Rightarrow> url \<Rightarrow> request \<Rightarrow> pipe_answer" where
  "pipe_forward ul pipe r =
     (if req_method r = ''CONNECT'' then
        PipeRefusal (refuse_response Map.empty ProtocolError ''CONNECT is not carried inside a pipe'')
      else (case request_scheme r of
          Inl e \<Rightarrow> PipeRefusal (refuse_response Map.empty ProtocolError e)
        | Inr scheme \<Rightarrow>
            let r' = r\<lparr>req_header := hdel header_upstream_scheme (req_header r)\<rparr> in
            if map_option (\<lambda>(host, port). destination host port) (url_authority ul (host_url scheme (req_host r))) \<noteq>
                Some (url_host pipe) then
              PipeRefusal (refuse_response Map.empty WrongDestination ''the request is not for this pipe's destination'')
            else if url_host pipe = probe_authority then
              (if url_path (req_url r) \<noteq> probe_path \<or> req_method r \<noteq> ''GET'' then PipeNotFound (http_not_found Map.empty)
               else Probe)
            else ToUpstream (host_url scheme (url_host pipe)) r'))"

section \<open>Handlers, interleaved\<close>

text \<open>
  Where a CONNECT's handler is: past the first checks, its capability verified, admitted (it holds a
  place in the tracker), serving requests. A handler that returns is gone, its place given back.
  Accept fails between admission and serving; the requests inside a pipe are served concurrently,
  and do not change the server.
\<close>

datatype stage =
    Checked request string u16
  | Verified url claims
  | Admitted url claims
  | Serving url claims

record 'k pipe_system =
  ps_server :: "'k server"
  ps_stage :: "nat \<Rightarrow> stage option"
  ps_next :: nat

datatype pipe_event =
    EvRefused pipe_error
  | EvChecked nat
  | EvVerified nat
  | EvAdmitted nat
  | EvAccepted nat
  | EvAnswered nat request pipe_answer
  | EvEnded nat
  | EvDraining

inductive pipe_step :: "'k externals \<Rightarrow> 'k pipe_system \<Rightarrow> pipe_event \<Rightarrow> 'k pipe_system \<Rightarrow> bool" for ex where
  check_refused: "open_check (ex_lower ex) (ps_server s) r = Err e \<Longrightarrow> pipe_step ex s (EvRefused e) s"
| checked: "open_check (ex_lower ex) (ps_server s) r = Ok (host, port) \<Longrightarrow>
    pipe_step ex s (EvChecked (ps_next s))
      (s\<lparr>ps_stage := (ps_stage s)(ps_next s \<mapsto> Checked r host port), ps_next := ps_next s + 1\<rparr>)"
| verify_refused: "ps_stage s i = Some (Checked r host port) \<Longrightarrow>
    open_verify ex now (ps_server s) r host port = (sv, Err e) \<Longrightarrow>
    pipe_step ex s (EvRefused e) (s\<lparr>ps_server := sv, ps_stage := (ps_stage s)(i := None)\<rparr>)"
| verified: "ps_stage s i = Some (Checked r host port) \<Longrightarrow>
    open_verify ex now (ps_server s) r host port = (sv, Ok (u, c)) \<Longrightarrow>
    pipe_step ex s (EvVerified i) (s\<lparr>ps_server := sv, ps_stage := (ps_stage s)(i \<mapsto> Verified u c)\<rparr>)"
| at_capacity: "ps_stage s i = Some (Verified u c) \<Longrightarrow> open_admit (ps_server s) = (sv, False) \<Longrightarrow>
    pipe_step ex s (EvRefused (Refused Capacity ''pipe cap reached''))
      (s\<lparr>ps_server := sv, ps_stage := (ps_stage s)(i := None)\<rparr>)"
| admitted: "ps_stage s i = Some (Verified u c) \<Longrightarrow> open_admit (ps_server s) = (sv, True) \<Longrightarrow>
    pipe_step ex s (EvAdmitted i) (s\<lparr>ps_server := sv, ps_stage := (ps_stage s)(i \<mapsto> Admitted u c)\<rparr>)"
| accepted: "ps_stage s i = Some (Admitted u c) \<Longrightarrow>
    pipe_step ex s (EvAccepted i) (s\<lparr>ps_stage := (ps_stage s)(i \<mapsto> Serving u c)\<rparr>)"
| answered: "ps_stage s i = Some (Serving u c) \<Longrightarrow>
    pipe_step ex s (EvAnswered i r (pipe_forward (ex_lower ex) u r)) s"
| ended: "ps_stage s i = Some (Admitted u c) \<or> ps_stage s i = Some (Serving u c) \<Longrightarrow>
    tracker_done (sv_pipes (ps_server s)) = Some t \<Longrightarrow>
    pipe_step ex s (EvEnded i)
      (s\<lparr>ps_server := (ps_server s)\<lparr>sv_pipes := t\<rparr>, ps_stage := (ps_stage s)(i := None)\<rparr>)"
| draining: "pipe_step ex s EvDraining
      (s\<lparr>ps_server := (ps_server s)\<lparr>sv_pipes := tracker_drain (sv_pipes (ps_server s))\<rparr>\<rparr>)"

inductive_cases pipe_step_cases: "pipe_step ex s e s'"

inductive pipe_reach :: "'k externals \<Rightarrow> 'k pipe_system \<Rightarrow> pipe_event list \<Rightarrow> 'k pipe_system \<Rightarrow> bool" for ex s0 where
  pipe_init: "pipe_reach ex s0 [] s0"
| pipe_more: "pipe_reach ex s0 es s \<Longrightarrow> pipe_step ex s e s' \<Longrightarrow> pipe_reach ex s0 (es @ [e]) s'"

text \<open>A server that has just started.\<close>

definition fresh_system :: "'k server \<Rightarrow> 'k pipe_system" where
  "fresh_system sv = \<lparr>ps_server = sv\<lparr>sv_pipes := tracker_zero\<rparr>, ps_stage = Map.empty, ps_next = 0\<rparr>"

section \<open>What holds in every reachable state\<close>

definition same_trust :: "'k verifier \<Rightarrow> 'k verifier \<Rightarrow> bool" where
  "same_trust v w \<longleftrightarrow> v_issuer v = v_issuer w \<and> v_keys v = v_keys w \<and> v_chains v = v_chains w \<and> v_subject v = v_subject w"

lemma same_trust_refl [simp]: "same_trust v v"
  by (simp add: same_trust_def)

lemma same_trust_trans: "same_trust u v \<Longrightarrow> same_trust v w \<Longrightarrow> same_trust u w"
  by (simp add: same_trust_def)

lemma verify_trust: "verify ex now token connector host port v = (v', r) \<Longrightarrow> same_trust v' v"
  by (auto simp: verify_def take_open_def same_trust_def Let_def split: sum.splits prod.splits if_splits bool.splits)

text \<open>The capability \<open>c\<close> was verified for this connector and the destination \<open>u\<close>, under the server's trust.\<close>

definition authorizes :: "'k externals \<Rightarrow> 'k server \<Rightarrow> claims \<Rightarrow> url \<Rightarrow> bool" where
  "authorizes ex sv c u \<longleftrightarrow>
     url_host u = destination (cl_host c) (cl_port c) \<and>
     is_canonical (ex_lower ex) (cl_host c) \<and> 0 < cl_port c \<and>
     (cl_host c = probe_host \<longrightarrow> url_host u = probe_authority) \<and>
     (\<exists>now token v. same_trust v (sv_verifier sv) \<and>
        snd (verify ex now token (sv_connector_id sv) (cl_host c) (cl_port c) v) = Ok c)"

definition holds_place :: "stage option \<Rightarrow> bool" where
  "holds_place st \<longleftrightarrow> (\<exists>u c. st = Some (Admitted u c) \<or> st = Some (Serving u c))"

definition open_pipes :: "(nat \<Rightarrow> stage option) \<Rightarrow> nat set" where
  "open_pipes m = {i. holds_place (m i)}"

lemma holds_place_simps [simp]:
  "\<not> holds_place None" "\<not> holds_place (Some (Checked r h p))" "\<not> holds_place (Some (Verified u c))"
  "holds_place (Some (Admitted u c))" "holds_place (Some (Serving u c))"
  by (simp_all add: holds_place_def)

definition stage_ok :: "'k externals \<Rightarrow> 'k server \<Rightarrow> stage \<Rightarrow> bool" where
  "stage_ok ex sv st \<longleftrightarrow>
     (case st of
        Checked r h p \<Rightarrow> split_authority (ex_lower ex) (req_host r) = Some (h, p)
      | Verified u c \<Rightarrow> authorizes ex sv c u
      | Admitted u c \<Rightarrow> authorizes ex sv c u
      | Serving u c \<Rightarrow> authorizes ex sv c u)"

definition same_server :: "'k server \<Rightarrow> 'k server \<Rightarrow> bool" where
  "same_server sv sv' \<longleftrightarrow> sv_connector_id sv = sv_connector_id sv' \<and> same_trust (sv_verifier sv) (sv_verifier sv') \<and>
     sv_max_pipes sv = sv_max_pipes sv'"

definition pipe_inv :: "'k externals \<Rightarrow> 'k server \<Rightarrow> 'k pipe_system \<Rightarrow> bool" where
  "pipe_inv ex sv s \<longleftrightarrow>
     same_server (ps_server s) sv \<and> tracker_inv (sv_pipes (ps_server s)) \<and>
     tr_n (sv_pipes (ps_server s)) = card (open_pipes (ps_stage s)) \<and>
     (\<forall>i st. ps_stage s i = Some st \<longrightarrow> i < ps_next s \<and> stage_ok ex sv st) \<and>
     (0 < sv_max_pipes sv \<longrightarrow> int (card (open_pipes (ps_stage s))) \<le> sv_max_pipes sv)"

lemma open_pipes_upd [simp]:
  "open_pipes (m(i := x)) = (if holds_place x then insert i (open_pipes m) else open_pipes m - {i})"
  by (auto simp: open_pipes_def)

lemma open_pipes_mem [simp]: "i \<in> open_pipes m \<longleftrightarrow> holds_place (m i)"
  by (simp add: open_pipes_def)

lemma open_pipes_empty [simp]: "open_pipes Map.empty = {}"
  by (simp add: open_pipes_def)

lemma open_pipes_finite:
  assumes "\<And>i st. m i = Some st \<Longrightarrow> i < (n :: nat)"
  shows "finite (open_pipes m)"
  by (rule finite_subset [of _ "{..<n}"]) (use assms in \<open>auto simp: open_pipes_def holds_place_def\<close>)

lemma same_server_refl [simp]: "same_server sv sv"
  by (simp add: same_server_def)

lemma same_server_pipes [simp]: "same_server (sv\<lparr>sv_pipes := t\<rparr>) sv' = same_server sv sv'"
  by (simp add: same_server_def)

lemma open_check_Ok:
  "open_check ul sv r = Ok (host, port) \<Longrightarrow>
     \<not> tr_draining (sv_pipes sv) \<and> req_method r = ''CONNECT'' \<and> split_authority ul (req_host r) = Some (host, port)"
  by (auto simp: open_check_def Let_def split: if_splits option.splits)

lemma verify_Ok_binds:
  "verify ex now token connector host port v = (v', Ok c) \<Longrightarrow>
     cl_connector_id c = connector \<and> cl_host c = host \<and> cl_port c = port"
  by (auto simp: verify_def split: sum.splits prod.splits if_splits bool.splits)

lemma open_verify_server:
  assumes "open_verify ex now sv r host port = (sv', res)"
  shows "same_server sv' sv \<and> sv_pipes sv' = sv_pipes sv"
proof -
  obtain v q where v: "verify ex now (hget (req_header r) header_capability) (sv_connector_id sv) host port (sv_verifier sv) = (v, q)"
    by (metis prod.exhaust)
  have "sv' = sv\<lparr>sv_verifier := v\<rparr>" using assms v by (auto simp: open_verify_def split: sum.splits)
  then show ?thesis using verify_trust [OF v] by (simp add: same_server_def)
qed

lemma authorizes_same: "same_server sv sv' \<Longrightarrow> authorizes ex sv c u = authorizes ex sv' c u"
  unfolding authorizes_def same_server_def same_trust_def by simp

lemma open_verify_Ok:
  assumes "open_verify ex now sv r host port = (sv', Ok (u, c))"
    and "split_authority (ex_lower ex) (req_host r) = Some (host, port)"
  shows "authorizes ex sv c u"
proof -
  let ?token = "hget (req_header r) header_capability"
  obtain v where v: "verify ex now ?token (sv_connector_id sv) host port (sv_verifier sv) = (v, Ok c)"
    and u: "u = host_url [] (destination host port)" and p: "host = probe_host \<longrightarrow> destination host port = probe_authority"
    using assms(1) by (auto simp: open_verify_def split: prod.splits sum.splits if_splits)
  have b: "cl_host c = host" "cl_port c = port" using verify_Ok_binds [OF v] by simp_all
  have "\<exists>now token w. same_trust w (sv_verifier sv) \<and>
      snd (verify ex now token (sv_connector_id sv) (cl_host c) (cl_port c) w) = Ok c"
    using v b by (intro exI [of _ now] exI [of _ ?token] exI [of _ "sv_verifier sv"]) simp
  moreover have "is_canonical (ex_lower ex) host" "0 < port"
    using assms(2) split_authority_Some by blast+
  ultimately show ?thesis
    unfolding authorizes_def using b u p by (auto simp: host_url_def)
qed

lemma open_admit_True:
  assumes "open_admit sv = (sv', True)" and "tracker_inv (sv_pipes sv)"
  shows "tracker_inv (sv_pipes sv') \<and> tr_n (sv_pipes sv') = tr_n (sv_pipes sv) + 1 \<and>
    (0 < sv_max_pipes sv \<longrightarrow> int (tr_n (sv_pipes sv)) < sv_max_pipes sv) \<and> same_server sv' sv"
proof -
  obtain t where t: "tracker_add (sv_max_pipes sv) (sv_pipes sv) = (t, True)" "sv' = sv\<lparr>sv_pipes := t\<rparr>"
    using assms(1) by (auto simp: open_admit_def split: prod.splits)
  then show ?thesis using tracking.admit_True [OF assms(2) t(1)] by simp
qed

lemma open_admit_False:
  assumes "open_admit sv = (sv', False)" and "tracker_inv (sv_pipes sv)"
  shows "sv' = sv \<and> 0 < sv_max_pipes sv \<and> sv_max_pipes sv \<le> int (tr_n (sv_pipes sv))"
proof -
  obtain t where t: "tracker_add (sv_max_pipes sv) (sv_pipes sv) = (t, False)" "sv' = sv\<lparr>sv_pipes := t\<rparr>"
    using assms(1) by (auto simp: open_admit_def split: prod.splits)
  then show ?thesis using tracking.admit_False [OF assms(2) t(1)] by simp
qed

lemma stage_ok_simps [simp]:
  "stage_ok ex sv (Checked r h p) \<longleftrightarrow> split_authority (ex_lower ex) (req_host r) = Some (h, p)"
  "stage_ok ex sv (Verified u c) = authorizes ex sv c u"
  "stage_ok ex sv (Admitted u c) = authorizes ex sv c u"
  "stage_ok ex sv (Serving u c) = authorizes ex sv c u"
  by (simp_all add: stage_ok_def)

lemma pipe_inv_finite: "pipe_inv ex sv s \<Longrightarrow> finite (open_pipes (ps_stage s))"
  by (rule open_pipes_finite [of _ "ps_next s"]) (simp add: pipe_inv_def)

lemma pipe_inv_stage: "pipe_inv ex sv s \<Longrightarrow> ps_stage s i = Some st \<Longrightarrow> i < ps_next s \<and> stage_ok ex sv st"
  by (simp add: pipe_inv_def)

lemma pipe_inv_init: "pipe_inv ex sv (fresh_system sv)"
  by (simp add: pipe_inv_def fresh_system_def tracker_zero_def tracker_inv_def)

lemma tracker_drain_n [simp]: "tr_n (tracker_drain t) = tr_n t" "tr_draining (tracker_drain t)"
  by (simp_all add: tracker_drain_def)

text \<open>A step that changes the stage of one handler, and not its place.\<close>

lemma pipe_inv_restage:
  assumes "pipe_inv ex sv s" and "same_server (ps_server s') sv"
    and "sv_pipes (ps_server s') = sv_pipes (ps_server s)" and "ps_stage s' = (ps_stage s)(i := x)"
    and "holds_place (ps_stage s i) = holds_place x"
    and "\<And>st. x = Some st \<Longrightarrow> i < ps_next s' \<and> stage_ok ex sv st" and "ps_next s \<le> ps_next s'"
  shows "pipe_inv ex sv s'"
proof -
  have "open_pipes ((ps_stage s)(i := x)) = open_pipes (ps_stage s)"
    using assms(5) by (auto simp: insert_absorb)
  moreover have "j < ps_next s' \<and> stage_ok ex sv st" if "ps_stage s' j = Some st" for j st
    using that assms(4,6,7) pipe_inv_stage [OF assms(1), of j st] by (cases "j = i") auto
  ultimately show ?thesis
    using assms(1-4) unfolding pipe_inv_def by simp
qed

lemma pipe_inv_server: "pipe_inv ex sv s \<Longrightarrow> same_server (ps_server s) sv"
  by (simp add: pipe_inv_def)

lemma same_server_trans: "same_server u v \<Longrightarrow> same_server v w \<Longrightarrow> same_server u w"
  by (auto simp: same_server_def same_trust_def)

text \<open>A step that takes a place or gives one back.\<close>

lemma pipe_inv_place:
  assumes "pipe_inv ex sv s" and "ps_stage s' = (ps_stage s)(i := x)" and "ps_next s' = ps_next s"
    and "same_server (ps_server s') sv" and "tracker_inv (sv_pipes (ps_server s'))"
    and "tr_n (sv_pipes (ps_server s')) = card (open_pipes (ps_stage s'))"
    and "0 < sv_max_pipes sv \<Longrightarrow> int (card (open_pipes (ps_stage s'))) \<le> sv_max_pipes sv"
    and "\<And>st. x = Some st \<Longrightarrow> i < ps_next s \<and> stage_ok ex sv st"
  shows "pipe_inv ex sv s'"
proof -
  have "j < ps_next s' \<and> stage_ok ex sv st" if "ps_stage s' j = Some st" for j st
    using that assms(2,3,8) pipe_inv_stage [OF assms(1), of j st] by (cases "j = i") auto
  then show ?thesis using assms(4-7) unfolding pipe_inv_def by blast
qed

lemma pipe_inv_step:
  assumes "pipe_step ex s e s'" and inv: "pipe_inv ex sv s"
  shows "pipe_inv ex sv s'"
  using assms(1)
proof (cases rule: pipe_step.cases)
  case (checked r host port)
  have "ps_stage s (ps_next s) = None"
    using pipe_inv_stage [OF inv, of "ps_next s"] by (cases "ps_stage s (ps_next s)") auto
  with checked open_check_Ok [OF checked(3)] pipe_inv_server [OF inv] show ?thesis
    by (intro pipe_inv_restage [OF inv, of s' "ps_next s" "Some (Checked r host port)"]) auto
next
  case (verify_refused i r host port now sv' e)
  with open_verify_server [OF verify_refused(4)] same_server_trans [OF _ pipe_inv_server [OF inv]] show ?thesis
    by (intro pipe_inv_restage [OF inv, of s' i None]) auto
next
  case (verified i r host port now sv' u c)
  have o: "i < ps_next s" "split_authority (ex_lower ex) (req_host r) = Some (host, port)"
    using pipe_inv_stage [OF inv verified(3)] by simp_all
  have "authorizes ex sv c u"
    using open_verify_Ok [OF verified(4) o(2)] authorizes_same [OF pipe_inv_server [OF inv]] by simp
  with verified o open_verify_server [OF verified(4)] same_server_trans [OF _ pipe_inv_server [OF inv]] show ?thesis
    by (intro pipe_inv_restage [OF inv, of s' i "Some (Verified u c)"]) auto
next
  case (at_capacity i u c sv')
  have "sv' = ps_server s" using open_admit_False [OF at_capacity(4)] inv by (simp add: pipe_inv_def)
  with at_capacity pipe_inv_server [OF inv] show ?thesis
    by (intro pipe_inv_restage [OF inv, of s' i None]) auto
next
  case (admitted i u c sv')
  have a: "tracker_inv (sv_pipes sv')" "tr_n (sv_pipes sv') = tr_n (sv_pipes (ps_server s)) + 1"
    "0 < sv_max_pipes (ps_server s) \<longrightarrow> int (tr_n (sv_pipes (ps_server s))) < sv_max_pipes (ps_server s)"
    "same_server sv' (ps_server s)"
    using open_admit_True [OF admitted(4)] inv by (simp_all add: pipe_inv_def)
  have "card (open_pipes (ps_stage s')) = card (open_pipes (ps_stage s)) + 1"
    using pipe_inv_finite [OF inv] admitted by simp
  with admitted a inv pipe_inv_stage [OF inv admitted(3)] same_server_trans [OF a(4) pipe_inv_server [OF inv]]
  show ?thesis
    by (intro pipe_inv_place [OF inv, of s' i "Some (Admitted u c)"]) (auto simp: pipe_inv_def same_server_def)
next
  case (accepted i u c)
  with pipe_inv_server [OF inv] pipe_inv_stage [OF inv accepted(3)] show ?thesis
    by (intro pipe_inv_restage [OF inv, of s' i "Some (Serving u c)"]) auto
next
  case (ended i u c t)
  have h: "holds_place (ps_stage s i)" using ended(3) by auto
  have n: "card (open_pipes (ps_stage s)) = tr_n (sv_pipes (ps_server s))" "tracker_inv (sv_pipes (ps_server s))"
    using inv by (simp_all add: pipe_inv_def)
  have "i \<in> open_pipes (ps_stage s)" "finite (open_pipes (ps_stage s))"
    using h pipe_inv_finite [OF inv] by simp_all
  then have "0 < card (open_pipes (ps_stage s))" using card_gt_0_iff by blast
  then have "tracker_inv t" "tr_n t = tr_n (sv_pipes (ps_server s)) - 1"
    using tracking.release_Some [OF n(2)] ended(4) n(1) by auto
  moreover have "card (open_pipes (ps_stage s')) = card (open_pipes (ps_stage s)) - 1"
    using ended h by simp
  moreover have "0 < sv_max_pipes sv \<Longrightarrow> int (card (open_pipes (ps_stage s))) \<le> sv_max_pipes sv"
    using inv by (simp add: pipe_inv_def)
  ultimately show ?thesis
    using ended n pipe_inv_server [OF inv] by (intro pipe_inv_place [OF inv, of s' i None]) auto
next
  case draining
  then show ?thesis using inv by (simp add: pipe_inv_def)
qed (use inv in auto)

lemma pipe_inv_reach: "pipe_reach ex (fresh_system sv) es s \<Longrightarrow> pipe_inv ex sv s"
  by (induction rule: pipe_reach.induct) (auto simp: pipe_inv_init intro: pipe_inv_step)

section \<open>Requests reach the destination of their capability\<close>

lemma destination_hostname:
  assumes "is_canonical ul host"
  shows "url_hostname (host_url scheme (destination host port)) = host"
proof -
  let ?p = "format_uint (unat port)"
  have b: "set host \<inter> {CHR ''['', CHR '']''} = {}"
    using canonical_brackets [of ul host] assms by (simp add: is_canonical_iff)
  have p: "CHR '':'' \<notin> set ?p" "list_all is_digit ?p"
    using format_uint_no_sep [of "unat port"] format_uint_digits [of _ "unat port"] by (auto simp: list_all_iff)
  show ?thesis
  proof (cases "CHR '':'' \<in> set host")
    case True
    have "cut_last (CHR '':'') ((CHR ''['' # host @ '']'') @ CHR '':'' # ?p) = Some (CHR ''['' # host @ '']'', ?p)"
      using p by (intro cut_last_append) auto
    moreover have "has_suffix '']'' (CHR ''['' # host @ '']'')"
      by (simp add: has_suffix_def cut_suffix_def)
    ultimately show ?thesis
      using True p by (simp add: url_hostname_def url_split_host_def host_url_def destination_def join_host_port_def
          valid_optional_port_def has_prefix_def)
  next
    case False
    have "cut_last (CHR '':'') (host @ CHR '':'' # ?p) = Some (host, ?p)"
      using p by (intro cut_last_append) auto
    moreover have "\<not> has_prefix ''['' host" using b by (cases host) (auto simp: has_prefix_def)
    ultimately show ?thesis
      using False p by (simp add: url_hostname_def url_split_host_def host_url_def destination_def join_host_port_def
          valid_optional_port_def)
  qed
qed

lemma destination_inj:
  assumes "is_canonical ul h" and "0 < p" and "is_canonical ul h'" and "0 < p'" and "destination h p = destination h' p'"
  shows "h = h' \<and> p = p'"
proof -
  have "Some (h, p) = Some (h', p')"
    using split_authority_join [OF assms(1,2)] split_authority_join [OF assms(3,4)] assms(5)
    unfolding destination_def by metis
  then show ?thesis by simp
qed

lemma pipe_forward_ToUpstream:
  assumes "pipe_forward ul pipe r = ToUpstream target r'"
  obtains host port where "url_authority ul (host_url (url_scheme target) (req_host r)) = Some (host, port)"
    and "destination host port = url_host pipe" and "url_host target = url_host pipe"
    and "url_host pipe \<noteq> probe_authority" and "request_scheme r = Ok (url_scheme target)"
    and "r' = r\<lparr>req_header := hdel header_upstream_scheme (req_header r)\<rparr>"
    and "target = host_url (url_scheme target) (url_host pipe)"
  using assms
  by (auto simp: pipe_forward_def Let_def host_url_def split: if_splits sum.splits)

lemma request_scheme_Ok: "request_scheme r = Ok v \<Longrightarrow> v \<in> {''http'', ''https''}"
  by (auto simp: request_scheme_def Let_def split: if_splits)

lemma answered_authorized:
  assumes "pipe_reach ex (fresh_system sv) es s" and "EvAnswered i r a \<in> set es"
  shows "\<exists>u c. authorizes ex sv c u \<and> a = pipe_forward (ex_lower ex) u r"
  using assms
proof (induction rule: pipe_reach.induct)
  case (pipe_more es s e s')
  show ?case
  proof (cases "EvAnswered i r a \<in> set es")
    case False
    then have "e = EvAnswered i r a" using pipe_more(4) by simp
    with pipe_more(2) obtain u c where "ps_stage s i = Some (Serving u c)" "a = pipe_forward (ex_lower ex) u r"
      by (auto elim: pipe_step_cases)
    then show ?thesis using pipe_inv_stage [OF pipe_inv_reach [OF pipe_more(1)]] by fastforce
  qed (use pipe_more in blast)
qed simp

lemma forward_sends:
  "case fst (forward lim rx describe w xc roundtrip h r body target) of
     None \<Rightarrow> True | Some x \<Rightarrow> sr_target x = url_host target \<and> sr_scheme x = url_scheme target \<and> sr_host x = req_host r"
  by (auto simp: forward_def Let_def split: sum.splits prod.splits option.splits)

text \<open>
  C2. A request reaches only the destination of a verified capability: whatever handlers interleave,
  each request a pipe sends upstream names, in its own authority, the host and port of a capability
  that Verify accepted for this connector under the trust the server started with; it is sent there
  and nowhere else, over http or https as the request says; it never goes to the probe's name, and
  the host rules are looked up for is the capability's host.
\<close>

theorem request_bound_to_capability:
  assumes "pipe_reach ex (fresh_system sv) es s" and "EvAnswered i r (ToUpstream target r') \<in> set es"
  shows "\<exists>c now token v. same_trust v (sv_verifier sv) \<and>
       snd (verify ex now token (sv_connector_id sv) (cl_host c) (cl_port c) v) = Ok c \<and>
       url_authority (ex_lower ex) (host_url (url_scheme target) (req_host r)) = Some (cl_host c, cl_port c) \<and>
       url_host target = destination (cl_host c) (cl_port c) \<and> url_hostname target = cl_host c \<and>
       url_scheme target \<in> {''http'', ''https''} \<and> cl_host c \<noteq> probe_host \<and>
       hget (req_header r') header_upstream_scheme = [] \<and>
       (case fst (forward lim rx describe w xc roundtrip h r' body target) of
          None \<Rightarrow> True
        | Some x \<Rightarrow> sr_target x = destination (cl_host c) (cl_port c) \<and> sr_scheme x = url_scheme target \<and>
            sr_host x = req_host r)"
proof -
  obtain u c where a: "authorizes ex sv c u" "pipe_forward (ex_lower ex) u r = ToUpstream target r'"
    using answered_authorized [OF assms] by metis
  obtain host port where f: "url_authority (ex_lower ex) (host_url (url_scheme target) (req_host r)) = Some (host, port)"
    "destination host port = url_host u" "url_host target = url_host u" "url_host u \<noteq> probe_authority"
    "request_scheme r = Ok (url_scheme target)" "r' = r\<lparr>req_header := hdel header_upstream_scheme (req_header r)\<rparr>"
    "target = host_url (url_scheme target) (url_host u)"
    using pipe_forward_ToUpstream [OF a(2)] by blast
  have u: "url_host u = destination (cl_host c) (cl_port c)" "is_canonical (ex_lower ex) (cl_host c)" "0 < cl_port c"
    "cl_host c = probe_host \<longrightarrow> url_host u = probe_authority"
    using a(1) unfolding authorizes_def by blast+
  have "is_canonical (ex_lower ex) host" "0 < port"
    using url_authority_Some [OF f(1)] canonical_is_canonical by (simp_all add: is_canonical_iff)
  then have hp: "host = cl_host c" "port = cl_port c" using destination_inj u f(2) by metis+
  have n: "url_hostname target = cl_host c"
    using destination_hostname [OF u(2)] f(7) u(1) by metis
  obtain now token v where v: "same_trust v (sv_verifier sv)"
    "snd (verify ex now token (sv_connector_id sv) (cl_host c) (cl_port c) v) = Ok c"
    using a(1) by (auto simp: authorizes_def)
  show ?thesis
    using v f u hp n request_scheme_Ok [OF f(5)] forward_sends [of target r' lim rx describe w xc roundtrip h body]
    by (intro exI [of _ c] exI [of _ now] exI [of _ token] exI [of _ v]) (auto split: option.splits)
qed

text \<open>
  For the witness: a CONNECT with the capability of \<^const>\<open>example_claims\<close>, and a request in its pipe.
\<close>

definition example_server :: "nat server" where
  "example_server = \<lparr>sv_connector_id = ''c'', sv_verifier = example_verifier, sv_max_pipes = 1,
     sv_pipe_limits = \<lparr>pl_max_streams = 100, pl_stream_window = 262144, pl_connection_window = 1048576, pl_idle_timeout = 0\<rparr>,
     sv_tunnels = 2, sv_max_lifetime = 0, sv_pipes = tracker_zero\<rparr>"

definition example_connect :: request where
  "example_connect = \<lparr>req_method = ''CONNECT'', req_proto_major = 2, req_host = ''db.internal:5432'',
     req_url = host_url [] ''db.internal:5432'', req_header = hset header_capability example_token Map.empty\<rparr>"

definition example_inner :: request where
  "example_inner = \<lparr>req_method = ''GET'', req_proto_major = 1, req_host = ''DB.internal:5432'',
     req_url = host_url ''http'' ''DB.internal:5432'', req_header = Map.empty\<rparr>"

definition example_pipe_url :: url where "example_pipe_url = host_url [] ''db.internal:5432''"

lemma example_port: "format_uint 5432 = ''5432''" "parse_uint 16 ''5432'' = Some 5432"
  by (simp_all add: net_eval parse_uint_def)

lemma example_dest: "destination ''db.internal'' 5432 = ''db.internal:5432''"
  by (simp add: destination_def join_host_port_def example_port)

lemma example_authority:
  "split_authority id ''db.internal:5432'' = Some (''db.internal'', 5432)"
proof -
  have "is_canonical id ''db.internal''" by code_simp
  from split_authority_join [OF this, of 5432] example_dest show ?thesis by (simp add: destination_def)
qed

lemma example_lower: "ex_lower example_externals = id"
  by (simp add: example_externals_def)

lemma example_open_check: "open_check (ex_lower example_externals) example_server example_connect = Ok (''db.internal'', 5432)"
  by (simp add: open_check_def example_lower example_server_def tracker_zero_def example_connect_def example_authority)

lemma example_open_verify:
  "open_verify example_externals example_now example_server example_connect ''db.internal'' 5432 =
     (example_server\<lparr>sv_verifier := example_taken\<rparr>, Ok (example_pipe_url, example_claims))"
  using example_verify
  by (simp add: open_verify_def example_connect_def example_server_def example_dest example_pipe_url_def probe_host_def)

lemma example_pipe_forward:
  "pipe_forward (ex_lower example_externals) example_pipe_url example_inner =
     ToUpstream (host_url ''http'' ''db.internal:5432'') (example_inner\<lparr>req_header := hdel header_upstream_scheme Map.empty\<rparr>)"
proof -
  have "url_hostname (host_url ''http'' ''DB.internal:5432'') = ''DB.internal''" by code_simp
  moreover have "url_port (host_url ''http'' ''DB.internal:5432'') = ''5432''" by code_simp
  moreover have "canonical id ''DB.internal'' = (''db.internal'', True)" by code_simp
  ultimately have "url_authority id (host_url ''http'' ''DB.internal:5432'') = Some (''db.internal'', 5432)"
    by (simp add: url_authority_def example_port)
  then show ?thesis
    by (simp add: pipe_forward_def request_scheme_def example_inner_def example_pipe_url_def example_lower
        example_dest host_url_def probe_authority_def probe_host_def)
qed

text \<open>A CONNECT that is checked, verified and admitted without another handler in between.\<close>

lemma pipe_open_admits:
  assumes "pipe_open ex now (ps_server s) r = (sv, Ok (u, c))"
  shows "\<exists>s'. pipe_reach ex s [EvChecked (ps_next s), EvVerified (ps_next s), EvAdmitted (ps_next s), EvAccepted (ps_next s)] s' \<and>
    ps_server s' = sv \<and> ps_stage s' (ps_next s) = Some (Serving u c)"
proof -
  obtain host port sv1 where
    c: "open_check (ex_lower ex) (ps_server s) r = Ok (host, port)" and
    v: "open_verify ex now (ps_server s) r host port = (sv1, Ok (u, c))" and
    a: "open_admit sv1 = (sv, True)"
    using assms by (auto simp: pipe_open_def split: sum.splits prod.splits bool.splits)
  let ?i = "ps_next s"
  let ?s1 = "s\<lparr>ps_stage := (ps_stage s)(?i \<mapsto> Checked r host port), ps_next := ?i + 1\<rparr>"
  let ?s2 = "?s1\<lparr>ps_server := sv1, ps_stage := (ps_stage ?s1)(?i \<mapsto> Verified u c)\<rparr>"
  let ?s3 = "?s2\<lparr>ps_server := sv, ps_stage := (ps_stage ?s2)(?i \<mapsto> Admitted u c)\<rparr>"
  let ?s4 = "?s3\<lparr>ps_stage := (ps_stage ?s3)(?i \<mapsto> Serving u c)\<rparr>"
  have r1: "pipe_step ex s (EvChecked ?i) ?s1" by (rule checked [OF c])
  have r2: "pipe_step ex ?s1 (EvVerified ?i) ?s2" by (rule verified [of ?s1]) (use v in simp_all)
  have r3: "pipe_step ex ?s2 (EvAdmitted ?i) ?s3" by (rule admitted [of ?s2]) (use a in simp_all)
  have r4: "pipe_step ex ?s3 (EvAccepted ?i) ?s4" by (rule accepted [of ?s3]) simp
  have "pipe_reach ex s [EvChecked ?i, EvVerified ?i, EvAdmitted ?i, EvAccepted ?i] ?s4"
    using pipe_more [OF pipe_more [OF pipe_more [OF pipe_more [OF pipe_init r1] r2] r3] r4] by simp
  then show ?thesis by (intro exI [of _ ?s4]) simp
qed

lemma example_open:
  "\<exists>sv. pipe_open example_externals example_now (ps_server (fresh_system example_server)) example_connect =
     (sv, Ok (example_pipe_url, example_claims))"
proof -
  have "ps_server (fresh_system example_server) = example_server"
    by (simp add: fresh_system_def example_server_def)
  then show ?thesis
    using example_open_check example_open_verify
    by (simp add: pipe_open_def open_admit_def tracker_add_def example_server_def tracker_zero_def Let_def)
qed

lemma example_serving:
  "\<exists>es s. pipe_reach example_externals (fresh_system example_server) es s \<and>
     (\<forall>e \<in> set es. \<exists>i. e \<in> {EvChecked i, EvVerified i, EvAdmitted i, EvAccepted i}) \<and>
     ps_stage s 0 = Some (Serving example_pipe_url example_claims)"
proof -
  obtain sv where o: "pipe_open example_externals example_now (ps_server (fresh_system example_server)) example_connect =
      (sv, Ok (example_pipe_url, example_claims))" using example_open by blast
  have "ps_next (fresh_system example_server) = 0" by (simp add: fresh_system_def)
  then show ?thesis using pipe_open_admits [OF o] by (fastforce intro: exI [of _ 0])
qed

theorem request_bound_to_capability_witness:
  "\<exists>es s. pipe_reach example_externals (fresh_system example_server) es s \<and>
     (\<exists>r'. EvAnswered 0 example_inner (ToUpstream (host_url ''http'' ''db.internal:5432'') r') \<in> set es) \<and>
     (\<exists>c :: claims. url_host (host_url ''http'' ''db.internal:5432'') = destination (cl_host c) (cl_port c) \<and> cl_host c \<noteq> probe_host)"
proof -
  obtain sv where o: "pipe_open example_externals example_now (ps_server (fresh_system example_server)) example_connect =
      (sv, Ok (example_pipe_url, example_claims))" using example_open by blast
  obtain es s where r: "pipe_reach example_externals (fresh_system example_server) es s"
    "ps_stage s 0 = Some (Serving example_pipe_url example_claims)"
    using pipe_open_admits [OF o] by (auto simp: fresh_system_def)
  let ?a = "ToUpstream (host_url ''http'' ''db.internal:5432'') (example_inner\<lparr>req_header := hdel header_upstream_scheme Map.empty\<rparr>)"
  have p: "pipe_reach example_externals (fresh_system example_server) (es @ [EvAnswered 0 example_inner ?a]) s"
    using pipe_more [OF r(1) answered [OF r(2), of _ example_inner]] unfolding example_pipe_forward .
  have a: "EvAnswered 0 example_inner ?a \<in> set (es @ [EvAnswered 0 example_inner ?a])" by simp
  from request_bound_to_capability [OF p a, where lim = example_limits and rx = example_redaction
      and describe = "\<lambda>e. []" and w = SlotFree and xc = example_exchange and roundtrip = example_upstream and h = Map.empty and body = None]
  have "\<exists>c :: claims. url_host (host_url ''http'' ''db.internal:5432'') = destination (cl_host c) (cl_port c) \<and> cl_host c \<noteq> probe_host"
    by blast
  with p a show ?thesis by blast
qed

text \<open>
  C15. The pipe cap: in every reachable state of the interleaved handlers the tracker counts exactly
  the pipes that hold a place, they are never more than the cap, a handler that ends can always give
  its place back (Done does not panic), and a verified CONNECT is refused for capacity exactly when
  the cap is reached.
\<close>

theorem pipes_capped:
  assumes "pipe_reach ex (fresh_system sv) es s" and "0 < sv_max_pipes sv"
  shows "tr_n (sv_pipes (ps_server s)) = card (open_pipes (ps_stage s)) \<and>
    int (card (open_pipes (ps_stage s))) \<le> sv_max_pipes sv \<and>
    (holds_place (ps_stage s i) \<longrightarrow> (\<exists>s'. pipe_step ex s (EvEnded i) s' \<and> \<not> holds_place (ps_stage s' i))) \<and>
    (snd (open_admit (ps_server s)) = False \<longleftrightarrow> int (card (open_pipes (ps_stage s))) = sv_max_pipes sv)"
proof (intro conjI impI)
  note inv = pipe_inv_reach [OF assms(1)]
  then have t: "tracker_inv (sv_pipes (ps_server s))" "sv_max_pipes (ps_server s) = sv_max_pipes sv"
    by (simp_all add: pipe_inv_def same_server_def)
  show n: "tr_n (sv_pipes (ps_server s)) = card (open_pipes (ps_stage s))"
    and le: "int (card (open_pipes (ps_stage s))) \<le> sv_max_pipes sv"
    using inv assms(2) by (simp_all add: pipe_inv_def)
  show "snd (open_admit (ps_server s)) = False \<longleftrightarrow> int (card (open_pipes (ps_stage s))) = sv_max_pipes sv"
    using n le t(2) assms(2) by (auto simp: open_admit_def tracker_add_def Let_def)
  assume h: "holds_place (ps_stage s i)"
  then have "0 < card (open_pipes (ps_stage s))"
    using card_gt_0_iff pipe_inv_finite [OF inv] open_pipes_mem by blast
  then obtain t' where "tracker_done (sv_pipes (ps_server s)) = Some t'"
    using tracking.release_Some [OF t(1)] n by auto
  moreover obtain u c where "ps_stage s i = Some (Admitted u c) \<or> ps_stage s i = Some (Serving u c)"
    using h unfolding holds_place_def by blast
  ultimately have "pipe_step ex s (EvEnded i)
      (s\<lparr>ps_server := (ps_server s)\<lparr>sv_pipes := t'\<rparr>, ps_stage := (ps_stage s)(i := None)\<rparr>)" by (rule ended [rotated])
  moreover have "\<not> holds_place (ps_stage (s\<lparr>ps_server := (ps_server s)\<lparr>sv_pipes := t'\<rparr>, ps_stage := (ps_stage s)(i := None)\<rparr>) i)"
    by simp
  ultimately show "\<exists>s'. pipe_step ex s (EvEnded i) s' \<and> \<not> holds_place (ps_stage s' i)" by blast
qed

text \<open>A server with room for one pipe, and the run that fills it.\<close>

lemma example_full: "\<exists>es s. pipe_reach example_externals (fresh_system example_server) es s \<and> holds_place (ps_stage s 0)"
  using example_serving by fastforce

theorem pipes_capped_witness:
  "\<exists>es s. pipe_reach example_externals (fresh_system example_server) es s \<and> holds_place (ps_stage s 0) \<and>
     int (card (open_pipes (ps_stage s))) \<le> sv_max_pipes example_server \<and>
     (\<exists>s'. pipe_step example_externals s (EvEnded 0) s' \<and> \<not> holds_place (ps_stage s' 0))"
proof -
  obtain es s where r: "pipe_reach example_externals (fresh_system example_server) es s" "holds_place (ps_stage s 0)"
    using example_full by blast
  have "0 < sv_max_pipes example_server" by (simp add: example_server_def)
  from pipes_capped [OF r(1) this, of 0] r show ?thesis by blast
qed

text \<open>A step of a draining server: it stays so, and no handler passes the first check.\<close>

lemma pipe_step_drains:
  assumes "pipe_step ex s1 e s2" and "tr_draining (sv_pipes (ps_server s1))"
  shows "tr_draining (sv_pipes (ps_server s2)) \<and> dom (ps_stage s2) \<subseteq> dom (ps_stage s1) \<and> e \<noteq> EvChecked i"
  using assms(1)
proof (cases rule: pipe_step.cases)
  case (checked r host port)
  then show ?thesis using assms(2) open_check_Ok [OF checked(3)] by simp
next
  case (verify_refused j r host port now sv' e')
  then show ?thesis using assms(2) open_verify_server [OF verify_refused(4)] by auto
next
  case (verified j r host port now sv' u c)
  then show ?thesis using assms(2) open_verify_server [OF verified(4)] by auto
next
  case (at_capacity j u c sv')
  then show ?thesis using assms(2) by (auto simp: open_admit_def tracker_add_def Let_def split: if_splits)
next
  case (admitted j u c sv')
  then show ?thesis using assms(2) by (auto simp: open_admit_def tracker_add_def Let_def split: if_splits)
next
  case (ended j u c t)
  then show ?thesis using assms(2) by (auto simp: tracker_done_def Let_def split: if_splits option.splits)
qed (use assms(2) in auto)

text \<open>
  C16. Draining: once the server drains, every CONNECT that arrives is refused with
  connector_draining and 503, and stays so; only handlers that were past that check can still be
  admitted, so no pipe opens that had not been asked for before.
\<close>

theorem draining_refuses:
  assumes "pipe_reach ex s es s'" and "tr_draining (sv_pipes (ps_server s))"
  shows "open_check (ex_lower ex) (ps_server s') r = Err (Refused Draining ''draining'') \<and>
    resp_status (serve_refusal (Refused Draining ''draining'')) = 503 \<and>
    hget (resp_header (serve_refusal (Refused Draining ''draining''))) header_reason = ''connector_draining'' \<and>
    open_pipes (ps_stage s') \<subseteq> dom (ps_stage s) \<and> EvChecked i \<notin> set es"
proof -
  have "tr_draining (sv_pipes (ps_server s')) \<and> dom (ps_stage s') \<subseteq> dom (ps_stage s) \<and> EvChecked i \<notin> set es"
    using assms
  proof (induction rule: pipe_reach.induct)
    case (pipe_more es s1 e s2)
    then have d: "tr_draining (sv_pipes (ps_server s1))" "dom (ps_stage s1) \<subseteq> dom (ps_stage s)" "EvChecked i \<notin> set es"
      by blast+
    with pipe_step_drains [OF pipe_more(2) d(1), of i] show ?case
      using order_trans [of "dom (ps_stage s2)" "dom (ps_stage s1)" "dom (ps_stage s)"] by (simp; blast)
  qed simp
  moreover have "open_pipes (ps_stage s') \<subseteq> dom (ps_stage s')" by (auto simp: open_pipes_def holds_place_def)
  moreover have "canonical_key header_reason \<notin> {canonical_key ''Content-Type'', canonical_key ''X-Content-Type-Options'',
      canonical_key ''Content-Length''}"
    by (simp add: header_reason_def) code_simp
  ultimately show ?thesis
    by (auto simp: open_check_def Let_def serve_refusal_def refuse_response_def http_error_def status_defs
        hget_hset_other hget_hdel_other)
qed

text \<open>A drain that starts while a pipe is open.\<close>

theorem draining_refuses_witness:
  "\<exists>s :: nat pipe_system. holds_place (ps_stage s 0) \<and> tr_draining (sv_pipes (ps_server s)) \<and>
     open_check (ex_lower example_externals) (ps_server s) example_connect = Err (Refused Draining ''draining'')"
proof -
  obtain es s where r: "pipe_reach example_externals (fresh_system example_server) es s" "holds_place (ps_stage s 0)"
    using example_full by blast
  let ?s = "s\<lparr>ps_server := (ps_server s)\<lparr>sv_pipes := tracker_drain (sv_pipes (ps_server s))\<rparr>\<rparr>"
  have d: "holds_place (ps_stage ?s 0)" "tr_draining (sv_pipes (ps_server ?s))" using r(2) by simp_all
  moreover have "open_check (ex_lower example_externals) (ps_server ?s) example_connect = Err (Refused Draining ''draining'')"
    using draining_refuses [OF pipe_init [of example_externals ?s] d(2), of example_connect 0] by (rule conjunct1)
  ultimately show ?thesis by blast
qed

end
