(* ===== verification/EnvConfig.thy ===== *)
theory EnvConfig
  imports Upstream
begin

text \<open>
  connector-lib/env and internal/config: reading settings from the environment and the rules a
  configuration must satisfy before the connector starts. The environment is a function from names
  to values, empty if unset. Parameters: url.Parse, time.ParseDuration, uuid.Parse, reading files,
  the dotenv package, key pairs and certificate pools.
\<close>

section \<open>Reading the environment\<close>

type_synonym environment = "string \<Rightarrow> string"

text \<open>strconv.ParseInt in base 10, and ParseBool.\<close>

definition parse_int64 :: "string \<Rightarrow> i64 option" where
  "parse_int64 s =
     (case s of
        [] \<Rightarrow> None
      | c # cs \<Rightarrow>
          let digits = (if c \<in> {CHR ''+'', CHR ''-''} then cs else s) in
          (case parse_uint 64 digits of
             None \<Rightarrow> None
           | Some n \<Rightarrow>
               if c = CHR ''-'' then (if n \<le> 2 ^ 63 then Some (- of_nat n) else None)
               else if n < 2 ^ 63 then Some (of_nat n) else None))"

definition parse_bool :: "string \<Rightarrow> bool option" where
  "parse_bool s =
     (if s \<in> set [''1'', ''t'', ''T'', ''true'', ''TRUE'', ''True''] then Some True
      else if s \<in> set [''0'', ''f'', ''F'', ''false'', ''FALSE'', ''False''] then Some False
      else None)"

definition get_env_string :: "environment \<Rightarrow> string \<Rightarrow> string \<Rightarrow> string" where
  "get_env_string e key dflt = (if e key \<noteq> [] then e key else dflt)"

definition get_env_int64 :: "environment \<Rightarrow> string \<Rightarrow> i64 \<Rightarrow> i64" where
  "get_env_int64 e key dflt =
     (if e key \<noteq> [] then (case parse_int64 (e key) of Some n \<Rightarrow> n | None \<Rightarrow> dflt) else dflt)"

definition get_env_duration :: "(string \<Rightarrow> duration option) \<Rightarrow> environment \<Rightarrow> string \<Rightarrow> duration \<Rightarrow> duration" where
  "get_env_duration pd e key dflt =
     (if e key = [] then dflt else (case pd (e key) of Some d \<Rightarrow> d | None \<Rightarrow> dflt))"

definition get_env_bool :: "environment \<Rightarrow> string \<Rightarrow> bool \<Rightarrow> bool" where
  "get_env_bool e key dflt =
     (if e key \<noteq> [] then (case parse_bool (e key) of Some b \<Rightarrow> b | None \<Rightarrow> dflt) else dflt)"

definition get_env_optional_string :: "environment \<Rightarrow> string \<Rightarrow> string option" where
  "get_env_optional_string e key = (if e key = [] then None else Some (e key))"

definition env_level_development :: string where "env_level_development = ''development''"

definition is_dev :: "string \<Rightarrow> bool" where
  "is_dev level = (level = env_level_development)"

text \<open>
  Reader: each read answers a value and adds the key to the invalid settings if it was one. The
  value of an invalid setting is not used: Load fails.
\<close>

definition reader_int :: "environment \<Rightarrow> string list \<Rightarrow> string \<Rightarrow> i64 \<Rightarrow> i64 \<Rightarrow> i64 \<times> string list" where
  "reader_int e errs key dflt max_val =
     (if e key = [] then (dflt, errs)
      else (case parse_int64 (e key) of
          None \<Rightarrow> (0, errs @ [key])
        | Some n \<Rightarrow> (n, if n <s 1 \<or> max_val <s n then errs @ [key] else errs)))"

definition reader_duration ::
    "(string \<Rightarrow> duration option) \<Rightarrow> environment \<Rightarrow> string list \<Rightarrow> string \<Rightarrow> duration \<Rightarrow> duration \<times> string list" where
  "reader_duration pd e errs key dflt =
     (if e key = [] then (dflt, errs)
      else (case pd (e key) of
          None \<Rightarrow> (0, errs @ [key])
        | Some d \<Rightarrow> (d, if d < 0 then errs @ [key] else errs)))"

definition reader_bool :: "environment \<Rightarrow> string list \<Rightarrow> string \<Rightarrow> bool \<Rightarrow> bool \<times> string list" where
  "reader_bool e errs key dflt =
     (if e key = [] then (dflt, errs)
      else if e key = ''false'' then (False, errs)
      else if e key = ''true'' then (True, errs)
      else (dflt, errs @ [key]))"

definition reader_err :: "string list \<Rightarrow> string list option" where
  "reader_err errs = (if errs = [] then None else Some errs)"

section \<open>The configuration\<close>

record config =
  cf_http_port :: string
  cf_controller_url :: string
  cf_controller_connect_to :: string
  cf_env_name :: string
  cf_env_level :: string
  cf_client :: client_config
  cf_egress_proxy_url :: "string option"
  cf_tls_cert :: "string option"
  cf_tls_key :: "string option"
  cf_tls_ca :: "string option"
  cf_connector_id :: string
  cf_otel_service_name :: string
  cf_metrics_endpoint :: string
  cf_traces_endpoint :: string
  cf_logs_endpoint :: string
  cf_otlp_protocol :: string
  cf_otlp_connect_to :: string
  cf_disable_telemetry :: bool
  cf_upstream_tls_verify :: bool
  cf_upstream_tls_ca :: "string option"
  cf_config_enabled :: bool
  cf_config_refresh_interval :: duration
  cf_redaction_rules_file :: "string option"
  cf_redaction_reload_interval :: duration

datatype config_error =
    EnvFileFailed string
  | Required string
  | ProxyWithConnectTo
  | NotHostPort string
  | EmptyOrPadded string
  | NotAnAddress string
  | BadPort string
  | UpstreamCAExclusive
  | UpstreamCAUnread string
  | NotABoolean string
  | InvalidSettings "string list"
  | NoLongerSupported string
  | NotPositive string
  | RefreshIntervalRange
  | ConnectorIDNotCanonical
  | InvalidURL string
  | ClientCertRequired
  | ClientCertInvalid
  | HttpNotAllowed
  | UnsupportedScheme string
  | EndpointRequired string
  | EndpointWithoutHost string
  | EndpointPort string
  | EndpointCleartext string

text \<open>ValidateConnectTo: a host:port and nothing else. The port is read by Atoi, so it may have a sign.\<close>

definition max_tcp_port :: i64 where "max_tcp_port = 65535"

definition valid_port_text :: "string \<Rightarrow> bool" where
  "valid_port_text p = (case parse_int64 p of None \<Rightarrow> False | Some n \<Rightarrow> \<not> n <s 1 \<and> \<not> max_tcp_port <s n)"

definition validate_connect_to :: "string \<Rightarrow> string \<Rightarrow> config_error option" where
  "validate_connect_to var address =
     (if address = [] then None
      else (case split_host_port address of
          None \<Rightarrow> Some (NotHostPort var)
        | Some (host, port) \<Rightarrow>
            if host = [] \<or> trim_space host \<noteq> host \<or> port = [] \<or> trim_space port \<noteq> port then Some (EmptyOrPadded var)
            else if list_ex (\<lambda>c. c \<in> set ''/?#@'') host \<or> contains_str ''://'' host then Some (NotAnAddress var)
            else if \<not> valid_port_text port then Some (BadPort var)
            else None))"

text \<open>
  isLoopbackHost. EqualFold against localhost also accepts the long s, U+017F, for its s. ParseIP
  reads what netip reads, without a zone.
\<close>

fun addr_is_loopback :: "addr \<Rightarrow> bool" where
  "addr_is_loopback (V4 w) = (byte_at (as16 (V4 w)) 12 = 127)"
| "addr_is_loopback (V6 w z) = (z = [] \<and> (if is_4in6 (V6 w z) then byte_at w 12 = 127 else w = 1))"

definition is_loopback_host :: "string \<Rightarrow> bool" where
  "is_loopback_host host =
     (ascii_lower (replace_all_str [CHR 0xC5, CHR 0xBF] ''s'' (trim_suffix ''.'' host)) = ''localhost'' \<or>
      (case parse_addr host of None \<Rightarrow> False | Some a \<Rightarrow> addr_is_loopback a))"

definition endpoint_error :: "(string \<Rightarrow> string + url) \<Rightarrow> string \<Rightarrow> string \<Rightarrow> config_error option" where
  "endpoint_error parse_url var endpoint =
     (if endpoint = [] then Some (EndpointRequired var)
      else (case parse_url endpoint of
          Inl e \<Rightarrow> Some (InvalidURL var)
        | Inr u \<Rightarrow>
            if url_hostname u = [] then Some (EndpointWithoutHost var)
            else if url_port u \<noteq> [] \<and> \<not> valid_port_text (url_port u) then Some (EndpointPort var)
            else if url_scheme u = ''https'' then None
            else if url_scheme u = ''http'' \<and> is_loopback_host (url_hostname u) then None
            else Some (EndpointCleartext var)))"

definition apply_telemetry_policy :: "(string \<Rightarrow> string + url) \<Rightarrow> config \<Rightarrow> config_error + config" where
  "apply_telemetry_policy parse_url cfg =
     (if cf_disable_telemetry cfg then
        Ok (cfg\<lparr>cf_metrics_endpoint := [], cf_traces_endpoint := [], cf_logs_endpoint := [], cf_otlp_connect_to := []\<rparr>)
      else if is_dev (cf_env_level cfg) then Ok cfg
      else (case first_error (\<lambda>(var, endpoint). endpoint_error parse_url var endpoint)
          [(''OTEL_EXPORTER_OTLP_METRICS_ENDPOINT'', cf_metrics_endpoint cfg),
           (''OTEL_EXPORTER_OTLP_TRACES_ENDPOINT'', cf_traces_endpoint cfg),
           (''OTEL_EXPORTER_OTLP_LOGS_ENDPOINT'', cf_logs_endpoint cfg)] of
          Some e \<Rightarrow> Err e
        | None \<Rightarrow> Ok cfg))"

definition validate_controller_connection ::
    "(string \<Rightarrow> string + url) \<Rightarrow> (string \<Rightarrow> string \<Rightarrow> bool) \<Rightarrow> config \<Rightarrow> config_error option" where
  "validate_controller_connection parse_url key_pair cfg =
     (case parse_url (cf_controller_url cfg) of
        Inl e \<Rightarrow> Some (InvalidURL ''TRAVERSAL_CONTROLLER_URL'')
      | Inr u \<Rightarrow>
          if url_scheme u = ''https'' then
            (case (cf_tls_cert cfg, cf_tls_key cfg) of
               (Some cert, Some key) \<Rightarrow> if key_pair cert key then None else Some ClientCertInvalid
             | _ \<Rightarrow> Some ClientCertRequired)
          else if url_scheme u = ''http'' then (if is_dev (cf_env_level cfg) then None else Some HttpNotAllowed)
          else Some (UnsupportedScheme (url_scheme u)))"

definition validate_remote_config :: "(string \<Rightarrow> string option) \<Rightarrow> config \<Rightarrow> config_error option" where
  "validate_remote_config uuid cfg =
     (if \<not> cf_config_enabled cfg then None
      else if cf_config_refresh_interval cfg \<le> 0 \<or> 24 * 60 * 60 * nanos < cf_config_refresh_interval cfg then
        Some RefreshIntervalRange
      else if uuid (cf_connector_id cfg) \<noteq> Some (cf_connector_id cfg) then Some ConnectorIDNotCanonical
      else None)"

text \<open>ConfigURL: the controller's origin and a fixed path.\<close>

definition config_url :: "(string \<Rightarrow> string + url) \<Rightarrow> config \<Rightarrow> string + url" where
  "config_url parse_url cfg =
     (case parse_url (cf_controller_url cfg) of
        Inl e \<Rightarrow> Err ''invalid controller URL''
      | Inr u \<Rightarrow>
          if url_hostname u = [] then Err ''invalid controller URL''
          else Ok \<lparr>url_scheme = url_scheme u, url_user = False, url_host = url_host u,
            url_path = ''/v1/config/'' @ cf_connector_id cfg, url_raw_query = [], url_fragment = []\<rparr>)"

section \<open>Loading\<close>

text \<open>DecodePEM takes PEM as it is, or base64; what does not decode is used as it is too.\<close>

definition pem_prefix :: string where "pem_prefix = ''-----BEGIN''"

definition decode_pem :: "string \<Rightarrow> string" where
  "decode_pem v =
     (if has_prefix pem_prefix v then v
      else (case b64_decode False True False v of None \<Rightarrow> v | Some d \<Rightarrow> d))"

definition decode_certificate :: "string option \<Rightarrow> string option" where
  "decode_certificate encoded = (case encoded of None \<Rightarrow> None | Some v \<Rightarrow> Some (decode_pem v))"

definition load_upstream_tls_ca :: "(string \<Rightarrow> string option) \<Rightarrow> environment \<Rightarrow> config_error + string option" where
  "load_upstream_tls_ca read_file e =
     (let inline = get_env_optional_string e ''UPSTREAM_TLS_CA_BASE64'';
          path = get_env_optional_string e ''UPSTREAM_TLS_CA_FILE'' in
      if inline \<noteq> None \<and> path \<noteq> None then Err UpstreamCAExclusive
      else (case path of
          None \<Rightarrow> Ok (decode_certificate inline)
        | Some p \<Rightarrow> (case read_file p of None \<Rightarrow> Err (UpstreamCAUnread p) | Some ca \<Rightarrow> Ok (Some ca))))"

text \<open>
  SystemPoolWith and BuildClientTLSConfig. A pool is the list of the PEM texts added to it, here
  after the system's; \<open>parses\<close> says that a text holds a certificate.
\<close>

definition system_pool_with :: "string list option \<Rightarrow> (string \<Rightarrow> bool) \<Rightarrow> string \<Rightarrow> string + string list" where
  "system_pool_with system parses ca =
     (case system of
        None \<Rightarrow> Err ''failed to load system certificate pool''
      | Some pool \<Rightarrow> if parses ca then Ok (pool @ [ca]) else Err ''failed to parse CA certificate'')"

record client_tls =
  ct_cert :: "string \<times> string"
  ct_root_cas :: "string list option"

definition build_client_tls_config ::
    "(string \<Rightarrow> string \<Rightarrow> bool) \<Rightarrow> string list option \<Rightarrow> (string \<Rightarrow> bool) \<Rightarrow> config \<Rightarrow> string + client_tls option" where
  "build_client_tls_config key_pair system parses cfg =
     (case (cf_tls_cert cfg, cf_tls_key cfg) of
        (Some cert, Some key) \<Rightarrow>
          if \<not> key_pair cert key then Err ''parse client TLS certificate''
          else (case cf_tls_ca cfg of
              None \<Rightarrow> Ok (Some \<lparr>ct_cert = (cert, key), ct_root_cas = None\<rparr>)
            | Some ca \<Rightarrow>
                if ca = [] then Ok (Some \<lparr>ct_cert = (cert, key), ct_root_cas = None\<rparr>)
                else (case system_pool_with system parses ca of
                    Inl e \<Rightarrow> Err e
                  | Inr pool \<Rightarrow> Ok (Some \<lparr>ct_cert = (cert, key), ct_root_cas = Some pool\<rparr>)))
      | _ \<Rightarrow> Ok None)"

text \<open>
  Load. What it uses of other packages is a record of functions. The process environment tells an
  unset variable from an empty one, which only the dotenv package does too: it answers the
  environment with a file's settings added, or nothing if it failed.
\<close>

type_synonym process_env = "string \<rightharpoonup> string"

record config_deps =
  cd_dotenv :: "string \<Rightarrow> process_env \<Rightarrow> process_env option"
  cd_file :: "string \<Rightarrow> string option"
  cd_url :: "string \<Rightarrow> string + url"
  cd_duration :: "string \<Rightarrow> duration option"
  cd_uuid :: "string \<Rightarrow> string option"
  cd_key_pair :: "string \<Rightarrow> string \<Rightarrow> bool"

definition getenv :: "process_env \<Rightarrow> environment" where
  "getenv pe key = (case pe key of None \<Rightarrow> [] | Some v \<Rightarrow> v)"

text \<open>ENV_FILE must load; ./.env may be missing.\<close>

definition load_env_files :: "config_deps \<Rightarrow> process_env \<Rightarrow> config_error + process_env" where
  "load_env_files dp pe =
     (let optional = (\<lambda>p. case cd_dotenv dp ''.env'' p of None \<Rightarrow> p | Some q \<Rightarrow> q) in
      (case get_env_optional_string (getenv pe) ''ENV_FILE'' of
         None \<Rightarrow> Ok (optional pe)
       | Some path \<Rightarrow>
           (case cd_dotenv dp path pe of None \<Rightarrow> Err (EnvFileFailed path) | Some q \<Rightarrow> Ok (optional q))))"

definition config_enabled_setting :: "environment \<Rightarrow> config_error + bool" where
  "config_enabled_setting e =
     (if e ''TRAVERSAL_CONFIG_ENABLED'' = [] then Ok False
      else (case parse_bool (e ''TRAVERSAL_CONFIG_ENABLED'') of
          None \<Rightarrow> Err (NotABoolean ''TRAVERSAL_CONFIG_ENABLED'')
        | Some b \<Rightarrow> Ok b))"

text \<open>The Config literal, and what its strict reads found invalid.\<close>

definition max_concurrent_redactions :: i64 where "max_concurrent_redactions = 1024"
definition default_uncovered_stream_max_lifetime :: duration where
  "default_uncovered_stream_max_lifetime = 15 * 60 * nanos"
definition default_config_refresh_interval :: duration where "default_config_refresh_interval = 30 * nanos"
definition default_redaction_reload_interval :: duration where "default_redaction_reload_interval = 10 * nanos"

definition read_settings ::
    "config_deps \<Rightarrow> environment \<Rightarrow> string \<Rightarrow> string option \<Rightarrow> bool \<Rightarrow> config \<times> string list" where
  "read_settings dp e connector_id upstream_ca enabled =
     (let disabled = get_env_bool e ''TRAVERSAL_DISABLE_TELEMETRY'' False;
          (redactions, errs1) = reader_int e [] ''TRAVERSAL_REDACTION_MAX_CONCURRENT''
            default_max_concurrent_redactions max_concurrent_redactions;
          (lifetime, errs2) = reader_duration (cd_duration dp) e errs1 ''TRAVERSAL_UNCOVERED_STREAM_MAX_LIFETIME''
            default_uncovered_stream_max_lifetime in
      (\<lparr>cf_http_port = get_env_string e ''HTTP_PORT'' ''8080'',
        cf_controller_url = e ''TRAVERSAL_CONTROLLER_URL'',
        cf_controller_connect_to = get_env_string e ''TRAVERSAL_CONTROLLER_CONNECT_TO'' [],
        cf_env_name = e ''ENV_NAME'',
        cf_env_level = get_env_string e ''ENV_LEVEL'' env_level_development,
        cf_client = \<lparr>
          cfg_request_timeout = get_env_duration (cd_duration dp) e ''REQUEST_TIMEOUT'' default_request_timeout,
          cfg_max_request_mb = get_env_int64 e ''MAX_REQUEST_BODY_SIZE_MB'' default_body_size_mb,
          cfg_max_response_mb = get_env_int64 e ''MAX_RESPONSE_BODY_SIZE_MB'' default_body_size_mb,
          cfg_max_decoded_mb = get_env_int64 e ''MAX_DECODED_RESPONSE_BODY_SIZE_MB'' default_decoded_body_size_mb,
          cfg_stream_max_lifetime = lifetime,
          cfg_max_redactions = redactions\<rparr>,
        cf_egress_proxy_url = get_env_optional_string e ''EGRESS_PROXY_URL'',
        cf_tls_cert = decode_certificate (get_env_optional_string e ''TLS_CERT_BASE64''),
        cf_tls_key = decode_certificate (get_env_optional_string e ''TLS_KEY_BASE64''),
        cf_tls_ca = decode_certificate (get_env_optional_string e ''TLS_CA_BASE64''),
        cf_connector_id = connector_id,
        cf_otel_service_name = get_env_string e ''OTEL_SERVICE_NAME'' ''traversal-connector'',
        cf_metrics_endpoint = get_env_string e ''OTEL_EXPORTER_OTLP_METRICS_ENDPOINT'' [],
        cf_traces_endpoint = get_env_string e ''OTEL_EXPORTER_OTLP_TRACES_ENDPOINT'' [],
        cf_logs_endpoint = get_env_string e ''OTEL_EXPORTER_OTLP_LOGS_ENDPOINT'' [],
        cf_otlp_protocol = get_env_string e ''OTEL_EXPORTER_OTLP_PROTOCOL'' [],
        cf_otlp_connect_to = (if disabled then [] else get_env_string e ''OTEL_EXPORTER_OTLP_CONNECT_TO'' []),
        cf_disable_telemetry = disabled,
        cf_upstream_tls_verify = get_env_bool e ''UPSTREAM_TLS_VERIFY'' True,
        cf_upstream_tls_ca = upstream_ca,
        cf_config_enabled = enabled,
        cf_config_refresh_interval = get_env_duration (cd_duration dp) e ''TRAVERSAL_CONFIG_REFRESH_INTERVAL''
          default_config_refresh_interval,
        cf_redaction_rules_file = get_env_optional_string e ''REDACTION_RULES_FILE'',
        cf_redaction_reload_interval = default_redaction_reload_interval\<rparr>,
       errs2))"

text \<open>What follows the literal: the strict errors, the local file's interval, the three policies.\<close>

definition reload_interval_setting :: "config_deps \<Rightarrow> environment \<Rightarrow> config \<Rightarrow> config_error + config" where
  "reload_interval_setting dp e cfg =
     (if cf_redaction_rules_file cfg = None \<or> e ''REDACTION_RELOAD_INTERVAL'' = [] then Ok cfg
      else (case cd_duration dp (e ''REDACTION_RELOAD_INTERVAL'') of
          None \<Rightarrow> Err (NotPositive ''REDACTION_RELOAD_INTERVAL'')
        | Some d \<Rightarrow>
            if d \<le> 0 then Err (NotPositive ''REDACTION_RELOAD_INTERVAL'')
            else Ok (cfg\<lparr>cf_redaction_reload_interval := d\<rparr>)))"

definition check_policies :: "config_deps \<Rightarrow> config \<Rightarrow> config_error + config" where
  "check_policies dp cfg =
     (case validate_remote_config (cd_uuid dp) cfg of
        Some err \<Rightarrow> Err err
      | None \<Rightarrow>
          (case validate_controller_connection (cd_url dp) (cd_key_pair dp) cfg of
             Some err \<Rightarrow> Err err
           | None \<Rightarrow> apply_telemetry_policy (cd_url dp) cfg))"

definition finish_load :: "config_deps \<Rightarrow> environment \<Rightarrow> config \<times> string list \<Rightarrow> config_error + config" where
  "finish_load dp e read =
     (case reader_err (snd read) of
        Some keys \<Rightarrow> Err (InvalidSettings keys)
      | None \<Rightarrow>
          if e ''TRAVERSAL_CONFIG_ENDPOINT'' \<noteq> [] then Err (NoLongerSupported ''TRAVERSAL_CONFIG_ENDPOINT'')
          else (case reload_interval_setting dp e (fst read) of
              Inl err \<Rightarrow> Err err
            | Inr cfg \<Rightarrow> check_policies dp cfg))"

text \<open>What precedes it: the required settings and the addresses to connect to.\<close>

definition check_connect_to :: "environment \<Rightarrow> config_error option" where
  "check_connect_to e =
     (let controller = get_env_string e ''TRAVERSAL_CONTROLLER_CONNECT_TO'' [];
          disabled = get_env_bool e ''TRAVERSAL_DISABLE_TELEMETRY'' False;
          otlp = (if disabled then [] else get_env_string e ''OTEL_EXPORTER_OTLP_CONNECT_TO'' []) in
      if get_env_string e ''EGRESS_PROXY_URL'' [] \<noteq> [] \<and> (controller \<noteq> [] \<or> otlp \<noteq> []) then Some ProxyWithConnectTo
      else (case validate_connect_to ''TRAVERSAL_CONTROLLER_CONNECT_TO'' controller of
          Some err \<Rightarrow> Some err
        | None \<Rightarrow> validate_connect_to ''OTEL_EXPORTER_OTLP_CONNECT_TO'' otlp))"

definition load_from :: "config_deps \<Rightarrow> environment \<Rightarrow> config_error + config" where
  "load_from dp e =
     (if e ''ENV_NAME'' = [] then Err (Required ''ENV_NAME'')
      else if e ''TRAVERSAL_CONTROLLER_URL'' = [] then Err (Required ''TRAVERSAL_CONTROLLER_URL'')
      else if e ''TRAVERSAL_CONNECTOR_ID'' = [] then Err (Required ''TRAVERSAL_CONNECTOR_ID'')
      else (case check_connect_to e of
          Some err \<Rightarrow> Err err
        | None \<Rightarrow>
            (case load_upstream_tls_ca (cd_file dp) e of
               Inl err \<Rightarrow> Err err
             | Inr ca \<Rightarrow>
                 (case config_enabled_setting e of
                    Inl err \<Rightarrow> Err err
                  | Inr enabled \<Rightarrow>
                      finish_load dp e (read_settings dp e
                        (trim_set [CHR 0x22, CHR 0x27] (e ''TRAVERSAL_CONNECTOR_ID'')) ca enabled)))))"

definition load :: "config_deps \<Rightarrow> process_env \<Rightarrow> config_error + config" where
  "load dp pe = (case load_env_files dp pe of Inl err \<Rightarrow> Err err | Inr pe' \<Rightarrow> load_from dp (getenv pe'))"

section \<open>What a loaded configuration satisfies\<close>

definition controller_ok :: "config_deps \<Rightarrow> config \<Rightarrow> bool" where
  "controller_ok dp cfg \<longleftrightarrow>
     (\<exists>u. cd_url dp (cf_controller_url cfg) = Ok u \<and>
        (url_scheme u = ''https'' \<and>
           (\<exists>cert key. cf_tls_cert cfg = Some cert \<and> cf_tls_key cfg = Some key \<and> cd_key_pair dp cert key) \<or>
         url_scheme u = ''http'' \<and> cf_env_level cfg = ''development''))"

definition endpoint_ok :: "config_deps \<Rightarrow> string \<Rightarrow> bool" where
  "endpoint_ok dp endpoint \<longleftrightarrow>
     (\<exists>u. cd_url dp endpoint = Ok u \<and> url_hostname u \<noteq> [] \<and>
        (url_scheme u = ''https'' \<or> url_scheme u = ''http'' \<and> is_loopback_host (url_hostname u)))"

definition telemetry_ok :: "config_deps \<Rightarrow> config \<Rightarrow> bool" where
  "telemetry_ok dp cfg \<longleftrightarrow>
     (if cf_disable_telemetry cfg then
        cf_metrics_endpoint cfg = [] \<and> cf_traces_endpoint cfg = [] \<and> cf_logs_endpoint cfg = [] \<and> cf_otlp_connect_to cfg = []
      else cf_env_level cfg = ''development'' \<or>
        endpoint_ok dp (cf_metrics_endpoint cfg) \<and> endpoint_ok dp (cf_traces_endpoint cfg) \<and>
        endpoint_ok dp (cf_logs_endpoint cfg))"

definition connect_to_ok :: "config \<Rightarrow> bool" where
  "connect_to_ok cfg \<longleftrightarrow>
     (cf_egress_proxy_url cfg \<noteq> None \<longrightarrow> cf_controller_connect_to cfg = [] \<and> cf_otlp_connect_to cfg = []) \<and>
     (\<forall>a \<in> {cf_controller_connect_to cfg, cf_otlp_connect_to cfg}. a \<noteq> [] \<longrightarrow>
        (\<exists>host port n. split_host_port a = Some (host, port) \<and> host \<noteq> [] \<and>
           parse_int64 port = Some n \<and> 1 \<le> sint n \<and> sint n \<le> 65535))"

definition remote_ok :: "config_deps \<Rightarrow> config \<Rightarrow> bool" where
  "remote_ok dp cfg \<longleftrightarrow>
     (cf_config_enabled cfg \<longrightarrow>
        0 < cf_config_refresh_interval cfg \<and> cf_config_refresh_interval cfg \<le> 24 * 60 * 60 * nanos \<and>
        cd_uuid dp (cf_connector_id cfg) = Some (cf_connector_id cfg))"

definition limits_ok :: "config \<Rightarrow> bool" where
  "limits_ok cfg \<longleftrightarrow>
     1 \<le> sint (cfg_max_redactions (cf_client cfg)) \<and> sint (cfg_max_redactions (cf_client cfg)) \<le> 1024 \<and>
     0 \<le> cfg_stream_max_lifetime (cf_client cfg) \<and> 0 < cf_redaction_reload_interval cfg"

definition config_ok :: "config_deps \<Rightarrow> config \<Rightarrow> bool" where
  "config_ok dp cfg \<longleftrightarrow>
     cf_env_name cfg \<noteq> [] \<and> controller_ok dp cfg \<and> telemetry_ok dp cfg \<and> connect_to_ok cfg \<and>
     remote_ok dp cfg \<and> limits_ok cfg"

lemma validate_controller_None:
  "validate_controller_connection (cd_url dp) (cd_key_pair dp) cfg = None \<Longrightarrow> controller_ok dp cfg"
  by (auto simp: validate_controller_connection_def controller_ok_def is_dev_def env_level_development_def
      split: sum.splits option.splits if_splits)

lemma validate_remote_None: "validate_remote_config (cd_uuid dp) cfg = None \<Longrightarrow> remote_ok dp cfg"
  by (auto simp: validate_remote_config_def remote_ok_def split: if_splits)

lemma endpoint_error_None: "endpoint_error (cd_url dp) var endpoint = None \<Longrightarrow> endpoint_ok dp endpoint"
  by (auto simp: endpoint_error_def endpoint_ok_def split: sum.splits if_splits)

lemma valid_port_bounds: "valid_port_text p \<Longrightarrow> \<exists>n. parse_int64 p = Some n \<and> 1 \<le> sint n \<and> sint n \<le> 65535"
  by (auto simp: valid_port_text_def max_tcp_port_def word_sless_alt split: option.splits)

lemma validate_connect_to_None:
  assumes "validate_connect_to var a = None" and "a \<noteq> []"
  shows "\<exists>host port n. split_host_port a = Some (host, port) \<and> host \<noteq> [] \<and>
           parse_int64 port = Some n \<and> 1 \<le> sint n \<and> sint n \<le> 65535"
  using assms by (auto simp: validate_connect_to_def dest!: valid_port_bounds split: option.splits if_splits)

text \<open>The telemetry policy touches nothing but the telemetry settings, and only to clear them.\<close>

lemma apply_telemetry_policy_Ok:
  assumes "apply_telemetry_policy (cd_url dp) cfg = Ok cfg'"
  shows "telemetry_ok dp cfg'"
    and "cf_disable_telemetry cfg' = cf_disable_telemetry cfg"
    and "cf_otlp_connect_to cfg' \<in> {cf_otlp_connect_to cfg, []}"
    and "controller_ok dp cfg' = controller_ok dp cfg" and "remote_ok dp cfg' = remote_ok dp cfg"
    and "limits_ok cfg' = limits_ok cfg" and "cf_env_name cfg' = cf_env_name cfg"
    and "cf_egress_proxy_url cfg' = cf_egress_proxy_url cfg"
    and "cf_controller_connect_to cfg' = cf_controller_connect_to cfg"
  using assms
  by (auto simp: apply_telemetry_policy_def telemetry_ok_def controller_ok_def remote_ok_def limits_ok_def
      is_dev_def env_level_development_def dest: endpoint_error_None split: if_splits option.splits)

lemma reader_int_ok:
  assumes "reader_int e errs key dflt max_val = (n, [])" and "1 \<le> sint dflt" and "sint dflt \<le> sint max_val"
  shows "1 \<le> sint n \<and> sint n \<le> sint max_val"
  using assms by (auto simp: reader_int_def word_sless_alt split: if_splits option.splits)

lemma reader_duration_ok:
  assumes "reader_duration pd e errs key dflt = (d, [])" and "0 \<le> dflt"
  shows "0 \<le> d" and "errs = []"
  using assms by (auto simp: reader_duration_def split: if_splits option.splits)

lemma strict_defaults:
  "1 \<le> sint default_max_concurrent_redactions"
  "sint default_max_concurrent_redactions \<le> sint max_concurrent_redactions"
  "sint max_concurrent_redactions = 1024" "0 \<le> default_uncovered_stream_max_lifetime"
  "0 < default_redaction_reload_interval"
  by (simp_all add: default_max_concurrent_redactions_def max_concurrent_redactions_def
      default_uncovered_stream_max_lifetime_def default_redaction_reload_interval_def nanos_def)

lemma read_settings_limits:
  assumes "read_settings dp e i ca enabled = (cfg, [])"
  shows "limits_ok cfg"
proof -
  obtain n errs1 where n: "reader_int e [] ''TRAVERSAL_REDACTION_MAX_CONCURRENT''
      default_max_concurrent_redactions max_concurrent_redactions = (n, errs1)" by (metis prod.exhaust)
  obtain d errs2 where d: "reader_duration (cd_duration dp) e errs1 ''TRAVERSAL_UNCOVERED_STREAM_MAX_LIFETIME''
      default_uncovered_stream_max_lifetime = (d, errs2)" by (metis prod.exhaust)
  have c: "errs2 = []" "cfg_max_redactions (cf_client cfg) = n" "cfg_stream_max_lifetime (cf_client cfg) = d"
    "cf_redaction_reload_interval cfg = default_redaction_reload_interval"
    using assms n d by (auto simp: read_settings_def Let_def)
  have "0 \<le> d" "errs1 = []" using reader_duration_ok [OF d [unfolded c(1)]] by (simp_all add: strict_defaults)
  with n c strict_defaults reader_int_ok show ?thesis unfolding limits_ok_def by fastforce
qed

lemma read_settings_fields:
  "cf_env_name (fst (read_settings dp e i ca b)) = e ''ENV_NAME''"
  "cf_controller_connect_to (fst (read_settings dp e i ca b)) =
     get_env_string e ''TRAVERSAL_CONTROLLER_CONNECT_TO'' []"
  "cf_otlp_connect_to (fst (read_settings dp e i ca b)) =
     (if get_env_bool e ''TRAVERSAL_DISABLE_TELEMETRY'' False then []
      else get_env_string e ''OTEL_EXPORTER_OTLP_CONNECT_TO'' [])"
  "cf_egress_proxy_url (fst (read_settings dp e i ca b)) = get_env_optional_string e ''EGRESS_PROXY_URL''"
  "cf_controller_url (fst (read_settings dp e i ca b)) = e ''TRAVERSAL_CONTROLLER_URL''"
  "cf_env_level (fst (read_settings dp e i ca b)) = get_env_string e ''ENV_LEVEL'' env_level_development"
  "cf_tls_cert (fst (read_settings dp e i ca b)) = decode_certificate (get_env_optional_string e ''TLS_CERT_BASE64'')"
  "cf_tls_key (fst (read_settings dp e i ca b)) = decode_certificate (get_env_optional_string e ''TLS_KEY_BASE64'')"
  "cf_connector_id (fst (read_settings dp e i ca b)) = i"
  "cf_disable_telemetry (fst (read_settings dp e i ca b)) = get_env_bool e ''TRAVERSAL_DISABLE_TELEMETRY'' False"
  "cf_metrics_endpoint (fst (read_settings dp e i ca b)) = get_env_string e ''OTEL_EXPORTER_OTLP_METRICS_ENDPOINT'' []"
  "cf_traces_endpoint (fst (read_settings dp e i ca b)) = get_env_string e ''OTEL_EXPORTER_OTLP_TRACES_ENDPOINT'' []"
  "cf_logs_endpoint (fst (read_settings dp e i ca b)) = get_env_string e ''OTEL_EXPORTER_OTLP_LOGS_ENDPOINT'' []"
  "cf_config_enabled (fst (read_settings dp e i ca b)) = b"
  "cf_config_refresh_interval (fst (read_settings dp e i ca b)) =
     get_env_duration (cd_duration dp) e ''TRAVERSAL_CONFIG_REFRESH_INTERVAL'' default_config_refresh_interval"
  "cf_redaction_rules_file (fst (read_settings dp e i ca b)) = get_env_optional_string e ''REDACTION_RULES_FILE''"
  by (simp_all add: read_settings_def Let_def case_prod_unfold)

lemma check_connect_to_None:
  assumes "check_connect_to e = None"
  shows "connect_to_ok (fst (read_settings dp e i ca b))"
  using assms unfolding connect_to_ok_def read_settings_fields
  by (auto simp: check_connect_to_def get_env_string_def get_env_optional_string_def Let_def
      dest!: validate_connect_to_None split: if_splits option.splits)

lemma connect_to_cleared:
  assumes "connect_to_ok c" and "cf_egress_proxy_url c' = cf_egress_proxy_url c"
    and "cf_controller_connect_to c' = cf_controller_connect_to c" and "cf_otlp_connect_to c' \<in> {cf_otlp_connect_to c, []}"
  shows "connect_to_ok c'"
  using assms unfolding connect_to_ok_def by auto

lemma check_policies_Ok:
  assumes "check_policies dp cfg = Ok cfg'" and "limits_ok cfg" and "connect_to_ok cfg" and "cf_env_name cfg \<noteq> []"
  shows "config_ok dp cfg'"
proof -
  have v: "validate_remote_config (cd_uuid dp) cfg = None"
    "validate_controller_connection (cd_url dp) (cd_key_pair dp) cfg = None"
    "apply_telemetry_policy (cd_url dp) cfg = Ok cfg'"
    using assms(1) by (auto simp: check_policies_def split: option.splits)
  note t = apply_telemetry_policy_Ok [OF v(3)]
  have "connect_to_ok cfg'" using connect_to_cleared [OF assms(3) t(8) t(9) t(3)] .
  with t assms v show ?thesis
    unfolding config_ok_def by (simp add: validate_remote_None validate_controller_None)
qed

lemma reload_interval_setting_Ok:
  assumes "reload_interval_setting dp e cfg = Ok cfg'"
  shows "limits_ok cfg \<Longrightarrow> limits_ok cfg'" and "connect_to_ok cfg' = connect_to_ok cfg"
    and "cf_env_name cfg' = cf_env_name cfg"
  using assms
  by (auto simp: reload_interval_setting_def limits_ok_def connect_to_ok_def split: if_splits option.splits)

lemma load_from_ok:
  assumes "load_from dp e = Ok cfg"
  shows "config_ok dp cfg"
proof -
  obtain i ca b where f: "finish_load dp e (read_settings dp e i ca b) = Ok cfg"
    and n: "e ''ENV_NAME'' \<noteq> []" and c: "check_connect_to e = None"
    using assms by (auto simp: load_from_def split: if_splits option.splits sum.splits)
  obtain c0 where r: "read_settings dp e i ca b = (c0, [])"
    using f by (cases "read_settings dp e i ca b") (auto simp: finish_load_def reader_err_def split: if_splits)
  obtain c1 where p: "reload_interval_setting dp e c0 = Ok c1" "check_policies dp c1 = Ok cfg"
    using f r by (auto simp: finish_load_def reader_err_def split: if_splits sum.splits)
  note s = reload_interval_setting_Ok [OF p(1)]
  have "connect_to_ok c0" "cf_env_name c0 \<noteq> []"
    using check_connect_to_None [OF c, of dp i ca b] read_settings_fields(1) [of dp e i ca b] n r by simp_all
  then show ?thesis
    using check_policies_Ok [OF p(2)] s read_settings_limits [OF r] by simp
qed

text \<open>
  C26. Every configuration Load accepts is well formed: the controller is reached by https with a
  valid client key pair, or by http in development only; telemetry is off with all its endpoints
  cleared, or in development, or each endpoint is https, or http on loopback; an address to connect
  to is a host and a port from 1 to 65535, and none is set along with a proxy; with remote
  configuration the interval is in (0, 24h] and the connector's id is the canonical uuid; at most
  1024 redactions at once, at least one.
\<close>

theorem load_config_ok:
  assumes "load dp pe = Ok cfg"
  shows "config_ok dp cfg"
  using assms by (auto simp: load_def load_from_ok split: sum.splits)

text \<open>A production environment; the key of its client certificate comes in base64.\<close>

definition prod_env :: process_env where
  "prod_env = map_of
     [(''ENV_NAME'', ''prod''), (''ENV_LEVEL'', ''production''), (''TRAVERSAL_CONTROLLER_URL'', ''https://c''),
      (''TRAVERSAL_CONNECTOR_ID'', [CHR 0x22, CHR ''c'', CHR 0x22]), (''TLS_CERT_BASE64'', ''-----BEGIN c''),
      (''TLS_KEY_BASE64'', b64std_enc ''-----BEGIN k''), (''TRAVERSAL_CONFIG_ENABLED'', ''t''),
      (''OTEL_EXPORTER_OTLP_METRICS_ENDPOINT'', ''https://o''), (''OTEL_EXPORTER_OTLP_TRACES_ENDPOINT'', ''https://o''),
      (''OTEL_EXPORTER_OTLP_LOGS_ENDPOINT'', ''http://l''), (''TRAVERSAL_CONTROLLER_CONNECT_TO'', ''h:443''),
      (''TRAVERSAL_CAPABILITY_KEYS'', ''K''), (''TRAVERSAL_CAPABILITY_ISSUER'', ''traversal-raw-tunnel/dev''), (''TRAVERSAL_CONFIG_KEYS'', ''K''),
      (''TRAVERSAL_PIPES_FORBIDDEN_CIDRS'', ''10.0.0.0/8''), (''TRAVERSAL_PIPES_MAX'', ''9'')]"

definition prod_url :: "string \<Rightarrow> string \<Rightarrow> url" where
  "prod_url scheme host = \<lparr>url_scheme = scheme, url_user = False, url_host = host, url_path = [],
     url_raw_query = [], url_fragment = []\<rparr>"

definition prod_deps :: config_deps where
  "prod_deps = \<lparr>cd_dotenv = (\<lambda>p e. None), cd_file = (\<lambda>p. None),
     cd_url = (\<lambda>s. if s = ''https://c'' then Ok (prod_url ''https'' ''c'')
       else if s = ''https://o'' then Ok (prod_url ''https'' ''o'')
       else if s = ''http://l'' then Ok (prod_url ''http'' ''LocalHost.:4317'') else Err ''parse''),
     cd_duration = (\<lambda>s. None), cd_uuid = (\<lambda>s. if s = ''c'' then Some s else None),
     cd_key_pair = (\<lambda>c k. c = ''-----BEGIN c'' \<and> k = ''-----BEGIN k'')\<rparr>"

lemma getenv_set:
  "getenv prod_env ''ENV_NAME'' = ''prod''"
  "getenv prod_env ''ENV_LEVEL'' = ''production''"
  "getenv prod_env ''TRAVERSAL_CONTROLLER_URL'' = ''https://c''"
  "getenv prod_env ''TRAVERSAL_CONNECTOR_ID'' = [CHR 0x22, CHR ''c'', CHR 0x22]"
  "getenv prod_env ''TLS_CERT_BASE64'' = ''-----BEGIN c''"
  "getenv prod_env ''TLS_KEY_BASE64'' = b64std_enc ''-----BEGIN k''"
  "getenv prod_env ''TRAVERSAL_CONFIG_ENABLED'' = ''t''"
  "getenv prod_env ''OTEL_EXPORTER_OTLP_METRICS_ENDPOINT'' = ''https://o''"
  "getenv prod_env ''OTEL_EXPORTER_OTLP_TRACES_ENDPOINT'' = ''https://o''"
  "getenv prod_env ''OTEL_EXPORTER_OTLP_LOGS_ENDPOINT'' = ''http://l''"
  "getenv prod_env ''TRAVERSAL_CONTROLLER_CONNECT_TO'' = ''h:443''"
  "getenv prod_env ''TRAVERSAL_CAPABILITY_KEYS'' = ''K''"
  "getenv prod_env ''TRAVERSAL_CAPABILITY_ISSUER'' = ''traversal-raw-tunnel/dev''"
  "getenv prod_env ''TRAVERSAL_CONFIG_KEYS'' = ''K''"
  "getenv prod_env ''TRAVERSAL_PIPES_FORBIDDEN_CIDRS'' = ''10.0.0.0/8''"
  "getenv prod_env ''TRAVERSAL_PIPES_MAX'' = ''9''"
  by (simp_all add: getenv_def prod_env_def)

lemma getenv_unset:
  "getenv prod_env ''ENV_FILE'' = []"
  "getenv prod_env ''TRAVERSAL_DISABLE_TELEMETRY'' = []"
  "getenv prod_env ''TRAVERSAL_REDACTION_MAX_CONCURRENT'' = []"
  "getenv prod_env ''TRAVERSAL_UNCOVERED_STREAM_MAX_LIFETIME'' = []"
  "getenv prod_env ''EGRESS_PROXY_URL'' = []"
  "getenv prod_env ''UPSTREAM_TLS_CA_BASE64'' = []"
  "getenv prod_env ''UPSTREAM_TLS_CA_FILE'' = []"
  "getenv prod_env ''OTEL_EXPORTER_OTLP_CONNECT_TO'' = []"
  "getenv prod_env ''TRAVERSAL_CONFIG_REFRESH_INTERVAL'' = []"
  "getenv prod_env ''REDACTION_RULES_FILE'' = []"
  "getenv prod_env ''TRAVERSAL_CONFIG_ENDPOINT'' = []"
  "getenv prod_env ''TRAVERSAL_CAPABILITY_ROOTS'' = []"
  "getenv prod_env ''TRAVERSAL_PIPES_EGRESS_PROXY'' = []"
  "getenv prod_env ''TRAVERSAL_PIPES_EGRESS_PROXY_RESOLVES'' = []"
  "getenv prod_env ''TRAVERSAL_PIPES_MAX_LIFETIME'' = []"
  "getenv prod_env ''TRAVERSAL_PIPES_MAX_STREAMS'' = []"
  "getenv prod_env ''TRAVERSAL_PIPES_STREAM_WINDOW_KB'' = []"
  "getenv prod_env ''TRAVERSAL_PIPES_CONNECTION_WINDOW_KB'' = []"
  "getenv prod_env ''TRAVERSAL_PIPES_IDLE_TIMEOUT'' = []"
  "getenv prod_env ''TRAVERSAL_TUNNELS_COUNT'' = []"
  "getenv prod_env ''TRAVERSAL_TUNNELS_CONNECT_TO'' = []"
  by (code_simp)+

lemmas getenv_example = getenv_set getenv_unset

lemma prod_ports: "valid_port_text ''443''" "valid_port_text ''4317''"
  by (simp_all add: valid_port_text_def parse_int64_def parse_uint_def max_tcp_port_def word_sless_alt
      is_digit_def char_class_defs digit_val_def Let_def)

lemma prod_texts:
  "split_host_port ''h:443'' = Some (''h'', ''443'')" "trim_space ''h'' = ''h''" "trim_space ''443'' = ''443''"
  "is_loopback_host ''LocalHost.''" "decode_pem (b64std_enc ''-----BEGIN k'') = ''-----BEGIN k''"
  "decode_pem ''-----BEGIN c'' = ''-----BEGIN c''" "b64std_enc ''-----BEGIN k'' \<noteq> []"
  "trim_set [CHR 0x22, CHR 0x27] [CHR 0x22, CHR ''c'', CHR 0x22] = ''c''" "parse_bool ''t'' = Some True"
  by code_simp+

lemma prod_urls:
  "url_hostname (prod_url ''http'' ''LocalHost.:4317'') = ''LocalHost.''"
  "url_port (prod_url ''http'' ''LocalHost.:4317'') = ''4317''"
  "url_hostname (prod_url ''https'' ''o'') = ''o''" "url_port (prod_url ''https'' ''o'') = []"
  "url_scheme (prod_url s h) = s"
  by (code_simp | simp add: prod_url_def)+

lemma prod_connect_to: "check_connect_to (getenv prod_env) = None"
  by (simp add: check_connect_to_def getenv_example get_env_string_def get_env_bool_def validate_connect_to_def
      prod_ports prod_texts contains_str.simps has_prefix_def)

definition prod_config :: config where
  "prod_config = fst (read_settings prod_deps (getenv prod_env) ''c'' None True)"

lemma prod_read:
  "cf_controller_url prod_config = ''https://c''" "cf_env_level prod_config = ''production''"
  "cf_tls_cert prod_config = Some ''-----BEGIN c''" "cf_tls_key prod_config = Some ''-----BEGIN k''"
  "cf_connector_id prod_config = ''c''" "cf_disable_telemetry prod_config = False"
  "cf_metrics_endpoint prod_config = ''https://o''" "cf_traces_endpoint prod_config = ''https://o''"
  "cf_logs_endpoint prod_config = ''http://l''" "cf_config_enabled prod_config = True"
  "cf_config_refresh_interval prod_config = 30 * nanos" "cf_redaction_rules_file prod_config = None"
  by (simp_all add: prod_config_def read_settings_fields getenv_example get_env_string_def get_env_bool_def
      get_env_optional_string_def get_env_duration_def decode_certificate_def prod_texts
      default_config_refresh_interval_def)

lemma prod_strict: "snd (read_settings prod_deps (getenv prod_env) ''c'' None True) = []"
  by (simp add: read_settings_def Let_def case_prod_unfold reader_int_def reader_duration_def getenv_example)

lemma prod_policies: "check_policies prod_deps prod_config = Ok prod_config"
  by (simp add: check_policies_def validate_remote_config_def validate_controller_connection_def
      apply_telemetry_policy_def endpoint_error_def prod_read prod_urls prod_texts prod_ports
      prod_deps_def is_dev_def env_level_development_def nanos_def)

lemma prod_env_files: "load_env_files prod_deps prod_env = Ok prod_env"
  by (simp add: load_env_files_def get_env_optional_string_def getenv_example prod_deps_def)

lemma prod_load_from: "load_from prod_deps (getenv prod_env) = Ok prod_config"
proof -
  have "load_upstream_tls_ca (cd_file prod_deps) (getenv prod_env) = Ok None"
    by (simp add: load_upstream_tls_ca_def get_env_optional_string_def getenv_example decode_certificate_def)
  moreover have "config_enabled_setting (getenv prod_env) = Ok True"
    by (simp add: config_enabled_setting_def getenv_example prod_texts)
  moreover have "finish_load prod_deps (getenv prod_env)
      (read_settings prod_deps (getenv prod_env) ''c'' None True) = Ok prod_config"
    using prod_read prod_strict prod_policies
    by (simp add: finish_load_def reader_err_def reload_interval_setting_def getenv_example
        flip: prod_config_def)
  moreover have "getenv prod_env ''ENV_NAME'' \<noteq> []" "getenv prod_env ''TRAVERSAL_CONTROLLER_URL'' \<noteq> []"
    "getenv prod_env ''TRAVERSAL_CONNECTOR_ID'' = [CHR 0x22, CHR ''c'', CHR 0x22]"
    by (simp_all add: getenv_example)
  ultimately show ?thesis
    by (simp add: load_from_def prod_connect_to prod_texts)
qed

lemma prod_loads: "load prod_deps prod_env = Ok prod_config"
  by (simp add: load_def prod_env_files prod_load_from)

theorem load_config_ok_witness:
  "load prod_deps prod_env = Ok prod_config \<and> config_ok prod_deps prod_config"
  using load_config_ok [OF prod_loads] prod_loads by simp

text \<open>
  A certificate or key may be given as PEM or as the base64 of the PEM, wrapped into lines or
  not: both read as the same PEM. So two configurations that differ only in that are the same.
\<close>

theorem pem_either_form:
  assumes "has_prefix ''-----BEGIN'' pem"
    and "filter (\<lambda>c. c \<notin> {CHR 0x0A, CHR 0x0D}) wrapped = b64std_enc pem"
  shows "decode_pem wrapped = pem \<and> decode_certificate (Some wrapped) = decode_certificate (Some pem)"
proof -
  have raw: "decode_pem pem = pem" using assms(1) by (simp add: decode_pem_def pem_prefix_def)
  have d: "b64_decode False True False wrapped = Some pem"
    using assms(2) by (simp add: b64_decode_encode b64std_enc_def)
  have "\<not> has_prefix pem_prefix wrapped"
  proof
    assume "has_prefix pem_prefix wrapped"
    then have "CHR ''-'' \<in> set wrapped" by (cases wrapped) (auto simp: has_prefix_def pem_prefix_def split: if_splits)
    then have "CHR ''-'' \<in> set (b64std_enc pem)" unfolding assms(2) [symmetric] by simp
    then show False using b64_encode_padded [of False pem] b64_encode_chars [of False "CHR ''-''" False pem]
      by (auto simp: b64std_enc_def b64_alphabet_def char_class_defs)
  qed
  with d have "decode_pem wrapped = pem" by (simp add: decode_pem_def)
  with raw show ?thesis by (simp add: decode_certificate_def)
qed

theorem pem_either_form_witness:
  "decode_pem (take 8 (b64std_enc ''-----BEGIN k'') @ CHR 0x0A # drop 8 (b64std_enc ''-----BEGIN k'')) = ''-----BEGIN k''"
  by (rule conjunct1 [OF pem_either_form]) code_simp+

end
