(* ===== verification/HttpConnect.thy ===== *)
theory HttpConnect
  imports Rawpipe
begin

text \<open>
  connector-lib/httpconnect: a tunnel through an HTTP forward proxy with CONNECT. The dial, the
  write of the request, the answer read, the end of the context and the deadline reset are inputs.
\<close>

definition proxy_addr :: "url \<Rightarrow> string" where
  "proxy_addr u =
     (if url_port u \<noteq> [] then url_host u else join_host_port (url_hostname u) ''80'')"

text \<open>
  Dial: the tunnel, or the proxy's answer (only for a status other than 200) with the errors. The
  inputs after the proxy are the dial's error, the error of writing the request, the answer or the
  error of reading it, and the context's error if it ended before the exchange was over.
\<close>

datatype dial_error = NotHttpProxy | TcpFailed string | WriteFailed string | ReadFailed string
  | ProxyRefused nat | ContextDone string

definition connect_proxy ::
    "url \<Rightarrow> string option \<Rightarrow> string option \<Rightarrow> string + response \<Rightarrow> string option \<Rightarrow>
     (response option \<times> dial_error list) + unit" where
  "connect_proxy proxy dial_err write_err answer ctx_err =
     (if url_scheme proxy \<noteq> ''http'' then Err (None, [NotHttpProxy])
      else case dial_err of
        Some e \<Rightarrow> Err (None, [TcpFailed e])
      | None \<Rightarrow>
          let (resp, err) = (case write_err of
                Some e \<Rightarrow> (None, Some (WriteFailed e))
              | None \<Rightarrow> (case answer of
                  Inl e \<Rightarrow> (None, Some (ReadFailed e))
                | Inr r \<Rightarrow> (Some r, if resp_status r \<noteq> status_ok then Some (ProxyRefused (resp_status r)) else None)))
          in if err \<noteq> None \<or> ctx_err \<noteq> None then
               Err (case resp of Some r \<Rightarrow> if resp_status r = status_ok then None else Some r | None \<Rightarrow> None,
                    (case err of Some e \<Rightarrow> [e] | None \<Rightarrow> []) @
                    (case ctx_err of Some c \<Rightarrow> [ContextDone c] | None \<Rightarrow> []))
             else Ok ())"

text \<open>The Proxy-Authorization header, with base64 as the parameter \<open>b64std\<close>.\<close>

definition connect_header :: "(string \<Rightarrow> string) \<Rightarrow> (string \<times> string) option \<Rightarrow> header \<Rightarrow> header" where
  "connect_header b64std user h =
     (case user of
        None \<Rightarrow> h
      | Some (u, pw) \<Rightarrow> hset ''Proxy-Authorization'' (''Basic '' @ b64std (u @ '':'' @ pw)) h)"

definition error_param :: string where "error_param = ''error=''"
definition header_proxy_status :: string where "header_proxy_status = ''Proxy-Status''"

definition set_refusal :: "header \<Rightarrow> string \<Rightarrow> header" where
  "set_refusal h reason =
     hset header_proxy_status (''traversal-integration-proxy; '' @ error_param @ reason) h"

text \<open>strings.Cut with a separator of several bytes: what follows its first occurrence, if any.\<close>

fun cut_str :: "string \<Rightarrow> string \<Rightarrow> string option" where
  "cut_str sep [] = cut_prefix sep []"
| "cut_str sep (c # cs) =
     (case cut_prefix sep (c # cs) of Some t \<Rightarrow> Some t | None \<Rightarrow> cut_str sep cs)"

definition refusal_reason_text :: "response option \<Rightarrow> string" where
  "refusal_reason_text resp =
     (case resp of
        None \<Rightarrow> []
      | Some r \<Rightarrow> (case cut_str error_param (hget (resp_header r) header_proxy_status) of
          None \<Rightarrow> []
        | Some t \<Rightarrow> fst (cut_at (CHR '';'') t)))"

lemma connect_proxy_answer:
  assumes "connect_proxy p d w a c = Err (Some r, es)"
  shows "resp_status r \<noteq> status_ok" "a = Ok r" "es \<noteq> []"
  using assms
  by (auto simp: connect_proxy_def Let_def split: if_splits option.splits sum.splits)

lemma connect_proxy_Ok:
  "connect_proxy p d w a c = Ok () \<longleftrightarrow>
     url_scheme p = ''http'' \<and> d = None \<and> w = None \<and> c = None \<and>
     (\<exists>r. a = Ok r \<and> resp_status r = status_ok)"
  by (auto simp: connect_proxy_def Let_def split: if_splits option.splits sum.splits)

lemma refusal_reason_set:
  assumes "CHR '';'' \<notin> set reason" and "resp_header r = set_refusal h reason"
  shows "refusal_reason_text (Some r) = reason"
proof -
  have "cut_str error_param (''traversal-integration-proxy; '' @ error_param @ reason) = Some reason"
    by (simp add: error_param_def)
  then show ?thesis
    using assms by (simp add: refusal_reason_text_def set_refusal_def cut_at_False)
qed

end
