(* ===== verification/DialPolicy.thy ===== *)
theory DialPolicy
  imports HttpConnect
begin

text \<open>
  connector-lib/dialpolicy: which addresses a pipe may reach. The host's own addresses, name
  resolution, the forward proxy's answer and the order in which the raced dials come back are
  inputs; a dial returns what it contacted on the network besides its result.
\<close>

section \<open>The deny list\<close>

text \<open>The floor, as the prefixes MustParsePrefix reads from the source's literals.\<close>

definition forbidden_prefixes :: "prefix list" where
  "forbidden_prefixes = [
     Prefix (V4 0x00000000) 8,
     Prefix (V4 0x7f000000) 8,
     Prefix (V4 0xa9fe0000) 16,
     Prefix (V4 0xe0000000) 3,
     Prefix (V4 0x646464c8) 32,
     Prefix (V4 0xa83f8110) 32,
     Prefix (V6 0 []) 96,
     Prefix (V6 0xfe800000000000000000000000000000 []) 10,
     Prefix (V6 0xff000000000000000000000000000000 []) 8,
     Prefix (V6 0xfd000ec2000000000000000000000000 []) 32,
     Prefix (V6 0xfd2000ce000000000000000000000254 []) 128]"

text \<open>IPv6 prefixes that carry an IPv4 address, and where it sits: NAT64, 6to4 and Teredo.\<close>

definition embedded :: "(prefix \<times> (128 word \<Rightarrow> addr)) list" where
  "embedded = [
     (Prefix (V6 0x0064ff9b000000000000000000000000 []) 96,
      \<lambda>b. addr_from4 (byte_at b 12) (byte_at b 13) (byte_at b 14) (byte_at b 15)),
     (Prefix (V6 0x0064ff9b000100000000000000000000 []) 48,
      \<lambda>b. addr_from4 (byte_at b 6) (byte_at b 7) (byte_at b 9) (byte_at b 10)),
     (Prefix (V6 0x20020000000000000000000000000000 []) 16,
      \<lambda>b. addr_from4 (byte_at b 2) (byte_at b 3) (byte_at b 4) (byte_at b 5)),
     (Prefix (V6 0x20010000000000000000000000000000 []) 32,
      \<lambda>b. addr_from4 (NOT (byte_at b 12)) (NOT (byte_at b 13)) (NOT (byte_at b 14)) (NOT (byte_at b 15)))]"

record dial_config =
  dc_proxy :: "url option"
  dc_proxy_resolves :: bool
  dc_extra_forbidden :: "prefix list"

record policy =
  pol_proxy :: "url option"
  pol_proxy_resolves :: bool
  pol_deny :: "prefix list"

fun prefix_addr_4in6 :: "prefix \<Rightarrow> bool" where
  "prefix_addr_4in6 (Prefix a n) = is_4in6 a"
| "prefix_addr_4in6 InvalidPrefix = False"

text \<open>
  New. An interface address is \<open>None\<close> when it is not an IP network; the listing may fail.
\<close>

definition new_policy :: "dial_config \<Rightarrow> string + addr option list \<Rightarrow> string + policy" where
  "new_policy cfg interfaces =
     (if \<exists>x \<in> set (dc_extra_forbidden cfg). \<not> prefix_valid x \<or> prefix_addr_4in6 x then
        Err ''dialpolicy: forbidden prefix: not an IPv4 or IPv6 prefix''
      else case interfaces of
        Inl e \<Rightarrow> Err e
      | Inr addrs \<Rightarrow>
          let own = concat (map (\<lambda>a. case a of
                None \<Rightarrow> [] | Some a \<Rightarrow> [prefix_from (unmap a) (bit_len (unmap a))]) addrs) in
          Ok \<lparr>pol_proxy = dc_proxy cfg, pol_proxy_resolves = dc_proxy_resolves cfg,
              pol_deny = forbidden_prefixes @ map prefix_masked (dc_extra_forbidden cfg) @ own\<rparr>)"

text \<open>Policy.forbidden: the address, unmapped and without its zone, and every IPv4 it carries.\<close>

definition checked_addrs :: "addr \<Rightarrow> addr list" where
  "checked_addrs a =
     (let b = with_zone [] (unmap a) in
      b # map (\<lambda>(p, f). f (as16 b)) (filter (\<lambda>(p, f). prefix_contains p b) embedded))"

definition forbidden :: "policy \<Rightarrow> addr \<Rightarrow> bool" where
  "forbidden pol a = (\<exists>c \<in> set (checked_addrs a). \<exists>d \<in> set (pol_deny pol). prefix_contains d c)"

definition forbidden_name :: "string \<Rightarrow> bool" where
  "forbidden_name host =
     (host \<in> set [''localhost'', ''metadata.google.internal'', ''metadata.goog'', ''instance-data.ec2.internal'']
      \<or> has_suffix ''.localhost'' host)"

section \<open>Dialing\<close>

text \<open>
  race: the outcomes of the dials in the order they arrive. The first to connect wins, later ones
  are closed; with no winner the errors are joined.
\<close>

fun race_loop ::
    "addr option \<Rightarrow> addr list \<Rightarrow> string list \<Rightarrow> (addr \<times> string option) list \<Rightarrow>
     addr option \<times> addr list \<times> string list" where
  "race_loop winner closed errs [] = (winner, closed, errs)"
| "race_loop winner closed errs ((a, e) # rs) =
     (case e of
        Some err \<Rightarrow> race_loop winner closed (errs @ [err]) rs
      | None \<Rightarrow>
          (case winner of
             None \<Rightarrow> race_loop (Some a) closed errs rs
           | Some w \<Rightarrow> race_loop winner (closed @ [a]) errs rs))"

definition race :: "(addr \<times> string option) list \<Rightarrow> string list + addr" where
  "race results = (case race_loop None [] [] results of
     (Some w, _, _) \<Rightarrow> Ok w | (None, _, errs) \<Rightarrow> Err errs)"

text \<open>What a dial touches on the network: the proxy with an authority, or an address directly.\<close>

datatype contact = ProxyConnect string | TcpDial addr u16

text \<open>
  Policy.Dial. \<open>lookup\<close> resolves an absolute name, \<open>via_proxy\<close> is the CONNECT through the proxy,
  \<open>arrivals\<close> the outcomes of dialing a list of addresses in the order they arrive.
\<close>

definition policy_dial ::
    "(string \<Rightarrow> string + addr list) \<Rightarrow> (url \<Rightarrow> string \<Rightarrow> string option) \<Rightarrow>
     (addr list \<Rightarrow> u16 \<Rightarrow> (addr \<times> string option) list) \<Rightarrow>
     policy \<Rightarrow> string \<Rightarrow> u16 \<Rightarrow> contact list \<times> (pipe_error + string)" where
  "policy_dial lookup via_proxy arrivals pol host port =
     (let literal = parse_addr host;
          is_forbidden = (case literal of Some a \<Rightarrow> forbidden pol a | None \<Rightarrow> False) in
      if is_forbidden \<or> forbidden_name host then
        ([], Err (Refused ForbiddenAddress ''forbidden destination''))
      else case pol_proxy pol of
        Some proxy \<Rightarrow>
          if literal = None \<and> \<not> pol_proxy_resolves pol then
            ([], Err (Refused ForbiddenAddress ''hostnames through the proxy are not allowed''))
          else
            let authority = join_host_port host (format_uint (unat port)) in
            ([ProxyConnect authority],
             case via_proxy proxy authority of
               Some e \<Rightarrow> Err (Refused DialFailed e)
             | None \<Rightarrow> Ok (''proxy '' @ url_host proxy))
      | None \<Rightarrow>
          (case (case literal of Some a \<Rightarrow> Ok [a] | None \<Rightarrow> lookup (absolute_host host)) of
             Inl e \<Rightarrow> ([], Err (Refused DNSFailed (''resolve '' @ host @ '': '' @ e)))
           | Inr [] \<Rightarrow> ([], Err (Refused DNSFailed (''resolve '' @ host @ '': %!w(<nil>)'')))
           | Inr found \<Rightarrow>
               let addrs = take 8 found in
               if \<exists>a \<in> set addrs. forbidden pol a then
                 ([], Err (Refused ForbiddenAddress ''resolves to a forbidden address''))
               else
                 (map (\<lambda>a. TcpDial (unmap a) port) addrs,
                  case race (arrivals (map unmap addrs) port) of
                    Inl errs \<Rightarrow> Err (Refused DialFailed (join_with (CHR 0x0A) errs))
                  | Inr a \<Rightarrow> Ok (join_host_port (addr_string a) (format_uint (unat port))))))"

section \<open>Laws\<close>

lemma race_loop_winner:
  "race_loop w cl es rs = (Some a, cl', es') \<Longrightarrow>
     w = Some a \<or> (w = None \<and> (a, None) \<in> set rs)"
  by (induction w cl es rs rule: race_loop.induct) (auto split: option.splits)

lemma race_Ok: "race rs = Ok a \<Longrightarrow> (a, None) \<in> set rs"
  using race_loop_winner [of None "[]" "[]" rs a]
  by (auto simp: race_def split: prod.splits option.splits)

lemma race_loop_none:
  "race_loop w cl es rs = (None, cl', es') \<Longrightarrow> w = None \<and> (\<forall>(a, e) \<in> set rs. e \<noteq> None)"
  by (induction w cl es rs rule: race_loop.induct) (auto split: option.splits)

text \<open>A dial that connects hides behind no other: racing succeeds if any dial does.\<close>

lemma race_any: "(a, None) \<in> set rs \<Longrightarrow> \<exists>b. race rs = Ok b"
proof -
  assume "(a, None) \<in> set rs"
  then have "fst (race_loop None [] [] rs) \<noteq> None"
    using race_loop_none [of None "[]" "[]" rs] by (metis (mono_tags, lifting) case_prodD prod.collapse)
  then show ?thesis by (auto simp: race_def split: prod.splits option.splits)
qed

lemma zone_unmap_with [simp]: "unmap (with_zone [] (unmap a)) = with_zone [] (unmap a)"
  by (cases a) auto

lemma with_zone_idem [simp]: "with_zone z (with_zone y a) = with_zone z a"
  by (cases a) auto

lemma checked_unmap [simp]: "checked_addrs (unmap a) = checked_addrs a"
  by (simp add: checked_addrs_def)

lemma checked_v4 [simp]: "checked_addrs (V4 w) = [V4 w]"
  by (simp add: checked_addrs_def embedded_def)

lemma forbidden_unmap [simp]: "forbidden pol (unmap a) = forbidden pol a"
  by (simp add: forbidden_def)

lemma dial_contacts:
  assumes "policy_dial lookup via arrivals pol host port = (contacts, res)" and "TcpDial a p \<in> set contacts"
  shows "\<not> forbidden pol a \<and> p = port \<and> pol_proxy pol = None"
  using assms
  by (auto simp: policy_dial_def Let_def split: option.splits if_splits sum.splits list.splits
      dest: in_set_takeD)

section \<open>Addresses that carry an IPv4 address\<close>

text \<open>
  The IPv6 addresses that name an IPv4 destination \<open>w\<close>: IPv4-mapped, the two NAT64 forms, 6to4 and
  Teredo. \<open>r\<close> stands for the bits the forms leave free.
\<close>

definition nat64_head :: "128 word" where "nat64_head = 0x0064ff9b"
definition nat64_local_head :: "128 word" where "nat64_local_head = 0x0064ff9b0001"
definition sixtofour_head :: "128 word" where "sixtofour_head = 0x2002"
definition teredo_head :: "128 word" where "teredo_head = 0x20010000"

lemmas head_defs = nat64_head_def nat64_local_head_def sixtofour_head_def teredo_head_def

definition mapped4 :: "32 word \<Rightarrow> 128 word" where
  "mapped4 w = push_bit 32 0xffff OR ucast w"

definition nat64 :: "32 word \<Rightarrow> 128 word" where
  "nat64 w = push_bit 96 nat64_head OR ucast w"

definition nat64_local :: "32 word \<Rightarrow> 128 word \<Rightarrow> 128 word" where
  "nat64_local w r = push_bit 80 nat64_local_head OR push_bit 64 (ucast (drop_bit 16 w)) OR
     push_bit 40 (take_bit 16 (ucast w)) OR take_bit 40 r"

definition sixtofour :: "32 word \<Rightarrow> 128 word \<Rightarrow> 128 word" where
  "sixtofour w r = push_bit 112 sixtofour_head OR push_bit 80 (ucast w) OR take_bit 80 r"

definition teredo :: "32 word \<Rightarrow> 128 word \<Rightarrow> 128 word" where
  "teredo w r = push_bit 96 teredo_head OR push_bit 32 (take_bit 64 r) OR ucast (NOT w)"

definition carriers :: "32 word \<Rightarrow> 128 word \<Rightarrow> 128 word set" where
  "carriers w r = {mapped4 w, nat64 w, nat64_local w r, sixtofour w r, teredo w r}"

lemma bit_byte_at: "bit (byte_at b i) k \<longleftrightarrow> k < 8 \<and> bit b (8 * (15 - i) + k)"
  by (auto simp: byte_at_def bit_simps)

lemma addr_from4_eqI:
  assumes "\<And>k. k < 8 \<Longrightarrow> bit a k = bit w (24 + k)" and "\<And>k. k < 8 \<Longrightarrow> bit b k = bit w (16 + k)"
    and "\<And>k. k < 8 \<Longrightarrow> bit c k = bit w (8 + k)" and "\<And>k. k < 8 \<Longrightarrow> bit d k = bit w k"
  shows "addr_from4 a b c d = V4 w"
proof -
  have "word_cat (word_cat a b :: 16 word) (word_cat c d :: 16 word) = w"
  proof (rule bit_word_eqI)
    fix n
    assume "n < LENGTH(32)"
    then consider "n < 8" | "8 \<le> n" "n < 16" | "16 \<le> n" "n < 24" | "24 \<le> n" "n < 32" by fastforce
    then show "bit (word_cat (word_cat a b :: 16 word) (word_cat c d :: 16 word) :: 32 word) n = bit w n"
      using assms(1) [of "n - 24"] assms(2) [of "n - 16"] assms(3) [of "n - 8"] assms(4) [of n]
      by cases (auto simp: bit_word_cat_iff)
  qed
  then show ?thesis by (simp add: addr_from4_def)
qed

lemma bit_free: "n < k \<Longrightarrow> \<not> bit (push_bit k c) n" for c :: "128 word"
  by (simp add: bit_simps)

lemma nat64_bytes: "addr_from4 (byte_at (nat64 w) 12) (byte_at (nat64 w) 13) (byte_at (nat64 w) 14) (byte_at (nat64 w) 15) = V4 w"
  by (rule addr_from4_eqI) (auto simp: bit_byte_at nat64_def bit_simps)

lemma nat64_local_bytes:
  "addr_from4 (byte_at (nat64_local w r) 6) (byte_at (nat64_local w r) 7) (byte_at (nat64_local w r) 9)
     (byte_at (nat64_local w r) 10) = V4 w"
  by (rule addr_from4_eqI) (auto simp: bit_byte_at nat64_local_def bit_simps)

lemma sixtofour_bytes:
  "addr_from4 (byte_at (sixtofour w r) 2) (byte_at (sixtofour w r) 3) (byte_at (sixtofour w r) 4)
     (byte_at (sixtofour w r) 5) = V4 w"
  by (rule addr_from4_eqI) (auto simp: bit_byte_at sixtofour_def bit_simps)

lemma teredo_bytes:
  "addr_from4 (NOT (byte_at (teredo w r) 12)) (NOT (byte_at (teredo w r) 13)) (NOT (byte_at (teredo w r) 14))
     (NOT (byte_at (teredo w r) 15)) = V4 w"
  by (rule addr_from4_eqI) (auto simp: bit_byte_at teredo_def bit_simps)

text \<open>The forms stand in their prefixes, and only the mapped one is IPv4-mapped.\<close>

lemma bit_w32: "bit w n \<Longrightarrow> n < 32" for w :: "32 word"
  using bit_imp_le_length [of w n] by simp

lemma head_bits:
  "bit nat64_head n \<Longrightarrow> n < 32" "bit nat64_local_head n \<Longrightarrow> n < 48" "bit sixtofour_head n \<Longrightarrow> n < 16"
  "bit teredo_head n \<Longrightarrow> n < 32"
proof -
  have "take_bit 32 nat64_head = nat64_head" "take_bit 48 nat64_local_head = nat64_local_head"
    "take_bit 16 sixtofour_head = sixtofour_head" "take_bit 32 teredo_head = teredo_head"
    by (simp_all add: head_defs)
  then show "bit nat64_head n \<Longrightarrow> n < 32" "bit nat64_local_head n \<Longrightarrow> n < 48"
    "bit sixtofour_head n \<Longrightarrow> n < 16" "bit teredo_head n \<Longrightarrow> n < 32"
    by (metis bit_take_bit_iff)+
qed

lemma nat64_head_bits: "drop_bit 32 (nat64 w) = push_bit 64 nat64_head"
  by (rule bit_word_eqI) (auto simp: nat64_def bit_simps dest: bit_w32 head_bits)

lemma nat64_local_head_bits: "drop_bit 80 (nat64_local w r) = nat64_local_head"
  by (rule bit_word_eqI) (auto simp: nat64_local_def bit_simps dest: bit_w32 head_bits)

lemma sixtofour_head_bits: "drop_bit 112 (sixtofour w r) = sixtofour_head"
  by (rule bit_word_eqI) (auto simp: sixtofour_def bit_simps dest: bit_w32 head_bits)

lemma teredo_head_bits: "drop_bit 96 (teredo w r) = teredo_head"
  by (rule bit_word_eqI) (auto simp: teredo_def bit_simps dest: bit_w32 head_bits)

lemma in_prefix6: "drop_bit (128 - n) a = drop_bit (128 - n) p \<Longrightarrow> prefix_contains (Prefix (V6 p []) n) (V6 a [])"
  by simp

lemma carriers_in_prefix:
  "prefix_contains (Prefix (V6 0x0064ff9b000000000000000000000000 []) 96) (V6 (nat64 w) [])"
  "prefix_contains (Prefix (V6 0x0064ff9b000100000000000000000000 []) 48) (V6 (nat64_local w r) [])"
  "prefix_contains (Prefix (V6 0x20020000000000000000000000000000 []) 16) (V6 (sixtofour w r) [])"
  "prefix_contains (Prefix (V6 0x20010000000000000000000000000000 []) 32) (V6 (teredo w r) [])"
  by (intro in_prefix6, simp add: nat64_head_bits nat64_local_head_bits sixtofour_head_bits
      teredo_head_bits head_defs)+

lemma not_mapped: "drop_bit n a \<noteq> drop_bit n (0xffff00000000 :: 128 word) \<Longrightarrow> 48 \<le> n \<Longrightarrow> \<not> is_4in6 (V6 a z)"
proof
  assume n: "drop_bit n a \<noteq> drop_bit n (0xffff00000000 :: 128 word)" "48 \<le> n" and m: "is_4in6 (V6 a z)"
  have "drop_bit (n - 32) (drop_bit 32 a) = drop_bit (n - 32) 0xffff" using m by simp
  then have "drop_bit n a = drop_bit (n - 32) 0xffff" using n(2) by (simp add: drop_bit_drop_bit)
  moreover have "drop_bit n (0xffff00000000 :: 128 word) = drop_bit (n - 32) (drop_bit 32 0xffff00000000)"
    using n(2) by (simp only: drop_bit_drop_bit le_add_diff_inverse2 add.commute) simp
  ultimately show False using n(1) by simp
qed

lemma carriers_not_mapped:
  "\<not> is_4in6 (V6 (nat64 w) z)" "\<not> is_4in6 (V6 (nat64_local w r) z)" "\<not> is_4in6 (V6 (sixtofour w r) z)"
  "\<not> is_4in6 (V6 (teredo w r) z)"
proof -
  have d: "drop_bit 96 (nat64 w) = nat64_head"
    using arg_cong [OF nat64_head_bits [of w], of "drop_bit 64"] by (simp add: drop_bit_drop_bit head_defs)
  show "\<not> is_4in6 (V6 (nat64 w) z)" by (rule not_mapped [of 96]) (simp_all add: d head_defs)
  show "\<not> is_4in6 (V6 (nat64_local w r) z)"
    by (rule not_mapped [of 80]) (simp_all add: nat64_local_head_bits head_defs)
  show "\<not> is_4in6 (V6 (sixtofour w r) z)"
    by (rule not_mapped [of 112]) (simp_all add: sixtofour_head_bits head_defs)
  show "\<not> is_4in6 (V6 (teredo w r) z)"
    by (rule not_mapped [of 96]) (simp_all add: teredo_head_bits head_defs)
qed

lemma unmap_mapped4: "unmap (V6 (mapped4 w) z) = V4 w"
proof -
  have "drop_bit 32 (mapped4 w) = 0xffff"
  proof -
    have "drop_bit 32 (mapped4 w) = drop_bit 32 (push_bit 32 0xffff) OR drop_bit 32 (ucast w)"
      by (simp add: mapped4_def)
    moreover have "drop_bit 32 (ucast w :: 128 word) = 0"
      by (rule bit_word_eqI) (auto simp: bit_simps dest: bit_w32)
    ultimately show ?thesis by simp
  qed
  moreover have "ucast (mapped4 w) = w"
    by (rule bit_word_eqI) (auto simp: mapped4_def bit_simps bit_free simp del: push_bit_numeral)
  ultimately show ?thesis by simp
qed

lemma checked_carriers:
  assumes "a \<in> carriers w r"
  shows "V4 w \<in> set (checked_addrs (V6 a z))"
proof (cases "a = mapped4 w")
  case True
  then show ?thesis using unmap_mapped4 [of w z] by (simp add: checked_addrs_def Let_def del: unmap.simps)
next
  case False
  then have a: "a \<in> {nat64 w, nat64_local w r, sixtofour w r, teredo w r}"
    using assms by (auto simp: carriers_def)
  then have "\<not> is_4in6 (V6 a z)" using carriers_not_mapped by blast
  then have u: "with_zone [] (unmap (V6 a z)) = V6 a []" by simp
  show ?thesis
    using a carriers_in_prefix(1) [of w] carriers_in_prefix(2-4) [of w r]
      nat64_bytes [of w] nat64_local_bytes [of w r] sixtofour_bytes [of w r] teredo_bytes [of w r]
    unfolding checked_addrs_def Let_def u embedded_def
    by (auto simp del: prefix_contains.simps)
qed

section \<open>Properties\<close>

text \<open>
  C7. An IPv4 destination the policy refuses is refused in every IPv6 spelling of it: IPv4-mapped,
  both NAT64 prefixes, 6to4 and Teredo, whatever their free bits and whatever the zone. So the floor
  and the operator's own IPv4 prefixes cannot be reached through an IPv6 literal or answer.
\<close>

theorem forbidden_every_spelling:
  assumes "forbidden pol (V4 w)" and "a \<in> carriers w r"
  shows "forbidden pol (V6 a z)"
proof -
  obtain d where d: "d \<in> set (pol_deny pol)" "prefix_contains d (V4 w)"
    using assms(1) by (auto simp: forbidden_def)
  then show ?thesis
    using checked_carriers [OF assms(2), of z] unfolding forbidden_def by blast
qed

definition floor_policy :: policy where
  "floor_policy = \<lparr>pol_proxy = None, pol_proxy_resolves = False, pol_deny = forbidden_prefixes\<rparr>"

lemma forbidden_every_spelling_witness:
  "forbidden floor_policy (V4 0xa9fea9fe) \<and> forbidden floor_policy (V6 (nat64 0xa9fea9fe) ''eth0'')"
proof -
  have "Prefix (V4 0xa9fe0000) 16 \<in> set (pol_deny floor_policy)"
    by (simp add: floor_policy_def forbidden_prefixes_def)
  moreover have "prefix_contains (Prefix (V4 0xa9fe0000) 16) (V4 0xa9fea9fe)" by simp
  ultimately have f: "forbidden floor_policy (V4 0xa9fea9fe)"
    by (auto simp: forbidden_def simp del: prefix_contains.simps)
  have "forbidden floor_policy (V6 (nat64 0xa9fea9fe) ''eth0'')"
    by (rule forbidden_every_spelling [OF f, of _ 0]) (simp add: carriers_def)
  with f show ?thesis by blast
qed

text \<open>
  C8. A direct dial only ever connects to addresses the policy allows, on the pipe's port, and none
  at all when a proxy is configured; when a name has any forbidden answer among those considered,
  nothing is dialed. A refused destination touches the network in no way.
\<close>

theorem dial_only_allowed:
  assumes "policy_dial lookup via_proxy arrivals pol host port = (contacts, res)"
  shows "(\<forall>a p. TcpDial a p \<in> set contacts \<longrightarrow> \<not> forbidden pol a \<and> p = port \<and> pol_proxy pol = None) \<and>
    (\<forall>msg. res = Err (Refused ForbiddenAddress msg) \<longrightarrow> contacts = []) \<and>
    (\<forall>authority. ProxyConnect authority \<in> set contacts \<longrightarrow>
       authority = join_host_port host (format_uint (unat port)) \<and> \<not> forbidden_name host \<and>
       (case parse_addr host of Some a \<Rightarrow> \<not> forbidden pol a | None \<Rightarrow> pol_proxy_resolves pol))"
proof (intro conjI allI impI)
  fix a p
  assume "TcpDial a p \<in> set contacts"
  then show "\<not> forbidden pol a" "p = port" "pol_proxy pol = None" using dial_contacts [OF assms] by blast+
next
  fix msg
  assume "res = Err (Refused ForbiddenAddress msg)"
  then show "contacts = []"
    using assms
    by (auto simp: policy_dial_def Let_def split: option.splits if_splits sum.splits list.splits)
next
  fix authority
  assume c: "ProxyConnect authority \<in> set contacts"
  then show "authority = join_host_port host (format_uint (unat port))" "\<not> forbidden_name host"
    using assms
    by (auto simp: policy_dial_def Let_def split: option.splits if_splits sum.splits list.splits)
  show "case parse_addr host of Some a \<Rightarrow> \<not> forbidden pol a | None \<Rightarrow> pol_proxy_resolves pol"
    using assms c
    by (auto simp: policy_dial_def Let_def split: option.splits if_splits sum.splits list.splits)
qed

lemma dial_only_allowed_witness:
  "policy_dial (\<lambda>n. Ok [V4 0x0a000001]) (\<lambda>u a. None) (\<lambda>as p. map (\<lambda>a. (a, None)) as) floor_policy ''db.internal'' 5432 =
     ([TcpDial (V4 0x0a000001) 5432], Ok ''10.0.0.1:5432'') \<and> \<not> forbidden floor_policy (V4 0x0a000001)"
proof -
  have n: "parse_addr ''db.internal'' = None" by code_simp
  have f: "\<not> forbidden floor_policy (V4 0x0a000001)"
    by (simp add: forbidden_def checked_addrs_def embedded_def floor_policy_def forbidden_prefixes_def)
  have "join_host_port (addr_string (V4 0x0a000001)) (format_uint (unat (5432 :: u16))) = ''10.0.0.1:5432''"
    by (simp add: net_eval join_host_port_def)
  then have d: "policy_dial (\<lambda>n. Ok [V4 0x0a000001]) (\<lambda>u a. None) (\<lambda>as p. map (\<lambda>a. (a, None)) as) floor_policy ''db.internal'' 5432 =
     ([TcpDial (V4 0x0a000001) 5432], Ok ''10.0.0.1:5432'')"
    using n f by (simp add: policy_dial_def race_def forbidden_name_def has_suffix_def cut_suffix_def
        floor_policy_def del: addr_string.simps)
  then show ?thesis using dial_only_allowed [OF d] by auto
qed

text \<open>
  The operator can only add to the deny list: a policy built with extra prefixes refuses every
  address in one of them and every address the floor or the host's own addresses refuse.
\<close>

theorem extra_only_adds:
  assumes "new_policy cfg (Ok own) = Ok pol"
    and "forbidden \<lparr>pol_proxy = None, pol_proxy_resolves = False, pol_deny = forbidden_prefixes\<rparr> a \<or>
      (\<exists>d \<in> set (dc_extra_forbidden cfg). \<exists>c \<in> set (checked_addrs a). prefix_contains d c) \<or>
      (\<exists>b. Some b \<in> set own \<and> zone_of (unmap b) = [] \<and> unmap b = unmap a)"
  shows "forbidden pol a"
proof -
  have deny: "pol_deny pol = forbidden_prefixes @ map prefix_masked (dc_extra_forbidden cfg) @
      concat (map (\<lambda>a. case a of None \<Rightarrow> [] | Some a \<Rightarrow> [prefix_from (unmap a) (bit_len (unmap a))]) own)"
    using assms(1) by (auto simp: new_policy_def Let_def split: if_splits)
  consider (floor) "forbidden \<lparr>pol_proxy = None, pol_proxy_resolves = False, pol_deny = forbidden_prefixes\<rparr> a"
    | (extra) d c where "d \<in> set (dc_extra_forbidden cfg)" "c \<in> set (checked_addrs a)" "prefix_contains d c"
    | (own) b where "Some b \<in> set own" "zone_of (unmap b) = []" "unmap b = unmap a"
    using assms(2) by fastforce
  then show ?thesis
  proof cases
    case floor
    then show ?thesis by (auto simp: forbidden_def deny)
  next
    case extra
    then have "prefix_masked d \<in> set (pol_deny pol)" "prefix_contains (prefix_masked d) c" by (auto simp: deny)
    then show ?thesis using extra(2) unfolding forbidden_def by blast
  next
    case own
    have "prefix_from (unmap b) (bit_len (unmap b)) \<in> set (pol_deny pol)"
      using own(1) by (auto simp: deny)
    moreover have "prefix_contains (prefix_from (unmap b) (bit_len (unmap b))) (unmap a)"
      using own(2,3) by (cases "unmap a") (auto simp: prefix_from_def)
    moreover have "unmap a \<in> set (checked_addrs a)"
      using own(2,3) by (cases "unmap a") (auto simp: checked_addrs_def Let_def)
    ultimately show ?thesis unfolding forbidden_def by blast
  qed
qed

lemma extra_only_adds_witness:
  "\<exists>pol. new_policy \<lparr>dc_proxy = None, dc_proxy_resolves = False, dc_extra_forbidden = [Prefix (V4 0x0a010203) 8]\<rparr> (Ok []) = Ok pol \<and>
     forbidden pol (V4 0x0a636363)"
proof -
  let ?cfg = "\<lparr>dc_proxy = None, dc_proxy_resolves = False, dc_extra_forbidden = [Prefix (V4 0x0a010203) 8]\<rparr>"
  have "\<exists>pol. new_policy ?cfg (Ok []) = Ok pol" by (simp add: new_policy_def Let_def)
  then obtain pol where pol: "new_policy ?cfg (Ok []) = Ok pol" by blast
  have "V4 0x0a636363 \<in> set (checked_addrs (V4 0x0a636363))" by simp
  moreover have "prefix_contains (Prefix (V4 0x0a010203) 8) (V4 0x0a636363)" by simp
  ultimately have "forbidden pol (V4 0x0a636363)"
    by (intro extra_only_adds [OF pol]) auto
  with pol show ?thesis by blast
qed

end
