(* ===== verification/PipeConfig.thy ===== *)
theory PipeConfig
  imports PipeServer EnvConfig DialPolicy
begin

text \<open>
  internal/pipeserver/config.go: building the pipe side from the environment, or refusing to start.
  What it uses of other packages is a record of functions: those of Load, the PEM and X.509 parsers
  of the trust bundles, the leaf of a key pair, the system's roots, the host's addresses, and the
  httpproxy package (the ambient proxy settings, and what its ProxyFunc answers for a destination).
\<close>

record 'k pipe_deps =
  pd_config :: config_deps
  pd_lower :: "string \<Rightarrow> string"
  pd_pem :: "string \<Rightarrow> (pem_block \<times> string) option"
  pd_pkix :: "string \<Rightarrow> 'k pub_key option"
  pd_x509 :: "string \<Rightarrow> 'k cert option"
  pd_sha256 :: "string \<Rightarrow> string"
  pd_leaf_uris :: "string \<Rightarrow> string list option"
  pd_system_roots :: "string list option"
  pd_parses_ca :: "string \<Rightarrow> bool"
  pd_interfaces :: "string + addr option list"
  pd_https_proxy :: string
  pd_http_proxy :: string
  pd_no_proxy :: string
  pd_match :: "string \<Rightarrow> string \<Rightarrow> url \<Rightarrow> string + url option"

datatype start_error =
    TrustMissing
  | IssuerMissing
  | ControllerHostMissing
  | BadTrust string string
  | BadTrustConfig string
  | BadProxyURL string
  | BadCIDR string
  | BadPolicy string
  | BadUpstreamTrust string
  | NeedsTLS
  | BadClientTLS string
  | NotLowerCaseUUID string
  | NotOneURI
  | BadCertificateIdentity identity_error
  | BadTunnelsConnectTo config_error
  | ProxyWithTunnelsConnectTo
  | StrictSettings "string list"

section \<open>The capability trust\<close>

definition capability_keys :: string where "capability_keys = ''TRAVERSAL_CAPABILITY_KEYS''"
definition capability_roots :: string where "capability_roots = ''TRAVERSAL_CAPABILITY_ROOTS''"

fun trust_start_error :: "trust_error \<Rightarrow> start_error" where
  "trust_start_error (KeysBundle e) = BadTrust capability_keys e"
| "trust_start_error (RootsBundle e) = BadTrust capability_roots e"
| "trust_start_error (BadConfig e) = BadTrustConfig e"

text \<open>The controller host that roots are trusted for; it is read only when there are roots.\<close>

definition trust_host :: "'k pipe_deps \<Rightarrow> environment \<Rightarrow> string \<Rightarrow> start_error + string" where
  "trust_host pd e controller_url =
     (let issuer = e ''TRAVERSAL_CAPABILITY_ISSUER''; keys = e capability_keys; roots = e capability_roots in
      if keys = [] \<and> roots = [] then Err TrustMissing
      else if keys \<noteq> [] \<and> issuer = [] then Err IssuerMissing
      else if roots \<noteq> [] then
        (case cd_url (pd_config pd) controller_url of
           Inl err \<Rightarrow> Err ControllerHostMissing
         | Inr u \<Rightarrow>
             (case canonical (pd_lower pd) (url_hostname u) of
                (host, True) \<Rightarrow> Ok host
              | (_, False) \<Rightarrow> Err ControllerHostMissing))
      else Ok [])"

definition load_verifier ::
    "'k pipe_deps \<Rightarrow> environment \<Rightarrow> string \<Rightarrow> (start_error + ('k verifier \<times> loaded)) option" where
  "load_verifier pd e controller_url =
     (case trust_host pd e controller_url of
        Inl err \<Rightarrow> Some (Err err)
      | Inr host \<Rightarrow>
          (case parse_trust (pd_lower pd) (pd_pem pd) (pd_pkix pd) (pd_x509 pd) (pd_sha256 pd)
              (decode_pem (e capability_keys)) (decode_pem (e capability_roots))
              (e ''TRAVERSAL_CAPABILITY_ISSUER'') host of
             None \<Rightarrow> None
           | Some (Inl te) \<Rightarrow> Some (Err (trust_start_error te))
           | Some (Inr vl) \<Rightarrow> Some (Ok vl)))"

section \<open>The way to destinations\<close>

text \<open>netip.ParsePrefix: an address without a zone, and a length without a sign or leading zeros.\<close>

definition parse_prefix :: "string \<Rightarrow> prefix option" where
  "parse_prefix s =
     (case cut_last (CHR ''/'') s of
        None \<Rightarrow> None
      | Some (ip, bits) \<Rightarrow>
          (case parse_addr ip of
             None \<Rightarrow> None
           | Some a \<Rightarrow>
               if zone_of a \<noteq> [] then None
               else if 1 < length bits \<and> hd bits \<notin> set ''123456789'' then None
               else (case parse_uint 63 bits of
                   None \<Rightarrow> None
                 | Some n \<Rightarrow> if bit_len a < n then None else Some (prefix_from a n))))"

definition forbidden_cidrs :: "string \<Rightarrow> start_error + prefix list" where
  "forbidden_cidrs v =
     (if v = [] then Ok []
      else collect (\<lambda>cidr. case parse_prefix (trim_space cidr) of None \<Rightarrow> Err (BadCIDR cidr) | Some p \<Rightarrow> Ok p)
        (split_on (CHR '','') v))"

text \<open>parseProxy and tunnelProxy.\<close>

definition parse_proxy :: "(string \<Rightarrow> string + url) \<Rightarrow> string \<Rightarrow> string \<Rightarrow> start_error + url" where
  "parse_proxy parse_url name raw =
     (case parse_url raw of
        Inl e \<Rightarrow> Err (BadProxyURL name)
      | Inr u \<Rightarrow> if url_scheme u \<noteq> ''http'' \<or> url_host u = [] then Err (BadProxyURL name) else Ok u)"

definition tunnel_proxy :: "(string \<Rightarrow> string + url) \<Rightarrow> string \<Rightarrow> start_error + url" where
  "tunnel_proxy parse_url raw = parse_proxy parse_url ''EGRESS_PROXY_URL'' raw"

text \<open>egressProxy: the proxy, and for an ambient one which destinations go direct.\<close>

definition egress_proxy ::
    "'k pipe_deps \<Rightarrow> environment \<Rightarrow> start_error + (url option \<times> (string \<Rightarrow> u16 \<Rightarrow> bool) option)" where
  "egress_proxy pd e =
     (let raw = (if pd_https_proxy pd \<noteq> [] then pd_https_proxy pd else pd_http_proxy pd);
          setting = e ''TRAVERSAL_PIPES_EGRESS_PROXY'' in
      if setting \<noteq> [] then
        (case parse_proxy (cd_url (pd_config pd)) ''TRAVERSAL_PIPES_EGRESS_PROXY'' setting of
           Inl err \<Rightarrow> Err err
         | Inr u \<Rightarrow> Ok (Some u, None))
      else if raw = [] then Ok (None, None)
      else
        let raw' = (if contains_str ''://'' raw then raw else ''http://'' @ raw) in
        (case parse_proxy (cd_url (pd_config pd)) ''HTTPS_PROXY or HTTP_PROXY'' raw' of
           Inl err \<Rightarrow> Err err
         | Inr u \<Rightarrow>
             Ok (Some u, Some (\<lambda>host port. pd_match pd raw' (pd_no_proxy pd) (host_url ''https'' (destination host port)) = Ok None))))"

record dialer =
  dl_proxied :: policy
  dl_direct :: "((string \<Rightarrow> u16 \<Rightarrow> bool) \<times> policy) option"

text \<open>newPolicy; the strict read may add to the invalid settings.\<close>

definition new_dialer :: "'k pipe_deps \<Rightarrow> environment \<Rightarrow> string list \<Rightarrow> (start_error + dialer) \<times> string list" where
  "new_dialer pd e errs =
     (case egress_proxy pd e of
        Inl err \<Rightarrow> (Err err, errs)
      | Inr (proxy, direct) \<Rightarrow>
          (case forbidden_cidrs (e ''TRAVERSAL_PIPES_FORBIDDEN_CIDRS'') of
             Inl err \<Rightarrow> (Err err, errs)
           | Inr extra \<Rightarrow>
               let (resolves, errs') = reader_bool e errs ''TRAVERSAL_PIPES_EGRESS_PROXY_RESOLVES'' (direct \<noteq> None);
                   cfg = \<lparr>dc_proxy = proxy, dc_proxy_resolves = resolves, dc_extra_forbidden = extra\<rparr> in
               (case new_policy cfg (pd_interfaces pd) of
                  Inl err \<Rightarrow> (Err (BadPolicy err), errs')
                | Inr proxied \<Rightarrow>
                    (case direct of
                       None \<Rightarrow> (Ok \<lparr>dl_proxied = proxied, dl_direct = None\<rparr>, errs')
                     | Some f \<Rightarrow>
                         (case new_policy (cfg\<lparr>dc_proxy := None\<rparr>) (pd_interfaces pd) of
                            Inl err \<Rightarrow> (Err (BadPolicy err), errs')
                          | Inr unproxied \<Rightarrow> (Ok \<lparr>dl_proxied = proxied, dl_direct = Some (f, unproxied)\<rparr>, errs'))))))"

text \<open>The function newPolicy returns: which policy dials a destination.\<close>

definition dialer_policy :: "dialer \<Rightarrow> string \<Rightarrow> u16 \<Rightarrow> policy" where
  "dialer_policy d host port =
     (case dl_direct d of None \<Rightarrow> dl_proxied d | Some (f, unproxied) \<Rightarrow> if f host port then unproxied else dl_proxied d)"

text \<open>upstream's trust: whether certificates are verified, and the roots when a CA is configured.\<close>

definition upstream_trust :: "string list option \<Rightarrow> (string \<Rightarrow> bool) \<Rightarrow> config \<Rightarrow> string + (bool \<times> string list option)" where
  "upstream_trust system parses cfg =
     (case cf_upstream_tls_ca cfg of
        None \<Rightarrow> Ok (\<not> cf_upstream_tls_verify cfg, None)
      | Some ca \<Rightarrow>
          if ca = [] then Ok (\<not> cf_upstream_tls_verify cfg, None)
          else (case system_pool_with system parses ca of
              Inl err \<Rightarrow> Err err
            | Inr pool \<Rightarrow> Ok (\<not> cf_upstream_tls_verify cfg, Some pool)))"

section \<open>The tunnels\<close>

text \<open>checkIdentity, on the URI SANs of the leaf, or no leaf.\<close>

definition connector_identity_error ::
    "(string \<Rightarrow> string option) \<Rightarrow> string list option \<Rightarrow> string \<Rightarrow> start_error option" where
  "connector_identity_error uuid leaf connector_id =
     (if \<not> is_connector_id uuid connector_id then Some (NotLowerCaseUUID connector_id)
      else (case leaf of
          Some [san] \<Rightarrow> map_option BadCertificateIdentity (check_identity uuid san connector_id)
        | _ \<Rightarrow> Some NotOneURI))"

record tunnel_tls =
  tt_client :: client_tls
  tt_server_name :: string

definition new_tunnel_tls :: "'k pipe_deps \<Rightarrow> config \<Rightarrow> start_error + (tunnel_tls \<times> string)" where
  "new_tunnel_tls pd cfg =
     (case cd_url (pd_config pd) (cf_controller_url cfg) of
        Inl e \<Rightarrow> Err NeedsTLS
      | Inr u \<Rightarrow>
          if url_scheme u \<noteq> ''https'' \<or> cf_tls_cert cfg = None \<or> cf_tls_key cfg = None then Err NeedsTLS
          else (case build_client_tls_config (cd_key_pair (pd_config pd)) (pd_system_roots pd) (pd_parses_ca pd) cfg of
              Inl err \<Rightarrow> Err (BadClientTLS err)
            | Inr None \<Rightarrow> Err NeedsTLS
            | Inr (Some tls) \<Rightarrow>
                (case connector_identity_error (cd_uuid (pd_config pd)) (pd_leaf_uris pd (fst (ct_cert tls)))
                    (cf_connector_id cfg) of
                   Some err \<Rightarrow> Err err
                 | None \<Rightarrow> Ok (\<lparr>tt_client = tls, tt_server_name = url_hostname u\<rparr>,
                     join_host_port (url_hostname u) ''443''))))"

record 'k tunnels =
  tn_connector_id :: string
  tn_addr :: string
  tn_proxy :: "url option"
  tn_tls :: tunnel_tls
  tn_count :: int
  tn_server :: "'k server"
  tn_upstream :: client_limits
  tn_dialer :: dialer
  tn_roots :: "string list"
  tn_kids :: "string list"

text \<open>The address tunnels dial and the proxy they dial through.\<close>

definition tunnel_route :: "'k pipe_deps \<Rightarrow> environment \<Rightarrow> config \<Rightarrow> string \<Rightarrow> start_error + (string \<times> url option)" where
  "tunnel_route pd e cfg addr =
     (let connect_to = e ''TRAVERSAL_TUNNELS_CONNECT_TO'' in
      case (if connect_to = [] then None else validate_connect_to ''TRAVERSAL_TUNNELS_CONNECT_TO'' connect_to) of
        Some err \<Rightarrow> Err (BadTunnelsConnectTo err)
      | None \<Rightarrow>
          let addr' = (if connect_to \<noteq> [] then connect_to
                else if cf_controller_connect_to cfg \<noteq> [] then cf_controller_connect_to cfg else addr) in
          (case cf_egress_proxy_url cfg of
             None \<Rightarrow> Ok (addr', None)
           | Some raw \<Rightarrow>
               if connect_to \<noteq> [] then Err ProxyWithTunnelsConnectTo
               else (case tunnel_proxy (cd_url (pd_config pd)) raw of Inl err \<Rightarrow> Err err | Inr u \<Rightarrow> Ok (addr', Some u))))"

text \<open>The server's settings, read strictly one after the other.\<close>

definition read_server ::
    "'k pipe_deps \<Rightarrow> environment \<Rightarrow> string list \<Rightarrow> config \<Rightarrow> 'k verifier \<Rightarrow> 'k server \<times> string list" where
  "read_server pd e errs cfg v =
     (let (pipes, errs1) = reader_int e errs ''TRAVERSAL_PIPES_MAX'' 200 4096;
          (lifetime, errs2) = reader_duration (cd_duration (pd_config pd)) e errs1 ''TRAVERSAL_PIPES_MAX_LIFETIME'' (4 * 60 * 60 * nanos);
          (streams, errs3) = reader_int e errs2 ''TRAVERSAL_PIPES_MAX_STREAMS'' 100 1000;
          (window, errs4) = reader_int e errs3 ''TRAVERSAL_PIPES_STREAM_WINDOW_KB'' 256 16384;
          (conn, errs5) = reader_int e errs4 ''TRAVERSAL_PIPES_CONNECTION_WINDOW_KB'' 1024 65536;
          (idle, errs6) = reader_duration (cd_duration (pd_config pd)) e errs5 ''TRAVERSAL_PIPES_IDLE_TIMEOUT'' (15 * 60 * nanos);
          (count, errs7) = reader_int e errs6 ''TRAVERSAL_TUNNELS_COUNT'' 2 8 in
      (\<lparr>sv_connector_id = cf_connector_id cfg, sv_verifier = v, sv_max_pipes = sint pipes,
        sv_pipe_limits = \<lparr>pl_max_streams = sint streams, pl_stream_window = sint (push_bit 10 window),
          pl_connection_window = sint (push_bit 10 conn), pl_idle_timeout = idle\<rparr>,
        sv_tunnels = sint count, sv_max_lifetime = lifetime, sv_pipes = tracker_zero\<rparr>, errs7))"

definition new_tunnels :: "'k pipe_deps \<Rightarrow> environment \<Rightarrow> config \<Rightarrow> (start_error + 'k tunnels) option" where
  "new_tunnels pd e cfg =
     (case load_verifier pd e (cf_controller_url cfg) of
        None \<Rightarrow> None
      | Some (Inl err) \<Rightarrow> Some (Err err)
      | Some (Inr (v, trust)) \<Rightarrow> Some
          (case new_dialer pd e [] of
             (Inl err, errs) \<Rightarrow> Err err
           | (Inr d, errs) \<Rightarrow>
               (case upstream_trust (pd_system_roots pd) (pd_parses_ca pd) cfg of
                  Inl err \<Rightarrow> Err (BadUpstreamTrust err)
                | Inr up_trust \<Rightarrow>
                    let (server, errs') = read_server pd e errs cfg v in
                    (case new_tunnel_tls pd cfg of
                       Inl err \<Rightarrow> Err err
                     | Inr (tls, addr) \<Rightarrow>
                         (case tunnel_route pd e cfg addr of
                            Inl err \<Rightarrow> Err err
                          | Inr (addr', proxy) \<Rightarrow>
                              (case reader_err errs' of
                                 Some keys \<Rightarrow> Err (StrictSettings keys)
                               | None \<Rightarrow> Ok \<lparr>tn_connector_id = cf_connector_id cfg, tn_addr = addr', tn_proxy = proxy,
                                   tn_tls = tls, tn_count = sv_tunnels server, tn_server = server,
                                   tn_upstream = new_client (cf_client cfg), tn_dialer = d,
                                   tn_roots = ld_roots trust, tn_kids = ld_kids trust\<rparr>))))))"

section \<open>Loading always returns\<close>

lemma parse_keys_loop_fuel:
  "pem_shrinks pem \<Longrightarrow> length data \<le> fuel \<Longrightarrow> parse_keys_loop pem pkix fuel keys data \<noteq> None"
proof (induction fuel arbitrary: data keys)
  case 0
  then have "pem data = None"
    by (metis le_zero_eq not_less_zero option.exhaust pem_shrinks_def prod.exhaust)
  then show ?case by (subst parse_keys_loop.simps) simp
next
  case (Suc n)
  have "parse_keys_loop pem pkix n ks r \<noteq> None" if "pem data = Some (b, r)" for b r ks
    using Suc that by (auto simp: pem_shrinks_def dest!: spec [of _ data])
  then show ?case
    by (subst parse_keys_loop.simps) (auto simp: Let_def split: option.splits)
qed

lemma parse_keys_total: "pem_shrinks pem \<Longrightarrow> parse_keys pem pkix data \<noteq> None"
  using parse_keys_loop_fuel [of pem data "length data" pkix "[]"]
  by (auto simp: parse_keys_def split: option.splits sum.splits list.splits)

lemma parse_trust_total: "pem_shrinks pem \<Longrightarrow> parse_trust ul pem pkix x509 sha key_pem root_pem issuer host \<noteq> None"
  using parse_keys_total [of pem pkix key_pem] parse_roots_pem_total [of pem x509 root_pem]
  by (auto simp: parse_trust_def split: option.splits sum.splits)

text \<open>
  Starting terminates: whatever the trust bundles hold, New returns, with the tunnels or with
  the reason it refuses to start. Every block that PEM decoding finds leaves a shorter rest, so the
  loops over the bundles end.
\<close>

theorem new_tunnels_returns:
  assumes "pem_shrinks (pd_pem pd)"
  shows "\<exists>r. new_tunnels pd e cfg = Some r"
proof -
  have "load_verifier pd e (cf_controller_url cfg) \<noteq> None"
    by (simp add: load_verifier_def parse_trust_total [OF assms] split: sum.splits option.splits)
  then show ?thesis by (auto simp: new_tunnels_def split: option.splits sum.splits prod.splits)
qed

section \<open>What started tunnels satisfy\<close>

lemma strict_int:
  assumes "reader_int e errs key dflt max_val = (n, [])" and "1 \<le> sint dflt" and "sint dflt \<le> sint max_val"
  shows "errs = []" and "1 \<le> sint n" and "sint n \<le> sint max_val"
  using assms by (auto simp: reader_int_def word_sless_alt split: if_splits option.splits)

definition server_ok :: "'k server \<Rightarrow> bool" where
  "server_ok s \<longleftrightarrow>
     1 \<le> sv_max_pipes s \<and> sv_max_pipes s \<le> 4096 \<and> 1 \<le> sv_tunnels s \<and> sv_tunnels s \<le> 8 \<and>
     0 \<le> sv_max_lifetime s \<and> 1 \<le> pl_max_streams (sv_pipe_limits s) \<and> pl_max_streams (sv_pipe_limits s) \<le> 1000 \<and>
     0 \<le> pl_idle_timeout (sv_pipe_limits s) \<and> sv_pipes s = tracker_zero"

lemma read_server_ok:
  assumes "read_server pd e errs cfg v = (s, [])"
  shows "server_ok s" and "sv_connector_id s = cf_connector_id cfg" and "sv_verifier s = v" and "errs = []"
proof -
  obtain n1 e1 where 1: "reader_int e errs ''TRAVERSAL_PIPES_MAX'' 200 4096 = (n1, e1)" by (metis prod.exhaust)
  obtain d2 e2 where 2: "reader_duration (cd_duration (pd_config pd)) e e1 ''TRAVERSAL_PIPES_MAX_LIFETIME'' (4 * 60 * 60 * nanos) = (d2, e2)"
    by (metis prod.exhaust)
  obtain n3 e3 where 3: "reader_int e e2 ''TRAVERSAL_PIPES_MAX_STREAMS'' 100 1000 = (n3, e3)" by (metis prod.exhaust)
  obtain n4 e4 where 4: "reader_int e e3 ''TRAVERSAL_PIPES_STREAM_WINDOW_KB'' 256 16384 = (n4, e4)" by (metis prod.exhaust)
  obtain n5 e5 where 5: "reader_int e e4 ''TRAVERSAL_PIPES_CONNECTION_WINDOW_KB'' 1024 65536 = (n5, e5)" by (metis prod.exhaust)
  obtain d6 e6 where 6: "reader_duration (cd_duration (pd_config pd)) e e5 ''TRAVERSAL_PIPES_IDLE_TIMEOUT'' (15 * 60 * nanos) = (d6, e6)"
    by (metis prod.exhaust)
  obtain n7 e7 where 7: "reader_int e e6 ''TRAVERSAL_TUNNELS_COUNT'' 2 8 = (n7, e7)" by (metis prod.exhaust)
  have s: "e7 = []" "sv_max_pipes s = sint n1" "sv_max_lifetime s = d2" "pl_max_streams (sv_pipe_limits s) = sint n3"
    "pl_idle_timeout (sv_pipe_limits s) = d6" "sv_tunnels s = sint n7" "sv_pipes s = tracker_zero"
    "sv_connector_id s = cf_connector_id cfg" "sv_verifier s = v"
    using assms 1 2 3 4 5 6 7 by (auto simp: read_server_def Let_def)
  note t7 = strict_int [OF 7 [unfolded s(1)], simplified]
  note t6 = reader_duration_ok [OF 6 [unfolded t7(1)], simplified nanos_def, simplified]
  note t5 = strict_int [OF 5 [unfolded t6(2)], simplified]
  note t4 = strict_int [OF 4 [unfolded t5(1)], simplified]
  note t3 = strict_int [OF 3 [unfolded t4(1)], simplified]
  note t2 = reader_duration_ok [OF 2 [unfolded t3(1)], simplified nanos_def, simplified]
  note t1 = strict_int [OF 1 [unfolded t2(2)], simplified]
  show "server_ok s" "sv_connector_id s = cf_connector_id cfg" "sv_verifier s = v" "errs = []"
    using s t1 t2 t3 t6 t7 unfolding server_ok_def by simp_all
qed

lemma new_verifier_fields:
  assumes "new_verifier ul vc = Ok v"
  shows "v_issuer v = vc_issuer vc \<and> v_subject v = vc_subject vc \<and> v_opens v = Map.empty \<and> v_expiry v = []"
  using assms by (auto simp: new_verifier_def Let_def split: if_splits sum.splits)

lemma load_verifier_Ok:
  assumes "load_verifier pd e url = Some (Ok (v, l))"
  shows "v_issuer v = e ''TRAVERSAL_CAPABILITY_ISSUER'' \<and> v_subject v = subject_integration_proxy \<and>
    v_opens v = Map.empty \<and> v_expiry v = []"
proof -
  obtain host where "parse_trust (pd_lower pd) (pd_pem pd) (pd_pkix pd) (pd_x509 pd) (pd_sha256 pd)
      (decode_pem (e capability_keys)) (decode_pem (e capability_roots))
      (e ''TRAVERSAL_CAPABILITY_ISSUER'') host = Some (Ok (v, l))"
    using assms by (auto simp: load_verifier_def split: sum.splits option.splits)
  then show ?thesis
    by (auto simp: parse_trust_def split: option.splits sum.splits dest!: new_verifier_fields)
qed

lemma new_policy_Ok:
  "new_policy cfg ifs = Ok pol \<Longrightarrow> pol_proxy pol = dc_proxy cfg \<and> set forbidden_prefixes \<subseteq> set (pol_deny pol) \<and>
     prefix_masked ` set (dc_extra_forbidden cfg) \<subseteq> set (pol_deny pol)"
  by (auto simp: new_policy_def Let_def split: if_splits sum.splits)

lemma parse_proxy_Ok: "parse_proxy parse_url name raw = Ok u \<Longrightarrow> url_scheme u = ''http'' \<and> url_host u \<noteq> []"
  by (auto simp: parse_proxy_def split: sum.splits if_splits)

lemma egress_proxy_Ok:
  "egress_proxy pd e = Ok (proxy, direct) \<Longrightarrow> (case proxy of None \<Rightarrow> True | Some u \<Rightarrow> url_scheme u = ''http'' \<and> url_host u \<noteq> [])"
  by (auto simp: egress_proxy_def Let_def split: if_splits sum.splits dest: parse_proxy_Ok)

text \<open>Whichever policy dials a destination, it denies the floor and every configured prefix.\<close>

definition dialer_ok :: "environment \<Rightarrow> dialer \<Rightarrow> bool" where
  "dialer_ok e d \<longleftrightarrow>
     (\<exists>extra. forbidden_cidrs (e ''TRAVERSAL_PIPES_FORBIDDEN_CIDRS'') = Ok extra \<and>
        (\<forall>pol \<in> {dl_proxied d} \<union> (case dl_direct d of None \<Rightarrow> {} | Some fp \<Rightarrow> {snd fp}).
           set forbidden_prefixes \<union> prefix_masked ` set extra \<subseteq> set (pol_deny pol) \<and>
           (case pol_proxy pol of None \<Rightarrow> True | Some u \<Rightarrow> url_scheme u = ''http'')))"

lemma new_dialer_ok:
  assumes "new_dialer pd e errs = (Ok d, errs')"
  shows "dialer_ok e d"
proof -
  obtain proxy direct where p: "egress_proxy pd e = Ok (proxy, direct)"
    using assms by (auto simp: new_dialer_def split: sum.splits)
  obtain extra where x: "forbidden_cidrs (e ''TRAVERSAL_PIPES_FORBIDDEN_CIDRS'') = Ok extra"
    using assms p by (auto simp: new_dialer_def split: sum.splits)
  obtain resolves errs2 where r: "reader_bool e errs ''TRAVERSAL_PIPES_EGRESS_PROXY_RESOLVES'' (direct \<noteq> None) = (resolves, errs2)"
    by (metis prod.exhaust)
  let ?cfg = "\<lparr>dc_proxy = proxy, dc_proxy_resolves = resolves, dc_extra_forbidden = extra\<rparr>"
  obtain pol where pol: "new_policy ?cfg (pd_interfaces pd) = Ok pol"
    using assms p x r by (auto simp: new_dialer_def Let_def split: sum.splits)
  have pp: "case proxy of None \<Rightarrow> True | Some u \<Rightarrow> url_scheme u = ''http''"
    using egress_proxy_Ok [OF p] by (auto split: option.splits)
  show ?thesis
  proof (cases direct)
    case None
    then have "d = \<lparr>dl_proxied = pol, dl_direct = None\<rparr>"
      using assms p x r pol by (auto simp: new_dialer_def Let_def)
    then show ?thesis using x new_policy_Ok [OF pol] pp unfolding dialer_ok_def by simp
  next
    case (Some f)
    then obtain un where un: "new_policy (?cfg\<lparr>dc_proxy := None\<rparr>) (pd_interfaces pd) = Ok un"
        "d = \<lparr>dl_proxied = pol, dl_direct = Some (f, un)\<rparr>"
      using assms p x r pol by (auto simp: new_dialer_def Let_def split: sum.splits)
    then show ?thesis using x new_policy_Ok [OF pol] new_policy_Ok [OF un(1)] pp unfolding dialer_ok_def by simp
  qed
qed

lemma dialer_policy_cases:
  "dialer_policy d host port \<in> {dl_proxied d} \<union> (case dl_direct d of None \<Rightarrow> {} | Some fp \<Rightarrow> {snd fp})"
  by (auto simp: dialer_policy_def split: option.splits)

lemma tunnel_route_Ok:
  assumes "tunnel_route pd e cfg addr = Ok (a, proxy)"
  shows "case proxy of None \<Rightarrow> cf_egress_proxy_url cfg = None
    | Some u \<Rightarrow> url_scheme u = ''http'' \<and> url_host u \<noteq> [] \<and> e ''TRAVERSAL_TUNNELS_CONNECT_TO'' = []"
  using assms
  by (auto simp: tunnel_route_def tunnel_proxy_def Let_def dest!: parse_proxy_Ok split: if_splits option.splits sum.splits)

text \<open>The tunnels authenticate as the connector the configuration names, over https.\<close>

definition identity_ok :: "'k pipe_deps \<Rightarrow> config \<Rightarrow> 'k tunnels \<Rightarrow> bool" where
  "identity_ok pd cfg t \<longleftrightarrow>
     (\<exists>u cert key san. cd_url (pd_config pd) (cf_controller_url cfg) = Ok u \<and> url_scheme u = ''https'' \<and>
        cf_tls_cert cfg = Some cert \<and> cf_tls_key cfg = Some key \<and> cd_key_pair (pd_config pd) cert key \<and>
        ct_cert (tt_client (tn_tls t)) = (cert, key) \<and> tt_server_name (tn_tls t) = url_hostname u \<and>
        pd_leaf_uris pd cert = Some [san] \<and>
        check_identity (cd_uuid (pd_config pd)) san (cf_connector_id cfg) = None)"

lemma build_client_Ok:
  assumes "build_client_tls_config kp system parses cfg = Ok (Some tls)"
  shows "\<exists>cert key. cf_tls_cert cfg = Some cert \<and> cf_tls_key cfg = Some key \<and> kp cert key \<and> ct_cert tls = (cert, key)"
  using assms by (auto simp: build_client_tls_config_def split: option.splits if_splits sum.splits)

lemma identity_error_None:
  "connector_identity_error uuid leaf i = None \<Longrightarrow> \<exists>san. leaf = Some [san] \<and> check_identity uuid san i = None"
  by (auto simp: connector_identity_error_def split: if_splits option.splits list.splits)

lemma new_tunnel_tls_Ok:
  assumes "new_tunnel_tls pd cfg = Ok (tls, addr)" and "tn_tls t = tls"
  shows "identity_ok pd cfg t"
proof -
  obtain u c where u: "cd_url (pd_config pd) (cf_controller_url cfg) = Ok u" "url_scheme u = ''https''"
    and c: "build_client_tls_config (cd_key_pair (pd_config pd)) (pd_system_roots pd) (pd_parses_ca pd) cfg = Ok (Some c)"
    and i: "connector_identity_error (cd_uuid (pd_config pd)) (pd_leaf_uris pd (fst (ct_cert c))) (cf_connector_id cfg) = None"
    and tls: "tls = \<lparr>tt_client = c, tt_server_name = url_hostname u\<rparr>"
    using assms(1) by (auto simp: new_tunnel_tls_def split: sum.splits if_splits option.splits)
  from build_client_Ok [OF c] identity_error_None [OF i] u tls assms(2) show ?thesis
    unfolding identity_ok_def by fastforce
qed

lemma new_tunnels_parts:
  assumes "new_tunnels pd e cfg = Some (Ok t)"
  obtains v l errs up addr where "load_verifier pd e (cf_controller_url cfg) = Some (Ok (v, l))"
    and "new_dialer pd e [] = (Ok (tn_dialer t), errs)"
    and "upstream_trust (pd_system_roots pd) (pd_parses_ca pd) cfg = Ok up"
    and "read_server pd e errs cfg v = (tn_server t, [])" and "new_tunnel_tls pd cfg = Ok (tn_tls t, addr)"
    and "tunnel_route pd e cfg addr = Ok (tn_addr t, tn_proxy t)" and "tn_count t = sv_tunnels (tn_server t)"
    and "tn_upstream t = new_client (cf_client cfg)"
proof -
  obtain v l where l: "load_verifier pd e (cf_controller_url cfg) = Some (Ok (v, l))"
    using assms by (auto simp: new_tunnels_def split: option.splits sum.splits)
  obtain d errs where d: "new_dialer pd e [] = (Ok d, errs)"
    using assms l by (cases "new_dialer pd e []") (auto simp: new_tunnels_def split: sum.splits)
  obtain up where up: "upstream_trust (pd_system_roots pd) (pd_parses_ca pd) cfg = Ok up"
    using assms l d by (auto simp: new_tunnels_def split: sum.splits)
  obtain server errs' where r: "read_server pd e errs cfg v = (server, errs')" by (metis prod.exhaust)
  obtain tls addr where tls: "new_tunnel_tls pd cfg = Ok (tls, addr)"
    using assms l d up r by (auto simp: new_tunnels_def split: sum.splits)
  obtain a proxy where route: "tunnel_route pd e cfg addr = Ok (a, proxy)"
    using assms l d up r tls by (auto simp: new_tunnels_def split: sum.splits)
  have "errs' = []" "t = \<lparr>tn_connector_id = cf_connector_id cfg, tn_addr = a, tn_proxy = proxy,
      tn_tls = tls, tn_count = sv_tunnels server, tn_server = server, tn_upstream = new_client (cf_client cfg),
      tn_dialer = d, tn_roots = ld_roots l, tn_kids = ld_kids l\<rparr>"
    using assms l d up r tls route by (auto simp: new_tunnels_def reader_err_def split: if_splits)
  then show ?thesis using that l d up r tls route by simp
qed

text \<open>
  C10. The tunnels that start are the ones configured, and safe: they authenticate over https with a
  key pair whose certificate names the connector; the trust is the configured issuer's, with no
  opens counted; at most 4096 pipes and eight tunnels; a proxy is http and excludes an address to
  connect to; and whichever policy dials a destination, through the proxy or around it, denies the
  built-in floor and every configured prefix.
\<close>

theorem tunnels_start_safe:
  assumes "new_tunnels pd e cfg = Some (Ok t)"
  shows "identity_ok pd cfg t \<and> server_ok (tn_server t) \<and> tn_count t = sv_tunnels (tn_server t) \<and>
    sv_connector_id (tn_server t) = cf_connector_id cfg \<and>
    v_issuer (sv_verifier (tn_server t)) = e ''TRAVERSAL_CAPABILITY_ISSUER'' \<and>
    v_subject (sv_verifier (tn_server t)) = subject_integration_proxy \<and>
    v_opens (sv_verifier (tn_server t)) = Map.empty \<and>
    (case tn_proxy t of None \<Rightarrow> cf_egress_proxy_url cfg = None
     | Some u \<Rightarrow> url_scheme u = ''http'' \<and> e ''TRAVERSAL_TUNNELS_CONNECT_TO'' = []) \<and>
    (\<exists>extra. forbidden_cidrs (e ''TRAVERSAL_PIPES_FORBIDDEN_CIDRS'') = Ok extra \<and>
       set forbidden_prefixes \<union> prefix_masked ` set extra \<subseteq> set (pol_deny (dialer_policy (tn_dialer t) host port)))"
proof -
  obtain v l errs up addr where p: "load_verifier pd e (cf_controller_url cfg) = Some (Ok (v, l))"
    "new_dialer pd e [] = (Ok (tn_dialer t), errs)" "read_server pd e errs cfg v = (tn_server t, [])"
    "new_tunnel_tls pd cfg = Ok (tn_tls t, addr)" "tunnel_route pd e cfg addr = Ok (tn_addr t, tn_proxy t)"
    "tn_count t = sv_tunnels (tn_server t)"
    using new_tunnels_parts [OF assms] by metis
  note s = read_server_ok [OF p(3)]
  have "identity_ok pd cfg t" using new_tunnel_tls_Ok [OF p(4) refl] .
  moreover have "case tn_proxy t of None \<Rightarrow> cf_egress_proxy_url cfg = None
     | Some u \<Rightarrow> url_scheme u = ''http'' \<and> e ''TRAVERSAL_TUNNELS_CONNECT_TO'' = []"
    using tunnel_route_Ok [OF p(5)] by (auto split: option.splits)
  moreover have "\<exists>extra. forbidden_cidrs (e ''TRAVERSAL_PIPES_FORBIDDEN_CIDRS'') = Ok extra \<and>
       set forbidden_prefixes \<union> prefix_masked ` set extra \<subseteq> set (pol_deny (dialer_policy (tn_dialer t) host port))"
    using new_dialer_ok [OF p(2)] dialer_policy_cases [of "tn_dialer t" host port] unfolding dialer_ok_def by blast
  ultimately show ?thesis using s p(6) load_verifier_Ok [OF p(1)] by simp
qed

text \<open>
  Load accepts an http controller in development, and its comments say tunnels then use cleartext
  HTTP/2; New does not start on one.
\<close>

lemma http_controller_never_starts:
  assumes "cd_url (pd_config pd) (cf_controller_url cfg) = Ok u" and "url_scheme u \<noteq> ''https''"
  shows "new_tunnels pd e cfg \<noteq> Some (Ok t)"
proof
  assume "new_tunnels pd e cfg = Some (Ok t)"
  then obtain addr where "new_tunnel_tls pd cfg = Ok (tn_tls t, addr)" using new_tunnels_parts by metis
  with assms show False by (simp add: new_tunnel_tls_def)
qed

section \<open>An environment that starts\<close>

text \<open>One pinned key, one forbidden prefix, the configuration of \<^const>\<open>prod_config\<close>.\<close>

abbreviation pipe_env :: environment where "pipe_env \<equiv> getenv prod_env"

fun one_key_pem :: "string \<Rightarrow> (pem_block \<times> string) option" where
  "one_key_pem [] = None"
| "one_key_pem (c # cs) =
     (if c = CHR ''K'' then Some (\<lparr>pem_type = ''PUBLIC KEY'', pem_headers = [''Key-ID'' \<mapsto> ''k''], pem_bytes = [c]\<rparr>, cs) else None)"

definition pipe_deps_example :: "nat pipe_deps" where
  "pipe_deps_example = \<lparr>pd_config = prod_deps, pd_lower = id, pd_pem = one_key_pem, pd_pkix = (\<lambda>der. Some (P256 7)),
     pd_x509 = (\<lambda>der. None), pd_sha256 = (\<lambda>d. ''D''), pd_leaf_uris = (\<lambda>c. Some [''spiffe://traversal.com/tenant/c/n'']),
     pd_system_roots = None, pd_parses_ca = (\<lambda>s. False), pd_interfaces = Ok [], pd_https_proxy = [], pd_http_proxy = [],
     pd_no_proxy = [], pd_match = (\<lambda>raw no dest. Ok None)\<rparr>"

lemmas pipe_env_values = getenv_example [folded capability_keys_def capability_roots_def]

lemma one_key_pem_shrinks: "pem_shrinks one_key_pem"
  unfolding pem_shrinks_def by (auto elim!: one_key_pem.elims split: if_splits)

theorem new_tunnels_returns_witness: "\<exists>r. new_tunnels pipe_deps_example pipe_env prod_config = Some r"
  by (rule new_tunnels_returns) (simp add: pipe_deps_example_def one_key_pem_shrinks)

lemma example_trust: "\<exists>v l. load_verifier pipe_deps_example pipe_env ''https://c'' = Some (Ok (v, l))"
proof -
  have "decode_pem ''K'' = ''K''" "decode_pem [] = []" "trim_space ''K'' = ''K''" "trim_space [] = []" by code_simp+
  then show ?thesis
    by (simp add: load_verifier_def trust_host_def pipe_env_values parse_trust_def parse_keys_def
        parse_keys_loop.simps pipe_deps_example_def new_verifier_def subject_integration_proxy_def)
qed

lemma example_dialer: "\<exists>d. new_dialer pipe_deps_example pipe_env [] = (Ok d, [])"
proof -
  have "trim_space ''10.0.0.0/8'' = ''10.0.0.0/8''" by code_simp
  moreover have "parse_addr ''10.0.0.0'' = Some (V4 (10 * 2 ^ 24))" by (simp add: net_eval)
  moreover have "cut_last (CHR ''/'') ''10.0.0.0/8'' = Some (''10.0.0.0'', ''8'')" by code_simp
  moreover have "parse_uint 63 ''8'' = Some 8" by (simp add: parse_uint_def net_eval)
  ultimately have "forbidden_cidrs ''10.0.0.0/8'' = Ok [Prefix (V4 (10 * 2 ^ 24)) 8]"
    by (simp add: forbidden_cidrs_def parse_prefix_def prefix_from_def)
  then show ?thesis
    by (simp add: new_dialer_def egress_proxy_def pipe_env_values pipe_deps_example_def reader_bool_def new_policy_def)
qed

lemma example_route: "tunnel_route pipe_deps_example pipe_env prod_config addr = Ok (''h:443'', None)"
  by (simp add: tunnel_route_def pipe_env_values prod_config_def read_settings_fields get_env_string_def
      get_env_optional_string_def getenv_example)

lemma example_tunnel_tls: "\<exists>tls addr. new_tunnel_tls pipe_deps_example prod_config = Ok (tls, addr)"
proof -
  have "cf_tls_ca prod_config = None"
    by (simp add: prod_config_def read_settings_def Let_def case_prod_unfold get_env_optional_string_def
        decode_certificate_def getenv_def prod_env_def)
  moreover have "cut_prefix tenant_prefix ''spiffe://traversal.com/tenant/c/n'' = Some ''c/n''"
    by (simp add: tenant_prefix_def)
  ultimately show ?thesis
    by (simp add: new_tunnel_tls_def pipe_deps_example_def prod_deps_def prod_read prod_urls build_client_tls_config_def
        connector_identity_error_def is_connector_id_def check_identity_def tenant_id_def)
qed

lemma example_server_read: "\<exists>sv. read_server pipe_deps_example pipe_env [] prod_config v = (sv, [])"
  by (simp add: read_server_def Let_def reader_int_def reader_duration_def pipe_env_values parse_int64_def
      parse_uint_def net_eval word_sless_alt)

lemma example_upstream_trust: "upstream_trust s p prod_config = Ok (False, None)"
  by (simp add: upstream_trust_def prod_config_def read_settings_def Let_def case_prod_unfold get_env_bool_def
      getenv_def prod_env_def)

lemma example_starts: "\<exists>t :: nat tunnels. new_tunnels pipe_deps_example pipe_env prod_config = Some (Ok t)"
proof -
  obtain v l where "load_verifier pipe_deps_example pipe_env (cf_controller_url prod_config) = Some (Ok (v, l))"
    using example_trust by (auto simp: prod_read)
  moreover obtain d where "new_dialer pipe_deps_example pipe_env [] = (Ok d, [])" using example_dialer by blast
  moreover obtain sv where "read_server pipe_deps_example pipe_env [] prod_config v = (sv, [])"
    using example_server_read by blast
  moreover obtain tls addr where "new_tunnel_tls pipe_deps_example prod_config = Ok (tls, addr)"
    using example_tunnel_tls by blast
  ultimately show ?thesis
    by (simp add: new_tunnels_def example_upstream_trust example_route reader_err_def)
qed

theorem tunnels_start_safe_witness:
  "\<exists>t :: nat tunnels. new_tunnels pipe_deps_example pipe_env prod_config = Some (Ok t) \<and>
     identity_ok pipe_deps_example prod_config t \<and> server_ok (tn_server t) \<and>
     set forbidden_prefixes \<subseteq> set (pol_deny (dialer_policy (tn_dialer t) ''db'' 5432))"
proof -
  obtain t where t: "new_tunnels pipe_deps_example pipe_env prod_config = Some (Ok t)" using example_starts by blast
  show ?thesis using t tunnels_start_safe [OF t, of "''db''" 5432] by blast
qed

end
