(* ===== verification/Startup.thy ===== *)
theory Startup
  imports PipeConfig
begin

text \<open>
  cmd/connector/main.go, with the transport of the config client (internal/client) and the tunnels'
  readiness (internal/pipeserver/tunnels.go, internal/router): what must succeed, in which order,
  before the connector serves pipes. Beyond the parameters of Load and New: the clock, the answers
  of the config endpoint, TOML, the rules' engine, and whether telemetry starts.
\<close>

section \<open>The transport to the controller\<close>

text \<open>
  newTransport: cleartext HTTP/2, or TLS pinned to the logical host, through the proxy when there is
  one and to the fixed address otherwise. An unparsable proxy is logged and left out.
\<close>

datatype controller_transport =
    H2CTransport string
  | TLSTransport client_tls string "url option" string

definition new_tls_transport :: "'k pipe_deps \<Rightarrow> config \<Rightarrow> string + controller_transport" where
  "new_tls_transport pd cfg =
     (case build_client_tls_config (cd_key_pair (pd_config pd)) (pd_system_roots pd) (pd_parses_ca pd) cfg of
        Inl e \<Rightarrow> Err e
      | Inr None \<Rightarrow> Err ''https:// URL requires TLS_CERT_BASE64 and TLS_KEY_BASE64''
      | Inr (Some tls) \<Rightarrow>
          (case cd_url (pd_config pd) (cf_controller_url cfg) of
             Inl e \<Rightarrow> Err ''https:// controller URL requires a hostname''
           | Inr u \<Rightarrow>
               if url_hostname u = [] then Err ''https:// controller URL requires a hostname''
               else
                 let proxy = (case cf_egress_proxy_url cfg of
                       None \<Rightarrow> None
                     | Some raw \<Rightarrow> (case cd_url (pd_config pd) raw of Inl e \<Rightarrow> None | Inr p \<Rightarrow> Some p)) in
                 Ok (TLSTransport tls (url_hostname u) proxy (cf_controller_connect_to cfg))))"

definition new_transport :: "'k pipe_deps \<Rightarrow> config \<Rightarrow> string + controller_transport" where
  "new_transport pd cfg =
     (case cd_url (pd_config pd) (cf_controller_url cfg) of
        Inl e \<Rightarrow> Err ''invalid TRAVERSAL_CONTROLLER_URL''
      | Inr u \<Rightarrow>
          if url_scheme u \<noteq> ''https'' then Ok (H2CTransport (cf_controller_connect_to cfg))
          else new_tls_transport pd cfg)"

text \<open>NewConfigHTTPClient adds a timeout and follows no redirect.\<close>

record config_client =
  hc_transport :: controller_transport
  hc_timeout :: duration
  hc_follows_redirects :: bool

definition new_config_http_client :: "'k pipe_deps \<Rightarrow> config \<Rightarrow> string + config_client" where
  "new_config_http_client pd cfg =
     (case new_transport pd cfg of
        Inl e \<Rightarrow> Err e
      | Inr t \<Rightarrow> Ok \<lparr>hc_transport = t, hc_timeout = 15 * nanos, hc_follows_redirects = False\<rparr>)"

text \<open>What startup uses beyond the parameters of New; \<open>su_fetch\<close> is the config endpoint's answer to a request.\<close>

record ('k, 'r) startup =
  su_pipe :: "'k pipe_deps"
  su_externals :: "'k externals"
  su_toml :: "string \<Rightarrow> config_doc option"
  su_toml_file :: toml_reader
  su_engine :: "'r engine"
  su_now :: instant
  su_url_string :: "url \<Rightarrow> string"
  su_fetch :: "config_client \<Rightarrow> url \<Rightarrow> header \<Rightarrow> fetch"
  su_read :: "string \<Rightarrow> string + string"
  su_telemetry :: "config \<Rightarrow> client_tls option \<Rightarrow> bool"

section \<open>The rules to start with\<close>

text \<open>startRemoteRedaction: the loader, its verifier and the rules, or an error that may be fatal.\<close>

definition config_keys_setting ::
    "('k, 'r) startup \<Rightarrow> environment \<Rightarrow> config \<Rightarrow> (string + config_verifier option) option" where
  "config_keys_setting su e cfg =
     (let raw = e ''TRAVERSAL_CONFIG_KEYS''; pd = su_pipe su in
      if raw = [] then Some (Ok None)
      else (case parse_keys (pd_pem pd) (pd_pkix pd) (decode_pem raw) of
          None \<Rightarrow> None
        | Some (Inl err) \<Rightarrow> Some (Err err)
        | Some (Inr keys) \<Rightarrow>
            Some (Ok (Some (require_signature (su_externals su) (pd_sha256 pd) (cf_connector_id cfg) (map_of keys))))))"

datatype remote_failure = Recoverable string | Fatal string

definition start_remote ::
    "('k, 'r) startup \<Rightarrow> environment \<Rightarrow> config \<Rightarrow> 'r compiled_rule list \<Rightarrow>
     ('r compiled_rule list \<times> (remote_failure + (remote_loader \<times> config_verifier option))) option" where
  "start_remote su e cfg rules =
     (let fail = (\<lambda>err. Some (rules, Err err)) in
      case new_config_http_client (su_pipe su) cfg of
        Inl err \<Rightarrow> fail (Recoverable (''config transport: '' @ err))
      | Inr client \<Rightarrow>
          (case config_url (cd_url (pd_config (su_pipe su))) cfg of
             Inl err \<Rightarrow> fail (Recoverable (''config endpoint: '' @ err))
           | Inr endpoint \<Rightarrow>
               (case new_remote_loader True (su_url_string su endpoint) True (cf_config_refresh_interval cfg) of
                  Inl err \<Rightarrow> fail (Recoverable err)
                | Inr l \<Rightarrow>
                    (case config_keys_setting su e cfg of
                       None \<Rightarrow> None
                     | Some (Inl err) \<Rightarrow> fail (Fatal err)
                     | Some (Inr verifier) \<Rightarrow>
                         (case remote_refresh (su_toml su) (pd_sha256 (su_pipe su)) (su_engine su) verifier (su_now su)
                             (su_fetch su client endpoint (config_request l)) (l, rules) of
                            ((l', rules'), _, Some err) \<Rightarrow> Some (rules', Err (Recoverable err))
                          | ((l', rules'), _, None) \<Rightarrow> Some (rules', Ok (l', verifier)))))))"

text \<open>startRedaction: one source, never two.\<close>

datatype rules_source =
    FromRemote remote_loader "config_verifier option"
  | FromFile file_loader
  | NoRules

definition start_file ::
    "('k, 'r) startup \<Rightarrow> config \<Rightarrow> 'r compiled_rule list \<Rightarrow> string + (rules_source \<times> 'r compiled_rule list)" where
  "start_file su cfg rules =
     (case cf_redaction_rules_file cfg of
        None \<Rightarrow> Ok (NoRules, rules)
      | Some path \<Rightarrow>
          (case file_load_initial (su_toml_file su) (pd_sha256 (su_pipe su)) (su_engine su) True (su_read su path)
              (new_file_loader path (cf_redaction_reload_interval cfg), rules) of
             (_, Some err) \<Rightarrow> Err (''local redaction rules: '' @ err)
           | ((l, rules'), None) \<Rightarrow> Ok (FromFile l, rules')))"

definition start_redaction ::
    "('k, 'r) startup \<Rightarrow> environment \<Rightarrow> config \<Rightarrow> (string + (rules_source \<times> 'r compiled_rule list)) option" where
  "start_redaction su e cfg =
     (if \<not> cf_config_enabled cfg then Some (start_file su cfg [])
      else (case start_remote su e cfg [] of
          None \<Rightarrow> None
        | Some (rules, Inr (l, verifier)) \<Rightarrow> Some (Ok (FromRemote l verifier, rules))
        | Some (rules, Inl (Fatal err)) \<Rightarrow> Some (Err (''initial remote config: '' @ err))
        | Some (rules, Inl (Recoverable err)) \<Rightarrow>
            if cf_redaction_rules_file cfg = None then Some (Err (''initial remote config: '' @ err))
            else Some (start_file su cfg rules)))"

section \<open>main\<close>

definition logical_authority :: "(string \<Rightarrow> string + url) \<Rightarrow> string \<Rightarrow> string" where
  "logical_authority parse_url logical_url =
     (case parse_url logical_url of Inl e \<Rightarrow> [] | Inr u \<Rightarrow> url_host u)"

definition effective_address :: "(string \<Rightarrow> string + url) \<Rightarrow> string \<Rightarrow> string \<Rightarrow> string" where
  "effective_address parse_url connect_to logical_url =
     (if connect_to \<noteq> [] then connect_to else logical_authority parse_url logical_url)"

definition parse_otlp_egress_proxy_url :: "(string \<Rightarrow> string + url) \<Rightarrow> string option \<Rightarrow> url option" where
  "parse_otlp_egress_proxy_url parse_url raw =
     (case raw of None \<Rightarrow> None | Some s \<Rightarrow> (case parse_url s of Inl e \<Rightarrow> None | Inr u \<Rightarrow> Some u))"

text \<open>
  What main does until it serves: any failure on the way ends the process with status 1. The
  environment after Load includes what the dotenv files added.
\<close>

datatype exit_reason =
    LoadFailed config_error
  | ClientTLSFailed string
  | TelemetryFailed
  | RedactionFailed string
  | TunnelsFailed start_error

record ('k, 'r) connector =
  cn_config :: config
  cn_source :: rules_source
  cn_rules :: "'r compiled_rule list"
  cn_tunnels :: "'k tunnels"

definition start_connector :: "('k, 'r) startup \<Rightarrow> process_env \<Rightarrow> (exit_reason + ('k, 'r) connector) option" where
  "start_connector su pe =
     (let pd = su_pipe su; dp = pd_config pd in
      case load_env_files dp pe of
        Inl err \<Rightarrow> Some (Err (LoadFailed err))
      | Inr pe' \<Rightarrow>
          let e = getenv pe' in
          (case load_from dp e of
             Inl err \<Rightarrow> Some (Err (LoadFailed err))
           | Inr cfg \<Rightarrow>
               (case build_client_tls_config (cd_key_pair dp) (pd_system_roots pd) (pd_parses_ca pd) cfg of
                  Inl err \<Rightarrow> Some (Err (ClientTLSFailed err))
                | Inr tls \<Rightarrow>
                    if \<not> su_telemetry su cfg tls then Some (Err TelemetryFailed)
                    else (case start_redaction su e cfg of
                        None \<Rightarrow> None
                      | Some (Inl err) \<Rightarrow> Some (Err (RedactionFailed err))
                      | Some (Inr (source, rules)) \<Rightarrow>
                          (case new_tunnels pd e cfg of
                             None \<Rightarrow> None
                           | Some (Inl err) \<Rightarrow> Some (Err (TunnelsFailed err))
                           | Some (Inr t) \<Rightarrow>
                               Some (Ok \<lparr>cn_config = cfg, cn_source = source, cn_rules = rules, cn_tunnels = t\<rparr>))))))"

section \<open>What a started connector satisfies\<close>

lemma fresh_loader: "new_remote_loader a u b d = Ok l \<Longrightarrow> \<not> rl_loaded l"
  by (auto simp: new_remote_loader_def split: if_splits)

lemma first_request: "new_remote_loader a u b d = Ok l \<Longrightarrow> config_request l = Map.empty"
  by (auto simp: new_remote_loader_def config_request_def split: if_splits)

lemma first_refresh:
  assumes "remote_refresh toml sha eng verifier now answer (l, rules) = ((l', rules'), outcome, None)" and "\<not> rl_loaded l"
  obtains bytes etag doc where "rl_loaded l'" "answer = Fetched 200 (Some bytes) etag" "install_document toml eng doc = Some rules'"
    "case verifier of None \<Rightarrow> doc = take (max_config_bytes + 1) bytes
       | Some vf \<Rightarrow> \<exists>c. vf now (take (max_config_bytes + 1) bytes) = Ok (doc, c)"
  using assms(1)
proof (cases rule: remote_refresh_cases)
  case (fetched data doc ap version issued document)
  from fetched(11) obtain bytes etag where b: "answer = Fetched 200 (Some bytes) etag" "data = take (max_config_bytes + 1) bytes" by blast
  have "ap \<and> (case verifier of None \<Rightarrow> doc = data | Some vf \<Rightarrow> \<exists>c. vf now data = Ok (doc, c))"
  proof (cases verifier)
    case None
    then show ?thesis using fetched(2) assms(2) by (auto simp: check_signed_def)
  next
    case (Some vf)
    from check_signed_Checked [OF fetched(2) [unfolded Some]] assms(2) show ?thesis by (auto simp: Some)
  qed
  then have "install_document toml eng doc = Some rules'" "case verifier of None \<Rightarrow> doc = data | Some vf \<Rightarrow> \<exists>c. vf now data = Ok (doc, c)"
    using fetched(7) by simp_all
  then show ?thesis using that [OF fetched(3) b(1)] unfolding b(2) by blast
qed (use assms(2) in auto)

text \<open>
  Where the rules in force came from. Remote: they are what the config endpoint answered compiles
  to, under the keys installed if there are any. The file: they are what reading the configured
  path answered compiles to, and it is used only when no endpoint is, or when the endpoint failed.
\<close>

definition source_ok :: "('k, 'r) startup \<Rightarrow> environment \<Rightarrow> config \<Rightarrow> rules_source \<Rightarrow> 'r compiled_rule list \<Rightarrow> bool" where
  "source_ok su e cfg source rules \<longleftrightarrow>
     (case source of
        FromRemote l verifier \<Rightarrow>
          cf_config_enabled cfg \<and> rl_loaded l \<and>
          (\<exists>client endpoint bytes etag doc.
             new_config_http_client (su_pipe su) cfg = Ok client \<and>
             config_url (cd_url (pd_config (su_pipe su))) cfg = Ok endpoint \<and>
             su_fetch su client endpoint Map.empty = Fetched 200 (Some bytes) etag \<and>
             install_document (su_toml su) (su_engine su) doc = Some rules \<and>
             (if e ''TRAVERSAL_CONFIG_KEYS'' = [] then verifier = None \<and> doc = take (max_config_bytes + 1) bytes
              else \<exists>keys c.
                parse_keys (pd_pem (su_pipe su)) (pd_pkix (su_pipe su)) (decode_pem (e ''TRAVERSAL_CONFIG_KEYS'')) = Some (Ok keys) \<and>
                config_verify (su_externals su) (pd_sha256 (su_pipe su)) (take (max_config_bytes + 1) bytes)
                  (cf_connector_id cfg) (map_of keys) (su_now su) = Ok (doc, c)))
      | FromFile l \<Rightarrow>
          cf_redaction_rules_file cfg = Some (fl_path l) \<and> fl_loaded l \<and>
          (\<exists>data f rules_nil. su_read su (fl_path l) = Ok data \<and>
             toml_rules (su_toml_file su) data = Some (f, rules_nil) \<and> compile_rules (su_engine su) f = Ok rules) \<and>
          (cf_config_enabled cfg \<longrightarrow> (\<exists>rules0 err. start_remote su e cfg [] = Some (rules0, Err (Recoverable err))))
      | NoRules \<Rightarrow> \<not> cf_config_enabled cfg \<and> cf_redaction_rules_file cfg = None \<and> rules = [])"

lemma start_remote_Ok:
  assumes "start_remote su e cfg rules = Some (rules', Ok (l, verifier))" and "cf_config_enabled cfg"
  shows "source_ok su e cfg (FromRemote l verifier) rules'"
proof -
  obtain client endpoint l0 where l0: "new_config_http_client (su_pipe su) cfg = Ok client"
    "config_url (cd_url (pd_config (su_pipe su))) cfg = Ok endpoint"
    "new_remote_loader True (su_url_string su endpoint) True (cf_config_refresh_interval cfg) = Ok l0"
    using assms(1) by (auto simp: start_remote_def Let_def split: sum.splits)
  obtain vf where v: "config_keys_setting su e cfg = Some (Ok vf)"
    using assms(1) l0 by (auto simp: start_remote_def Let_def split: sum.splits option.splits)
  obtain l1 r1 outcome err where r: "remote_refresh (su_toml su) (pd_sha256 (su_pipe su)) (su_engine su) vf (su_now su)
      (su_fetch su client endpoint (config_request l0)) (l0, rules) = ((l1, r1), outcome, err)"
    by (metis prod.exhaust)
  have e: "err = None" "l1 = l" "r1 = rules'" "vf = verifier"
    using assms(1) l0 v r by (auto simp: start_remote_def Let_def split: option.splits)
  obtain bytes etag doc where d: "rl_loaded l" "su_fetch su client endpoint Map.empty = Fetched 200 (Some bytes) etag"
    "install_document (su_toml su) (su_engine su) doc = Some rules'"
    "case verifier of None \<Rightarrow> doc = take (max_config_bytes + 1) bytes
       | Some vf \<Rightarrow> \<exists>c. vf (su_now su) (take (max_config_bytes + 1) bytes) = Ok (doc, c)"
    by (rule first_refresh [OF r [unfolded e first_request [OF l0(3)]] fresh_loader [OF l0(3)]]) (rule that)
  have "if e ''TRAVERSAL_CONFIG_KEYS'' = [] then verifier = None \<and> doc = take (max_config_bytes + 1) bytes
      else \<exists>keys c.
        parse_keys (pd_pem (su_pipe su)) (pd_pkix (su_pipe su)) (decode_pem (e ''TRAVERSAL_CONFIG_KEYS'')) = Some (Ok keys) \<and>
        config_verify (su_externals su) (pd_sha256 (su_pipe su)) (take (max_config_bytes + 1) bytes)
          (cf_connector_id cfg) (map_of keys) (su_now su) = Ok (doc, c)"
  proof (cases "e ''TRAVERSAL_CONFIG_KEYS'' = []")
    case True
    then have "verifier = None" using v e(4) by (simp add: config_keys_setting_def)
    then show ?thesis using True d(4) by simp
  next
    case False
    then obtain keys where k: "parse_keys (pd_pem (su_pipe su)) (pd_pkix (su_pipe su)) (decode_pem (e ''TRAVERSAL_CONFIG_KEYS'')) = Some (Ok keys)"
      "verifier = Some (require_signature (su_externals su) (pd_sha256 (su_pipe su)) (cf_connector_id cfg) (map_of keys))"
      using v e(4) by (auto simp: config_keys_setting_def Let_def split: option.splits sum.splits)
    then show ?thesis using False d(4) by (auto simp: require_signature_def)
  qed
  then show ?thesis using d(1-3) l0(1,2) assms(2) unfolding source_ok_def by auto
qed

lemma start_file_Ok:
  assumes "start_file su cfg rules = Ok (source, rules')"
    and "cf_config_enabled cfg \<Longrightarrow> cf_redaction_rules_file cfg \<noteq> None \<and>
      (\<exists>rules0 err. start_remote su e cfg [] = Some (rules0, Err (Recoverable err)))"
    and "\<not> cf_config_enabled cfg \<Longrightarrow> rules = []"
  shows "source_ok su e cfg source rules'"
proof (cases "cf_redaction_rules_file cfg")
  case None
  then show ?thesis using assms by (auto simp: start_file_def source_ok_def)
next
  case (Some path)
  let ?l = "new_file_loader path (cf_redaction_reload_interval cfg)"
  obtain l where l: "file_load_initial (su_toml_file su) (pd_sha256 (su_pipe su)) (su_engine su) True (su_read su path)
      (?l, rules) = ((l, rules'), None)" "source = FromFile l"
    using assms(1) Some by (auto simp: start_file_def split: prod.splits option.splits)
  then have "file_refresh (su_toml_file su) (pd_sha256 (su_pipe su)) (su_engine su) (su_read su path) (?l, rules) =
      ((l, rules'), None)"
    by (auto simp: file_load_initial_def split: if_splits)
  moreover have "\<not> fl_loaded ?l" "fl_path ?l = path" by (simp_all add: new_file_loader_def)
  ultimately show ?thesis using file_refresh_first Some l(2) assms(2) by (fastforce simp: source_ok_def)
qed

lemma start_redaction_Ok:
  assumes "start_redaction su e cfg = Some (Ok (source, rules))"
  shows "source_ok su e cfg source rules"
proof (cases "cf_config_enabled cfg")
  case False
  then show ?thesis using assms by (intro start_file_Ok) (auto simp: start_redaction_def)
next
  case True
  then obtain rules1 r where r: "start_remote su e cfg [] = Some (rules1, r)"
    using assms by (auto simp: start_redaction_def split: option.splits)
  show ?thesis
  proof (cases r)
    case (Inr lv)
    then show ?thesis using assms True r start_remote_Ok by (cases lv) (auto simp: start_redaction_def)
  next
    case (Inl failure)
    then have "start_file su cfg rules1 = Ok (source, rules)" "cf_redaction_rules_file cfg \<noteq> None"
      using assms True r by (auto simp: start_redaction_def split: remote_failure.splits if_splits)
    moreover have "\<exists>err. failure = Recoverable err"
      using assms True r Inl by (cases failure) (auto simp: start_redaction_def)
    ultimately show ?thesis using start_file_Ok True r Inl by blast
  qed
qed

text \<open>
  C4. A connector that serves has all of it in force: the configuration is well formed; the tunnels
  authenticate as the connector it names over https, in development too; and the rules are what
  compiling the one source configured gave: the bytes the config endpoint answered (under keys, a
  document in them signed for this connector), or the contents of the local file, used only when no
  endpoint is configured or when it failed; or there are none because no source was configured. So
  a connector with a source configured never forwards before its rules are loaded.
\<close>

theorem connector_starts_safe:
  assumes "start_connector su pe = Some (Ok c)"
  shows "\<exists>pe'. load_env_files (pd_config (su_pipe su)) pe = Ok pe' \<and>
    config_ok (pd_config (su_pipe su)) (cn_config c) \<and>
    identity_ok (su_pipe su) (cn_config c) (cn_tunnels c) \<and>
    source_ok su (getenv pe') (cn_config c) (cn_source c) (cn_rules c) \<and>
    (cf_config_enabled (cn_config c) \<or> cf_redaction_rules_file (cn_config c) \<noteq> None \<longrightarrow> cn_source c \<noteq> NoRules)"
proof -
  let ?pd = "su_pipe su" and ?cfg = "cn_config c"
  obtain pe' where p: "load_env_files (pd_config ?pd) pe = Ok pe'"
    using assms by (auto simp: start_connector_def Let_def split: sum.splits)
  obtain cfg tls where l: "load_from (pd_config ?pd) (getenv pe') = Ok cfg"
    "build_client_tls_config (cd_key_pair (pd_config ?pd)) (pd_system_roots ?pd) (pd_parses_ca ?pd) cfg = Ok tls"
    "su_telemetry su cfg tls"
    using assms p by (auto simp: start_connector_def Let_def split: sum.splits if_splits)
  obtain source rules where r: "start_redaction su (getenv pe') cfg = Some (Ok (source, rules))"
    using assms p l by (auto simp: start_connector_def Let_def split: sum.splits option.splits)
  obtain t where t: "new_tunnels ?pd (getenv pe') cfg = Some (Ok t)"
    "c = \<lparr>cn_config = cfg, cn_source = source, cn_rules = rules, cn_tunnels = t\<rparr>"
    using assms p l r by (auto simp: start_connector_def Let_def split: sum.splits option.splits)
  obtain addr where "new_tunnel_tls ?pd cfg = Ok (tn_tls t, addr)" using new_tunnels_parts [OF t(1)] by metis
  then have "identity_ok ?pd cfg t" by (rule new_tunnel_tls_Ok) simp
  moreover have "source_ok su (getenv pe') cfg source rules" using start_redaction_Ok [OF r] .
  moreover from this have "cf_config_enabled cfg \<or> cf_redaction_rules_file cfg \<noteq> None \<longrightarrow> source \<noteq> NoRules"
    by (auto simp: source_ok_def)
  ultimately show ?thesis using p t(2) load_from_ok [OF l(1)] by simp
qed

text \<open>The environment of \<^const>\<open>prod_env\<close>, and a config endpoint that serves a signed document.\<close>

definition startup_example :: "(nat, string) startup" where
  "startup_example = \<lparr>su_pipe = pipe_deps_example, su_externals = example_signed example_config_claims,
     su_toml = example_config_toml, su_toml_file = \<lparr>toml_rules = (\<lambda>d. None), toml_doc = (\<lambda>d. None)\<rparr>,
     su_engine = literal_engine, su_now = unix_time 1030, su_url_string = (\<lambda>u. ''u''),
     su_fetch = (\<lambda>client u h. Fetched 200 (Some example_signed_config) ''e1''), su_read = (\<lambda>p. Err ''no file''),
     su_telemetry = (\<lambda>cfg tls. True)\<rparr>"

lemma startup_example_values:
  "su_pipe startup_example = pipe_deps_example" "su_telemetry startup_example cfg tls"
  "su_fetch startup_example client u h = Fetched 200 (Some example_signed_config) ''e1''"
  "su_url_string startup_example u = ''u''" "su_now startup_example = unix_time 1030"
  "su_toml startup_example = example_config_toml" "su_engine startup_example = literal_engine"
  "su_externals startup_example = example_signed example_config_claims"
  "pd_config pipe_deps_example = prod_deps" "pd_sha256 pipe_deps_example = (\<lambda>d. ''D'')"
  "pd_pem pipe_deps_example = one_key_pem" "pd_pkix pipe_deps_example = (\<lambda>der. Some (P256 7))"
  by (simp_all add: startup_example_def pipe_deps_example_def)

lemma startup_example_tls:
  "\<exists>tls. build_client_tls_config (cd_key_pair prod_deps) (pd_system_roots pipe_deps_example)
     (pd_parses_ca pipe_deps_example) prod_config = Ok (Some tls)"
proof -
  have "cf_tls_ca prod_config = None"
    by (simp add: prod_config_def read_settings_def Let_def case_prod_unfold get_env_optional_string_def
        decode_certificate_def getenv_def prod_env_def)
  then show ?thesis by (simp add: build_client_tls_config_def prod_read prod_deps_def)
qed

lemma startup_example_keys:
  "config_keys_setting startup_example (getenv prod_env) prod_config = Some (Ok (Some example_remote_verifier))"
proof -
  have "decode_pem ''K'' = ''K''" by code_simp
  then show ?thesis
    by (simp add: config_keys_setting_def getenv_example startup_example_values parse_keys_def parse_keys_loop.simps
        prod_read example_remote_verifier_def)
qed

lemma startup_example_rules:
  "start_redaction startup_example (getenv prod_env) prod_config =
     Some (Ok (FromRemote example_polled (Some example_remote_verifier), [example_compiled]))"
proof -
  obtain tls where "build_client_tls_config (cd_key_pair prod_deps) (pd_system_roots pipe_deps_example)
     (pd_parses_ca pipe_deps_example) prod_config = Ok (Some tls)" using startup_example_tls by blast
  moreover have u: "cd_url prod_deps ''https://c'' = Ok (prod_url ''https'' ''c'')" by (simp add: prod_deps_def)
  moreover have "url_hostname (prod_url ''https'' ''c'') = ''c''" by code_simp
  ultimately obtain client where c: "new_config_http_client pipe_deps_example prod_config = Ok client"
    by (simp add: new_config_http_client_def new_transport_def new_tls_transport_def prod_read prod_urls
        startup_example_values)
  have "\<exists>w. config_url (cd_url prod_deps) prod_config = Ok w"
    using u \<open>url_hostname (prod_url ''https'' ''c'') = ''c''\<close> by (simp add: config_url_def prod_read)
  then obtain w where w: "config_url (cd_url prod_deps) prod_config = Ok w" by blast
  have l: "new_remote_loader True ''u'' True (cf_config_refresh_interval prod_config) = Ok fresh_remote_loader"
    by (simp add: new_remote_loader_def prod_read nanos_def fresh_remote_loader_def)
  have "start_remote startup_example (getenv prod_env) prod_config [] =
      Some ([example_compiled], Ok (example_polled, Some example_remote_verifier))"
    using c w l startup_example_keys by (simp add: start_remote_def startup_example_values example_poll)
  then show ?thesis by (simp add: start_redaction_def prod_read)
qed

lemma startup_example_starts: "\<exists>c. start_connector startup_example prod_env = Some (Ok c)"
proof -
  obtain tls where "build_client_tls_config (cd_key_pair prod_deps) (pd_system_roots pipe_deps_example)
     (pd_parses_ca pipe_deps_example) prod_config = Ok (Some tls)" using startup_example_tls by blast
  moreover obtain t where "new_tunnels pipe_deps_example (getenv prod_env) prod_config = Some (Ok t)"
    using example_starts by blast
  ultimately show ?thesis
    by (simp add: start_connector_def startup_example_values prod_env_files prod_load_from startup_example_rules)
qed

theorem connector_starts_safe_witness:
  "\<exists>c :: (nat, string) connector. start_connector startup_example prod_env = Some (Ok c) \<and>
     config_ok prod_deps (cn_config c) \<and> identity_ok pipe_deps_example (cn_config c) (cn_tunnels c)"
proof -
  obtain c :: "(nat, string) connector" where c: "start_connector startup_example prod_env = Some (Ok c)"
    using startup_example_starts by blast
  show ?thesis using c connector_starts_safe [OF c] by (auto simp: startup_example_values)
qed

end
