(* ===== verification/Tunnels.thy ===== *)
theory Tunnels
  imports Startup
begin

text \<open>
  internal/pipeserver/tunnels.go while it runs, and the readiness endpoint of internal/router: each
  holder dials a tunnel, serves it and redials; a tunnel that is replaced stays up beside its
  successor until it closes. The backoff package and the network are parameters.
\<close>

section \<open>One tunnel\<close>

definition alpn :: string where "alpn = ''x-traversal-tunnel''"

text \<open>
  serveOne: from the dial's error or the protocol it negotiated, the error of writing the preface,
  and how serving ended. It answers the dial outcomes recorded, whether the tunnel was up, and its
  error, none when it was replaced.
\<close>

datatype served = Replaced | Closed

definition serve_one :: "string \<Rightarrow> string + string \<Rightarrow> string option \<Rightarrow> served \<Rightarrow> string list \<times> bool \<times> string option" where
  "serve_one addr dialed preface ending =
     (case dialed of
        Inl e \<Rightarrow> ([''failed''], False, Some e)
      | Inr proto \<Rightarrow>
          if proto \<noteq> alpn then ([''no_alpn''], False, Some (addr @ '' did not accept the tunnel protocol''))
          else (case preface of
              Some e \<Rightarrow> ([], False, Some e)
            | None \<Rightarrow>
                (case ending of
                   Replaced \<Rightarrow> ([''connected'', ''replaced''], True, None)
                 | Closed \<Rightarrow> ([''connected''], True, Some ''use of closed network connection''))))"

text \<open>Tunnels.dial: through the proxy, or direct; TLS over either.\<close>

definition tunnel_dial ::
    "(string \<Rightarrow> string + string) \<Rightarrow> (url \<Rightarrow> string \<Rightarrow> string option) \<Rightarrow> (string \<Rightarrow> string + string) \<Rightarrow>
     'k tunnels \<Rightarrow> string + string" where
  "tunnel_dial tls_dial via_proxy handshake t =
     (case tn_proxy t of
        None \<Rightarrow> tls_dial (tn_addr t)
      | Some p \<Rightarrow>
          (case via_proxy p (tn_addr t) of
             Some e \<Rightarrow> Err (''through EGRESS_PROXY_URL: '' @ e)
           | None \<Rightarrow> handshake (tn_addr t)))"

text \<open>hold: the wait before each redial, from how long each tunnel lasted and whether it was replaced.\<close>

definition drain_grace :: duration where "drain_grace = 20 * nanos"
definition dial_timeout :: duration where "dial_timeout = 15 * nanos"
definition stable_after :: duration where "stable_after = 30 * nanos"

record backoff =
  bo_initial :: duration
  bo_max :: duration
  bo_multiplier :: int
  bo_spread :: "int \<times> int"

definition redial_backoff :: backoff where
  "redial_backoff = \<lparr>bo_initial = 750 * 1000000, bo_max = 22500 * 1000000, bo_multiplier = 2, bo_spread = (1, 3)\<rparr>"

fun hold_waits :: "'b \<Rightarrow> ('b \<Rightarrow> duration \<times> 'b) \<Rightarrow> 'b \<Rightarrow> (duration \<times> bool) list \<Rightarrow> duration list" where
  "hold_waits fresh next_wait b [] = []"
| "hold_waits fresh next_wait b ((lasted, asked) # rounds) =
     (let (wait, b') = next_wait (if stable_after < lasted then fresh else b) in
      if asked then 0 # hold_waits fresh next_wait fresh rounds
      else wait # hold_waits fresh next_wait b' rounds)"

section \<open>All tunnels, and readiness\<close>

text \<open>
  Each goroutine's tracked is two atomic steps, which those of the others may come between. A
  connection is known by a number, from the moment it is counted. A dial under way when the
  connector stops may still come up.
\<close>

record tunnel_system =
  ts_up :: int
  ts_ever_up :: bool
  ts_stored :: nat
  ts_stopping :: bool
  ts_conns :: "nat set"
  ts_next :: nat

definition tunnels_started :: tunnel_system where
  "tunnels_started = \<lparr>ts_up = 0, ts_ever_up = False, ts_stored = 0, ts_stopping = False, ts_conns = {}, ts_next = 0\<rparr>"

definition tracked_store :: "int \<Rightarrow> tunnel_system \<Rightarrow> tunnel_system" where
  "tracked_store delta s = (if 0 < delta then s\<lparr>ts_ever_up := True\<rparr> else s)"

definition tracked_add :: "int \<Rightarrow> tunnel_system \<Rightarrow> tunnel_system" where
  "tracked_add delta s = s\<lparr>ts_up := ts_up s + delta\<rparr>"

definition tracked :: "int \<Rightarrow> tunnel_system \<Rightarrow> tunnel_system" where
  "tracked delta s = tracked_add delta (tracked_store delta s)"

definition tunnels_ready :: "tunnel_system \<Rightarrow> string option" where
  "tunnels_ready s = (if 0 < ts_up s \<or> ts_ever_up s then None else Some ''no tunnel'')"

datatype tunnel_event = TunnelServed | TunnelUp nat | TunnelClosed nat | TunnelsStopping

inductive tunnel_step :: "tunnel_system \<Rightarrow> tunnel_event \<Rightarrow> tunnel_system \<Rightarrow> bool" where
  served: "tunnel_step s TunnelServed ((tracked_store 1 s)\<lparr>ts_stored := ts_stored s + 1\<rparr>)"
| up: "0 < ts_stored s \<Longrightarrow> tunnel_step s (TunnelUp (ts_next s))
      ((tracked_add 1 s)\<lparr>ts_stored := ts_stored s - 1, ts_conns := insert (ts_next s) (ts_conns s), ts_next := ts_next s + 1\<rparr>)"
| closed: "i \<in> ts_conns s \<Longrightarrow> tunnel_step s (TunnelClosed i) ((tracked (- 1) s)\<lparr>ts_conns := ts_conns s - {i}\<rparr>)"
| stopping: "tunnel_step s TunnelsStopping (s\<lparr>ts_stopping := True\<rparr>)"

inductive_cases tunnel_step_cases: "tunnel_step s e s'"

inductive tunnel_reach :: "tunnel_event list \<Rightarrow> tunnel_system \<Rightarrow> bool" where
  tunnel_init: "tunnel_reach [] tunnels_started"
| tunnel_more: "tunnel_reach es s \<Longrightarrow> tunnel_step s e s' \<Longrightarrow> tunnel_reach (es @ [e]) s'"

text \<open>
  router.Readiness, for /readyz and for probes: the status and the members of the JSON body, in the
  order encoding/json writes a map. Every other route of the router is healthz.
\<close>

definition readiness :: "tunnel_system \<Rightarrow> nat \<times> (string \<times> json) list" where
  "readiness s =
     (let active = (''active_tunnels'', JNum (format_uint (nat (ts_up s)))) in
      case tunnels_ready s of
        None \<Rightarrow> (status_ok, [active, (''status'', JStr ''ready'')])
      | Some e \<Rightarrow> (status_service_unavailable, [active, (''reason'', JStr e), (''status'', JStr ''not ready'')]))"

definition router_route :: "tunnel_system \<Rightarrow> string \<Rightarrow> string \<Rightarrow> (nat \<times> (string \<times> json) list) option" where
  "router_route s meth path =
     (if meth \<noteq> ''GET'' then None
      else if path = ''/healthz'' then Some (status_ok, [(''status'', JStr ''healthy'')])
      else if path = ''/readyz'' then Some (readiness s)
      else None)"

section \<open>Laws\<close>

text \<open>A replaced tunnel is redialed at once, and the wait after the next failure starts over.\<close>

lemma hold_waits_replaced:
  "hold_waits fresh next_wait b ((lasted, True) # (0, False) # rounds) =
     0 # fst (next_wait fresh) # hold_waits fresh next_wait (snd (next_wait fresh)) rounds"
  by (simp add: stable_after_def nanos_def case_prod_unfold Let_def)

lemma hold_waits_length: "length (hold_waits fresh next_wait b rounds) = length rounds"
  by (induction fresh next_wait b rounds rule: hold_waits.induct) (auto simp: Let_def split: prod.splits)

definition tunnel_inv :: "tunnel_event list \<Rightarrow> tunnel_system \<Rightarrow> bool" where
  "tunnel_inv es s \<longleftrightarrow>
     finite (ts_conns s) \<and> (\<forall>i \<in> ts_conns s. i < ts_next s) \<and> ts_up s = int (card (ts_conns s)) \<and>
     (ts_ever_up s \<longleftrightarrow> TunnelServed \<in> set es) \<and> (0 < ts_stored s \<or> ts_conns s \<noteq> {} \<longrightarrow> ts_ever_up s)"

lemma tunnel_reach_inv: "tunnel_reach es s \<Longrightarrow> tunnel_inv es s"
proof (induction rule: tunnel_reach.induct)
  case tunnel_init
  then show ?case by (simp add: tunnel_inv_def tunnels_started_def)
next
  case (tunnel_more es s e s')
  note inv = tunnel_more(3) [unfolded tunnel_inv_def]
  from tunnel_more(2) show ?case
  proof (cases rule: tunnel_step.cases)
    case served
    then show ?thesis using inv by (simp add: tunnel_inv_def tracked_store_def)
  next
    case up
    moreover have "ts_next s \<notin> ts_conns s" using inv by blast
    ultimately show ?thesis using inv by (auto simp: tunnel_inv_def tracked_add_def)
  next
    case (closed i)
    then have "0 < card (ts_conns s)" using inv card_gt_0_iff by blast
    with closed show ?thesis using inv by (auto simp: tunnel_inv_def tracked_def tracked_add_def tracked_store_def of_nat_diff)
  next
    case stopping
    then show ?thesis using inv by (auto simp: tunnel_inv_def)
  qed
qed

text \<open>
  C36. Readiness: in every state the tunnels reach, the count is that of the connections being
  served, never negative; the connector answers ready from its first tunnel on and stays so however
  tunnels come and go, and not ready with 503 before; the body reports the count either way.
\<close>

theorem ready_from_first_tunnel:
  assumes "tunnel_reach es s"
  shows "ts_up s = int (card (ts_conns s)) \<and>
    (tunnels_ready s = None \<longleftrightarrow> TunnelServed \<in> set es) \<and>
    router_route s ''GET'' ''/readyz'' = Some (readiness s) \<and>
    fst (readiness s) = (if TunnelServed \<in> set es then 200 else 503) \<and>
    map_of (snd (readiness s)) ''active_tunnels'' = Some (JNum (format_uint (card (ts_conns s))))"
proof -
  have i: "tunnel_inv es s" using tunnel_reach_inv [OF assms] .
  then have r: "tunnels_ready s = None \<longleftrightarrow> TunnelServed \<in> set es"
    by (auto simp: tunnel_inv_def tunnels_ready_def)
  moreover have "tunnels_ready s = None \<or> tunnels_ready s = Some ''no tunnel''" by (simp add: tunnels_ready_def)
  ultimately show ?thesis
    using i by (auto simp: readiness_def router_route_def status_defs tunnel_inv_def)
qed

theorem ready_from_first_tunnel_witness:
  "\<exists>s. tunnel_reach [TunnelServed, TunnelUp 0, TunnelClosed 0] s \<and> fst (readiness s) = 200 \<and>
     map_of (snd (readiness s)) ''active_tunnels'' = Some (JNum ''0'')"
proof -
  let ?s1 = "tunnels_started\<lparr>ts_ever_up := True, ts_stored := 1\<rparr>"
  let ?s2 = "tunnels_started\<lparr>ts_up := 1, ts_ever_up := True, ts_conns := {0}, ts_next := 1\<rparr>"
  let ?s3 = "tunnels_started\<lparr>ts_ever_up := True, ts_next := 1\<rparr>"
  note d = tunnels_started_def tracked_store_def tracked_add_def tracked_def
  have "tunnel_step tunnels_started TunnelServed ?s1" using served [of tunnels_started] by (simp add: d)
  moreover have "tunnel_step ?s1 (TunnelUp 0) ?s2" using up [of ?s1] by (simp add: d)
  moreover have "tunnel_step ?s2 (TunnelClosed 0) ?s3" using closed [of 0 ?s2] by (simp add: d)
  ultimately have r: "tunnel_reach [TunnelServed, TunnelUp 0, TunnelClosed 0] ?s3"
    using tunnel_more [OF tunnel_more [OF tunnel_more [OF tunnel_init]]] by fastforce
  have "ts_conns ?s3 = {}" by (simp add: tunnels_started_def)
  moreover have "format_uint 0 = ''0''" by code_simp
  ultimately show ?thesis using r ready_from_first_tunnel [OF r] by (intro exI [of _ ?s3]) auto
qed

end
