(* ===== verification/Stopping.thy ===== *)
theory Stopping
  imports Tunnels
begin

text \<open>
  How a connector stops: the goroutine of Tunnels.Start in internal/pipeserver/tunnels.go, with
  Server.Drain and the Wait of connector-lib/drain, interleaved with the handlers that are still
  about. Its grace may run out at any moment; what happens on the tunnels once they are closed is
  left to the handlers, whose steps go on.
\<close>

section \<open>The stopping goroutine\<close>

text \<open>
  Before its context is done; after it stored that no tunnel is redialed; in Drain, from the moment
  the tracker drains to what Wait answers; after it closed the tunnels and the channel Start returned.
\<close>

datatype stop_phase = Taking | Told | Waiting wait_state | TunnelsShut wait_state

record 'k stop_system =
  st_pipes :: "'k pipe_system"
  st_phase :: stop_phase

datatype stop_event = PipeEvent pipe_event | StopTold | StopDraining | StopLook | StopDrained | StopWake | StopGraceOver
  | StopShut

definition stop_fresh :: "'k server \<Rightarrow> 'k stop_system" where
  "stop_fresh sv = \<lparr>st_pipes = fresh_system sv, st_phase = Taking\<rparr>"

definition stop_tracker :: "'k stop_system \<Rightarrow> tracker" where
  "stop_tracker s = sv_pipes (ps_server (st_pipes s))"

inductive stop_step :: "'k externals \<Rightarrow> 'k stop_system \<Rightarrow> stop_event \<Rightarrow> 'k stop_system \<Rightarrow> bool" for ex where
  stop_pipe: "pipe_step ex (st_pipes s) e p \<Longrightarrow> e \<noteq> EvDraining \<Longrightarrow>
    stop_step ex s (PipeEvent e) (s\<lparr>st_pipes := p\<rparr>)"
| stop_told: "st_phase s = Taking \<Longrightarrow> stop_step ex s StopTold (s\<lparr>st_phase := Told\<rparr>)"
| stop_draining: "st_phase s = Told \<Longrightarrow> pipe_step ex (st_pipes s) EvDraining p \<Longrightarrow>
    stop_step ex s StopDraining (s\<lparr>st_pipes := p, st_phase := Waiting Looking\<rparr>)"
| stop_look: "st_phase s = Waiting Looking \<Longrightarrow> tr_n (stop_tracker s) \<noteq> 0 \<Longrightarrow> tr_idle (stop_tracker s) = Some c \<Longrightarrow>
    stop_step ex s StopLook (s\<lparr>st_phase := Waiting (Blocked c)\<rparr>)"
| stop_drained: "st_phase s = Waiting Looking \<Longrightarrow> tr_n (stop_tracker s) = 0 \<Longrightarrow>
    stop_step ex s StopDrained (s\<lparr>st_phase := Waiting Drained\<rparr>)"
| stop_wake: "st_phase s = Waiting (Blocked c) \<Longrightarrow> c \<in> tr_closed (stop_tracker s) \<Longrightarrow>
    stop_step ex s StopWake (s\<lparr>st_phase := Waiting Looking\<rparr>)"
| stop_grace: "st_phase s = Waiting (Blocked c) \<Longrightarrow>
    stop_step ex s StopGraceOver (s\<lparr>st_phase := Waiting (TimedOut (in_flight_count (stop_tracker s)))\<rparr>)"
| stop_shut: "st_phase s = Waiting w \<Longrightarrow> w = Drained \<or> w = TimedOut n \<Longrightarrow>
    stop_step ex s StopShut (s\<lparr>st_phase := TunnelsShut w\<rparr>)"

inductive stop_reach :: "'k externals \<Rightarrow> 'k stop_system \<Rightarrow> stop_event list \<Rightarrow> 'k stop_system \<Rightarrow> bool" for ex s0 where
  stop_init: "stop_reach ex s0 [] s0"
| stop_more: "stop_reach ex s0 es s \<Longrightarrow> stop_step ex s e s' \<Longrightarrow> stop_reach ex s0 (es @ [e]) s'"

text \<open>The handlers cannot tell: what they reach is a run of theirs, in which the drain is an event.\<close>

fun pipe_part :: "stop_event \<Rightarrow> pipe_event list" where
  "pipe_part (PipeEvent e) = [e]"
| "pipe_part StopDraining = [EvDraining]"
| "pipe_part _ = []"

lemma stop_reach_pipe:
  "stop_reach ex (stop_fresh sv) es s \<Longrightarrow> pipe_reach ex (fresh_system sv) (concat (map pipe_part es)) (st_pipes s)"
proof (induction rule: stop_reach.induct)
  case stop_init
  then show ?case by (simp add: stop_fresh_def pipe_init)
next
  case (stop_more es s e s')
  from stop_more(2) show ?case
    by (cases rule: stop_step.cases) (use stop_more(3) in \<open>auto intro: pipe_more\<close>)
qed

section \<open>The wait, as a waiter of the tracker\<close>

text \<open>
  Seen from the tracker, the goroutine is one Wait call beside the Adds and Dones of the handlers:
  each of its steps is a step of the drain system or leaves it alone, so what holds of every
  interleaving there holds here.
\<close>

definition drain_view :: "'k stop_system \<Rightarrow> drain_system" where
  "drain_view s = \<lparr>ds_tracker = stop_tracker s,
     ds_waiters = (case st_phase s of Waiting w \<Rightarrow> [0 \<mapsto> w] | TunnelsShut w \<Rightarrow> [0 \<mapsto> w] | _ \<Rightarrow> Map.empty)\<rparr>"

lemma open_verify_pipes: "open_verify ex now sv r host port = (sv', res) \<Longrightarrow> sv_pipes sv' = sv_pipes sv"
  using open_verify_server by blast

lemma pipe_step_tracker:
  assumes "pipe_step ex p e p'"
  shows "sv_pipes (ps_server p') = sv_pipes (ps_server p) \<or>
    (\<exists>l ok. tracker_add l (sv_pipes (ps_server p)) = (sv_pipes (ps_server p'), ok)) \<or>
    tracker_done (sv_pipes (ps_server p)) = Some (sv_pipes (ps_server p')) \<or>
    sv_pipes (ps_server p') = tracker_drain (sv_pipes (ps_server p))"
  using assms
  by (cases rule: pipe_step.cases) (auto simp: open_admit_def Let_def dest: open_verify_pipes split: prod.splits)

abbreviation drain_next :: "drain_system \<Rightarrow> drain_system \<Rightarrow> bool" where
  "drain_next a b \<equiv> \<exists>e. drain_step a e b"

lemma drain_next_tracker:
  assumes "pipe_step ex p e p'"
  shows "drain_next\<^sup>*\<^sup>* \<lparr>ds_tracker = sv_pipes (ps_server p), ds_waiters = w\<rparr> \<lparr>ds_tracker = sv_pipes (ps_server p'), ds_waiters = w\<rparr>"
  using pipe_step_tracker [OF assms]
proof (elim disjE exE)
  fix l ok
  assume "tracker_add l (sv_pipes (ps_server p)) = (sv_pipes (ps_server p'), ok)"
  then show ?thesis using step_add [of l "\<lparr>ds_tracker = sv_pipes (ps_server p), ds_waiters = w\<rparr>"] by auto
next
  assume "tracker_done (sv_pipes (ps_server p)) = Some (sv_pipes (ps_server p'))"
  then show ?thesis using step_done [of "\<lparr>ds_tracker = sv_pipes (ps_server p), ds_waiters = w\<rparr>"] by auto
next
  assume "sv_pipes (ps_server p') = tracker_drain (sv_pipes (ps_server p))"
  then show ?thesis using step_drain [of "\<lparr>ds_tracker = sv_pipes (ps_server p), ds_waiters = w\<rparr>"] by auto
qed simp

lemma stop_refines_drain:
  assumes "stop_step ex s e s'"
  shows "drain_next\<^sup>*\<^sup>* (drain_view s) (drain_view s')"
  using assms
proof (cases rule: stop_step.cases)
  case (stop_pipe e' p)
  then show ?thesis using drain_next_tracker [OF stop_pipe(3)] by (simp add: drain_view_def stop_tracker_def)
next
  case stop_told
  then show ?thesis by (simp add: drain_view_def stop_tracker_def)
next
  case (stop_draining p)
  let ?v = "drain_view (s\<lparr>st_pipes := p\<rparr>)"
  have "drain_next\<^sup>*\<^sup>* (drain_view s) ?v"
    using drain_next_tracker [OF stop_draining(4)] stop_draining(3) by (simp add: drain_view_def stop_tracker_def)
  moreover have "drain_next ?v (drain_view s')"
    using step_wait [of ?v 0] stop_draining(2,3) by (auto simp: drain_view_def stop_tracker_def)
  ultimately show ?thesis by (rule rtranclp.rtrancl_into_rtrancl)
next
  case (stop_look c)
  then have "drain_next (drain_view s) (drain_view s')"
    using step_look [of "drain_view s" 0 "Some (Blocked c)"] by (auto simp: drain_view_def stop_tracker_def)
  then show ?thesis by blast
next
  case stop_drained
  then have "drain_next (drain_view s) (drain_view s')"
    using step_look [of "drain_view s" 0 "Some Drained"] by (auto simp: drain_view_def stop_tracker_def)
  then show ?thesis by blast
next
  case (stop_wake c)
  then have "drain_next (drain_view s) (drain_view s')"
    using step_wake [of "drain_view s" 0 c] by (auto simp: drain_view_def stop_tracker_def)
  then show ?thesis by blast
next
  case (stop_grace c)
  then have "drain_next (drain_view s) (drain_view s')"
    using step_timeout [of "drain_view s" 0 c] by (auto simp: drain_view_def stop_tracker_def)
  then show ?thesis by blast
next
  case (stop_shut w n)
  then show ?thesis by (simp add: drain_view_def stop_tracker_def)
qed

lemma drain_inv_next: "drain_next\<^sup>*\<^sup>* a b \<Longrightarrow> drain_inv a \<Longrightarrow> drain_inv b"
  by (induction rule: rtranclp.induct) (auto intro: drain_step_inv)

lemma stop_reach_drain_inv: "stop_reach ex (stop_fresh sv) es s \<Longrightarrow> drain_inv (drain_view s)"
proof (induction rule: stop_reach.induct)
  case stop_init
  then show ?case by (simp add: drain_view_def stop_fresh_def stop_tracker_def fresh_system_def drain_inv_def)
next
  case (stop_more es s e s')
  then show ?case using drain_inv_next stop_refines_drain by blast
qed

section \<open>Which pipes a stop ends\<close>

definition before_drain :: "stop_event list \<Rightarrow> stop_event list" where
  "before_drain es = takeWhile (\<lambda>e. e \<noteq> StopDraining) es"

definition after_drained :: "stop_event list \<Rightarrow> stop_event list" where
  "after_drained es = tl (dropWhile (\<lambda>e. e \<noteq> StopDrained) es)"

lemma before_drain_all: "StopDraining \<notin> set es \<Longrightarrow> before_drain es = es"
  by (auto simp: before_drain_def takeWhile_eq_all_conv)

lemma before_drain_snoc:
  "before_drain (es @ [e]) = (if StopDraining \<in> set es then before_drain es else if e = StopDraining then es else es @ [e])"
  by (auto simp: before_drain_def takeWhile_append)

lemma after_drained_snoc:
  "StopDrained \<in> set es \<Longrightarrow> after_drained (es @ [e]) = after_drained es @ [e]"
proof -
  assume d: "StopDrained \<in> set es"
  then have "dropWhile (\<lambda>e. e \<noteq> StopDrained) es \<noteq> []" by (auto simp: dropWhile_eq_Nil_conv)
  then show ?thesis
    using d by (cases "dropWhile (\<lambda>e. e \<noteq> StopDrained) es") (auto simp: after_drained_def dropWhile_append)
qed

lemma pipe_step_places:
  assumes "pipe_step ex p e p'"
  shows "open_pipes (ps_stage p') \<subseteq> open_pipes (ps_stage p) \<union> {i. e = EvAdmitted i} \<and>
    dom (ps_stage p') \<subseteq> dom (ps_stage p) \<union> {i. e = EvChecked i}"
  using assms by (cases rule: pipe_step.cases) auto

definition stop_inv :: "stop_event list \<Rightarrow> 'k stop_system \<Rightarrow> bool" where
  "stop_inv es s \<longleftrightarrow>
     (st_phase s \<in> {Taking, Told} \<longleftrightarrow> StopDraining \<notin> set es) \<and>
     (StopDraining \<in> set es \<longrightarrow> tr_draining (stop_tracker s)) \<and>
     (\<forall>i \<in> dom (ps_stage (st_pipes s)). PipeEvent (EvChecked i) \<in> set (before_drain es)) \<and>
     (StopDrained \<in> set es \<longleftrightarrow> st_phase s = Waiting Drained \<or> st_phase s = TunnelsShut Drained) \<and>
     (StopDrained \<in> set es \<longrightarrow> (\<forall>i \<in> open_pipes (ps_stage (st_pipes s)). PipeEvent (EvAdmitted i) \<in> set (after_drained es))) \<and>
     (\<forall>n. st_phase s = Waiting (TimedOut n) \<longrightarrow> StopGraceOver \<in> set es) \<and>
     (\<forall>w. st_phase s = TunnelsShut w \<longrightarrow> w = Drained \<or> StopGraceOver \<in> set es)"

lemma stop_inv_step:
  assumes "stop_inv es s" and "pipe_inv ex sv (st_pipes s)" and "stop_step ex s e s'"
  shows "stop_inv (es @ [e]) s'"
  using assms(3)
proof (cases rule: stop_step.cases)
  case (stop_pipe e' p)
  note pl = pipe_step_places [OF stop_pipe(3)]
  have d: "tr_draining (sv_pipes (ps_server p)) \<and> (\<forall>i. e' \<noteq> EvChecked i)" if "StopDraining \<in> set es"
    using pipe_step_drains [OF stop_pipe(3)] that assms(1) by (auto simp: stop_inv_def stop_tracker_def)
  have b: "PipeEvent (EvChecked i) \<in> set (before_drain (es @ [e]))" if i: "i \<in> dom (ps_stage p)" for i
  proof (cases "StopDraining \<in> set es")
    case True
    then have "i \<in> dom (ps_stage (st_pipes s))" using i pl d by auto
    then show ?thesis using assms(1) True by (simp add: stop_inv_def before_drain_snoc)
  next
    case False
    then have "before_drain es = es" by (simp add: before_drain_all)
    then have "i \<in> dom (ps_stage (st_pipes s)) \<Longrightarrow> PipeEvent (EvChecked i) \<in> set es" using assms(1) by (simp add: stop_inv_def)
    then show ?thesis using i pl False stop_pipe(1) by (auto simp: before_drain_snoc)
  qed
  have a: "PipeEvent (EvAdmitted i) \<in> set (after_drained (es @ [e]))"
    if "StopDrained \<in> set es" "i \<in> open_pipes (ps_stage p)" for i
    using that pl assms(1) stop_pipe(1) unfolding after_drained_snoc [OF that(1)] stop_inv_def by auto
  show ?thesis
    using assms(1) a b d stop_pipe(1,2) unfolding stop_inv_def by (simp add: stop_tracker_def)
next
  case stop_told
  then have "StopDraining \<notin> set es" using assms(1) by (simp add: stop_inv_def)
  then have "before_drain (es @ [e]) = before_drain es @ [e]"
    using stop_told(1) by (simp add: before_drain_snoc before_drain_all)
  then show ?thesis using assms(1) stop_told by (auto simp: stop_inv_def stop_tracker_def)
next
  case (stop_draining p)
  then have p: "ps_stage p = ps_stage (st_pipes s)" "tr_draining (sv_pipes (ps_server p))"
    by (auto elim: pipe_step_cases)
  have "StopDraining \<notin> set es" "StopDrained \<notin> set es" using assms(1) stop_draining(3) by (auto simp: stop_inv_def)
  moreover then have "before_drain es = es" by (simp add: before_drain_all)
  ultimately show ?thesis
    using assms(1) stop_draining p by (auto simp: stop_inv_def stop_tracker_def before_drain_snoc)
next
  case stop_drained
  then have "card (open_pipes (ps_stage (st_pipes s))) = 0"
    using assms(2) by (simp add: pipe_inv_def stop_tracker_def)
  then have "open_pipes (ps_stage (st_pipes s)) = {}" using pipe_inv_finite [OF assms(2)] by simp
  then show ?thesis
    using assms(1) stop_drained by (auto simp: stop_inv_def stop_tracker_def before_drain_snoc)
next
  case (stop_shut w n)
  moreover have "after_drained (es @ [e]) = after_drained es @ [e]" if "StopDrained \<in> set es"
    using after_drained_snoc [OF that] .
  ultimately show ?thesis
    using assms(1) by (auto simp: stop_inv_def stop_tracker_def before_drain_snoc)
qed (use assms(1) in \<open>auto simp: stop_inv_def stop_tracker_def before_drain_snoc\<close>)

lemma stop_reach_inv: "stop_reach ex (stop_fresh sv) es s \<Longrightarrow> stop_inv es s"
proof (induction rule: stop_reach.induct)
  case stop_init
  then show ?case by (simp add: stop_inv_def stop_fresh_def fresh_system_def)
next
  case (stop_more es s e s')
  then show ?case using stop_inv_step pipe_inv_reach [OF stop_reach_pipe] by blast
qed

section \<open>A stop ends\<close>

text \<open>From wherever the goroutine waits, its own steps shut the tunnels, the grace running out.\<close>

lemma shut_from_blocked:
  assumes "st_phase s = Waiting (Blocked c)"
  shows "\<exists>s'. stop_reach ex s [StopGraceOver, StopShut] s' \<and> (\<exists>w. st_phase s' = TunnelsShut w)"
proof -
  let ?s1 = "s\<lparr>st_phase := Waiting (TimedOut (in_flight_count (stop_tracker s)))\<rparr>"
  have "stop_step ex s StopGraceOver ?s1" by (rule stop_grace [OF assms])
  moreover have "stop_step ex ?s1 StopShut (?s1\<lparr>st_phase := TunnelsShut (TimedOut (in_flight_count (stop_tracker s)))\<rparr>)"
    by (rule stop_shut) simp_all
  ultimately show ?thesis using stop_more [OF stop_more [OF stop_init]] by fastforce
qed

lemma shut_from_drained:
  assumes "st_phase s = Waiting Looking" and "tr_n (stop_tracker s) = 0"
  shows "\<exists>s'. stop_reach ex s [StopDrained, StopShut] s' \<and> st_phase s' = TunnelsShut Drained"
proof -
  let ?s1 = "s\<lparr>st_phase := Waiting Drained\<rparr>"
  have "stop_step ex s StopDrained ?s1" by (rule stop_drained [OF assms])
  moreover have "stop_step ex ?s1 StopShut (?s1\<lparr>st_phase := TunnelsShut Drained\<rparr>)" by (rule stop_shut) simp_all
  ultimately show ?thesis using stop_more [OF stop_more [OF stop_init]] by fastforce
qed

lemma stop_reach_cons: "stop_step ex s e s1 \<Longrightarrow> stop_reach ex s1 es s2 \<Longrightarrow> stop_reach ex s (e # es) s2"
proof (rotate_tac 1, induction rule: stop_reach.induct)
  case stop_init
  then show ?case using stop_more [OF stop_reach.stop_init] by fastforce
next
  case (stop_more es' t e' t')
  then show ?case using stop_reach.stop_more [of ex s "e # es'" t e' t'] by simp
qed

lemma shut_reachable:
  assumes "st_phase s = Waiting w" and "tracker_inv (stop_tracker s)"
  shows "\<exists>es s'. stop_reach ex s es s' \<and> length es \<le> 3 \<and> (\<exists>w'. st_phase s' = TunnelsShut w')"
proof (cases w)
  case Looking
  show ?thesis
  proof (cases "tr_n (stop_tracker s) = 0")
    case True
    then show ?thesis using shut_from_drained [of s ex] assms(1) Looking by fastforce
  next
    case False
    then obtain c where c: "tr_idle (stop_tracker s) = Some c"
      using assms(2) by (cases "tr_idle (stop_tracker s)") (simp_all add: tracker_inv_def)
    let ?s1 = "s\<lparr>st_phase := Waiting (Blocked c)\<rparr>"
    have "stop_step ex s StopLook ?s1" using stop_look False c assms(1) Looking by blast
    then show ?thesis using shut_from_blocked [of ?s1 c ex] stop_reach_cons by fastforce
  qed
next
  case (Blocked c)
  then show ?thesis using shut_from_blocked [of s c ex] assms(1) by fastforce
next
  case Drained
  then show ?thesis using stop_more [OF stop_init stop_shut [of s w]] assms(1) by fastforce
next
  case (TimedOut n)
  then show ?thesis using stop_more [OF stop_init stop_shut [of s w n]] assms(1) by fastforce
qed

section \<open>Properties\<close>

text \<open>
  C17. Stopping, interleaved with every handler. Once the drain has begun, each CONNECT is refused as
  draining, and each handler still about had passed its first check before. The tunnels are shut only
  when the grace ran out or Wait found no pipe open; in the second case the only pipes a shut tunnel
  can cut are ones admitted after that look, by handlers checked before the drain. A stop that has
  begun to wait always ends, in at most three steps of its own, and one that is blocked when the last
  pipe ends is woken: it looks again, finds none and shuts the tunnels without the grace.
\<close>

theorem stop_drains:
  assumes "stop_reach ex (stop_fresh sv) es s"
  shows "(StopDraining \<in> set es \<longrightarrow>
        open_check (ex_lower ex) (ps_server (st_pipes s)) r = Err (Refused Draining ''draining'')) \<and>
    (\<forall>i \<in> dom (ps_stage (st_pipes s)). PipeEvent (EvChecked i) \<in> set (before_drain es)) \<and>
    (\<forall>w. st_phase s = TunnelsShut w \<longrightarrow> StopGraceOver \<in> set es \<or>
       (\<forall>i \<in> open_pipes (ps_stage (st_pipes s)). PipeEvent (EvAdmitted i) \<in> set (after_drained es))) \<and>
    (\<forall>w. st_phase s = Waiting w \<longrightarrow>
       (\<exists>es' s'. stop_reach ex s es' s' \<and> length es' \<le> 3 \<and> (\<exists>w'. st_phase s' = TunnelsShut w'))) \<and>
    (\<forall>c. st_phase s = Waiting (Blocked c) \<and> open_pipes (ps_stage (st_pipes s)) = {} \<longrightarrow>
       (\<exists>s'. stop_reach ex s [StopWake, StopDrained, StopShut] s' \<and> st_phase s' = TunnelsShut Drained))"
proof -
  note inv = stop_reach_inv [OF assms, unfolded stop_inv_def]
  note pinv = pipe_inv_reach [OF stop_reach_pipe [OF assms]]
  then have t: "tracker_inv (stop_tracker s)" "tr_n (stop_tracker s) = card (open_pipes (ps_stage (st_pipes s)))"
    by (simp_all add: pipe_inv_def stop_tracker_def)
  have "open_check (ex_lower ex) (ps_server (st_pipes s)) r = Err (Refused Draining ''draining'')"
    if "StopDraining \<in> set es"
    using that inv by (simp add: open_check_def stop_tracker_def Let_def)
  moreover have "\<exists>s'. stop_reach ex s [StopWake, StopDrained, StopShut] s' \<and> st_phase s' = TunnelsShut Drained"
    if b: "st_phase s = Waiting (Blocked c)" "open_pipes (ps_stage (st_pipes s)) = {}" for c
  proof -
    have "ds_waiters (drain_view s) 0 = Some (Blocked c)" "ds_tracker (drain_view s) = stop_tracker s"
      using b by (simp_all add: drain_view_def)
    then have "c \<in> tr_closed (stop_tracker s) \<or> tr_idle (stop_tracker s) = Some c"
      using stop_reach_drain_inv [OF assms] unfolding drain_inv_def by metis
    moreover have n: "tr_n (stop_tracker s) = 0" using t(2) b(2) by simp
    ultimately have c: "c \<in> tr_closed (stop_tracker s)" using tracker_idle_closed [OF t(1)] by blast
    let ?s1 = "s\<lparr>st_phase := Waiting Looking\<rparr>"
    have "stop_step ex s StopWake ?s1" by (rule stop_wake [OF b(1) c])
    moreover obtain s' where "stop_reach ex ?s1 [StopDrained, StopShut] s'" "st_phase s' = TunnelsShut Drained"
      using shut_from_drained [of ?s1 ex] n by (auto simp: stop_tracker_def)
    ultimately show ?thesis using stop_reach_cons by blast
  qed
  ultimately show ?thesis using inv shut_reachable [OF _ t(1)] by blast
qed

text \<open>A pipe that is open when the drain begins, and ends while it waits.\<close>

lemma stop_lift:
  assumes "pipe_reach ex (fresh_system sv) es p" and "EvDraining \<notin> set es"
  shows "\<exists>s. stop_reach ex (stop_fresh sv) (map PipeEvent es) s \<and> st_pipes s = p \<and> st_phase s = Taking"
  using assms
proof (induction rule: pipe_reach.induct)
  case pipe_init
  show ?case by (rule exI [of _ "stop_fresh sv"]) (simp add: stop_init, simp add: stop_fresh_def)
next
  case (pipe_more es p e p')
  then obtain s where s: "stop_reach ex (stop_fresh sv) (map PipeEvent es) s" "st_pipes s = p" "st_phase s = Taking" by auto
  have "stop_step ex s (PipeEvent e) (s\<lparr>st_pipes := p'\<rparr>)" using stop_pipe [of ex s e p'] pipe_more(2,4) s(2) by auto
  then show ?case using stop_more [OF s(1)] s(3) by fastforce
qed

lemma example_blocked:
  "\<exists>es s c. stop_reach example_externals (stop_fresh example_server) es s \<and> st_phase s = Waiting (Blocked c) \<and>
     open_pipes (ps_stage (st_pipes s)) = {}"
proof -
  let ?ex = example_externals
  obtain es p where p: "pipe_reach ?ex (fresh_system example_server) es p" "EvDraining \<notin> set es"
    "ps_stage p 0 = Some (Serving example_pipe_url example_claims)"
    using example_serving by fastforce
  obtain s where s: "stop_reach ?ex (stop_fresh example_server) (map PipeEvent es) s" "st_pipes s = p" "st_phase s = Taking"
    using stop_lift [OF p(1,2)] by blast
  let ?p1 = "p\<lparr>ps_server := (ps_server p)\<lparr>sv_pipes := tracker_drain (sv_pipes (ps_server p))\<rparr>\<rparr>"
  let ?s1 = "s\<lparr>st_phase := Told\<rparr>"
  let ?s2 = "?s1\<lparr>st_pipes := ?p1, st_phase := Waiting Looking\<rparr>"
  have r2: "stop_reach ?ex (stop_fresh example_server) ((map PipeEvent es @ [StopTold]) @ [StopDraining]) ?s2"
    using stop_more [OF stop_more [OF s(1) stop_told [OF s(3)]] stop_draining [of ?s1 ?ex ?p1]] pipe_step.draining [of ?ex p] s(2)
    by simp
  have inv: "pipe_inv ?ex example_server ?p1" using pipe_inv_reach [OF stop_reach_pipe [OF r2]] by simp
  have mem: "0 \<in> open_pipes (ps_stage ?p1)" using p(3) by simp
  have one: "open_pipes (ps_stage ?p1) = {0}"
  proof -
    have "card (open_pipes (ps_stage ?p1)) \<le> 1" using inv by (simp add: pipe_inv_def example_server_def)
    then show ?thesis using mem pipe_inv_finite [OF inv] by (auto simp: card_le_Suc0_iff_eq)
  qed
  have t: "tracker_inv (stop_tracker ?s2)" "tr_n (stop_tracker ?s2) = 1"
    using inv one by (simp_all add: pipe_inv_def stop_tracker_def)
  obtain c where c: "tr_idle (stop_tracker ?s2) = Some c"
    using t by (cases "tr_idle (stop_tracker ?s2)") (simp_all add: tracker_inv_def)
  let ?s3 = "?s2\<lparr>st_phase := Waiting (Blocked c)\<rparr>"
  have r3: "stop_reach ?ex (stop_fresh example_server) (((map PipeEvent es @ [StopTold]) @ [StopDraining]) @ [StopLook]) ?s3"
    using stop_more [OF r2 stop_look [of ?s2 c]] t(2) c by simp
  obtain u where u: "tracker_done (stop_tracker ?s2) = Some u" using tracker_done_Some [OF t(1)] t(2) by auto
  let ?p4 = "?p1\<lparr>ps_server := (ps_server ?p1)\<lparr>sv_pipes := u\<rparr>, ps_stage := (ps_stage ?p1)(0 := None)\<rparr>"
  have "pipe_step ?ex ?p1 (EvEnded 0) ?p4"
    by (rule ended [of ?p1 0 example_pipe_url example_claims u]) (use p(3) u in \<open>simp_all add: stop_tracker_def\<close>)
  then have "stop_step ?ex ?s3 (PipeEvent (EvEnded 0)) (?s3\<lparr>st_pipes := ?p4\<rparr>)" by (intro stop_pipe) simp_all
  from stop_more [OF r3 this] one show ?thesis by fastforce
qed

theorem stop_drains_witness:
  "\<exists>es s s' c. stop_reach example_externals (stop_fresh example_server) es s \<and> st_phase s = Waiting (Blocked c) \<and>
     stop_reach example_externals s [StopWake, StopDrained, StopShut] s' \<and> st_phase s' = TunnelsShut Drained"
proof -
  obtain es s c where s: "stop_reach example_externals (stop_fresh example_server) es s" "st_phase s = Waiting (Blocked c)"
    "open_pipes (ps_stage (st_pipes s)) = {}" using example_blocked by blast
  with stop_drains [OF s(1)] show ?thesis by blast
qed

end
