(* ===== verification/Connectivity.thy ===== *)
theory Connectivity
  imports EnvConfig HttpConnect
begin

text \<open>
  internal/client/connectivity.go: the tests main runs after the tunnels have started, whose verdict
  it only logs. The tests are values; what the network answers is a parameter, asked by the one test
  whose answer counts. Log lines are left out.
\<close>

section \<open>The tests\<close>

record probe_tls =
  pt_skip_verify :: bool
  pt_server_name :: string
  pt_certs :: "(string \<times> string) list"
  pt_roots :: "string option"
  pt_min_tls12 :: bool

datatype connectivity_test =
    ProxyReachable string
  | ManualConnect string string probe_tls
  | TransportViaProxy string url probe_tls
  | DirectInsecure string probe_tls
  | DirectSecure string probe_tls

definition connectivity_test_timeout :: duration where "connectivity_test_timeout = 10 * nanos"

text \<open>extractHostPort: the port the URL names, or its scheme's.\<close>

definition extract_host_port :: "(string \<Rightarrow> string + url) \<Rightarrow> string \<Rightarrow> string + string" where
  "extract_host_port parse_url address =
     (case parse_url address of
        Inl e \<Rightarrow> Err (''invalid URL: '' @ e)
      | Inr u \<Rightarrow>
          if url_port u \<noteq> [] then Ok (join_host_port (url_hostname u) (url_port u))
          else if url_scheme u = ''https'' then Ok (join_host_port (url_hostname u) ''443'')
          else if url_scheme u = ''http'' then Ok (join_host_port (url_hostname u) ''80'')
          else Err (''no port in address and unknown scheme '' @ url_scheme u))"

text \<open>loadTLSMaterial: a CA that does not parse is logged, and the system roots used in its place.\<close>

definition load_tls_material ::
    "(string \<Rightarrow> string \<Rightarrow> bool) \<Rightarrow> (string \<Rightarrow> bool) \<Rightarrow> config \<Rightarrow> string + ((string \<times> string) list \<times> string option)" where
  "load_tls_material key_pair parses cfg =
     (let pool = (case cf_tls_ca cfg of None \<Rightarrow> None | Some ca \<Rightarrow> if parses ca then Some ca else None) in
      case (cf_tls_cert cfg, cf_tls_key cfg) of
        (Some cert, Some key) \<Rightarrow>
          if key_pair cert key then Ok ([(cert, key)], pool) else Err ''failed to load client certificate''
      | _ \<Rightarrow> Ok ([], pool))"

text \<open>
  The three tests of the proxy: what each tries, and the verdict it logs from what the network
  answered. The TLS of the last two skips verification and names no server.
\<close>

datatype verdict = Passed | FailedAt string string

definition proxy_probe :: "(string \<times> string) list \<Rightarrow> string option \<Rightarrow> probe_tls" where
  "proxy_probe certs pool =
     \<lparr>pt_skip_verify = True, pt_server_name = [], pt_certs = certs, pt_roots = pool, pt_min_tls12 = False\<rparr>"

definition test_proxy_tcp :: "url \<Rightarrow> string option \<Rightarrow> connectivity_test \<times> verdict" where
  "test_proxy_tcp proxy dial_error =
     (ProxyReachable (proxy_addr proxy), case dial_error of None \<Rightarrow> Passed | Some e \<Rightarrow> FailedAt ''proxy'' e)"

definition test_manual_connect ::
    "string \<Rightarrow> url \<Rightarrow> (string \<times> string) list \<Rightarrow> string option \<Rightarrow> string option \<Rightarrow> string option \<Rightarrow> connectivity_test \<times> verdict" where
  "test_manual_connect addr proxy certs pool tunnel_error handshake_error =
     (ManualConnect (proxy_addr proxy) addr (proxy_probe certs pool),
      case tunnel_error of
        Some e \<Rightarrow> FailedAt ''CONNECT tunnel'' e
      | None \<Rightarrow> (case handshake_error of Some e \<Rightarrow> FailedAt ''TLS handshake over tunnel'' e | None \<Rightarrow> Passed))"

definition test_http_transport ::
    "string \<Rightarrow> url \<Rightarrow> (string \<times> string) list \<Rightarrow> string option \<Rightarrow> string option \<Rightarrow> connectivity_test \<times> verdict" where
  "test_http_transport controller_url proxy certs pool get_error =
     (TransportViaProxy controller_url proxy (proxy_probe certs pool),
      case get_error of Some e \<Rightarrow> FailedAt ''http.Transport request'' e | None \<Rightarrow> Passed)"

definition proxy_tests :: "(string \<Rightarrow> string + url) \<Rightarrow> config \<Rightarrow> string \<Rightarrow> (string \<times> string) list \<Rightarrow> string option \<Rightarrow> connectivity_test list" where
  "proxy_tests parse_url cfg addr certs pool =
     (case cf_egress_proxy_url cfg of
        None \<Rightarrow> []
      | Some raw \<Rightarrow>
          (case parse_url raw of
             Inl e \<Rightarrow> []
           | Inr proxy \<Rightarrow>
               [fst (test_proxy_tcp proxy None), fst (test_manual_connect addr proxy certs pool None None),
                fst (test_http_transport (cf_controller_url cfg) proxy certs pool None)]))"

text \<open>directTLSDial: its error, from that of the dial.\<close>

definition direct_tls_dial :: "string \<Rightarrow> string option \<Rightarrow> string option" where
  "direct_tls_dial addr dial_error = map_option (\<lambda>e. ''TLS dial to '' @ addr @ '' failed: '' @ e) dial_error"

definition direct_probe :: "string \<Rightarrow> (string \<times> string) list \<Rightarrow> string option \<Rightarrow> probe_tls" where
  "direct_probe host certs pool =
     \<lparr>pt_skip_verify = True, pt_server_name = host, pt_certs = certs, pt_roots = pool, pt_min_tls12 = False\<rparr>"

definition secured :: "probe_tls \<Rightarrow> probe_tls" where
  "secured tls = tls\<lparr>pt_skip_verify := False, pt_min_tls12 := True\<rparr>"

text \<open>The fixed address if one is set, whatever the URL says.\<close>

definition dialed_address :: "config \<Rightarrow> string \<Rightarrow> string" where
  "dialed_address cfg logical = (if cf_controller_connect_to cfg \<noteq> [] then cf_controller_connect_to cfg else logical)"

text \<open>CheckConnectivity: the tests it runs, in order, and its error.\<close>

definition check_connectivity ::
    "(string \<Rightarrow> string + url) \<Rightarrow> (string \<Rightarrow> string \<Rightarrow> bool) \<Rightarrow> (string \<Rightarrow> bool) \<Rightarrow>
     (string \<Rightarrow> probe_tls \<Rightarrow> string option) \<Rightarrow> config \<Rightarrow> connectivity_test list \<times> string option" where
  "check_connectivity parse_url key_pair parses dial cfg =
     (case extract_host_port parse_url (cf_controller_url cfg) of
        Inl e \<Rightarrow> ([], Some (''failed to parse controller URL: '' @ e))
      | Inr logical \<Rightarrow>
          let addr = dialed_address cfg logical in
          (case parse_url (cf_controller_url cfg) of
             Inl e \<Rightarrow> ([], Some ''failed to parse controller TLS hostname'')
           | Inr u \<Rightarrow>
               if url_hostname u = [] then ([], Some ''failed to parse controller TLS hostname'')
               else (case load_tls_material key_pair parses cfg of
                   Inl e \<Rightarrow> ([], Some e)
                 | Inr (certs, pool) \<Rightarrow>
                     let insecure = direct_probe (url_hostname u) certs pool;
                         before = proxy_tests parse_url cfg addr certs pool @ [DirectInsecure addr insecure] in
                     (case direct_tls_dial addr (dial addr insecure) of
                        Some e \<Rightarrow> (before, Some (''insecure connectivity test failed: '' @ e))
                      | None \<Rightarrow> (before @ [DirectSecure addr (secured insecure)], None)))))"

text \<open>tlsVersionName, over the 16-bit version of a connection.\<close>

definition hex4 :: "u16 \<Rightarrow> string" where
  "hex4 v = (let n = unat v in map hex_char [n div 4096, n div 256 mod 16, n div 16 mod 16, n mod 16])"

definition tls_version_name :: "u16 \<Rightarrow> string" where
  "tls_version_name v =
     (if v = 0x0301 then ''TLS 1.0'' else if v = 0x0302 then ''TLS 1.1'' else if v = 0x0303 then ''TLS 1.2''
      else if v = 0x0304 then ''TLS 1.3'' else ''unknown (0x'' @ hex4 v @ '')'')"

lemma tls_version_unknown: "tls_version_name 0x0A1F = ''unknown (0x0a1f)''"
proof -
  have "map hex_char [0, 10, 1, 15] = ''0a1f''" by code_simp
  then show ?thesis by (simp add: tls_version_name_def hex4_def)
qed

text \<open>
  logTLSState: a line for the connection and one for each certificate of its peer, as message and
  attributes. The names of the suites and the fields of a certificate are parameters.
\<close>

record 'c tls_connection =
  tn_version :: u16
  tn_cipher :: u16
  tn_protocol :: string
  tn_server_name :: string
  tn_complete :: bool
  tn_peers :: "'c list"
  tn_chains :: nat

definition bool_text :: "bool \<Rightarrow> string" where
  "bool_text b = (if b then ''true'' else ''false'')"

definition log_tls_state ::
    "(u16 \<Rightarrow> string) \<Rightarrow> ('c \<Rightarrow> (string \<times> string) list) \<Rightarrow> string \<Rightarrow> string \<Rightarrow> 'c tls_connection \<Rightarrow>
     (string \<times> (string \<times> string) list) list" where
  "log_tls_state suite_name describe lbl addr state =
     (''connectivity test ['' @ lbl @ '']: TLS state'',
      [(''address'', addr), (''tls_version'', tls_version_name (tn_version state)), (''cipher_suite'', suite_name (tn_cipher state)),
       (''negotiated_protocol'', tn_protocol state), (''server_name'', tn_server_name state),
       (''handshake_complete'', bool_text (tn_complete state)), (''mutual_tls'', bool_text (0 < length (tn_peers state))),
       (''peer_certificates'', format_uint (length (tn_peers state))), (''verified_chains'', format_uint (tn_chains state))]) #
     map (\<lambda>(i, cert). (''connectivity test ['' @ lbl @ '']: peer cert #'' @ format_uint i, describe cert))
       (enumerate 0 (tn_peers state))"

text \<open>What it calls mutual TLS is that the server presented a certificate, whatever the client did.\<close>

lemma mutual_tls_is_any_tls:
  "(''mutual_tls'', ''true'') \<in> set (snd (hd (log_tls_state suite_name describe lbl addr state))) \<longleftrightarrow> tn_peers state \<noteq> []"
  by (auto simp: log_tls_state_def bool_text_def)

section \<open>The verdict\<close>

text \<open>A configuration Load accepts for an https controller leaves CheckConnectivity nothing to refuse but the dial.\<close>

lemma extract_https:
  assumes "parse_url address = Ok u" and "url_scheme u = ''https''"
  shows "extract_host_port parse_url address = Ok (join_host_port (url_hostname u) (if url_port u = [] then ''443'' else url_port u))"
  using assms by (simp add: extract_host_port_def)

text \<open>
  For a configuration Load accepts with an https controller that names a host, the tests run are
  the proxy's three (when there is one), the insecure dial, and the secure one if that succeeded;
  they present the client certificate, dial the fixed address if one is set and keep the logical
  host as the name; and the only error is that of the insecure dial.
\<close>

theorem connectivity_verdict:
  assumes "load_from dp e = Ok cfg" and "cd_url dp (cf_controller_url cfg) = Ok u"
    and "url_scheme u = ''https''" and "url_hostname u \<noteq> []"
    and "addr = dialed_address cfg (join_host_port (url_hostname u) (if url_port u = [] then ''443'' else url_port u))"
  shows "\<exists>cert key pool. cf_tls_cert cfg = Some cert \<and> cf_tls_key cfg = Some key \<and>
    (let tls = direct_probe (url_hostname u) [(cert, key)] pool in
      check_connectivity (cd_url dp) (cd_key_pair dp) parses dial cfg =
        (proxy_tests (cd_url dp) cfg addr [(cert, key)] pool @ [DirectInsecure addr tls] @
           (if dial addr tls = None then [DirectSecure addr (secured tls)] else []),
         map_option (\<lambda>err. ''insecure connectivity test failed: TLS dial to '' @ addr @ '' failed: '' @ err) (dial addr tls)))"
proof -
  have "controller_ok dp cfg" using load_from_ok [OF assms(1)] by (simp add: config_ok_def)
  then obtain cert key where c: "cf_tls_cert cfg = Some cert" "cf_tls_key cfg = Some key" "cd_key_pair dp cert key"
    using assms(2,3) by (auto simp: controller_ok_def)
  then obtain pool where "load_tls_material (cd_key_pair dp) parses cfg = Ok ([(cert, key)], pool)"
    by (simp add: load_tls_material_def)
  moreover note extract_https [where parse_url = "cd_url dp" and address = "cf_controller_url cfg" and u = u, OF assms(2,3)]
  ultimately have "check_connectivity (cd_url dp) (cd_key_pair dp) parses dial cfg =
    (let tls = direct_probe (url_hostname u) [(cert, key)] pool in
        (proxy_tests (cd_url dp) cfg addr [(cert, key)] pool @ [DirectInsecure addr tls] @
           (if dial addr tls = None then [DirectSecure addr (secured tls)] else []),
         map_option (\<lambda>err. ''insecure connectivity test failed: TLS dial to '' @ addr @ '' failed: '' @ err) (dial addr tls)))"
    using assms(2,4,5) by (simp add: check_connectivity_def direct_tls_dial_def Let_def split: option.split)
  then show ?thesis using c(1,2) by (auto simp: Let_def)
qed

lemma connectivity_verdict_witness:
  "\<exists>tests. check_connectivity (cd_url prod_deps) (cd_key_pair prod_deps) (\<lambda>ca. True) (\<lambda>a tls. Some ''refused'') prod_config =
     (tests, Some ''insecure connectivity test failed: TLS dial to h:443 failed: refused'')"
proof -
  have u: "cd_url prod_deps (cf_controller_url prod_config) = Ok (prod_url ''https'' ''c'')"
    by (simp add: prod_read prod_deps_def)
  moreover have "url_scheme (prod_url ''https'' ''c'') = ''https''" by (rule prod_urls)
  moreover have "url_hostname (prod_url ''https'' ''c'') = ''c''" by code_simp
  moreover have "cf_controller_connect_to prod_config = ''h:443''"
    by (simp add: prod_config_def read_settings_fields getenv_example get_env_string_def)
  ultimately show ?thesis
    using connectivity_verdict [OF prod_load_from u _ _ refl, of "\<lambda>ca. True" "\<lambda>a tls. Some ''refused''"]
    by (auto simp: dialed_address_def)
qed

end
