(* ===== verification/Process.thy ===== *)
theory Process
  imports Stopping Connectivity Startup
begin

text \<open>
  The life of main in cmd/connector/main.go once the tunnels have started, with a clock: the
  connectivity tests it runs first, the probe server, the wait for the tunnels' goroutine (theory
  Stopping), the probe server's shutdown and the telemetry flush. Time passes only while every
  goroutine of the stop waits for something, and never past a timeout one of them has set.
\<close>

section \<open>The probe server\<close>

text \<open>router.NewRouter: its mode, its middleware in the order it is registered, and its routes.\<close>

datatype gin_mode = DebugMode | ReleaseMode

datatype middleware = Recovery | Traced string | RequestLogJSON bool bool | RequestLogText

record probe_router =
  rt_mode :: gin_mode
  rt_middleware :: "middleware list"
  rt_routes :: "(string \<times> string) list"

definition new_router :: "config \<Rightarrow> probe_router" where
  "new_router cfg =
     \<lparr>rt_mode = (if is_dev (cf_env_level cfg) then DebugMode else ReleaseMode),
      rt_middleware = [Recovery, Traced (cf_otel_service_name cfg)] @
        (if \<not> is_dev (cf_env_level cfg) then [RequestLogJSON True True] else [RequestLogText]),
      rt_routes = [(''GET'', ''/healthz''), (''GET'', ''/readyz'')]\<rparr>"

definition shutdown_context_timeout :: duration where "shutdown_context_timeout = 5 * nanos"
definition read_header_timeout :: duration where "read_header_timeout = 5 * nanos"

record probe_server =
  pb_addr :: string
  pb_router :: probe_router
  pb_read_header_timeout :: duration

definition serve_probes :: "config \<Rightarrow> probe_server" where
  "serve_probes cfg =
     \<lparr>pb_addr = '':'' @ cf_http_port cfg, pb_router = new_router cfg, pb_read_header_timeout = read_header_timeout\<rparr>"

text \<open>The routes it registers are the ones it answers, whatever the tunnels.\<close>

lemma router_routes: "(router_route ts meth path \<noteq> None) = ((meth, path) \<in> set (rt_routes (pb_router (serve_probes cfg))))"
  by (auto simp: router_route_def serve_probes_def new_router_def)

section \<open>The process\<close>

text \<open>
  What main is doing, with the time its wait ends at the latest: a connectivity test, the first of
  those left; \<open><-done\<close>, with the probes served; Shutdown of the probe server; the flush. It ends by
  returning, or by the exit of the goroutine that reloads the rules of a file.
\<close>

datatype main_phase =
    Testing "connectivity_test list" instant
  | Awaiting
  | ShuttingProbes instant
  | FlushingTelemetry instant
  | Returned
  | Exited nat

record 'k process =
  pr_clock :: instant
  pr_main :: main_phase
  pr_stop :: "'k stop_system"
  pr_grace :: "instant option"
  pr_signal :: "instant option"
  pr_reloads :: bool

definition proc_start :: "'k server \<Rightarrow> connectivity_test list \<Rightarrow> bool \<Rightarrow> instant \<Rightarrow> 'k process" where
  "proc_start sv tests reloads now =
     \<lparr>pr_clock = now, pr_main = Testing tests (now + connectivity_test_timeout), pr_stop = stop_fresh sv,
      pr_grace = None, pr_signal = None, pr_reloads = reloads\<rparr>"

fun ended :: "main_phase \<Rightarrow> bool" where
  "ended Returned = True"
| "ended (Exited n) = True"
| "ended _ = False"

text \<open>A step is due when nothing it waits for is missing; the timeouts are those of the waits under way.\<close>

fun main_due :: "main_phase \<Rightarrow> stop_phase \<Rightarrow> bool" where
  "main_due (Testing [] dl) st = True"
| "main_due Awaiting (TunnelsShut w) = True"
| "main_due _ st = False"

fun stop_due :: "bool \<Rightarrow> tracker \<Rightarrow> stop_phase \<Rightarrow> bool" where
  "stop_due signalled t Taking = signalled"
| "stop_due signalled t (Waiting (Blocked c)) = (c \<in> tr_closed t)"
| "stop_due signalled t (TunnelsShut w) = False"
| "stop_due signalled t _ = True"

fun main_timeouts :: "main_phase \<Rightarrow> instant list" where
  "main_timeouts (Testing (t # ts) dl) = [dl]"
| "main_timeouts (ShuttingProbes dl) = [dl]"
| "main_timeouts (FlushingTelemetry dl) = [dl]"
| "main_timeouts _ = []"

fun grace_timeouts :: "stop_phase \<Rightarrow> instant option \<Rightarrow> instant list" where
  "grace_timeouts (Waiting (Blocked c)) (Some g) = [g]"
| "grace_timeouts _ _ = []"

definition due :: "'k process \<Rightarrow> bool" where
  "due s \<longleftrightarrow> main_due (pr_main s) (st_phase (pr_stop s)) \<or>
     stop_due (pr_signal s \<noteq> None) (stop_tracker (pr_stop s)) (st_phase (pr_stop s))"

definition timeouts :: "'k process \<Rightarrow> instant list" where
  "timeouts s = main_timeouts (pr_main s) @ grace_timeouts (st_phase (pr_stop s)) (pr_grace s)"

datatype process_event =
    Goroutine stop_event | Signalled | TestDone | ProbesServed | ProbesShutting | ProbesShut | Flushed
  | ReloadFailed | Ticked duration

text \<open>The drain sets the grace; a later signal finds its context done already.\<close>

inductive proc_step :: "'k externals \<Rightarrow> 'k process \<Rightarrow> process_event \<Rightarrow> 'k process \<Rightarrow> bool" for ex where
  goroutine: "\<not> ended (pr_main s) \<Longrightarrow> stop_step ex (pr_stop s) e p \<Longrightarrow>
    (e = StopTold \<Longrightarrow> pr_signal s \<noteq> None) \<Longrightarrow>
    (e = StopGraceOver \<Longrightarrow> \<exists>g. pr_grace s = Some g \<and> g \<le> pr_clock s) \<Longrightarrow>
    g' = (if e = StopDraining then Some (pr_clock s + drain_grace) else pr_grace s) \<Longrightarrow>
    proc_step ex s (Goroutine e) (s\<lparr>pr_stop := p, pr_grace := g'\<rparr>)"
| signalled: "\<not> ended (pr_main s) \<Longrightarrow> pr_signal s = None \<Longrightarrow>
    proc_step ex s Signalled (s\<lparr>pr_signal := Some (pr_clock s)\<rparr>)"
| test_done: "pr_main s = Testing (t # ts) dl \<Longrightarrow>
    proc_step ex s TestDone (s\<lparr>pr_main := Testing ts (pr_clock s + connectivity_test_timeout)\<rparr>)"
| probes_served: "pr_main s = Testing [] dl \<Longrightarrow> proc_step ex s ProbesServed (s\<lparr>pr_main := Awaiting\<rparr>)"
| probes_shutting: "pr_main s = Awaiting \<Longrightarrow> st_phase (pr_stop s) = TunnelsShut w \<Longrightarrow>
    proc_step ex s ProbesShutting (s\<lparr>pr_main := ShuttingProbes (pr_clock s + shutdown_context_timeout)\<rparr>)"
| probes_shut: "pr_main s = ShuttingProbes dl \<Longrightarrow>
    proc_step ex s ProbesShut (s\<lparr>pr_main := FlushingTelemetry (pr_clock s + shutdown_context_timeout)\<rparr>)"
| flushed: "pr_main s = FlushingTelemetry dl \<Longrightarrow> proc_step ex s Flushed (s\<lparr>pr_main := Returned\<rparr>)"
| reload_failed: "\<not> ended (pr_main s) \<Longrightarrow> pr_reloads s \<Longrightarrow> proc_step ex s ReloadFailed (s\<lparr>pr_main := Exited 1\<rparr>)"
| ticked: "0 < d \<Longrightarrow> \<not> ended (pr_main s) \<Longrightarrow> \<not> due s \<Longrightarrow> \<forall>dl \<in> set (timeouts s). pr_clock s + d \<le> dl \<Longrightarrow>
    proc_step ex s (Ticked d) (s\<lparr>pr_clock := pr_clock s + d\<rparr>)"

inductive_cases proc_step_cases: "proc_step ex s e s'"

inductive proc_reach :: "'k externals \<Rightarrow> 'k process \<Rightarrow> process_event list \<Rightarrow> 'k process \<Rightarrow> bool" for ex s0 where
  proc_init: "proc_reach ex s0 [] s0"
| proc_more: "proc_reach ex s0 es s \<Longrightarrow> proc_step ex s e s' \<Longrightarrow> proc_reach ex s0 (es @ [e]) s'"

text \<open>
  A connection to the probe server is refused (None) before it listens and after its Shutdown began;
  in between its routes answer. That the port can be listened on is taken for granted: when it
  cannot, the error is logged and nothing answers.
\<close>

definition probe_answer ::
    "'k process \<Rightarrow> tunnel_system \<Rightarrow> string \<Rightarrow> string \<Rightarrow> (nat \<times> (string \<times> json) list) option option" where
  "probe_answer s ts meth path = (if pr_main s = Awaiting then Some (router_route ts meth path) else None)"

text \<open>What a failed start does: the status main exits with, and whether it flushes what it has logged.\<close>

definition failed_start :: "exit_reason \<Rightarrow> nat \<times> bool" where
  "failed_start r = (1, case r of TelemetryFailed \<Rightarrow> True | _ \<Rightarrow> False)"

section \<open>What holds throughout\<close>

text \<open>The goroutine of the tunnels runs as in theory Stopping, whatever main does.\<close>

fun goroutine_part :: "process_event \<Rightarrow> stop_event list" where
  "goroutine_part (Goroutine e) = [e]"
| "goroutine_part _ = []"

lemma proc_reach_stop:
  "proc_reach ex (proc_start sv tests reloads now) es s \<Longrightarrow>
     stop_reach ex (stop_fresh sv) (concat (map goroutine_part es)) (pr_stop s)"
proof (induction rule: proc_reach.induct)
  case proc_init
  then show ?case by (simp add: proc_start_def stop_init)
next
  case (proc_more es s e s')
  from proc_more(2) show ?case
    by (cases rule: proc_step.cases) (use proc_more(3) in \<open>auto intro: stop_more\<close>)
qed

text \<open>
  When each wait ends at the latest, from the end \<open>T\<close> of the tests: the wait for the tunnels when both
  the tests and the grace of the signal are over, then two timeouts of main.
\<close>

definition stop_by :: "instant \<Rightarrow> instant \<Rightarrow> instant" where
  "stop_by T t0 = max (t0 + drain_grace) T"

definition main_inv :: "instant \<Rightarrow> 'k process \<Rightarrow> bool" where
  "main_inv T s \<longleftrightarrow>
     (case pr_main s of
        Testing [] dl \<Rightarrow> pr_clock s \<le> T
      | Testing (t # ts) dl \<Rightarrow> pr_clock s \<le> dl \<and> dl + int (length ts) * connectivity_test_timeout \<le> T
      | Awaiting \<Rightarrow>
          \<forall>t0 w. pr_signal s = Some t0 \<and> st_phase (pr_stop s) = TunnelsShut w \<longrightarrow> pr_clock s \<le> stop_by T t0
      | ShuttingProbes dl \<Rightarrow> \<exists>t0 w. pr_signal s = Some t0 \<and> st_phase (pr_stop s) = TunnelsShut w \<and>
          pr_clock s \<le> dl \<and> dl \<le> stop_by T t0 + shutdown_context_timeout
      | FlushingTelemetry dl \<Rightarrow> \<exists>t0 w. pr_signal s = Some t0 \<and> st_phase (pr_stop s) = TunnelsShut w \<and>
          pr_clock s \<le> dl \<and> dl \<le> stop_by T t0 + 2 * shutdown_context_timeout
      | Returned \<Rightarrow> \<exists>t0 w. pr_signal s = Some t0 \<and> st_phase (pr_stop s) = TunnelsShut w \<and>
          pr_clock s \<le> stop_by T t0 + 2 * shutdown_context_timeout
      | Exited n \<Rightarrow> pr_reloads s \<and> (\<forall>t0. pr_signal s = Some t0 \<longrightarrow> pr_clock s \<le> stop_by T t0 + 2 * shutdown_context_timeout))"

definition grace_inv :: "'k process \<Rightarrow> bool" where
  "grace_inv s \<longleftrightarrow>
     (case pr_signal s of
        None \<Rightarrow> st_phase (pr_stop s) = Taking
      | Some t0 \<Rightarrow> t0 \<le> pr_clock s \<and>
          (case st_phase (pr_stop s) of
             Waiting w \<Rightarrow> pr_grace s = Some (t0 + drain_grace) \<and> pr_clock s \<le> t0 + drain_grace
           | TunnelsShut w \<Rightarrow> True
           | _ \<Rightarrow> pr_clock s = t0))"

lemmas timing_defs = drain_grace_def shutdown_context_timeout_def connectivity_test_timeout_def nanos_def

lemma signal_clock:
  assumes "main_inv T s" and "grace_inv s" and "pr_signal s = Some t0"
  shows "pr_clock s \<le> stop_by T t0 + 2 * shutdown_context_timeout"
proof (cases "pr_main s")
  case (Testing ts dl)
  then show ?thesis using assms by (cases ts) (auto simp: main_inv_def stop_by_def timing_defs)
next
  case Awaiting
  then show ?thesis using assms
    by (cases "st_phase (pr_stop s)") (auto simp: main_inv_def grace_inv_def stop_by_def timing_defs)
qed (use assms in \<open>auto simp: main_inv_def stop_by_def timing_defs\<close>)

lemma stop_step_phase:
  assumes "stop_step ex s e s'"
  shows "(st_phase s' = Taking \<longrightarrow> st_phase s = Taking) \<and>
    (st_phase s' = Told \<longrightarrow> e = StopTold \<or> st_phase s = Told) \<and>
    (st_phase s = Taking \<longrightarrow> st_phase s' \<noteq> Taking \<longrightarrow> e = StopTold \<and> st_phase s' = Told) \<and>
    (\<forall>w. st_phase s' = Waiting w \<longrightarrow> e = StopDraining \<and> st_phase s = Told \<or> (e \<noteq> StopDraining \<and> (\<exists>v. st_phase s = Waiting v))) \<and>
    (\<forall>w. st_phase s' = TunnelsShut w \<longrightarrow> (\<exists>v. st_phase s = Waiting v) \<or> st_phase s = st_phase s') \<and>
    (e = StopDraining \<longrightarrow> (\<exists>w. st_phase s' = Waiting w)) \<and> (e = StopTold \<longrightarrow> st_phase s = Taking) \<and>
    (\<forall>w. st_phase s = TunnelsShut w \<longrightarrow> st_phase s' = st_phase s)"
  using assms by (cases rule: stop_step.cases) auto

lemma not_due_blocked: "\<not> stop_due b t (Waiting w) \<Longrightarrow> grace_timeouts (Waiting w) (Some g) = [g]"
  by (cases w) auto

lemma grace_inv_step:
  assumes "grace_inv s" and "proc_step ex s e s'"
  shows "grace_inv s'"
  using assms(2)
proof (cases rule: proc_step.cases)
  case (goroutine e' p g')
  note ph = stop_step_phase [OF goroutine(4)]
  have s': "pr_signal s' = pr_signal s" "pr_clock s' = pr_clock s" "pr_stop s' = p" "pr_grace s' = g'"
    using goroutine(2) by simp_all
  show ?thesis
  proof (cases "pr_signal s")
    case None
    then have "st_phase (pr_stop s) = Taking" "e' \<noteq> StopTold" using assms(1) goroutine(5) by (auto simp: grace_inv_def)
    then have "st_phase p = Taking" using ph by blast
    then show ?thesis using None s' by (simp add: grace_inv_def)
  next
    case (Some t0)
    note inv = assms(1) [unfolded grace_inv_def Some, simplified]
    show ?thesis
    proof (cases "st_phase p")
      case Taking
      then have "st_phase (pr_stop s) = Taking" using ph by blast
      then show ?thesis using Taking Some s' inv by (simp add: grace_inv_def)
    next
      case Told
      then have "st_phase (pr_stop s) \<in> {Taking, Told}" using ph by blast
      then show ?thesis using Told Some s' inv by (auto simp: grace_inv_def)
    next
      case (Waiting w)
      then consider "e' = StopDraining" "st_phase (pr_stop s) = Told" | v where "e' \<noteq> StopDraining" "st_phase (pr_stop s) = Waiting v"
        using ph by blast
      then show ?thesis using Waiting Some s' inv goroutine(7) by cases (simp_all add: grace_inv_def timing_defs)
    next
      case (TunnelsShut w)
      then show ?thesis using Some s' inv by (simp add: grace_inv_def)
    qed
  qed
next
  case (ticked d)
  then show ?thesis using assms(1)
    by (auto simp: grace_inv_def due_def timeouts_def not_due_blocked split: option.splits stop_phase.splits)
qed (use assms(1) in \<open>auto simp: grace_inv_def split: option.splits stop_phase.splits\<close>)

lemma main_inv_step:
  assumes "main_inv T s" and "grace_inv s" and "proc_step ex s e s'"
  shows "main_inv T s'"
  using assms(3)
proof (cases rule: proc_step.cases)
  case (goroutine e' p g')
  note ph = stop_step_phase [OF goroutine(4)]
  have s': "pr_signal s' = pr_signal s" "pr_clock s' = pr_clock s" "pr_stop s' = p" "pr_main s' = pr_main s"
    "pr_reloads s' = pr_reloads s"
    using goroutine(2) by simp_all
  show ?thesis
  proof (cases "pr_main s = Awaiting")
    case True
    have "pr_clock s \<le> stop_by T t0" if c: "pr_signal s = Some t0" "st_phase p = TunnelsShut w" for t0 w
    proof -
      consider v where "st_phase (pr_stop s) = Waiting v" | "st_phase (pr_stop s) = TunnelsShut w" using ph c(2) by metis
      then show ?thesis using assms(1,2) True c by cases (auto simp: grace_inv_def main_inv_def stop_by_def)
    qed
    then show ?thesis using True s' by (simp add: main_inv_def)
  next
    case False
    have "st_phase (pr_stop s) = TunnelsShut w \<Longrightarrow> st_phase p = TunnelsShut w" for w using ph by metis
    then have shut: "(\<exists>w. st_phase (pr_stop s) = TunnelsShut w) \<Longrightarrow> \<exists>w. st_phase p = TunnelsShut w" by blast
    show ?thesis
    proof (cases "pr_main s")
      case (Testing ts dl)
      then show ?thesis using assms(1) s' by (cases ts) (simp_all add: main_inv_def)
    next
      case Awaiting
      then show ?thesis using False by simp
    next
      case (Exited n)
      then show ?thesis using assms(1) s' by (simp add: main_inv_def)
    qed (use assms(1) s' shut in \<open>simp_all add: main_inv_def, blast+\<close>)
  qed
next
  case signalled
  then show ?thesis using assms(1,2)
    by (auto simp: main_inv_def grace_inv_def split: main_phase.splits list.splits)
next
  case (test_done t ts dl)
  then show ?thesis using assms(1) by (cases ts) (auto simp: main_inv_def timing_defs algebra_simps)
next
  case (probes_served dl)
  then show ?thesis using assms(1) by (auto simp: main_inv_def stop_by_def)
next
  case (probes_shutting w)
  then obtain t0 where "pr_signal s = Some t0" using assms(2) by (cases "pr_signal s") (auto simp: grace_inv_def)
  then show ?thesis using probes_shutting assms(1) by (auto simp: main_inv_def timing_defs)
next
  case (reload_failed)
  then show ?thesis using signal_clock [OF assms(1,2)] by (auto simp: main_inv_def)
next
  case (ticked d)
  show ?thesis
  proof (cases "pr_main s")
    case (Testing ts dl)
    then show ?thesis using ticked assms(1) by (cases ts) (auto simp: main_inv_def due_def timeouts_def)
  next
    case Awaiting
    then have "\<forall>w. st_phase (pr_stop s) \<noteq> TunnelsShut w" using ticked(5) by (auto simp: due_def)
    then show ?thesis using Awaiting ticked(2) by (auto simp: main_inv_def)
  qed (use ticked assms(1) in \<open>auto simp: main_inv_def timeouts_def\<close>)
qed (use assms(1) in \<open>auto simp: main_inv_def timing_defs\<close>)

definition tests_end :: "instant \<Rightarrow> connectivity_test list \<Rightarrow> instant" where
  "tests_end now tests = now + int (length tests) * connectivity_test_timeout"

lemma proc_reach_inv:
  "proc_reach ex (proc_start sv tests reloads now) es s \<Longrightarrow> main_inv (tests_end now tests) s \<and> grace_inv s"
proof (induction rule: proc_reach.induct)
  case proc_init
  have "main_inv (tests_end now tests) (proc_start sv tests reloads now)"
    by (cases tests) (simp_all add: main_inv_def proc_start_def tests_end_def timing_defs)
  then show ?case by (simp add: grace_inv_def proc_start_def stop_fresh_def)
next
  case (proc_more es s e s')
  then show ?case using main_inv_step grace_inv_step by blast
qed

text \<open>Probes are answered from the end of the tests until the tunnels are shut.\<close>

lemma probes_answered_between:
  assumes "proc_reach ex (proc_start sv tests reloads now) es s"
  shows "probe_answer s ts meth path \<noteq> None \<longleftrightarrow>
    ProbesServed \<in> set es \<and> ProbesShutting \<notin> set es \<and> ReloadFailed \<notin> set es"
proof -
  have "(case pr_main s of
      Testing us dl \<Rightarrow> ProbesServed \<notin> set es \<and> ProbesShutting \<notin> set es \<and> ReloadFailed \<notin> set es
    | Awaiting \<Rightarrow> ProbesServed \<in> set es \<and> ProbesShutting \<notin> set es \<and> ReloadFailed \<notin> set es
    | Exited n \<Rightarrow> ReloadFailed \<in> set es
    | _ \<Rightarrow> ProbesShutting \<in> set es)"
    using assms
  proof (induction rule: proc_reach.induct)
    case proc_init
    then show ?case by (simp add: proc_start_def)
  next
    case (proc_more es s e s')
    from proc_more(2,3) show ?case by (cases rule: proc_step.cases) (auto split: main_phase.splits)
  qed
  then show ?thesis by (auto simp: probe_answer_def split: main_phase.splits)
qed

section \<open>A stop ends, and when\<close>

text \<open>
  The steps of main and of the tunnels' goroutine alone, and the passing of time: no handler, no
  reload and no signal. From every state after the signal one of them is possible, and brings the
  end nearer.
\<close>

fun own :: "process_event \<Rightarrow> bool" where
  "own (Goroutine (PipeEvent e)) = False"
| "own Signalled = False"
| "own ReloadFailed = False"
| "own _ = True"

fun main_left :: "main_phase \<Rightarrow> nat" where
  "main_left (Testing ts dl) = length ts + 4"
| "main_left Awaiting = 3"
| "main_left (ShuttingProbes dl) = 2"
| "main_left (FlushingTelemetry dl) = 1"
| "main_left _ = 0"

fun phase_left :: "tracker \<Rightarrow> bool \<Rightarrow> stop_phase \<Rightarrow> nat" where
  "phase_left t over Taking = 7"
| "phase_left t over Told = 6"
| "phase_left t over (Waiting Looking) = 4"
| "phase_left t over (Waiting (Blocked c)) = (if c \<in> tr_closed t then 5 else if over then 2 else 3)"
| "phase_left t over (Waiting w) = 1"
| "phase_left t over (TunnelsShut w) = 0"

definition stop_left :: "'k process \<Rightarrow> nat" where
  "stop_left s = phase_left (stop_tracker (pr_stop s)) (pr_grace s = Some (pr_clock s)) (st_phase (pr_stop s))"

lemma goroutine_less:
  assumes "\<not> ended (pr_main s)" and "stop_step ex (pr_stop s) e p"
    and "e = StopTold \<Longrightarrow> pr_signal s \<noteq> None" and "e = StopGraceOver \<Longrightarrow> \<exists>g. pr_grace s = Some g \<and> g \<le> pr_clock s"
    and "\<And>pe. e \<noteq> PipeEvent pe"
    and "stop_left (s\<lparr>pr_stop := p, pr_grace := (if e = StopDraining then Some (pr_clock s + drain_grace) else pr_grace s)\<rparr>) < stop_left s"
  shows "\<exists>e' s'. proc_step ex s e' s' \<and> own e' \<and> main_left (pr_main s') + stop_left s' < main_left (pr_main s) + stop_left s"
proof -
  have "own (Goroutine e)" using assms(5) by (cases e) auto
  then show ?thesis using proc_step.goroutine [OF assms(1-4) refl] assms(6) by fastforce
qed

lemma main_less:
  assumes "proc_step ex s e (s\<lparr>pr_main := m\<rparr>)" and "own e" and "main_left m < main_left (pr_main s)"
  shows "\<exists>e' s'. proc_step ex s e' s' \<and> own e' \<and> main_left (pr_main s') + stop_left s' < main_left (pr_main s) + stop_left s"
proof -
  have "stop_left (s\<lparr>pr_main := m\<rparr>) = stop_left s" by (simp add: stop_left_def)
  then show ?thesis using assms by fastforce
qed

lemma waiting_progress:
  assumes "pr_main s = Awaiting" and "st_phase (pr_stop s) = Waiting w" and "pr_grace s = Some g" and "pr_clock s \<le> g"
    and "tracker_inv (stop_tracker (pr_stop s))"
  shows "\<exists>e' s'. proc_step ex s e' s' \<and> own e' \<and> main_left (pr_main s') + stop_left s' < main_left (pr_main s) + stop_left s"
proof (cases w)
  case Looking
  show ?thesis
  proof (cases "tr_n (stop_tracker (pr_stop s)) = 0")
    case True
    show ?thesis
      by (rule goroutine_less [where e = StopDrained]) (use assms Looking True in \<open>auto intro: stop_drained simp: stop_left_def\<close>)
  next
    case False
    then obtain c where c: "tr_idle (stop_tracker (pr_stop s)) = Some c" "c \<notin> tr_closed (stop_tracker (pr_stop s))"
      using assms(5) by (cases "tr_idle (stop_tracker (pr_stop s))") (auto simp: tracker_inv_def)
    show ?thesis
      by (rule goroutine_less [where e = StopLook])
        (use assms Looking False c in \<open>auto intro: stop_look simp: stop_left_def stop_tracker_def\<close>)
  qed
next
  case (Blocked c)
  show ?thesis
  proof (cases "c \<in> tr_closed (stop_tracker (pr_stop s))")
    case True
    show ?thesis
      by (rule goroutine_less [where e = StopWake]) (use assms Blocked True in \<open>auto intro: stop_wake simp: stop_left_def\<close>)
  next
    case open_c: False
    show ?thesis
    proof (cases "pr_clock s = g")
      case True
      show ?thesis
        by (rule goroutine_less [where e = StopGraceOver])
          (use assms Blocked open_c True in \<open>auto intro: stop_grace simp: stop_left_def\<close>)
    next
      case False
      then have "proc_step ex s (Ticked (g - pr_clock s)) (s\<lparr>pr_clock := pr_clock s + (g - pr_clock s)\<rparr>)"
        by (intro ticked) (use assms Blocked open_c in \<open>auto simp: due_def timeouts_def\<close>)
      then show ?thesis using assms Blocked open_c False by (fastforce simp: stop_left_def)
    qed
  qed
next
  case Drained
  show ?thesis
    by (rule goroutine_less [where e = StopShut]) (use assms Drained in \<open>auto intro: stop_shut simp: stop_left_def\<close>)
next
  case (TimedOut n)
  show ?thesis
    by (rule goroutine_less [where e = StopShut]) (use assms TimedOut in \<open>auto intro: stop_shut simp: stop_left_def\<close>)
qed

lemma draining_possible: "\<exists>p. pipe_step ex ps EvDraining p"
  using pipe_step.draining by blast

lemma stop_progress:
  assumes "grace_inv s" and "pr_signal s = Some t0" and "\<not> ended (pr_main s)"
    and "tracker_inv (stop_tracker (pr_stop s))"
  shows "\<exists>e' s'. proc_step ex s e' s' \<and> own e' \<and> main_left (pr_main s') + stop_left s' < main_left (pr_main s) + stop_left s"
proof (cases "pr_main s")
  case (Testing ts dl)
  show ?thesis
  proof (cases ts)
    case Nil
    then show ?thesis using main_less [OF probes_served [of s dl ex]] Testing by simp
  next
    case (Cons t us)
    then show ?thesis using main_less [OF test_done [of s t us dl ex]] Testing by simp
  qed
next
  case (ShuttingProbes dl)
  then show ?thesis using main_less [OF probes_shut [of s dl ex]] by simp
next
  case (FlushingTelemetry dl)
  then show ?thesis using main_less [OF flushed [of s dl ex]] by simp
next
  case Awaiting
  show ?thesis
  proof (cases "st_phase (pr_stop s)")
    case Taking
    show ?thesis
      by (rule goroutine_less [where e = StopTold]) (use assms(2,3) Taking in \<open>auto intro: stop_told simp: stop_left_def\<close>)
  next
    case Told
    obtain p where p: "pipe_step ex (st_pipes (pr_stop s)) EvDraining p" using draining_possible by blast
    show ?thesis
      by (rule goroutine_less [where e = StopDraining, OF assms(3) stop_draining [OF Told p]])
        (simp_all add: stop_left_def Told)
  next
    case (Waiting w)
    then show ?thesis using waiting_progress [OF Awaiting Waiting] assms(1,2,4) by (auto simp: grace_inv_def)
  next
    case (TunnelsShut w)
    then show ?thesis using main_less [OF probes_shutting [of s w ex]] Awaiting by simp
  qed
qed (use assms(3) in auto)

lemma proc_reach_cons: "proc_step ex s e s1 \<Longrightarrow> proc_reach ex s1 es s2 \<Longrightarrow> proc_reach ex s (e # es) s2"
proof (rotate_tac 1, induction rule: proc_reach.induct)
  case proc_init
  then show ?case using proc_more [OF proc_reach.proc_init] by fastforce
next
  case (proc_more es' t e' t')
  then show ?case using proc_reach.proc_more [of ex s "e # es'" t e' t'] by simp
qed

lemma proc_reach_append: "proc_reach ex s1 es' s2 \<Longrightarrow> proc_reach ex s es s1 \<Longrightarrow> proc_reach ex s (es @ es') s2"
proof (induction rule: proc_reach.induct)
  case proc_init
  then show ?case by simp
next
  case (proc_more es' t e t')
  then show ?case using proc_reach.proc_more [of ex s "es @ es'" t e t'] by simp
qed

lemma proc_step_keeps_signal: "proc_step ex s e s' \<Longrightarrow> pr_signal s = Some t0 \<Longrightarrow> pr_signal s' = Some t0"
  by (cases rule: proc_step.cases) auto

lemma own_not_exited: "proc_step ex s e s' \<Longrightarrow> own e \<Longrightarrow> \<not> ended (pr_main s) \<Longrightarrow> ended (pr_main s') \<Longrightarrow> pr_main s' = Returned"
  by (cases rule: proc_step.cases) auto

lemma stop_returns:
  assumes "proc_reach ex (proc_start sv tests reloads now) es s" and "pr_signal s = Some t0" and "\<not> ended (pr_main s)"
  shows "\<exists>es' s'. proc_reach ex s es' s' \<and> list_all own es' \<and> length es' \<le> main_left (pr_main s) + stop_left s \<and>
    pr_main s' = Returned"
  using assms
proof (induction "main_left (pr_main s) + stop_left s" arbitrary: es s rule: less_induct)
  case less
  have "pipe_inv ex sv (st_pipes (pr_stop s))"
    using pipe_inv_reach [OF stop_reach_pipe [OF proc_reach_stop [OF less(2)]]] .
  then have "tracker_inv (stop_tracker (pr_stop s))" by (simp add: pipe_inv_def stop_tracker_def)
  then obtain e s1 where e: "proc_step ex s e s1" "own e"
    and l: "main_left (pr_main s1) + stop_left s1 < main_left (pr_main s) + stop_left s"
    using stop_progress [where ex = ex] proc_reach_inv [OF less(2)] less(3,4) by blast
  show ?case
  proof (cases "ended (pr_main s1)")
    case True
    then show ?thesis using proc_more [OF proc_init e(1)] own_not_exited [OF e less(4)] e(2) l by fastforce
  next
    case False
    then obtain es' s' where "proc_reach ex s1 es' s'" "list_all own es'" "pr_main s' = Returned"
      "length es' \<le> main_left (pr_main s1) + stop_left s1"
      using less(1) [OF l proc_more [OF less(2) e(1)] proc_step_keeps_signal [OF e(1) less(3)]] by blast
    then show ?thesis using proc_reach_cons [OF e(1)] e(2) l
      by (intro exI [of _ "e # es'"] exI [of _ s']) auto
  qed
qed

text \<open>The tests run are five at most, and two without a proxy; what is left of them only shrinks.\<close>

lemma check_connectivity_tests:
  "length (fst (check_connectivity parse_url key_pair parses dial cfg)) \<le> (if cf_egress_proxy_url cfg = None then 2 else 5)"
  by (simp add: check_connectivity_def proxy_tests_def Let_def split: sum.splits option.splits)

lemma main_left_step: "proc_step ex s e s' \<Longrightarrow> main_left (pr_main s') \<le> main_left (pr_main s)"
  by (cases rule: proc_step.cases) auto

lemma main_left_reach: "proc_reach ex s0 es s \<Longrightarrow> main_left (pr_main s) \<le> main_left (pr_main s0)"
  by (induction rule: proc_reach.induct) (auto dest: main_left_step)

lemma phase_left_bound: "phase_left t over st \<le> 7"
  by (cases "(t, over, st)" rule: phase_left.cases) auto

lemma stop_left_bound: "stop_left s \<le> 7"
  unfolding stop_left_def by (rule phase_left_bound)

lemma proc_reach_clock:
  "proc_reach ex (proc_start sv tests reloads start) es s \<Longrightarrow> start \<le> pr_clock s \<and> (\<forall>t0. pr_signal s = Some t0 \<longrightarrow> start \<le> t0)"
proof (induction rule: proc_reach.induct)
  case proc_init
  then show ?case by (simp add: proc_start_def)
next
  case (proc_more es s e s')
  from proc_more(2,3) show ?case by (cases rule: proc_step.cases) auto
qed

section \<open>Properties\<close>

text \<open>
  C18. How long a stop lasts. From the signal main returns, or its process has exited, within the
  grace of the pipes, 20 s, and the two timeouts of its own, 10 s together, unless the connectivity
  tests it runs first take longer: then those are waited for, for at most 50 s from the start and 20 s
  without an egress proxy, so that without one the 30 s its comment states always hold. It returns
  only with the tunnels shut, exits early only for the rules' file, and is never stuck: at most
  sixteen steps of main, of the tunnels' goroutine and of the clock take it from anywhere to its
  return.
\<close>

theorem stop_time_bound:
  assumes "proc_reach ex (proc_start sv (fst (check_connectivity parse_url key_pair parses dial cfg)) reloads start) es s"
    and "pr_signal s = Some t0"
  shows "pr_clock s \<le> max (t0 + 20 * nanos) (start + 50 * nanos) + 10 * nanos \<and>
    (cf_egress_proxy_url cfg = None \<longrightarrow> pr_clock s \<le> t0 + 30 * nanos) \<and>
    (pr_main s = Returned \<longrightarrow> (\<exists>w. st_phase (pr_stop s) = TunnelsShut w)) \<and>
    (\<forall>n. pr_main s = Exited n \<longrightarrow> pr_reloads s) \<and>
    (\<not> ended (pr_main s) \<longrightarrow>
       (\<exists>es' s'. proc_reach ex s es' s' \<and> list_all own es' \<and> length es' \<le> 16 \<and> pr_main s' = Returned))"
proof -
  let ?tests = "fst (check_connectivity parse_url key_pair parses dial cfg)"
  have inv: "main_inv (tests_end start ?tests) s" "grace_inv s" using proc_reach_inv [OF assms(1)] by blast+
  note clock = signal_clock [OF inv assms(2), unfolded stop_by_def tests_end_def timing_defs]
  note n = check_connectivity_tests [of parse_url key_pair parses dial cfg]
  have five: "length ?tests \<le> 5" using n by (simp split: if_splits)
  have "length es' \<le> main_left (pr_main s) + stop_left s \<Longrightarrow> length es' \<le> 16" for es' :: "process_event list"
    using main_left_reach [OF assms(1)] five stop_left_bound [of s] by (simp add: proc_start_def)
  then have "\<not> ended (pr_main s) \<longrightarrow>
      (\<exists>es' s'. proc_reach ex s es' s' \<and> list_all own es' \<and> length es' \<le> 16 \<and> pr_main s' = Returned)"
    using stop_returns [OF assms] by blast
  moreover have "cf_egress_proxy_url cfg = None \<longrightarrow> pr_clock s \<le> t0 + 30 * nanos"
    using clock n proc_reach_clock [OF assms(1)] assms(2) by (auto simp: nanos_def)
  moreover have "pr_clock s \<le> max (t0 + 20 * nanos) (start + 50 * nanos) + 10 * nanos"
    using clock five by (auto simp: nanos_def)
  ultimately show ?thesis using inv(1) by (auto simp: main_inv_def)
qed

text \<open>A run with every test taking its whole timeout, told to stop as it starts, with no pipe open.\<close>

lemma shut_at_once:
  assumes "pr_stop s = stop_fresh sv" and "\<not> ended (pr_main s)" and "pr_signal s = None"
  shows "\<exists>es p g. proc_reach ex s es (s\<lparr>pr_signal := Some (pr_clock s), pr_stop := p, pr_grace := g\<rparr>) \<and>
    st_phase p = TunnelsShut Drained"
proof -
  let ?ps = "fresh_system sv"
  let ?ps' = "?ps\<lparr>ps_server := (ps_server ?ps)\<lparr>sv_pipes := tracker_drain (sv_pipes (ps_server ?ps))\<rparr>\<rparr>"
  let ?p1 = "(stop_fresh sv)\<lparr>st_phase := Told\<rparr>"
  let ?p2 = "?p1\<lparr>st_pipes := ?ps', st_phase := Waiting Looking\<rparr>"
  let ?p3 = "?p2\<lparr>st_phase := Waiting Drained\<rparr>"
  let ?p4 = "?p3\<lparr>st_phase := TunnelsShut Drained\<rparr>"
  let ?g = "Some (pr_clock s + drain_grace)"
  let ?s0 = "s\<lparr>pr_signal := Some (pr_clock s)\<rparr>"
  let ?s1 = "?s0\<lparr>pr_stop := ?p1, pr_grace := pr_grace ?s0\<rparr>"
  let ?s2 = "?s1\<lparr>pr_stop := ?p2, pr_grace := ?g\<rparr>"
  let ?s3 = "?s2\<lparr>pr_stop := ?p3, pr_grace := ?g\<rparr>"
  let ?s4 = "?s3\<lparr>pr_stop := ?p4, pr_grace := ?g\<rparr>"
  have "proc_step ex s Signalled ?s0" by (rule signalled [OF assms(2,3)])
  moreover have "stop_step ex (pr_stop ?s0) StopTold ?p1"
    using stop_told [of "stop_fresh sv" ex] assms(1) by (simp add: stop_fresh_def)
  then have "proc_step ex ?s0 (Goroutine StopTold) ?s1" by (rule goroutine [rotated]) (use assms(2) in simp_all)
  moreover have "stop_step ex (pr_stop ?s1) StopDraining ?p2"
    using stop_draining [of ?p1 ex ?ps'] pipe_step.draining [of ex ?ps] by (simp add: stop_fresh_def)
  then have "proc_step ex ?s1 (Goroutine StopDraining) ?s2" by (rule goroutine [rotated]) (use assms(2) in simp_all)
  moreover have "stop_step ex (pr_stop ?s2) StopDrained ?p3"
    using stop_drained [of ?p2 ex] by (simp add: stop_tracker_def fresh_system_def tracker_zero_def)
  then have "proc_step ex ?s2 (Goroutine StopDrained) ?s3" by (rule goroutine [rotated]) (use assms(2) in simp_all)
  moreover have "stop_step ex (pr_stop ?s3) StopShut ?p4"
    using stop_shut [of ?p3 Drained 0 ex] by simp
  then have "proc_step ex ?s3 (Goroutine StopShut) ?s4" by (rule goroutine [rotated]) (use assms(2) in simp_all)
  ultimately have "proc_reach ex s [Signalled, Goroutine StopTold, Goroutine StopDraining, Goroutine StopDrained, Goroutine StopShut] ?s4"
    by (intro proc_reach_cons [OF _ proc_reach_cons [OF _ proc_reach_cons [OF _ proc_reach_cons [OF _ proc_reach_cons [OF _ proc_init]]]]])
  moreover have "?s4 = s\<lparr>pr_signal := Some (pr_clock s), pr_stop := ?p4, pr_grace := ?g\<rparr>" by simp
  moreover have "st_phase ?p4 = TunnelsShut Drained" by simp
  ultimately show ?thesis by metis
qed

lemma tests_time_out:
  assumes "pr_main s = Testing ts (pr_clock s + connectivity_test_timeout)" and "st_phase (pr_stop s) = TunnelsShut w"
  shows "\<exists>es dl. proc_reach ex s es
    (s\<lparr>pr_clock := pr_clock s + int (length ts) * connectivity_test_timeout, pr_main := Testing [] dl\<rparr>)"
  using assms
proof (induction ts arbitrary: s)
  case Nil
  then have "s = s\<lparr>pr_clock := pr_clock s + int (length []) * connectivity_test_timeout, pr_main := Testing [] (pr_clock s + connectivity_test_timeout)\<rparr>"
    by simp
  then show ?case using proc_init [of ex s] by metis
next
  case (Cons t ts)
  let ?s1 = "s\<lparr>pr_clock := pr_clock s + connectivity_test_timeout\<rparr>"
  let ?s2 = "?s1\<lparr>pr_main := Testing ts (pr_clock ?s1 + connectivity_test_timeout)\<rparr>"
  have "proc_step ex s (Ticked connectivity_test_timeout) ?s1"
    by (rule ticked) (use Cons(2,3) in \<open>simp_all add: timing_defs due_def timeouts_def\<close>)
  moreover have "proc_step ex ?s1 TestDone ?s2" by (rule test_done) (use Cons(2) in simp)
  moreover obtain es dl where "proc_reach ex ?s2 es
      (?s2\<lparr>pr_clock := pr_clock ?s2 + int (length ts) * connectivity_test_timeout, pr_main := Testing [] dl\<rparr>)"
    using Cons(1) [of ?s2] Cons(3) by auto
  ultimately have "proc_reach ex s (Ticked connectivity_test_timeout # TestDone # es)
      (?s2\<lparr>pr_clock := pr_clock ?s2 + int (length ts) * connectivity_test_timeout, pr_main := Testing [] dl\<rparr>)"
    by (blast intro: proc_reach_cons)
  moreover have "?s2\<lparr>pr_clock := pr_clock ?s2 + int (length ts) * connectivity_test_timeout, pr_main := Testing [] dl\<rparr> =
      s\<lparr>pr_clock := pr_clock s + int (length (t # ts)) * connectivity_test_timeout, pr_main := Testing [] dl\<rparr>"
    by (simp add: algebra_simps)
  ultimately show ?case by metis
qed

lemma late_stop:
  "\<exists>es s. proc_reach ex (proc_start sv tests reloads start) es s \<and> pr_signal s = Some start \<and> pr_main s = Returned \<and>
     pr_clock s = start + int (length tests) * connectivity_test_timeout + 2 * shutdown_context_timeout"
proof -
  let ?s0 = "proc_start sv tests reloads start"
  have f: "pr_stop ?s0 = stop_fresh sv" "\<not> ended (pr_main ?s0)" "pr_signal ?s0 = None" "pr_clock ?s0 = start"
    "pr_main ?s0 = Testing tests (start + connectivity_test_timeout)"
    by (simp_all add: proc_start_def)
  obtain es1 p g where r1: "proc_reach ex ?s0 es1 (?s0\<lparr>pr_signal := Some start, pr_stop := p, pr_grace := g\<rparr>)"
    and p: "st_phase p = TunnelsShut Drained"
    using shut_at_once [OF f(1-3)] f(4) by metis
  let ?s1 = "?s0\<lparr>pr_signal := Some start, pr_stop := p, pr_grace := g\<rparr>"
  let ?T = "start + int (length tests) * connectivity_test_timeout"
  obtain es2 dl where r2: "proc_reach ex ?s1 es2 (?s1\<lparr>pr_clock := ?T, pr_main := Testing [] dl\<rparr>)"
    using tests_time_out [of ?s1 tests Drained ex] f(4,5) p by auto
  let ?s2 = "?s1\<lparr>pr_clock := ?T, pr_main := Testing [] dl\<rparr>"
  let ?s3 = "?s2\<lparr>pr_main := Awaiting\<rparr>"
  let ?s4 = "?s3\<lparr>pr_main := ShuttingProbes (pr_clock ?s3 + shutdown_context_timeout)\<rparr>"
  let ?s5 = "?s4\<lparr>pr_clock := pr_clock ?s4 + shutdown_context_timeout\<rparr>"
  let ?s6 = "?s5\<lparr>pr_main := FlushingTelemetry (pr_clock ?s5 + shutdown_context_timeout)\<rparr>"
  let ?s7 = "?s6\<lparr>pr_clock := pr_clock ?s6 + shutdown_context_timeout\<rparr>"
  have "proc_step ex ?s2 ProbesServed ?s3" by (rule probes_served) simp
  moreover have "proc_step ex ?s3 ProbesShutting ?s4" by (rule probes_shutting) (simp_all add: p)
  moreover have "proc_step ex ?s4 (Ticked shutdown_context_timeout) ?s5"
    by (rule ticked) (simp_all add: p timing_defs due_def timeouts_def)
  moreover have "proc_step ex ?s5 ProbesShut ?s6" by (rule probes_shut) simp
  moreover have "proc_step ex ?s6 (Ticked shutdown_context_timeout) ?s7"
    by (rule ticked) (simp_all add: p timing_defs due_def timeouts_def)
  moreover have "proc_step ex ?s7 Flushed (?s7\<lparr>pr_main := Returned\<rparr>)" by (rule flushed) simp
  ultimately have "proc_reach ex ?s2 [ProbesServed, ProbesShutting, Ticked shutdown_context_timeout, ProbesShut,
      Ticked shutdown_context_timeout, Flushed] (?s7\<lparr>pr_main := Returned\<rparr>)"
    by (blast intro: proc_reach_cons proc_init)
  then have "proc_reach ex ?s0 (es1 @ es2 @ [ProbesServed, ProbesShutting, Ticked shutdown_context_timeout, ProbesShut,
      Ticked shutdown_context_timeout, Flushed]) (?s7\<lparr>pr_main := Returned\<rparr>)"
    using proc_reach_append [OF proc_reach_append [OF _ r2] r1] by blast
  moreover have "pr_signal (?s7\<lparr>pr_main := Returned\<rparr>) = Some start" "pr_main (?s7\<lparr>pr_main := Returned\<rparr>) = Returned"
    "pr_clock (?s7\<lparr>pr_main := Returned\<rparr>) = ?T + 2 * shutdown_context_timeout"
    by simp_all
  ultimately show ?thesis by blast
qed

text \<open>A configuration with a proxy, whose five tests delay the stop past the 40 s the chart grants the pod.\<close>

definition proxied_config :: config where
  "proxied_config = prod_config\<lparr>cf_egress_proxy_url := Some ''http://l''\<rparr>"

definition proxied_tests :: "connectivity_test list" where
  "proxied_tests = fst (check_connectivity (cd_url prod_deps) (cd_key_pair prod_deps) (\<lambda>ca. True) (\<lambda>a tls. None) proxied_config)"

lemma proxied_tests_five: "length proxied_tests = 5"
proof -
  have u: "cd_url prod_deps ''https://c'' = Ok (prod_url ''https'' ''c'')" "cd_url prod_deps ''http://l'' = Ok (prod_url ''http'' ''LocalHost.:4317'')"
    by (simp_all add: prod_deps_def)
  have "controller_ok prod_deps prod_config" using load_from_ok [OF prod_load_from] by (simp add: config_ok_def)
  then obtain cert key where "cf_tls_cert prod_config = Some cert" "cf_tls_key prod_config = Some key" "cd_key_pair prod_deps cert key"
    using u(1) prod_urls by (auto simp: controller_ok_def prod_read)
  moreover have "url_hostname (prod_url ''https'' ''c'') = ''c''" by code_simp
  ultimately show ?thesis
    using u by (simp add: proxied_tests_def proxied_config_def check_connectivity_def proxy_tests_def load_tls_material_def
        direct_tls_dial_def extract_https prod_urls prod_read Let_def)
qed

theorem stop_time_bound_witness:
  "\<exists>es s. proc_reach example_externals (proc_start example_server proxied_tests False 0) es s \<and> pr_main s = Returned \<and>
     pr_signal s = Some 0 \<and> pr_clock s = 60 * nanos \<and> pr_clock s \<le> max (0 + 20 * nanos) (0 + 50 * nanos) + 10 * nanos"
proof -
  obtain es s where s: "proc_reach example_externals (proc_start example_server proxied_tests False 0) es s"
    "pr_signal s = Some 0" "pr_main s = Returned" "pr_clock s = 60 * nanos"
    using late_stop [of example_externals example_server proxied_tests False 0] by (auto simp: proxied_tests_five timing_defs)
  from stop_time_bound [OF s(1) [unfolded proxied_tests_def] s(2)] s show ?thesis by blast
qed

end
