(* ===== verification/Holding.thy ===== *)
theory Holding
  imports Tunnels
begin

text \<open>
  Tunnels.hold and serveOne of internal/pipeserver/tunnels.go, the goroutines that keep the tunnels
  up: one holder per tunnel wanted, the connections they have dialed, and the goroutine that stops
  them. Dials, greetings and connections fail whenever they like; every read of a flag and every
  selection is a step of its own. How long a wait takes is in theory Tunnels.
\<close>

section \<open>The holders\<close>

text \<open>
  Where a holder is: at the head of its loop; dialing, with the greeting; in serveOne's select, for
  the tunnel it dialed; in the wait before the next dial; past its loop, waiting for the context.
\<close>

datatype holder = AtLoop | Dialing | Selecting nat | Pausing | Parked | HolderGone

text \<open>
  The tunnels whose ServeConn still runs, those whose replacement was asked, those an AfterFunc of
  the context is registered for and those it has closed; and how many came up once no redial was
  wanted.
\<close>

record hold_system =
  hs_holders :: "holder list"
  hs_live :: "nat set"
  hs_replaced :: "nat set"
  hs_armed :: "nat set"
  hs_closed :: "nat set"
  hs_next :: nat
  hs_stopping :: bool
  hs_done :: bool
  hs_late :: nat

definition holders_started :: "nat \<Rightarrow> hold_system" where
  "holders_started n =
     \<lparr>hs_holders = replicate n AtLoop, hs_live = {}, hs_replaced = {}, hs_armed = {}, hs_closed = {}, hs_next = 0,
      hs_stopping = False, hs_done = False, hs_late = 0\<rparr>"

definition moved :: "nat \<Rightarrow> holder \<Rightarrow> hold_system \<Rightarrow> hold_system" where
  "moved i h s = s\<lparr>hs_holders := (hs_holders s)[i := h]\<rparr>"

definition at_holder :: "hold_system \<Rightarrow> nat \<Rightarrow> holder \<Rightarrow> bool" where
  "at_holder s i h \<longleftrightarrow> i < length (hs_holders s) \<and> hs_holders s ! i = h"

datatype hold_event = HoldDials nat | HoldParks nat | DialFails nat | TunnelComesUp nat | AskedReplacement nat | SeesReplaced nat
  | SeesClosed nat | PauseOver nat | HolderEnds nat | TunnelEnds nat | ServeReturns nat
  | ContextCloses nat | NoMoreRedials | ContextDone

text \<open>
  The stop stores stopping before the context is done, so a holder that reads stopping as false has
  read a context that is not. A tunnel ends when its far end closes it, or, its connection closed
  here, when its ServeConn returns.
\<close>

inductive hold_step :: "hold_system \<Rightarrow> hold_event \<Rightarrow> hold_system \<Rightarrow> bool" where
  hold_dials: "at_holder s i AtLoop \<Longrightarrow> \<not> hs_done s \<Longrightarrow> \<not> hs_stopping s \<Longrightarrow> hold_step s (HoldDials i) (moved i Dialing s)"
| hold_parks: "at_holder s i AtLoop \<Longrightarrow> hs_done s \<or> hs_stopping s \<Longrightarrow> hold_step s (HoldParks i) (moved i Parked s)"
| dial_fails: "at_holder s i Dialing \<Longrightarrow> hold_step s (DialFails i) (moved i Pausing s)"
| tunnel_comes_up: "at_holder s i Dialing \<Longrightarrow> k = hs_next s \<Longrightarrow>
    hold_step s (TunnelComesUp i)
      ((moved i (Selecting k) s)\<lparr>hs_next := k + 1, hs_armed := insert k (hs_armed s), hs_live := insert k (hs_live s),
        hs_late := hs_late s + (if hs_stopping s then 1 else 0)\<rparr>)"
| asked: "k \<in> hs_live s \<Longrightarrow> hold_step s (AskedReplacement k) (s\<lparr>hs_replaced := insert k (hs_replaced s)\<rparr>)"
| sees_replaced: "at_holder s i (Selecting k) \<Longrightarrow> k \<in> hs_replaced s \<Longrightarrow> hold_step s (SeesReplaced i) (moved i Pausing s)"
| sees_closed: "at_holder s i (Selecting k) \<Longrightarrow> k \<notin> hs_live s \<Longrightarrow>
    hold_step s (SeesClosed i) ((moved i Pausing s)\<lparr>hs_armed := hs_armed s - {k}\<rparr>)"
| pause_over: "at_holder s i Pausing \<Longrightarrow> hold_step s (PauseOver i) (moved i AtLoop s)"
| holder_ends: "at_holder s i Parked \<Longrightarrow> hs_done s \<Longrightarrow> hold_step s (HolderEnds i) (moved i HolderGone s)"
| tunnel_ends: "k \<in> hs_live s \<Longrightarrow> hold_step s (TunnelEnds k) (s\<lparr>hs_live := hs_live s - {k}\<rparr>)"
| serve_returns: "k \<in> hs_live s \<Longrightarrow> k \<in> hs_closed s \<Longrightarrow> hold_step s (ServeReturns k) (s\<lparr>hs_live := hs_live s - {k}\<rparr>)"
| context_closes: "hs_done s \<Longrightarrow> k \<in> hs_armed s \<Longrightarrow>
    hold_step s (ContextCloses k) (s\<lparr>hs_armed := hs_armed s - {k}, hs_closed := insert k (hs_closed s)\<rparr>)"
| no_more_redials: "hold_step s NoMoreRedials (s\<lparr>hs_stopping := True\<rparr>)"
| context_done: "hs_stopping s \<Longrightarrow> hold_step s ContextDone (s\<lparr>hs_done := True\<rparr>)"

inductive_cases hold_step_cases: "hold_step s e s'"

inductive hold_reach :: "hold_system \<Rightarrow> hold_event list \<Rightarrow> hold_system \<Rightarrow> bool" for s0 where
  hold_init: "hold_reach s0 [] s0"
| hold_more: "hold_reach s0 es s \<Longrightarrow> hold_step s e s' \<Longrightarrow> hold_reach s0 (es @ [e]) s'"

section \<open>What holds throughout\<close>

definition count_of :: "(holder \<Rightarrow> bool) \<Rightarrow> hold_system \<Rightarrow> nat" where
  "count_of P s = length (filter P (hs_holders s))"

definition held :: "hold_system \<Rightarrow> nat set" where
  "held s = {k. Selecting k \<in> set (hs_holders s)}"

definition hold_inv :: "nat \<Rightarrow> hold_system \<Rightarrow> bool" where
  "hold_inv n s \<longleftrightarrow>
     length (hs_holders s) = n \<and> (hs_done s \<longrightarrow> hs_stopping s) \<and> finite (hs_live s) \<and> finite (hs_armed s) \<and>
     hs_live s \<subseteq> hs_armed s \<union> hs_closed s \<and> hs_live s \<subseteq> hs_replaced s \<union> held s \<and>
     (if hs_stopping s then hs_late s + count_of (\<lambda>h. h = Dialing) s \<le> n else hs_late s = 0)"

lemma at_holder_set: "at_holder s i h \<Longrightarrow> h \<in> set (hs_holders s)"
  by (auto simp: at_holder_def)

lemma filter_update:
  assumes "i < length xs"
  shows "length (filter P (xs[i := x])) + (if P (xs ! i) then 1 else 0) = length (filter P xs) + (if P x then 1 else 0)"
  using assms
proof (induction xs arbitrary: i)
  case (Cons y ys)
  then show ?case by (cases i) auto
qed simp

lemma count_moved:
  "at_holder s i h \<Longrightarrow> count_of P (moved i h' s) + (if P h then 1 else 0) = count_of P s + (if P h' then 1 else 0)"
  using filter_update [of i "hs_holders s" P h'] by (auto simp: at_holder_def count_of_def moved_def)

lemma held_moved:
  assumes "at_holder s i h" and "k \<in> held s"
  shows "k \<in> held (moved i h' s) \<or> h = Selecting k"
proof -
  obtain j where j: "j < length (hs_holders s)" "hs_holders s ! j = Selecting k"
    using assms(2) by (auto simp: held_def in_set_conv_nth)
  show ?thesis
  proof (cases "j = i")
    case True
    then show ?thesis using assms(1) j by (auto simp: at_holder_def)
  next
    case False
    then have "hs_holders (moved i h' s) ! j = Selecting k" "j < length (hs_holders (moved i h' s))"
      using j by (simp_all add: moved_def)
    then show ?thesis by (auto simp: held_def in_set_conv_nth)
  qed
qed

lemma moved_fields [simp]:
  "hs_live (moved i h s) = hs_live s" "hs_replaced (moved i h s) = hs_replaced s" "hs_armed (moved i h s) = hs_armed s"
  "hs_closed (moved i h s) = hs_closed s" "hs_next (moved i h s) = hs_next s" "hs_stopping (moved i h s) = hs_stopping s"
  "hs_done (moved i h s) = hs_done s" "hs_late (moved i h s) = hs_late s" "length (hs_holders (moved i h s)) = length (hs_holders s)"
  by (simp_all add: moved_def)

lemma view_fields [simp]:
  "held (s\<lparr>hs_next := a\<rparr>) = held s" "held (s\<lparr>hs_live := b\<rparr>) = held s" "held (s\<lparr>hs_replaced := b\<rparr>) = held s"
  "held (s\<lparr>hs_armed := b\<rparr>) = held s" "held (s\<lparr>hs_closed := b\<rparr>) = held s" "held (s\<lparr>hs_late := a\<rparr>) = held s"
  "held (s\<lparr>hs_stopping := c\<rparr>) = held s" "held (s\<lparr>hs_done := c\<rparr>) = held s"
  "count_of P (s\<lparr>hs_next := a\<rparr>) = count_of P s" "count_of P (s\<lparr>hs_live := b\<rparr>) = count_of P s"
  "count_of P (s\<lparr>hs_replaced := b\<rparr>) = count_of P s" "count_of P (s\<lparr>hs_armed := b\<rparr>) = count_of P s"
  "count_of P (s\<lparr>hs_closed := b\<rparr>) = count_of P s" "count_of P (s\<lparr>hs_late := a\<rparr>) = count_of P s"
  "count_of P (s\<lparr>hs_stopping := c\<rparr>) = count_of P s" "count_of P (s\<lparr>hs_done := c\<rparr>) = count_of P s"
  by (simp_all add: held_def count_of_def)

lemma held_unselected:
  "at_holder s i h \<Longrightarrow> (\<And>k. h \<noteq> Selecting k) \<Longrightarrow> held s \<subseteq> held (moved i h' s)"
  using held_moved [of s i h] by blast

lemma held_selecting: "at_holder s i h \<Longrightarrow> k \<in> held (moved i (Selecting k) s)"
  by (auto simp: held_def moved_def at_holder_def set_update_memI)

lemma hold_inv_step:
  assumes "hold_inv n s" and "hold_step s e s'"
  shows "hold_inv n s'"
  using assms(2)
proof (cases rule: hold_step.cases)
  case (hold_dials i)
  then show ?thesis using assms(1) held_unselected [OF hold_dials(3), of Dialing] by (auto simp: hold_inv_def)
next
  case (hold_parks i)
  then show ?thesis using assms(1) held_unselected [OF hold_parks(3), of Parked] count_moved [OF hold_parks(3), of "\<lambda>h. h = Dialing" Parked]
    by (auto simp: hold_inv_def)
next
  case (dial_fails i)
  then show ?thesis using assms(1) held_unselected [OF dial_fails(3), of Pausing] count_moved [OF dial_fails(3), of "\<lambda>h. h = Dialing" Pausing]
    by (auto simp: hold_inv_def)
next
  case (tunnel_comes_up i k)
  then show ?thesis
    using assms(1) held_unselected [OF tunnel_comes_up(3), of "Selecting k"] held_selecting [OF tunnel_comes_up(3), of k]
      count_moved [OF tunnel_comes_up(3), of "\<lambda>h. h = Dialing" "Selecting k"]
    by (auto simp: hold_inv_def)
next
  case (sees_replaced i k)
  have "hs_live s \<subseteq> hs_replaced s \<union> held (moved i Pausing s)"
    using assms(1) held_moved [OF sees_replaced(3), of _ Pausing] sees_replaced(4) by (fastforce simp: hold_inv_def)
  then show ?thesis using assms(1) sees_replaced count_moved [OF sees_replaced(3), of "\<lambda>h. h = Dialing" Pausing]
    by (auto simp: hold_inv_def)
next
  case (sees_closed i k)
  have "hs_live s \<subseteq> hs_replaced s \<union> held (moved i Pausing s)"
    using assms(1) held_moved [OF sees_closed(3), of _ Pausing] sees_closed(4) by (fastforce simp: hold_inv_def)
  then show ?thesis using assms(1) sees_closed count_moved [OF sees_closed(3), of "\<lambda>h. h = Dialing" Pausing]
    by (auto simp: hold_inv_def)
next
  case (pause_over i)
  then show ?thesis using assms(1) held_unselected [OF pause_over(3), of AtLoop] count_moved [OF pause_over(3), of "\<lambda>h. h = Dialing" AtLoop]
    by (auto simp: hold_inv_def)
next
  case (holder_ends i)
  then show ?thesis using assms(1) held_unselected [OF holder_ends(3), of HolderGone] count_moved [OF holder_ends(3), of "\<lambda>h. h = Dialing" HolderGone]
    by (auto simp: hold_inv_def)
next
  case no_more_redials
  have "count_of (\<lambda>h. h = Dialing) s \<le> length (hs_holders s)" by (simp add: count_of_def)
  then show ?thesis using assms(1) no_more_redials by (auto simp: hold_inv_def split: if_splits)
qed (use assms(1) in \<open>auto simp: hold_inv_def\<close>)

lemma hold_reach_inv: "hold_reach (holders_started n) es s \<Longrightarrow> hold_inv n s"
proof (induction rule: hold_reach.induct)
  case hold_init
  then show ?case by (simp add: hold_inv_def holders_started_def)
next
  case (hold_more es s e s')
  then show ?case using hold_inv_step by blast
qed

text \<open>At most one tunnel per holder is neither ended nor asked to be replaced.\<close>

lemma held_image: "held s \<subseteq> (\<lambda>h. case h of Selecting k \<Rightarrow> k | _ \<Rightarrow> 0) ` set (hs_holders s)"
  by (force simp: held_def image_iff)

lemma finite_held: "finite (held s)"
  using held_image by (rule finite_subset) simp

lemma held_card: "card (held s) \<le> length (hs_holders s)"
proof -
  have "card (held s) \<le> card ((\<lambda>h. case h of Selecting k \<Rightarrow> k | _ \<Rightarrow> 0) ` set (hs_holders s))"
    using held_image by (rule card_mono [rotated]) simp
  also have "\<dots> \<le> card (set (hs_holders s))" by (rule card_image_le) simp
  also have "\<dots> \<le> length (hs_holders s)" by (rule card_length)
  finally show ?thesis .
qed

section \<open>Stopping\<close>

text \<open>
  Once the context is done, the holders, the closes it registered and the tunnels that are closed by
  them end: some such step is possible until nothing is left, and each leaves less.
\<close>

fun holder_left :: "holder \<Rightarrow> nat" where
  "holder_left Dialing = 4"
| "holder_left (Selecting k) = 4"
| "holder_left Pausing = 3"
| "holder_left AtLoop = 2"
| "holder_left Parked = 1"
| "holder_left HolderGone = 0"

definition hold_left :: "hold_system \<Rightarrow> nat" where
  "hold_left s = sum_list (map holder_left (hs_holders s)) + card (hs_live s) + card (hs_armed s)"

fun winding_down :: "hold_event \<Rightarrow> bool" where
  "winding_down (TunnelComesUp i) = False"
| "winding_down (AskedReplacement k) = False"
| "winding_down (HoldDials i) = False"
| "winding_down (TunnelEnds k) = False"
| "winding_down _ = True"

definition wound_down :: "hold_system \<Rightarrow> bool" where
  "wound_down s \<longleftrightarrow> (\<forall>h \<in> set (hs_holders s). h = HolderGone) \<and> hs_live s = {} \<and> hs_armed s = {}"

lemma left_moved:
  assumes "at_holder s i h"
  shows "sum_list (map holder_left (hs_holders (moved i h' s))) + holder_left h =
    sum_list (map holder_left (hs_holders s)) + holder_left h'"
proof -
  have "i < length xs \<Longrightarrow> sum_list (map holder_left (xs[i := h'])) + holder_left (xs ! i) = sum_list (map holder_left xs) + holder_left h'"
    for xs
  proof (induction xs arbitrary: i)
    case (Cons y ys)
    then show ?case by (cases i) (auto simp: algebra_simps)
  qed simp
  then show ?thesis using assms by (auto simp: at_holder_def moved_def)
qed

lemma moved_less:
  assumes "at_holder s i h" and "hold_step s e (moved i h' s)" and "winding_down e" and "holder_left h' < holder_left h"
  shows "\<exists>e s'. hold_step s e s' \<and> winding_down e \<and> hold_left s' < hold_left s \<and> hs_done s' = hs_done s"
  using assms left_moved [OF assms(1), of h'] by (intro exI [of _ e] exI [of _ "moved i h' s"]) (simp add: hold_left_def)

lemma hold_progress:
  assumes "hold_inv n s" and "hs_done s" and "\<not> wound_down s"
  shows "\<exists>e s'. hold_step s e s' \<and> winding_down e \<and> hold_left s' < hold_left s \<and> hs_done s' = hs_done s"
proof (cases "hs_armed s = {}")
  case False
  then obtain k where k: "k \<in> hs_armed s" by blast
  have "card (hs_armed s - {k}) < card (hs_armed s)" using k assms(1) by (intro psubset_card_mono) (auto simp: hold_inv_def)
  then show ?thesis using context_closes [OF assms(2) k]
    by (intro exI [of _ "ContextCloses k"] exI [of _ "s\<lparr>hs_armed := hs_armed s - {k}, hs_closed := insert k (hs_closed s)\<rparr>"])
      (simp add: hold_left_def)
next
  case armed: True
  show ?thesis
  proof (cases "hs_live s = {}")
    case False
    then obtain k where k: "k \<in> hs_live s" by blast
    then have "k \<in> hs_closed s" using assms(1) armed by (auto simp: hold_inv_def)
    moreover have "card (hs_live s - {k}) < card (hs_live s)" using k assms(1) by (intro psubset_card_mono) (auto simp: hold_inv_def)
    ultimately show ?thesis using serve_returns [OF k]
      by (intro exI [of _ "ServeReturns k"] exI [of _ "s\<lparr>hs_live := hs_live s - {k}\<rparr>"]) (simp add: hold_left_def)
  next
    case live: True
    then obtain i where i: "i < length (hs_holders s)" "hs_holders s ! i \<noteq> HolderGone"
      using assms(3) live armed by (auto simp: wound_down_def in_set_conv_nth)
    then have a: "at_holder s i (hs_holders s ! i)" by (simp add: at_holder_def)
    show ?thesis
    proof (cases "hs_holders s ! i")
      case AtLoop
      then show ?thesis using moved_less [OF a, of "HoldParks i" Parked] hold_parks [of s i] a assms(2) by simp
    next
      case Dialing
      then show ?thesis using moved_less [OF a, of "DialFails i" Pausing] dial_fails [of s i] a by simp
    next
      case (Selecting k)
      have "hold_step s (SeesClosed i) ((moved i Pausing s)\<lparr>hs_armed := hs_armed s - {k}\<rparr>)"
        by (rule sees_closed) (use a Selecting live in simp_all)
      moreover have "hold_left ((moved i Pausing s)\<lparr>hs_armed := hs_armed s - {k}\<rparr>) < hold_left s"
        using left_moved [OF a, of Pausing] Selecting armed by (simp add: hold_left_def)
      ultimately show ?thesis by (intro exI [of _ "SeesClosed i"] exI [of _ "(moved i Pausing s)\<lparr>hs_armed := hs_armed s - {k}\<rparr>"]) simp
    next
      case Pausing
      then show ?thesis using moved_less [OF a, of "PauseOver i" AtLoop] pause_over [of s i] a by simp
    next
      case Parked
      then show ?thesis using moved_less [OF a, of "HolderEnds i" HolderGone] holder_ends [of s i] a assms(2) by simp
    qed (use i in simp)
  qed
qed

lemma hold_reach_cons: "hold_step s e s1 \<Longrightarrow> hold_reach s1 es s2 \<Longrightarrow> hold_reach s (e # es) s2"
proof (rotate_tac 1, induction rule: hold_reach.induct)
  case hold_init
  then show ?case using hold_more [OF hold_reach.hold_init] by fastforce
next
  case (hold_more es' t e' t')
  then show ?case using hold_reach.hold_more [of s "e # es'" t e' t'] by simp
qed

lemma hold_winds_down:
  assumes "hold_inv n s" and "hs_done s"
  shows "\<exists>es s'. hold_reach s es s' \<and> list_all winding_down es \<and> length es \<le> hold_left s \<and> wound_down s'"
  using assms
proof (induction "hold_left s" arbitrary: s rule: less_induct)
  case less
  show ?case
  proof (cases "wound_down s")
    case True
    then show ?thesis using hold_init [of s] by (intro exI [of _ "[]"] exI [of _ s]) simp
  next
    case False
    obtain e s1 where e: "hold_step s e s1" "winding_down e" "hold_left s1 < hold_left s" "hs_done s1 = hs_done s"
      using hold_progress [OF less(2,3) False] by blast
    obtain es s' where "hold_reach s1 es s'" "list_all winding_down es" "length es \<le> hold_left s1" "wound_down s'"
      using less(1) [OF e(3) hold_inv_step [OF less(2) e(1)]] e(4) less(3) by blast
    then show ?thesis using hold_reach_cons [OF e(1)] e(2,3) by (intro exI [of _ "e # es"] exI [of _ s']) simp
  qed
qed

text \<open>
  A tunnel that was replaced is forgotten by its holder, so what the context was to call for it stays
  registered after it ended, until the context is done.
\<close>

lemma replaced_stays_armed_step:
  assumes "hold_step s e s'" and "\<not> hs_done s" and "k \<in> hs_armed s" and "k \<notin> held s" and "k < hs_next s"
  shows "k \<in> hs_armed s' \<and> k \<notin> held s' \<and> k < hs_next s'"
proof -
  have m: "k \<notin> held (moved i h s)" if "h \<noteq> Selecting k" for i h
  proof
    assume "k \<in> held (moved i h s)"
    then have "Selecting k \<in> insert h (set (hs_holders s))"
      using set_update_subset_insert [of "hs_holders s" i h] by (auto simp: held_def moved_def)
    then show False using that assms(4) by (auto simp: held_def)
  qed
  show ?thesis
    using assms(1)
  proof (cases rule: hold_step.cases)
    case (sees_closed i j)
    then have "j \<in> held s" by (auto simp: held_def dest: at_holder_set)
    then show ?thesis using sees_closed assms m by auto
  qed (use assms m in auto)
qed

lemma hold_done_stays:
  assumes "hold_step s e s'" and "hs_done s"
  shows "hs_done s'"
  using assms by (cases rule: hold_step.cases) auto

lemma replaced_stays_armed:
  assumes "hold_reach s es s'" and "k \<in> hs_armed s" and "k \<notin> held s" and "k < hs_next s" and "\<not> hs_done s'"
  shows "k \<in> hs_armed s'"
proof -
  have "k \<in> hs_armed s' \<and> k \<notin> held s' \<and> k < hs_next s'"
    using assms
  proof (induction rule: hold_reach.induct)
    case (hold_more es s1 e s2)
    then have "\<not> hs_done s1" using hold_done_stays by blast
    then show ?case using hold_more replaced_stays_armed_step [OF hold_more(2)] by blast
  qed simp
  then show ?thesis ..
qed

section \<open>Properties\<close>

text \<open>
  C19. The holders, however their steps, the stop and the tunnels interleave. At most as many tunnels
  as there are holders are up that were not asked to be replaced. Once the stop has stored that there
  are no more redials, at most as many tunnels come up as there are holders: those whose dial was
  under way. Every tunnel that is up will be closed by the context or has been; and once the context
  is done, steps of the holders, the closes and the returns they cause, at most four for each holder
  and one for each close registered and each tunnel up, leave no tunnel up and no holder running.
\<close>

theorem holders_wind_down:
  assumes "hold_reach (holders_started n) es s"
  shows "card (hs_live s - hs_replaced s) \<le> n \<and>
    (if hs_stopping s then hs_late s \<le> n else hs_late s = 0) \<and>
    hs_live s \<subseteq> hs_armed s \<union> hs_closed s \<and>
    (hs_done s \<longrightarrow>
       (\<exists>es' s'. hold_reach s es' s' \<and> list_all winding_down es' \<and>
          length es' \<le> 4 * n + card (hs_live s) + card (hs_armed s) \<and> wound_down s'))"
proof -
  note inv = hold_reach_inv [OF assms]
  then have n: "length (hs_holders s) = n" by (simp add: hold_inv_def)
  have sub: "hs_live s - hs_replaced s \<subseteq> held s" using inv by (auto simp: hold_inv_def)
  have "card (hs_live s - hs_replaced s) \<le> n" using card_mono [OF finite_held sub] held_card [of s] n by linarith
  moreover have "sum_list (map holder_left (hs_holders s)) \<le> 4 * n"
  proof -
    have "holder_left h \<le> 4" for h by (cases h) auto
    then have "sum_list (map holder_left xs) \<le> 4 * length xs" for xs by (induction xs) (auto simp: add_mono)
    then show ?thesis using n by blast
  qed
  moreover have "if hs_stopping s then hs_late s \<le> n else hs_late s = 0" using inv by (auto simp: hold_inv_def split: if_splits)
  moreover have "hs_live s \<subseteq> hs_armed s \<union> hs_closed s" using inv by (simp add: hold_inv_def)
  moreover have "\<exists>es' s'. hold_reach s es' s' \<and> list_all winding_down es' \<and>
      length es' \<le> 4 * n + card (hs_live s) + card (hs_armed s) \<and> wound_down s'"
    if d: "hs_done s" and l: "sum_list (map holder_left (hs_holders s)) \<le> 4 * n"
  proof -
    obtain es' s' where r: "hold_reach s es' s'" "list_all winding_down es'" "length es' \<le> hold_left s" "wound_down s'"
      using hold_winds_down [OF inv d] by blast
    moreover have "length es' \<le> 4 * n + card (hs_live s) + card (hs_armed s)" using r(3) l by (simp add: hold_left_def)
    ultimately show ?thesis by blast
  qed
  ultimately show ?thesis by blast
qed

text \<open>One holder: its tunnel is replaced, the next comes up after the stop, and both are closed.\<close>

lemma example_late:
  "\<exists>es s. hold_reach (holders_started 1) es s \<and> hs_done s \<and> hs_live s = {0, 1} \<and> hs_late s = 1"
proof -
  let ?s0 = "holders_started 1"
  let ?s1 = "moved 0 Dialing ?s0"
  let ?up = "\<lambda>k s. (moved 0 (Selecting k) s)\<lparr>hs_next := k + 1, hs_armed := insert k (hs_armed s), hs_live := insert k (hs_live s),
        hs_late := hs_late s + (if hs_stopping s then 1 else 0)\<rparr>"
  let ?s2 = "?up 0 ?s1"
  let ?s3 = "?s2\<lparr>hs_replaced := insert 0 (hs_replaced ?s2)\<rparr>"
  let ?s4 = "moved 0 Pausing ?s3"
  let ?s5 = "moved 0 AtLoop ?s4"
  let ?s6 = "moved 0 Dialing ?s5"
  let ?s7 = "?s6\<lparr>hs_stopping := True\<rparr>"
  let ?s8 = "?up 1 ?s7"
  let ?s9 = "?s8\<lparr>hs_done := True\<rparr>"
  note d = at_holder_def holders_started_def moved_def
  have "hold_step ?s0 (HoldDials 0) ?s1" by (rule hold_dials) (simp_all add: d)
  moreover have "hold_step ?s1 (TunnelComesUp 0) ?s2" by (rule tunnel_comes_up) (simp_all add: d)
  moreover have "hold_step ?s2 (AskedReplacement 0) ?s3" by (rule asked) (simp add: d)
  moreover have "hold_step ?s3 (SeesReplaced 0) ?s4" by (rule sees_replaced [where k = 0]) (simp_all add: d)
  moreover have "hold_step ?s4 (PauseOver 0) ?s5" by (rule pause_over) (simp add: d)
  moreover have "hold_step ?s5 (HoldDials 0) ?s6" by (rule hold_dials) (simp_all add: d)
  moreover have "hold_step ?s6 NoMoreRedials ?s7" by (rule no_more_redials)
  moreover have "hold_step ?s7 (TunnelComesUp 0) ?s8" by (rule tunnel_comes_up) (simp_all add: d)
  moreover have "hold_step ?s8 ContextDone ?s9" by (rule context_done) simp
  ultimately have "hold_reach ?s0 [HoldDials 0, TunnelComesUp 0, AskedReplacement 0, SeesReplaced 0, PauseOver 0, HoldDials 0,
      NoMoreRedials, TunnelComesUp 0, ContextDone] ?s9"
    by (blast intro: hold_reach_cons hold_init)
  moreover have "hs_done ?s9" "hs_live ?s9 = {0, 1}" "hs_late ?s9 = 1" by (auto simp: holders_started_def)
  ultimately show ?thesis by blast
qed

theorem holders_wind_down_witness:
  "\<exists>es s es' s'. hold_reach (holders_started 1) es s \<and> hs_late s = 1 \<and> hold_reach s es' s' \<and> wound_down s'"
proof -
  obtain es s where s: "hold_reach (holders_started 1) es s" "hs_done s" "hs_late s = 1" using example_late by blast
  from holders_wind_down [OF s(1)] s show ?thesis by blast
qed

end
