(* ===== verification/Halfconn.thy ===== *)
theory Halfconn
  imports Prelude "HOL-Library.Sublist"
begin

text \<open>
  connector-lib/halfconn. Splice (splice.go): two copies, one each way, and the timers, as the
  steps of one system that interleave in any order; the ends are the environment, known by what
  they answer. StreamConn (streamconn.go): a pipe end as a connection, with its two copies. The
  connections that replay a prefix and the CONNECT take-over (halfconn.go) are functions.
\<close>

section \<open>Splice\<close>

datatype outcome = Completed | Limit | CallerAborted | DestAborted

record limits =
  lm_lifetime :: duration
  lm_idle :: duration

definition copy_buffer :: nat where "copy_buffer = 65536"

text \<open>A copy is known by the side it reads; it blames that side for its reads, the other for its writes.\<close>

datatype side = Caller | Dest

instantiation side :: enum
begin

definition enum_side :: "side list" where "enum_side = [Caller, Dest]"
definition enum_all_side :: "(side \<Rightarrow> bool) \<Rightarrow> bool" where "enum_all_side P \<longleftrightarrow> P Caller \<and> P Dest"
definition enum_ex_side :: "(side \<Rightarrow> bool) \<Rightarrow> bool" where "enum_ex_side P \<longleftrightarrow> P Caller \<or> P Dest"

instance
proof
  show "(UNIV :: side set) = set enum_class.enum" by (auto simp: enum_side_def intro: side.exhaust)
  show "distinct (enum_class.enum :: side list)" by (simp add: enum_side_def)
  show "enum_class.enum_all P \<longleftrightarrow> Ball UNIV P" for P :: "side \<Rightarrow> bool"
    by (auto simp: enum_all_side_def intro: side.exhaust) (metis side.exhaust)
  show "enum_class.enum_ex P \<longleftrightarrow> Bex UNIV P" for P :: "side \<Rightarrow> bool"
    by (auto simp: enum_ex_side_def) (metis side.exhaust)
qed

end

fun other :: "side \<Rightarrow> side" where
  "other Caller = Dest"
| "other Dest = Caller"

fun blames :: "side \<Rightarrow> outcome" where
  "blames Caller = CallerAborted"
| "blames Dest = DestAborted"

text \<open>
  Where copyEnd stands: about to read; about to write what it read, with the error that came with
  it; past the loop's last read, with that error; or returned.
\<close>

datatype read_end = More | AtEOF | Broken

datatype copy_at = Reading | Writing string read_end | Over read_end | Returned

record copy =
  cp_at :: copy_at
  cp_n :: i64

text \<open>
  What each end has seen: its own bytes and end, what was written to it, the last of which a Write
  that failed may have taken of its buffer, and how it was ended.
\<close>

record pipe_end =
  pe_read :: string
  pe_eof :: bool
  pe_written :: string
  pe_torn :: string
  pe_closed :: bool
  pe_aborted :: bool
  pe_failed :: bool

record splice =
  sp_limits :: limits
  sp_copy :: "side \<Rightarrow> copy"
  sp_end :: "side \<Rightarrow> pipe_end"
  sp_once :: bool
  sp_outcome :: outcome
  sp_result :: "(i64 \<times> i64 \<times> outcome) option"

definition fresh_end :: pipe_end where
  "fresh_end = \<lparr>pe_read = [], pe_eof = False, pe_written = [], pe_torn = [], pe_closed = False, pe_aborted = False, pe_failed = False\<rparr>"

definition splice_start :: "limits \<Rightarrow> splice" where
  "splice_start l = \<lparr>sp_limits = l, sp_copy = (\<lambda>d. \<lparr>cp_at = Reading, cp_n = 0\<rparr>), sp_end = (\<lambda>d. fresh_end),
     sp_once = False, sp_outcome = Completed, sp_result = None\<rparr>"

definition at_copy :: "side \<Rightarrow> copy_at \<Rightarrow> splice \<Rightarrow> splice" where
  "at_copy d a s = s\<lparr>sp_copy := (sp_copy s)(d := (sp_copy s d)\<lparr>cp_at := a\<rparr>)\<rparr>"

definition on_end :: "side \<Rightarrow> (pipe_end \<Rightarrow> pipe_end) \<Rightarrow> splice \<Rightarrow> splice" where
  "on_end d f s = s\<lparr>sp_end := (sp_end s)(d := f (sp_end s d))\<rparr>"

text \<open>fail: the first caller of once sets the outcome and aborts both ends; the others wait for it.\<close>

definition splice_fail :: "outcome \<Rightarrow> splice \<Rightarrow> splice" where
  "splice_fail o' s =
     (if sp_once s then s
      else s\<lparr>sp_once := True, sp_outcome := o', sp_end := (\<lambda>d. (sp_end s d)\<lparr>pe_aborted := True\<rparr>)\<rparr>)"

text \<open>The pieces of copyEnd between two calls on an end.\<close>

fun after_read :: "read_end \<Rightarrow> copy_at" where
  "after_read More = Reading"
| "after_read e = Over e"

definition copy_read :: "side \<Rightarrow> string \<Rightarrow> read_end \<Rightarrow> splice \<Rightarrow> splice" where
  "copy_read d bs e s =
     at_copy d (if bs = [] then after_read e else Writing bs e)
       (on_end d (\<lambda>p. p\<lparr>pe_read := pe_read p @ bs, pe_eof := e = AtEOF, pe_failed := pe_failed p \<or> e = Broken\<rparr>) s)"

definition copy_wrote :: "side \<Rightarrow> string \<Rightarrow> read_end \<Rightarrow> splice \<Rightarrow> splice" where
  "copy_wrote d bs e s =
     (let s1 = on_end (other d) (\<lambda>p. p\<lparr>pe_written := pe_written p @ bs\<rparr>) (at_copy d (after_read e) s) in
      s1\<lparr>sp_copy := (sp_copy s1)(d := (sp_copy s1 d)\<lparr>cp_n := cp_n (sp_copy s1 d) + of_nat (length bs)\<rparr>)\<rparr>)"

text \<open>A Write that fails may have taken bytes all the same: the count does not tell.\<close>

definition copy_not_written :: "side \<Rightarrow> string \<Rightarrow> splice \<Rightarrow> splice" where
  "copy_not_written d taken s =
     at_copy d Returned (splice_fail (blames (other d)) (on_end (other d)
       (\<lambda>p. p\<lparr>pe_written := pe_written p @ taken, pe_torn := taken, pe_failed := True\<rparr>) s))"

definition copy_ends :: "side \<Rightarrow> bool \<Rightarrow> splice \<Rightarrow> splice" where
  "copy_ends d closed s =
     (if closed then at_copy d Returned (on_end (other d) (\<lambda>p. p\<lparr>pe_closed := True\<rparr>) s) else copy_not_written d [] s)"

definition copy_breaks :: "side \<Rightarrow> splice \<Rightarrow> splice" where
  "copy_breaks d s = at_copy d Returned (splice_fail (blames d) s)"

definition splice_return :: "splice \<Rightarrow> splice" where
  "splice_return s =
     s\<lparr>sp_once := True, sp_result := Some (cp_n (sp_copy s Caller), cp_n (sp_copy s Dest), sp_outcome s)\<rparr>"

text \<open>A Write answers no error, or one after it took some bytes.\<close>

datatype splice_event = ReadOf side string read_end | WriteTo side "nat option" | CloseOf side bool | FailOf side | LimitFires | Returns

inductive splice_step :: "splice \<Rightarrow> splice_event \<Rightarrow> splice \<Rightarrow> bool" where
  step_read: "cp_at (sp_copy s d) = Reading \<Longrightarrow> length bs \<le> copy_buffer \<Longrightarrow>
    splice_step s (ReadOf d bs e) (copy_read d bs e s)"
| step_write: "cp_at (sp_copy s d) = Writing bs e \<Longrightarrow> splice_step s (WriteTo (other d) None) (copy_wrote d bs e s)"
| step_write_fails: "cp_at (sp_copy s d) = Writing bs e \<Longrightarrow> k \<le> length bs \<Longrightarrow>
    splice_step s (WriteTo (other d) (Some k)) (copy_not_written d (take k bs) s)"
| step_end: "cp_at (sp_copy s d) = Over AtEOF \<Longrightarrow> splice_step s (CloseOf (other d) closed) (copy_ends d closed s)"
| step_broken: "cp_at (sp_copy s d) = Over Broken \<Longrightarrow> splice_step s (FailOf d) (copy_breaks d s)"
| step_limit: "0 < lm_lifetime (sp_limits s) \<or> 0 < lm_idle (sp_limits s) \<Longrightarrow> \<not> sp_once s \<Longrightarrow>
    splice_step s LimitFires (splice_fail Limit s)"
| step_return: "cp_at (sp_copy s Caller) = Returned \<Longrightarrow> cp_at (sp_copy s Dest) = Returned \<Longrightarrow> sp_result s = None \<Longrightarrow>
    splice_step s Returns (splice_return s)"

inductive_cases splice_step_cases: "splice_step s ev s'"

inductive splice_reach :: "limits \<Rightarrow> splice \<Rightarrow> bool" for l where
  splice_init: "splice_reach l (splice_start l)"
| splice_more: "splice_reach l s \<Longrightarrow> splice_step s ev s' \<Longrightarrow> splice_reach l s'"


section \<open>What Splice keeps\<close>

text \<open>
  One copy: what it read is what it wrote, less what it holds, and it counts all it wrote; when it has
  returned, all but what a failed Write took; and it half-closes only at a real end.
\<close>

definition copy_inv :: "side \<Rightarrow> splice \<Rightarrow> bool" where
  "copy_inv d s \<longleftrightarrow>
     (let src = sp_end s d; dst = sp_end s (other d); c = sp_copy s d in
      cp_n c + of_nat (length (pe_torn dst)) = of_nat (length (pe_written dst)) \<and>
      (case cp_at c of
         Reading \<Rightarrow> pe_read src = pe_written dst \<and> \<not> pe_eof src \<and> \<not> pe_closed dst \<and> pe_torn dst = []
       | Writing bs e \<Rightarrow> pe_read src = pe_written dst @ bs \<and> (pe_eof src \<longleftrightarrow> e = AtEOF) \<and>
           (e = Broken \<longrightarrow> pe_failed src) \<and> \<not> pe_closed dst \<and> pe_torn dst = [] \<and> length bs \<le> copy_buffer
       | Over e \<Rightarrow> pe_read src = pe_written dst \<and> e \<noteq> More \<and> (pe_eof src \<longleftrightarrow> e = AtEOF) \<and>
           (e = Broken \<longrightarrow> pe_failed src) \<and> \<not> pe_closed dst \<and> pe_torn dst = []
       | Returned \<Rightarrow> prefix (pe_written dst) (pe_read src) \<and> (pe_closed dst \<or> sp_outcome s \<noteq> Completed)) \<and>
      (pe_closed dst \<longrightarrow> pe_eof src \<and> pe_read src = pe_written dst) \<and>
      (pe_torn dst \<noteq> [] \<longrightarrow> pe_failed dst \<and> sp_outcome s \<noteq> Completed \<and> length (pe_torn dst) \<le> copy_buffer))"

text \<open>The once: until it is done nothing is aborted; a failure aborts both ends and is blamed on one that failed.\<close>

definition once_inv :: "splice \<Rightarrow> bool" where
  "once_inv s \<longleftrightarrow>
     (\<not> sp_once s \<longrightarrow> sp_outcome s = Completed) \<and> (sp_once s \<and> sp_result s = None \<longrightarrow> sp_outcome s \<noteq> Completed) \<and>
     (\<forall>d. pe_aborted (sp_end s d) \<longleftrightarrow> sp_outcome s \<noteq> Completed) \<and>
     (\<forall>d. sp_outcome s = blames d \<longrightarrow> pe_failed (sp_end s d)) \<and>
     (sp_outcome s = Limit \<longrightarrow> 0 < lm_lifetime (sp_limits s) \<or> 0 < lm_idle (sp_limits s))"

definition result_inv :: "splice \<Rightarrow> bool" where
  "result_inv s \<longleftrightarrow> (case sp_result s of None \<Rightarrow> True | Some r \<Rightarrow>
     sp_once s \<and> (\<forall>d. cp_at (sp_copy s d) = Returned) \<and>
     r = (cp_n (sp_copy s Caller), cp_n (sp_copy s Dest), sp_outcome s))"

lemma other_other [simp]: "other (other d) = d" "other d \<noteq> d" "d \<noteq> other d" by (cases d; simp)+

lemma other_eq_iff [simp]: "other d = other d' \<longleftrightarrow> d = d'" by (cases d; cases d') simp_all

lemma side_eq_other: "d' = d \<or> d' = other d" by (cases d; cases d') simp_all

lemma blames_neq [simp]: "blames d \<noteq> Completed" "blames d \<noteq> Limit" "Completed \<noteq> blames d" "Limit \<noteq> blames d" "blames d = blames d' \<longleftrightarrow> d = d'"
  by (cases d; cases d'; simp)+

lemma all_side: "(\<forall>d'. P d') \<longleftrightarrow> P d \<and> P (other d)" by (metis side_eq_other)

lemmas splice_updates = at_copy_def on_end_def copy_read_def copy_wrote_def copy_not_written_def copy_ends_def
  copy_breaks_def splice_fail_def splice_return_def Let_def

lemma fail_copies [simp]: "sp_copy (splice_fail o' s) = sp_copy s" "sp_limits (splice_fail o' s) = sp_limits s"
  "sp_result (splice_fail o' s) = sp_result s" "sp_once (splice_fail o' s)"
  "sp_outcome (splice_fail o' s) = (if sp_once s then sp_outcome s else o')"
  by (simp_all add: splice_fail_def)

lemma fail_ends [simp]: "pe_read (sp_end (splice_fail o' s) d) = pe_read (sp_end s d)"
  "pe_eof (sp_end (splice_fail o' s) d) = pe_eof (sp_end s d)"
  "pe_written (sp_end (splice_fail o' s) d) = pe_written (sp_end s d)"
  "pe_torn (sp_end (splice_fail o' s) d) = pe_torn (sp_end s d)"
  "pe_closed (sp_end (splice_fail o' s) d) = pe_closed (sp_end s d)"
  "pe_failed (sp_end (splice_fail o' s) d) = pe_failed (sp_end s d)"
  "pe_aborted (sp_end (splice_fail o' s) d) = (\<not> sp_once s \<or> pe_aborted (sp_end s d))"
  by (simp_all add: splice_fail_def)

text \<open>A failure keeps what the copies know: it changes only the once and the aborts.\<close>

lemma fail_keeps_copy: "once_inv s \<Longrightarrow> copy_inv d s \<Longrightarrow> o' \<noteq> Completed \<Longrightarrow> copy_inv d (splice_fail o' s)"
  by (auto simp: copy_inv_def Let_def once_inv_def split: copy_at.splits)

lemma fail_keeps_once:
  assumes "once_inv s" and "o' \<noteq> Completed" and "\<And>d. o' = blames d \<Longrightarrow> pe_failed (sp_end s d)"
    and "o' = Limit \<Longrightarrow> 0 < lm_lifetime (sp_limits s) \<or> 0 < lm_idle (sp_limits s)"
  shows "once_inv (splice_fail o' s)"
  using assms by (auto simp: once_inv_def)

definition splice_inv :: "splice \<Rightarrow> bool" where
  "splice_inv s \<longleftrightarrow> (\<forall>d. copy_inv d s) \<and> once_inv s \<and> result_inv s"

lemma splice_invI:
  "copy_inv d s \<Longrightarrow> copy_inv (other d) s \<Longrightarrow> once_inv s \<Longrightarrow> result_inv s \<Longrightarrow> splice_inv s"
  by (simp add: splice_inv_def all_side [where d = d])

lemma running_no_result:
  "splice_inv s \<Longrightarrow> cp_at (sp_copy s d) \<noteq> Returned \<Longrightarrow> sp_result s = None"
  by (auto simp: splice_inv_def result_inv_def split: option.splits)

lemma no_result_inv: "sp_result s = None \<Longrightarrow> result_inv s" by (simp add: result_inv_def)

lemma splice_start_inv: "splice_inv (splice_start l)"
  by (auto simp: splice_inv_def copy_inv_def once_inv_def result_inv_def splice_start_def fresh_end_def)

lemma copy_read_inv:
  assumes "splice_inv s" and "cp_at (sp_copy s d) = Reading" and "length bs \<le> copy_buffer"
  shows "splice_inv (copy_read d bs e s)"
proof (rule splice_invI [of d])
  note i = assms(1) [unfolded splice_inv_def all_side [where d = d]]
  show "copy_inv d (copy_read d bs e s)" using i assms(2,3)
    by (cases e) (auto simp: copy_inv_def splice_updates)
  show "copy_inv (other d) (copy_read d bs e s)" using i assms(2)
    by (auto simp: copy_inv_def splice_updates split: copy_at.splits)
  show "once_inv (copy_read d bs e s)" using i by (auto simp: once_inv_def splice_updates)
  show "result_inv (copy_read d bs e s)"
    using running_no_result [OF assms(1), of d] assms(2) by (auto simp: splice_updates intro!: no_result_inv)
qed

lemma copy_wrote_inv:
  assumes "splice_inv s" and "cp_at (sp_copy s d) = Writing bs e"
  shows "splice_inv (copy_wrote d bs e s)"
proof (rule splice_invI [of d])
  note i = assms(1) [unfolded splice_inv_def all_side [where d = d]]
  show "copy_inv d (copy_wrote d bs e s)" using i assms(2)
    by (cases e) (auto simp: copy_inv_def splice_updates)
  show "copy_inv (other d) (copy_wrote d bs e s)" using i assms(2)
    by (auto simp: copy_inv_def splice_updates split: copy_at.splits)
  show "once_inv (copy_wrote d bs e s)" using i by (auto simp: once_inv_def splice_updates)
  show "result_inv (copy_wrote d bs e s)"
    using running_no_result [OF assms(1), of d] assms(2) by (auto simp: splice_updates intro!: no_result_inv)
qed

text \<open>Returning after a failure, of either end.\<close>

lemma fail_return_inv:
  assumes "splice_inv s" and "cp_at (sp_copy s d) \<noteq> Returned" and "o' \<noteq> Completed"
    and "\<And>d. o' = blames d \<Longrightarrow> pe_failed (sp_end s d)" and "o' \<noteq> Limit"
  shows "splice_inv (at_copy d Returned (splice_fail o' s))"
proof (rule splice_invI [of d])
  let ?s = "splice_fail o' s"
  note i = assms(1) [unfolded splice_inv_def]
  have r: "sp_result s = None" using running_no_result assms(1,2) .
  have o: "once_inv ?s" using i assms by (intro fail_keeps_once) auto
  have c: "\<And>d. copy_inv d ?s" using i assms(3) fail_keeps_copy by blast
  have n: "sp_outcome ?s \<noteq> Completed" using o r by (auto simp: once_inv_def)
  show "copy_inv d (at_copy d Returned ?s)" using c [of d] n assms(2)
    by (auto simp: copy_inv_def at_copy_def Let_def split: copy_at.splits)
  show "copy_inv (other d) (at_copy d Returned ?s)" using c [of "other d"]
    by (auto simp: copy_inv_def at_copy_def Let_def split: copy_at.splits)
  show "once_inv (at_copy d Returned ?s)" using o by (simp add: once_inv_def at_copy_def)
  show "result_inv (at_copy d Returned ?s)" using r by (simp add: at_copy_def no_result_inv)
qed

lemma on_end_copy [simp]: "sp_copy (on_end d f s) = sp_copy s" "sp_end (on_end d f s) d = f (sp_end s d)"
  by (simp_all add: on_end_def)

lemma copy_not_written_inv:
  assumes "splice_inv s" and "cp_at (sp_copy s d) \<noteq> Returned" and "pe_torn (sp_end s (other d)) = []"
    and "prefix (pe_written (sp_end s (other d)) @ taken) (pe_read (sp_end s d))" and "\<not> pe_closed (sp_end s (other d))"
    and "length taken \<le> copy_buffer"
  shows "splice_inv (copy_not_written d taken s)"
proof (rule splice_invI [of d])
  note i = assms(1) [unfolded splice_inv_def all_side [where d = d]]
  have r: "sp_result s = None" using running_no_result [OF assms(1,2)] .
  have n: "sp_once s \<longrightarrow> sp_outcome s \<noteq> Completed" using i r by (auto simp: once_inv_def)
  have c: "cp_n (sp_copy s d) = of_nat (length (pe_written (sp_end s (other d))))"
    using i assms(3) by (auto simp: copy_inv_def Let_def)
  show "copy_inv d (copy_not_written d taken s)" using assms(4-6) c n
    by (auto simp: copy_inv_def splice_updates)
  show "copy_inv (other d) (copy_not_written d taken s)" using i n
    by (auto simp: copy_inv_def splice_updates split: copy_at.splits)
  show "once_inv (copy_not_written d taken s)" using i n
    by (cases "sp_once s") (auto simp: once_inv_def splice_updates)
  show "result_inv (copy_not_written d taken s)" using r by (auto simp: splice_updates intro!: no_result_inv)
qed

lemma write_fails_inv:
  assumes "splice_inv s" and "cp_at (sp_copy s d) = Writing bs e"
  shows "splice_inv (copy_not_written d (take k bs) s)"
proof -
  have "copy_inv d s" using assms(1) by (simp add: splice_inv_def)
  then have "pe_torn (sp_end s (other d)) = []" "pe_read (sp_end s d) = pe_written (sp_end s (other d)) @ bs"
    "\<not> pe_closed (sp_end s (other d))" "length bs \<le> copy_buffer"
    using assms(2) by (auto simp: copy_inv_def Let_def)
  then show ?thesis using assms by (intro copy_not_written_inv) (auto simp: take_is_prefix)
qed

lemma copy_ends_inv:
  assumes "splice_inv s" and "cp_at (sp_copy s d) = Over AtEOF"
  shows "splice_inv (copy_ends d closed s)"
proof (cases closed)
  case True
  note i = assms(1) [unfolded splice_inv_def all_side [where d = d]]
  show ?thesis
  proof (rule splice_invI [of d])
    show "copy_inv d (copy_ends d closed s)" using i assms(2) True by (auto simp: copy_inv_def splice_updates)
    show "copy_inv (other d) (copy_ends d closed s)" using i assms(2) True
      by (auto simp: copy_inv_def splice_updates split: copy_at.splits)
    show "once_inv (copy_ends d closed s)" using i True by (auto simp: once_inv_def splice_updates)
    show "result_inv (copy_ends d closed s)" using running_no_result [OF assms(1), of d] assms(2) True
      by (auto simp: splice_updates intro!: no_result_inv)
  qed
next
  case False
  have "copy_inv d s" using assms(1) by (simp add: splice_inv_def)
  then have "splice_inv (copy_not_written d [] s)"
    using assms by (intro copy_not_written_inv) (auto simp: copy_inv_def Let_def)
  then show ?thesis using False by (simp add: copy_ends_def)
qed

lemma copy_breaks_inv:
  assumes "splice_inv s" and "cp_at (sp_copy s d) = Over Broken"
  shows "splice_inv (copy_breaks d s)"
proof -
  have "pe_failed (sp_end s d)" using assms by (auto simp: splice_inv_def copy_inv_def Let_def dest!: spec [of _ d])
  then show ?thesis unfolding copy_breaks_def using assms by (intro fail_return_inv) auto
qed

lemma splice_return_inv:
  assumes "splice_inv s" and "\<And>d. cp_at (sp_copy s d) = Returned" and "sp_result s = None"
  shows "splice_inv (splice_return s)"
  using assms by (auto simp: splice_inv_def copy_inv_def once_inv_def result_inv_def splice_return_def Let_def)

lemma splice_step_inv:
  assumes "splice_step s ev s'" and "splice_inv s"
  shows "splice_inv s'"
  using assms
proof (cases rule: splice_step.cases)
  case step_limit
  have i: "\<forall>d. copy_inv d s" "once_inv s" "result_inv s" using assms(2) by (auto simp: splice_inv_def)
  then have "once_inv s'" "\<forall>d. copy_inv d s'" using step_limit by (auto intro: fail_keeps_once fail_keeps_copy)
  moreover have "result_inv s'" using i(3) step_limit by (auto simp: result_inv_def split: option.splits)
  ultimately show ?thesis by (simp add: splice_inv_def)
next
  case step_return
  then show ?thesis using splice_return_inv [OF assms(2)] by (metis (full_types) side.exhaust)
qed (use assms(2) copy_read_inv copy_wrote_inv write_fails_inv copy_ends_inv copy_breaks_inv in auto)

lemma splice_reach_inv: "splice_reach l s \<Longrightarrow> splice_inv s"
  by (induction rule: splice_reach.induct) (auto intro: splice_start_inv splice_step_inv)

lemma splice_step_limits: "splice_step s ev s' \<Longrightarrow> sp_limits s' = sp_limits s"
  by (induction rule: splice_step.induct) (auto simp: splice_updates)

lemma splice_reach_limits: "splice_reach l s \<Longrightarrow> sp_limits s = l"
  by (induction rule: splice_reach.induct) (simp_all add: splice_start_def splice_step_limits)

lemma splice_clean:
  assumes "splice_reach l s"
  shows "prefix (pe_written (sp_end s (other d))) (pe_read (sp_end s d)) \<and>
    (pe_closed (sp_end s (other d)) \<longrightarrow> pe_eof (sp_end s d) \<and> pe_written (sp_end s (other d)) = pe_read (sp_end s d))"
proof -
  have "copy_inv d s" using splice_reach_inv [OF assms] by (simp add: splice_inv_def)
  then show ?thesis by (cases "cp_at (sp_copy s d)") (auto simp: copy_inv_def Let_def)
qed

lemma splice_result:
  assumes "splice_reach l s" and "sp_result s = Some (sent, received, ended)"
  shows "sent + of_nat (length (pe_torn (sp_end s Dest))) = of_nat (length (pe_written (sp_end s Dest))) \<and>
    received + of_nat (length (pe_torn (sp_end s Caller))) = of_nat (length (pe_written (sp_end s Caller))) \<and>
    (\<forall>d. pe_torn (sp_end s d) \<noteq> [] \<longrightarrow> pe_failed (sp_end s d) \<and> ended \<noteq> Completed \<and> length (pe_torn (sp_end s d)) \<le> copy_buffer) \<and>
    (\<forall>d. pe_aborted (sp_end s d) \<longleftrightarrow> ended \<noteq> Completed) \<and> (ended = Completed \<longrightarrow> (\<forall>d. pe_closed (sp_end s d))) \<and>
    (\<forall>d. ended = blames d \<longrightarrow> pe_failed (sp_end s d)) \<and> (ended = Limit \<longrightarrow> 0 < lm_lifetime l \<or> 0 < lm_idle l)"
proof -
  have i: "\<And>d. copy_inv d s" "once_inv s" "result_inv s" using splice_reach_inv [OF assms(1)] by (auto simp: splice_inv_def)
  then have c: "\<And>d. cp_at (sp_copy s d) = Returned" "ended = sp_outcome s"
    "sent = cp_n (sp_copy s Caller)" "received = cp_n (sp_copy s Dest)" using assms(2) by (auto simp: result_inv_def)
  have e: "pe_closed (sp_end s (other d)) \<or> ended \<noteq> Completed"
    "cp_n (sp_copy s d) + of_nat (length (pe_torn (sp_end s (other d)))) = of_nat (length (pe_written (sp_end s (other d))))"
    "pe_torn (sp_end s (other d)) \<noteq> [] \<longrightarrow> pe_failed (sp_end s (other d)) \<and> ended \<noteq> Completed \<and>
       length (pe_torn (sp_end s (other d))) \<le> copy_buffer" for d
    using i(1) [of d] c by (auto simp: copy_inv_def Let_def)
  then have "ended = Completed \<longrightarrow> (\<forall>d. pe_closed (sp_end s d))" by (metis other_other(1))
  moreover note e(2) [of Caller] e(2) [of Dest]
  moreover have "\<forall>d. pe_torn (sp_end s d) \<noteq> [] \<longrightarrow>
      pe_failed (sp_end s d) \<and> ended \<noteq> Completed \<and> length (pe_torn (sp_end s d)) \<le> copy_buffer"
    using e(3) by (metis other_other(1))
  ultimately show ?thesis
    using i(2) c(2-4) splice_reach_limits [OF assms(1)] by (simp add: once_inv_def)
qed

text \<open>
  C12. Splice tells a clean end from a failure, whatever the interleaving. An end is half-closed only
  after a read of the other answered the clean end and every byte read from it was written, and what
  was written is always a prefix of what was read. When Splice returns, each count is the bytes
  written less what a Write that failed had taken, at most one buffer, and so exact unless the pipe
  failed there; Completed means both directions ended so, the counts are exact and neither end was
  aborted; any other outcome means both ends were aborted, and names a side that failed, or a limit
  that was set.
\<close>

theorem splice_no_false_end:
  assumes "splice_reach l s"
  shows "(\<forall>d. prefix (pe_written (sp_end s (other d))) (pe_read (sp_end s d)) \<and>
      (pe_closed (sp_end s (other d)) \<longrightarrow> pe_eof (sp_end s d) \<and> pe_written (sp_end s (other d)) = pe_read (sp_end s d))) \<and>
    (case sp_result s of None \<Rightarrow> True
     | Some (sent, received, ended) \<Rightarrow>
         sent + of_nat (length (pe_torn (sp_end s Dest))) = of_nat (length (pe_written (sp_end s Dest))) \<and>
         received + of_nat (length (pe_torn (sp_end s Caller))) = of_nat (length (pe_written (sp_end s Caller))) \<and>
         (\<forall>d. pe_torn (sp_end s d) \<noteq> [] \<longrightarrow>
            pe_failed (sp_end s d) \<and> ended \<noteq> Completed \<and> length (pe_torn (sp_end s d)) \<le> copy_buffer) \<and>
         (\<forall>d. pe_aborted (sp_end s d) \<longleftrightarrow> ended \<noteq> Completed) \<and> (ended = Completed \<longrightarrow> (\<forall>d. pe_closed (sp_end s d))) \<and>
         (\<forall>d. ended = blames d \<longrightarrow> pe_failed (sp_end s d)) \<and> (ended = Limit \<longrightarrow> 0 < lm_lifetime l \<or> 0 < lm_idle l))"
  using splice_clean [OF assms] splice_result [OF assms] by (auto split: option.split)

section \<open>Splice returns\<close>

text \<open>
  What Splice relies on: Abort unblocks a Read, which then ends or fails and answers no bytes. So
  once a failure or a limit has aborted both ends, a copy has at most this much left. It is more than
  End documents: a ConnEnd over a connection that replays a prefix may answer what is left of the
  prefix first, each such read a step more.
\<close>

fun copy_left :: "copy_at \<Rightarrow> nat" where
  "copy_left Returned = 0"
| "copy_left (Over e) = 1"
| "copy_left Reading = 2"
| "copy_left (Writing bs e) = 3"

definition splice_left :: "splice \<Rightarrow> nat" where
  "splice_left s = copy_left (cp_at (sp_copy s Caller)) + copy_left (cp_at (sp_copy s Dest)) +
     (if sp_result s = None then 1 else 0)"

definition obeys :: "splice \<Rightarrow> splice_event \<Rightarrow> bool" where
  "obeys s ev \<longleftrightarrow> (case ev of ReadOf d bs e \<Rightarrow> pe_aborted (sp_end s d) \<longrightarrow> bs = [] \<and> e \<noteq> More | _ \<Rightarrow> True)"

inductive splice_run :: "splice \<Rightarrow> splice_event list \<Rightarrow> splice \<Rightarrow> bool" where
  run_done: "splice_run s [] s"
| run_more: "splice_step s ev s1 \<Longrightarrow> obeys s ev \<Longrightarrow> splice_run s1 evs s' \<Longrightarrow> splice_run s (ev # evs) s'"

lemma splice_left_side:
  "splice_left s = copy_left (cp_at (sp_copy s d)) + copy_left (cp_at (sp_copy s (other d))) + (if sp_result s = None then 1 else 0)"
  by (cases d) (simp_all add: splice_left_def)

lemma splice_left_bound: "splice_left s \<le> 7"
  by (cases "cp_at (sp_copy s Caller)"; cases "cp_at (sp_copy s Dest)") (simp_all add: splice_left_def)

lemma splice_step_left:
  assumes "splice_step s ev s'" and "obeys s ev" and "splice_inv s" and "sp_once s"
  shows "splice_left s' < splice_left s \<and> sp_once s'"
  using assms(1)
proof (cases rule: splice_step.cases)
  case (step_read d bs e)
  have "sp_result s = None" using running_no_result [OF assms(3), of d] step_read by simp
  then have "pe_aborted (sp_end s d)" using assms(3,4) by (auto simp: splice_inv_def once_inv_def)
  then have "bs = []" "e \<noteq> More" using assms(2) step_read by (auto simp: obeys_def)
  then show ?thesis using step_read assms(4) by (cases e) (auto simp: splice_left_side [where d = d] splice_updates)
next
  case (step_write d bs e)
  then show ?thesis using assms(4) by (cases e) (auto simp: splice_left_side [where d = d] splice_updates)
next
  case (step_write_fails d bs e)
  then show ?thesis using assms(4) by (auto simp: splice_left_side [where d = d] splice_updates)
next
  case (step_end d closed)
  then show ?thesis using assms(4) by (auto simp: splice_left_side [where d = d] splice_updates)
next
  case (step_broken d)
  then show ?thesis using assms(4) by (auto simp: splice_left_side [where d = d] splice_updates)
next
  case step_return
  then show ?thesis by (simp add: splice_left_def splice_return_def)
qed (use assms(4) in auto)

lemma splice_progress:
  assumes "splice_inv s" and "sp_result s = None"
  shows "\<exists>ev s'. splice_step s ev s' \<and> obeys s ev"
proof (cases "\<forall>d. cp_at (sp_copy s d) = Returned")
  case True
  then show ?thesis using step_return [of s] assms(2) by (auto simp: obeys_def)
next
  case False
  then obtain d where d: "cp_at (sp_copy s d) \<noteq> Returned" by blast
  then consider (r) "cp_at (sp_copy s d) = Reading" | (w) bs e where "cp_at (sp_copy s d) = Writing bs e"
    | (e) "cp_at (sp_copy s d) = Over AtEOF" | (b) "cp_at (sp_copy s d) = Over Broken"
    using assms(1) by (cases "cp_at (sp_copy s d)") (auto simp: splice_inv_def copy_inv_def Let_def dest!: spec [of _ d] intro: read_end.exhaust)
  then show ?thesis
  proof cases
    case r then show ?thesis using step_read [OF r, of "[]" Broken] by (auto simp: obeys_def)
  next
    case w then show ?thesis using step_write [OF w] by (auto simp: obeys_def)
  next
    case e then show ?thesis using step_end [OF e, of True] by (fastforce simp: obeys_def)
  next
    case b then show ?thesis using step_broken [OF b] by (auto simp: obeys_def)
  qed
qed

lemma splice_run_left:
  "splice_run s evs s' \<Longrightarrow> splice_inv s \<Longrightarrow> sp_once s \<Longrightarrow> splice_inv s' \<and> length evs + splice_left s' \<le> splice_left s"
proof (induction rule: splice_run.induct)
  case (run_more s ev s1 evs s')
  then have "splice_left s1 < splice_left s" "sp_once s1" "splice_inv s1"
    using splice_step_left splice_step_inv by blast+
  then show ?case using run_more.IH by simp
qed simp

text \<open>
  C13. Splice ends: once a failure or a limit has settled it, at most seven steps remain, in any
  interleaving, and until Splice has returned one of them can always be taken. Nothing either peer
  does or fails to do can hold it.
\<close>

theorem splice_ends_once_failed:
  assumes "splice_reach l s" and "sp_once s" and "splice_run s evs s'"
  shows "length evs \<le> 7 \<and> (sp_result s' \<noteq> None \<or> (\<exists>ev s''. splice_step s' ev s'' \<and> obeys s' ev))"
proof -
  have i: "splice_inv s'" "length evs + splice_left s' \<le> splice_left s"
    using splice_run_left [OF assms(3) splice_reach_inv [OF assms(1)] assms(2)] by auto
  then show ?thesis using splice_progress [of s'] splice_left_bound [of s] by fastforce
qed

section \<open>Running it\<close>

text \<open>The step relation is the graph of a function, so a run can be evaluated.\<close>

fun splice_next :: "splice \<Rightarrow> splice_event \<Rightarrow> splice option" where
  "splice_next s (ReadOf d bs e) =
     (if cp_at (sp_copy s d) = Reading \<and> length bs \<le> copy_buffer then Some (copy_read d bs e s) else None)"
| "splice_next s (WriteTo d failed) =
     (case cp_at (sp_copy s (other d)) of
        Writing bs e \<Rightarrow>
          (case failed of
             None \<Rightarrow> Some (copy_wrote (other d) bs e s)
           | Some k \<Rightarrow> if k \<le> length bs then Some (copy_not_written (other d) (take k bs) s) else None)
      | _ \<Rightarrow> None)"
| "splice_next s (CloseOf d ok) =
     (if cp_at (sp_copy s (other d)) = Over AtEOF then Some (copy_ends (other d) ok s) else None)"
| "splice_next s (FailOf d) = (if cp_at (sp_copy s d) = Over Broken then Some (copy_breaks d s) else None)"
| "splice_next s LimitFires =
     (if (0 < lm_lifetime (sp_limits s) \<or> 0 < lm_idle (sp_limits s)) \<and> \<not> sp_once s then Some (splice_fail Limit s) else None)"
| "splice_next s Returns =
     (if cp_at (sp_copy s Caller) = Returned \<and> cp_at (sp_copy s Dest) = Returned \<and> sp_result s = None
      then Some (splice_return s) else None)"

lemma splice_next_step: "splice_next s ev = Some s' \<Longrightarrow> splice_step s ev s'"
proof (cases ev)
  case (WriteTo d failed)
  assume "splice_next s ev = Some s'"
  then show ?thesis using WriteTo step_write [of s "other d"] step_write_fails [of s "other d"]
    by (auto split: copy_at.splits option.splits if_splits)
next
  case (CloseOf d ok)
  assume "splice_next s ev = Some s'"
  then show ?thesis using CloseOf step_end [of s "other d"] by (auto split: if_splits)
qed (auto intro: splice_step.intros split: if_splits)

lemma splice_step_next: "splice_step s ev s' \<Longrightarrow> splice_next s ev = Some s'"
  by (induction rule: splice_step.induct) auto

fun splice_exec :: "splice_event list \<Rightarrow> splice \<Rightarrow> splice option" where
  "splice_exec [] s = Some s"
| "splice_exec (ev # evs) s = (case splice_next s ev of None \<Rightarrow> None | Some s1 \<Rightarrow> splice_exec evs s1)"

lemma splice_exec_reach: "splice_exec evs s = Some s' \<Longrightarrow> splice_reach l s \<Longrightarrow> splice_reach l s'"
  by (induction evs arbitrary: s) (auto split: option.splits intro: splice_more splice_next_step)

text \<open>The caller sends two bytes and ends, the destination ends.\<close>

definition splice_example :: "splice_event list" where
  "splice_example = [ReadOf Caller ''hi'' AtEOF, WriteTo Dest None, CloseOf Dest True, ReadOf Dest [] AtEOF, CloseOf Caller True, Returns]"

lemmas splice_eval = splice_start_def fresh_end_def splice_updates copy_buffer_def

theorem splice_no_false_end_witness:
  "\<exists>s. splice_exec splice_example (splice_start \<lparr>lm_lifetime = 0, lm_idle = 0\<rparr>) = Some s \<and>
     sp_result s = Some (2, 0, Completed) \<and> \<not> pe_aborted (sp_end s Dest) \<and> pe_written (sp_end s Dest) = ''hi''"
proof -
  obtain s where s: "splice_exec splice_example (splice_start \<lparr>lm_lifetime = 0, lm_idle = 0\<rparr>) = Some s"
    "sp_result s = Some (2, 0, Completed)" "pe_read (sp_end s Caller) = ''hi''"
    by (simp add: splice_example_def splice_eval)
  then have "splice_reach \<lparr>lm_lifetime = 0, lm_idle = 0\<rparr> s" using splice_exec_reach splice_init by blast
  from splice_no_false_end [OF this] s show ?thesis by (auto dest: spec [of _ Caller])
qed

text \<open>The destination takes one of the two bytes and fails: the byte it took is in no count.\<close>

lemma torn_write_is_not_counted:
  "\<exists>s. splice_exec [ReadOf Caller ''hi'' More, WriteTo Dest (Some 1), ReadOf Dest [] Broken, FailOf Dest, Returns]
      (splice_start \<lparr>lm_lifetime = 0, lm_idle = 0\<rparr>) = Some s \<and>
     sp_result s = Some (0, 0, DestAborted) \<and> pe_written (sp_end s Dest) = ''h''"
  by (simp add: splice_eval)

theorem splice_ends_once_failed_witness:
  "\<exists>s s'. splice_exec [LimitFires] (splice_start \<lparr>lm_lifetime = 1, lm_idle = 0\<rparr>) = Some s \<and>
     splice_run s [ReadOf Caller [] Broken] s' \<and> sp_result s' = None \<and> (\<exists>ev s''. splice_step s' ev s'' \<and> obeys s' ev)"
proof -
  let ?s0 = "splice_start \<lparr>lm_lifetime = 1, lm_idle = 0\<rparr>"
  obtain s where s: "splice_exec [LimitFires] ?s0 = Some s" "sp_once s" "cp_at (sp_copy s Caller) = Reading" "sp_result s = None"
    by (simp add: splice_eval)
  let ?s' = "copy_read Caller [] Broken s"
  have "splice_step s (ReadOf Caller [] Broken) ?s'" using s(3) by (intro step_read) auto
  then have run: "splice_run s [ReadOf Caller [] Broken] ?s'" by (rule run_more) (auto simp: obeys_def intro: run_done)
  have "splice_reach \<lparr>lm_lifetime = 1, lm_idle = 0\<rparr> s" using splice_exec_reach [OF s(1)] splice_init by blast
  moreover have "sp_result ?s' = None" using s(4) by (simp add: copy_read_def at_copy_def on_end_def)
  ultimately show ?thesis using splice_ends_once_failed [OF _ s(2) run] s(1) run by blast
qed

end
