(* ===== verification/StreamConn.thy ===== *)
theory StreamConn
  imports Halfconn Rawpipe
begin

text \<open>
  connector-lib/halfconn/streamconn.go: a pipe end as a connection, with a net.Pipe between and two
  copies; halfconn.go: connections that replay bytes already read, and taking over a CONNECT; and
  connector-lib/httpserve: one connection served by net/http. net.Pipe is modelled by what it
  documents: a side closed by itself answers a closed pipe, one whose peer closed the end.
\<close>

section \<open>pump\<close>

text \<open>
  From what src.Read and dst.Write answer in turn: the bytes written, the error of the source, the
  error of the destination; none while it still copies.
\<close>

fun pump_loop :: "nat \<Rightarrow> (string \<times> 'e option) list \<Rightarrow> (nat \<times> 'e option) list \<Rightarrow> (nat \<times> 'e option \<times> 'e option) option" where
  "pump_loop n [] writes = None"
| "pump_loop n ((bs, err) # reads) writes =
     (if bs = [] then (case err of None \<Rightarrow> pump_loop n reads writes | Some e \<Rightarrow> Some (n, Some e, None))
      else (case writes of
          [] \<Rightarrow> None
        | (w, Some we) # writes' \<Rightarrow> Some (n + w, None, Some we)
        | (w, None) # writes' \<Rightarrow>
            (case err of None \<Rightarrow> pump_loop (n + w) reads writes' | Some e \<Rightarrow> Some (n + w, Some e, None))))"

definition pump :: "(string \<times> 'e option) list \<Rightarrow> (nat \<times> 'e option) list \<Rightarrow> (nat \<times> 'e option \<times> 'e option) option" where
  "pump reads writes = pump_loop 0 reads writes"

text \<open>Exactly one of the two errors; and the count is the sum of the writes.\<close>

lemma pump_loop_one_error: "pump_loop n reads writes = Some (m, rerr, werr) \<Longrightarrow> (rerr = None) \<noteq> (werr = None)"
  by (induction n reads writes rule: pump_loop.induct) (auto split: if_splits list.splits option.splits prod.splits)

lemma pump_loop_count:
  "pump_loop n reads writes = Some (m, rerr, werr) \<Longrightarrow> \<exists>k \<le> length writes. m = n + sum_list (map fst (take k writes))"
proof (induction n reads writes arbitrary: m rule: pump_loop.induct)
  case (2 n bs err reads writes)
  show ?case
  proof (cases "bs = []")
    case True
    show ?thesis
    proof (cases err)
      case None
      then show ?thesis using 2 True by simp
    next
      case (Some e)
      then have "m = n" using 2(3) True by simp
      then show ?thesis by (intro exI [of _ 0]) simp
    qed
  next
    case False
    then obtain w we writes' where w: "writes = (w, we) # writes'" using 2(3) by (auto split: list.splits)
    show ?thesis
    proof (cases "we = None \<and> err = None")
      case True
      then have "pump_loop (n + w) reads writes' = Some (m, rerr, werr)" using 2(3) False w by simp
      then obtain k where "k \<le> length writes'" "m = n + w + sum_list (map fst (take k writes'))"
        using 2(2) [OF False w, of w None] True by auto
      then show ?thesis using w by (intro exI [of _ "Suc k"]) simp
    next
      case other: False
      then have "m = n + w" using 2(3) False w by (auto split: option.splits)
      then show ?thesis using w by (intro exI [of _ 1]) simp
    qed
  qed
qed simp

section \<open>StreamConn\<close>

text \<open>
  The copy from e (in) and the copy toward it (out): copying, about to close far, and, for out,
  about to half-close e. \<open>sc_eof\<close> records that e ended cleanly.
\<close>

datatype in_at = InCopying | InClosing | InDone

datatype out_at = OutCopying | OutEnding | OutClosing | OutDone

record stream_conn =
  sc_failed :: "string option"
  sc_aborted :: bool
  sc_ended :: bool
  sc_closed :: bool
  sc_far_closed :: bool
  sc_in :: in_at
  sc_out :: out_at
  sc_eof :: bool

definition new_stream_conn :: stream_conn where
  "new_stream_conn = \<lparr>sc_failed = None, sc_aborted = False, sc_ended = False, sc_closed = False,
     sc_far_closed = False, sc_in = InCopying, sc_out = OutCopying, sc_eof = False\<rparr>"

definition stream_fail :: "string \<Rightarrow> stream_conn \<Rightarrow> stream_conn" where
  "stream_fail err s = (case sc_failed s of None \<Rightarrow> s\<lparr>sc_failed := Some err, sc_aborted := True\<rparr> | Some e \<Rightarrow> s)"

text \<open>How a pump stopped: its source's end, a failure of e, or the net.Pipe closed.\<close>

datatype stopped = AtEnd | EndFailed string | PipeClosed

definition in_stops :: "stopped \<Rightarrow> stream_conn \<Rightarrow> stream_conn" where
  "in_stops how s =
     (case how of
        AtEnd \<Rightarrow> s\<lparr>sc_eof := True, sc_in := InClosing\<rparr>
      | EndFailed err \<Rightarrow> (stream_fail err s)\<lparr>sc_in := InClosing\<rparr>
      | PipeClosed \<Rightarrow> s\<lparr>sc_in := InClosing\<rparr>)"

definition out_stops :: "string option \<Rightarrow> stream_conn \<Rightarrow> stream_conn" where
  "out_stops werr s =
     (case werr of
        Some err \<Rightarrow> (stream_fail err s)\<lparr>sc_out := OutClosing\<rparr>
      | None \<Rightarrow> s\<lparr>sc_out := if sc_failed s = None then OutEnding else OutDone\<rparr>)"

definition out_ends :: "string option \<Rightarrow> stream_conn \<Rightarrow> stream_conn" where
  "out_ends result s =
     (case result of
        None \<Rightarrow> s\<lparr>sc_ended := True, sc_out := OutDone\<rparr>
      | Some err \<Rightarrow> (stream_fail err s)\<lparr>sc_out := OutClosing\<rparr>)"

text \<open>What the net.Pipe answers the conn, and what Read and Write make of it at a later moment.\<close>

datatype conn_error = ConnEOF | ConnClosedPipe | StreamFailed string

definition near_read_error :: "stream_conn \<Rightarrow> conn_error option" where
  "near_read_error s = (if sc_closed s then Some ConnClosedPipe else if sc_far_closed s then Some ConnEOF else None)"

definition near_write_error :: "stream_conn \<Rightarrow> conn_error option" where
  "near_write_error s = (if sc_closed s \<or> sc_far_closed s then Some ConnClosedPipe else None)"

definition or_failure :: "stream_conn \<Rightarrow> conn_error option \<Rightarrow> conn_error option" where
  "or_failure s err =
     (case err of None \<Rightarrow> None
      | Some e \<Rightarrow> (case sc_failed s of Some f \<Rightarrow> Some (StreamFailed f) | None \<Rightarrow> Some e))"

inductive stream_step :: "stream_conn \<Rightarrow> stream_conn \<Rightarrow> bool" where
  in_copy: "sc_in s = InCopying \<Longrightarrow> how = PipeClosed \<Longrightarrow> sc_closed s \<or> sc_far_closed s \<Longrightarrow> stream_step s (in_stops how s)"
| in_end: "sc_in s = InCopying \<Longrightarrow> how \<noteq> PipeClosed \<Longrightarrow> stream_step s (in_stops how s)"
| in_close: "sc_in s = InClosing \<Longrightarrow> stream_step s (s\<lparr>sc_far_closed := True, sc_in := InDone\<rparr>)"
| out_copy: "sc_out s = OutCopying \<Longrightarrow> sc_closed s \<or> sc_far_closed s \<Longrightarrow> stream_step s (out_stops None s)"
| out_fail: "sc_out s = OutCopying \<Longrightarrow> stream_step s (out_stops (Some err) s)"
| out_end: "sc_out s = OutEnding \<Longrightarrow> stream_step s (out_ends result s)"
| out_close: "sc_out s = OutClosing \<Longrightarrow> stream_step s (s\<lparr>sc_far_closed := True, sc_out := OutDone\<rparr>)"
| user_close: "stream_step s (s\<lparr>sc_closed := True\<rparr>)"

abbreviation stream_steps :: "stream_conn \<Rightarrow> stream_conn \<Rightarrow> bool" where
  "stream_steps s s' \<equiv> stream_step\<^sup>*\<^sup>* s s'"

lemmas stream_updates = in_stops_def out_stops_def out_ends_def stream_fail_def

text \<open>Why far can be closed, and what may half-close e.\<close>

definition stream_inv :: "stream_conn \<Rightarrow> bool" where
  "stream_inv s \<longleftrightarrow>
     (sc_aborted s \<longleftrightarrow> sc_failed s \<noteq> None) \<and>
     (sc_in s \<noteq> InCopying \<or> sc_far_closed s \<longrightarrow> sc_failed s \<noteq> None \<or> sc_eof s \<or> sc_closed s) \<and>
     (sc_out s = OutClosing \<longrightarrow> sc_failed s \<noteq> None) \<and>
     (sc_ended s \<or> sc_out s = OutEnding \<longrightarrow> sc_eof s \<or> sc_closed s)"

lemma stream_step_inv: "stream_step s s' \<Longrightarrow> stream_inv s \<Longrightarrow> stream_inv s'"
  by (induction rule: stream_step.induct)
    (auto simp: stream_inv_def stream_updates split: option.splits stopped.splits if_splits)

lemma stream_steps_inv: "stream_steps s s' \<Longrightarrow> stream_inv s \<Longrightarrow> stream_inv s'"
  by (induction rule: rtranclp_induct) (auto intro: stream_step_inv)

lemma new_stream_conn_inv: "stream_inv new_stream_conn"
  by (simp add: stream_inv_def new_stream_conn_def)

lemma stream_step_keeps: "stream_step s s' \<Longrightarrow> sc_failed s = Some f \<Longrightarrow> sc_failed s' = Some f"
  by (induction rule: stream_step.induct) (auto simp: stream_updates split: option.splits stopped.splits)

lemma stream_steps_keep: "stream_steps s s' \<Longrightarrow> sc_failed s = Some f \<Longrightarrow> sc_failed s' = Some f"
  by (induction rule: rtranclp_induct) (auto intro: stream_step_keeps)

text \<open>
  Wait returns once both copies have stopped. A failure aborted e, which unblocks the copy from it,
  and far is closed, which unblocks the other: three steps of the two at most.
\<close>

definition stream_wait :: "stream_conn \<Rightarrow> bool" where
  "stream_wait s \<longleftrightarrow> sc_in s = InDone \<and> sc_out s = OutDone"

lemma in_done_far: "stream_steps new_stream_conn s \<Longrightarrow> sc_in s = InDone \<Longrightarrow> sc_far_closed s"
proof (induction rule: rtranclp_induct)
  case base
  then show ?case by (simp add: new_stream_conn_def)
next
  case (step s s')
  from step(2) show ?case
    by (cases rule: stream_step.cases)
      (use step(3,4) in \<open>auto simp: stream_updates split: option.splits stopped.splits\<close>)
qed

lemma in_copy_stops:
  assumes "sc_failed s = Some f" and "sc_in s = InDone \<Longrightarrow> sc_far_closed s"
  shows "\<exists>n s'. n \<le> 2 \<and> (stream_step ^^ n) s s' \<and> sc_in s' = InDone \<and> sc_far_closed s' \<and> sc_failed s' = Some f \<and> sc_out s' = sc_out s"
proof (cases "sc_in s")
  case InCopying
  let ?s1 = "in_stops (EndFailed f) s"
  let ?s2 = "?s1\<lparr>sc_far_closed := True, sc_in := InDone\<rparr>"
  have "stream_step s ?s1" by (rule in_end) (simp_all add: InCopying)
  moreover have "stream_step ?s1 ?s2" by (rule in_close) (simp add: in_stops_def)
  ultimately have "(stream_step ^^ 2) s ?s2" by (auto simp: numeral_2_eq_2)
  then show ?thesis using assms(1) by (intro exI [of _ 2] exI [of _ ?s2]) (simp add: stream_updates)
next
  case InClosing
  let ?s2 = "s\<lparr>sc_far_closed := True, sc_in := InDone\<rparr>"
  have "(stream_step ^^ 1) s ?s2" using in_close [OF InClosing] by (simp add: eq_OO)
  then show ?thesis using assms(1) by (intro exI [of _ 1] exI [of _ ?s2]) simp
next
  case InDone
  then show ?thesis using assms by (intro exI [of _ 0] exI [of _ s]) simp
qed

lemma out_copy_stops:
  assumes "sc_failed s = Some f" and "sc_far_closed s"
  shows "\<exists>n s'. n \<le> 1 \<and> (stream_step ^^ n) s s' \<and> sc_out s' = OutDone \<and> sc_in s' = sc_in s"
proof (cases "sc_out s")
  case OutCopying
  then show ?thesis using out_copy [of s] assms
    by (intro exI [of _ 1] exI [of _ "out_stops None s"]) (simp add: out_stops_def eq_OO)
next
  case OutEnding
  then show ?thesis using out_end [of s None] by (intro exI [of _ 1] exI [of _ "out_ends None s"]) (simp add: out_ends_def eq_OO)
next
  case OutClosing
  then show ?thesis using out_close [of s]
    by (intro exI [of _ 1] exI [of _ "s\<lparr>sc_far_closed := True, sc_out := OutDone\<rparr>"]) (simp add: eq_OO)
next
  case OutDone
  then show ?thesis by (intro exI [of _ 0] exI [of _ s]) simp
qed

lemma stream_wait_returns:
  assumes "stream_steps new_stream_conn s" and "sc_failed s = Some f"
  shows "\<exists>n s'. n \<le> 3 \<and> (stream_step ^^ n) s s' \<and> stream_wait s'"
proof -
  obtain n s1 where s1: "n \<le> 2" "(stream_step ^^ n) s s1" "sc_in s1 = InDone" "sc_far_closed s1" "sc_failed s1 = Some f"
    using in_copy_stops [OF assms(2)] in_done_far [OF assms(1)] by blast
  obtain k s2 where s2: "k \<le> 1" "(stream_step ^^ k) s1 s2" "sc_out s2 = OutDone" "sc_in s2 = sc_in s1"
    using out_copy_stops [OF s1(5,4)] by blast
  have "(stream_step ^^ (n + k)) s s2" using s1(2) s2(2) by (auto simp: relpowp_add)
  then show ?thesis using s1(1,3) s2(1,3,4) by (intro exI [of _ "n + k"] exI [of _ s2]) (simp add: stream_wait_def)
qed

text \<open>
  C21. A failure of the pipe is never taken for its end. Once e has failed, every error the
  connection reports afterwards is that failure, for good, and e was aborted. A read that reports
  the end means e ended cleanly and had not failed; and e is half-closed only when the connection
  was closed or e itself had ended, never because something failed. And once e has failed, three
  steps of its two copies at most stop both, so that Wait returns.
\<close>

theorem stream_failure_is_no_end:
  assumes "stream_steps new_stream_conn s" and "stream_steps s later"
  shows "(sc_failed s = Some f \<longrightarrow> sc_aborted s \<and>
      (\<forall>e \<noteq> None. or_failure later e = Some (StreamFailed f))) \<and>
    (or_failure later (near_read_error s) = Some ConnEOF \<longrightarrow> sc_eof s \<and> sc_failed later = None \<and> \<not> sc_closed s) \<and>
    (sc_ended s \<longrightarrow> sc_eof s \<or> sc_closed s) \<and>
    (sc_failed s = Some f \<longrightarrow> (\<exists>n s'. n \<le> 3 \<and> (stream_step ^^ n) s s' \<and> stream_wait s'))"
proof -
  have i: "stream_inv s" using stream_steps_inv [OF assms(1) new_stream_conn_inv] .
  have k: "sc_failed s = Some f \<Longrightarrow> sc_failed later = Some f" for f using stream_steps_keep [OF assms(2)] .
  have "or_failure later (near_read_error s) = Some ConnEOF \<Longrightarrow> sc_eof s \<and> sc_failed later = None \<and> \<not> sc_closed s"
    using i k by (cases "sc_failed s")
      (auto simp: or_failure_def near_read_error_def stream_inv_def split: option.splits if_splits)
  then show ?thesis using i k stream_wait_returns [OF assms(1)] by (auto simp: or_failure_def stream_inv_def)
qed

lemma stream_failure_is_no_end_witness:
  "\<exists>s. stream_steps new_stream_conn s \<and> or_failure s (near_read_error s) = Some ConnEOF \<and> sc_eof s \<and> sc_failed s = None"
proof -
  let ?s1 = "in_stops AtEnd new_stream_conn"
  let ?s2 = "?s1\<lparr>sc_far_closed := True, sc_in := InDone\<rparr>"
  have "stream_step new_stream_conn ?s1" by (rule in_end) (simp_all add: new_stream_conn_def)
  moreover have "stream_step ?s1 ?s2" by (rule in_close) (simp add: in_stops_def)
  ultimately have r: "stream_steps new_stream_conn ?s2" by (meson converse_rtranclp_into_rtranclp rtranclp.rtrancl_refl)
  have "or_failure ?s2 (near_read_error ?s2) = Some ConnEOF" by (simp add: in_stops_def new_stream_conn_def near_read_error_def or_failure_def)
  with r stream_failure_is_no_end [OF r rtranclp.rtrancl_refl] show ?thesis by blast
qed

section \<open>Connections that replay what was read ahead\<close>

text \<open>
  Prefixed reads the bytes already taken, then the connection; Buffered is the connection itself
  when the reader holds nothing. What a peer's bytes are read as, in order:
\<close>

datatype 'c half_conn = Plain 'c | Prefixed 'c string

definition buffered :: "'c \<Rightarrow> string option \<Rightarrow> 'c half_conn" where
  "buffered c r = (case r of None \<Rightarrow> Plain c | Some held \<Rightarrow> if held = [] then Plain c else Prefixed c held)"

fun half_conn_reads :: "('c \<Rightarrow> string) \<Rightarrow> 'c half_conn \<Rightarrow> string" where
  "half_conn_reads rest (Plain c) = rest c"
| "half_conn_reads rest (Prefixed c held) = held @ rest c"

text \<open>
  hijack and Established: from the hijacked connection, whether it can half-close and what its
  reader holds; the calls made on it, and the connection or an error.
\<close>

datatype conn_call = CallClose | CallSetLinger int | CallWrite string

definition hijack :: "string + ('c \<times> bool \<times> string) \<Rightarrow> conn_call list \<times> (string + 'c half_conn)" where
  "hijack taken =
     (case taken of
        Inl e \<Rightarrow> ([], Err e)
      | Inr (c, half_closes, held) \<Rightarrow>
          if half_closes then ([], Ok (buffered c (Some held)))
          else ([CallClose], Err ''halfconn: hijacked connection cannot half-close''))"

definition connect_established :: string where
  "connect_established = ''HTTP/1.1 200 Connection Established'' @ [CHR 0x0D, CHR 0x0A, CHR 0x0D, CHR 0x0A]"

definition established ::
    "string + ('c \<times> bool \<times> string) \<Rightarrow> string option \<Rightarrow> conn_call list \<times> (string + 'c half_conn)" where
  "established taken write_error =
     (case hijack taken of
        (calls, Inl e) \<Rightarrow> (calls, Err e)
      | (calls, Inr c) \<Rightarrow>
          (case write_error of
             None \<Rightarrow> (calls @ [CallWrite connect_established], Ok c)
           | Some e \<Rightarrow> (calls @ [CallWrite connect_established, CallClose], Err e)))"

text \<open>ConnEnd's Abort, for a connection with SetLinger or without; a prefixed one passes it on.\<close>

definition conn_abort :: "bool \<Rightarrow> conn_call list" where
  "conn_abort lingers = (if lingers then [CallSetLinger 0, CallClose] else [CallClose])"

text \<open>Nothing the client sent after its CONNECT is lost, and a connection not taken over is closed.\<close>

lemma established_keeps_bytes:
  "established (Ok (c, half_closes, held)) write_error = (calls, r) \<Longrightarrow>
     (case r of Inl e \<Rightarrow> CallClose \<in> set calls
      | Inr h \<Rightarrow> calls = [CallWrite connect_established] \<and> half_conn_reads rest h = held @ rest c)"
  by (auto simp: established_def hijack_def buffered_def split: if_splits option.splits)

section \<open>httpserve\<close>

text \<open>
  ServeConn (connector-lib/httpserve): a listener that gives its one connection, then blocks until
  that connection ends. A handler starts only on a connection that has not ended, which is
  net/http's part; Serve returns an error, which is that of a closed listener once it blocks no more.
\<close>

datatype accepted = AcceptConn | AcceptBlocks | AcceptClosed

definition one_conn_accept :: "bool \<Rightarrow> bool \<Rightarrow> accepted" where
  "one_conn_accept given ended = (if \<not> given then AcceptConn else if \<not> ended then AcceptBlocks else AcceptClosed)"

datatype serve_error = ListenerClosed | ServeOther string

record serving =
  hs_given :: bool
  hs_ended :: bool
  hs_handlers :: nat
  hs_serve :: "serve_error option"
  hs_returned :: "string option option"

definition serve_start :: serving where
  "serve_start = \<lparr>hs_given = False, hs_ended = False, hs_handlers = 0, hs_serve = None, hs_returned = None\<rparr>"

definition serve_conn_returns :: "serving \<Rightarrow> serve_error \<Rightarrow> serving" where
  "serve_conn_returns s e =
     s\<lparr>hs_returned := Some (case e of ListenerClosed \<Rightarrow> None | ServeOther x \<Rightarrow> Some x)\<rparr>"

inductive serve_step :: "serving \<Rightarrow> serving \<Rightarrow> bool" where
  serve_accepts: "hs_serve s = None \<Longrightarrow> one_conn_accept (hs_given s) (hs_ended s) = AcceptConn \<Longrightarrow>
    serve_step s (s\<lparr>hs_given := True\<rparr>)"
| serve_closed: "hs_serve s = None \<Longrightarrow> one_conn_accept (hs_given s) (hs_ended s) = AcceptClosed \<Longrightarrow>
    serve_step s (s\<lparr>hs_serve := Some ListenerClosed\<rparr>)"
| serve_fails: "hs_serve s = None \<Longrightarrow> \<not> hs_given s \<Longrightarrow>
    serve_step s (s\<lparr>hs_serve := Some (ServeOther e), hs_ended := True\<rparr>)"
| handler_starts: "hs_given s \<Longrightarrow> \<not> hs_ended s \<Longrightarrow> serve_step s (s\<lparr>hs_handlers := hs_handlers s + 1\<rparr>)"
| handler_returns: "0 < hs_handlers s \<Longrightarrow> serve_step s (s\<lparr>hs_handlers := hs_handlers s - 1\<rparr>)"
| conn_ends: "hs_given s \<Longrightarrow> serve_step s (s\<lparr>hs_ended := True\<rparr>)"
| serve_returns: "hs_serve s = Some e \<Longrightarrow> hs_handlers s = 0 \<Longrightarrow> hs_returned s = None \<Longrightarrow>
    serve_step s (serve_conn_returns s e)"

definition serving_inv :: "serving \<Rightarrow> bool" where
  "serving_inv s \<longleftrightarrow> (hs_serve s \<noteq> None \<longrightarrow> hs_ended s) \<and>
     (hs_serve s = Some ListenerClosed \<longrightarrow> hs_given s) \<and>
     (case hs_returned s of None \<Rightarrow> True
      | Some r \<Rightarrow> hs_serve s \<noteq> None \<and> hs_handlers s = 0 \<and> hs_ended s \<and> (r = None \<longleftrightarrow> hs_serve s = Some ListenerClosed))"

lemma serve_step_inv: "serve_step s s' \<Longrightarrow> serving_inv s \<Longrightarrow> serving_inv s'"
  by (induction rule: serve_step.induct)
    (auto simp: serving_inv_def serve_conn_returns_def one_conn_accept_def split: option.splits serve_error.splits if_splits)

text \<open>ServeConn returns, with no error for a connection that was served, only when its handlers have.\<close>

lemma serve_conn_waits:
  assumes "serve_step\<^sup>*\<^sup>* serve_start s" and "hs_returned s = Some r"
  shows "hs_handlers s = 0 \<and> hs_ended s \<and> (r = None \<longleftrightarrow> hs_serve s = Some ListenerClosed)"
proof -
  have "serving_inv serve_start" by (simp add: serving_inv_def serve_start_def)
  with assms(1) have "serving_inv s" by (induction rule: rtranclp_induct) (auto intro: serve_step_inv)
  then show ?thesis using assms(2) by (simp add: serving_inv_def)
qed

section \<open>The ends Splice is given\<close>

text \<open>
  What Splice's ending rests on, as a contract: aborting an end, or half-closing one already aborted,
  leaves it dead, and a read of a dead end moves no bytes and does not block.
\<close>

datatype end_op = OpCloseWrite | OpAbort

locale pipe_end_contract =
  fixes close_write :: "'s \<Rightarrow> 's"
    and abort :: "'s \<Rightarrow> 's"
    and dead :: "'s \<Rightarrow> bool"
    and reads :: "'s \<Rightarrow> nat \<times> io_error option \<Rightarrow> bool"
  assumes abort_dead: "dead (abort s)"
    and close_keeps: "dead s \<Longrightarrow> dead (close_write s)"
    and dead_reads: "dead s \<Longrightarrow> reads s (n, err) \<Longrightarrow> n = 0 \<and> err \<noteq> None"
begin

fun end_ops :: "end_op list \<Rightarrow> 's \<Rightarrow> 's" where
  "end_ops [] s = s"
| "end_ops (OpCloseWrite # ops) s = end_ops ops (close_write s)"
| "end_ops (OpAbort # ops) s = end_ops ops (abort s)"

lemma dead_stays: "dead s \<Longrightarrow> dead (end_ops ops s)"
  by (induction ops s rule: end_ops.induct) (auto intro: close_keeps abort_dead)

lemma aborted_dead: "OpAbort \<in> set ops \<Longrightarrow> dead (end_ops ops s)"
  by (induction ops s rule: end_ops.induct) (auto intro: dead_stays abort_dead)

lemma aborted_unblocks: "OpAbort \<in> set ops \<Longrightarrow> reads (end_ops ops s) (n, err) \<Longrightarrow> n = 0 \<and> err \<noteq> None"
  using aborted_dead dead_reads by blast

end

text \<open>
  What a read of each stream may answer: a read past its deadline, or of a body that was closed, moves
  nothing and fails, which net/http documents.
\<close>

definition server_reads :: "server_stream \<Rightarrow> nat \<times> io_error option \<Rightarrow> bool" where
  "server_reads s r \<longleftrightarrow> (\<exists>body. (ss_read_past s \<longrightarrow> fst body = 0 \<and> snd body \<noteq> None) \<and> r = server_read s s body)"

definition client_reads :: "client_stream \<Rightarrow> nat \<times> io_error option \<Rightarrow> bool" where
  "client_reads s r \<longleftrightarrow> (cs_body_closed s \<longrightarrow> fst r = 0 \<and> snd r \<noteq> None)"

interpretation server_end: pipe_end_contract server_close_write server_abort ss_read_past server_reads
  by unfold_locales
    (auto simp: server_close_write_def server_abort_def server_reads_def server_read_def split: if_splits prod.splits)

interpretation client_end: pipe_end_contract client_close_write client_abort cs_body_closed client_reads
  by unfold_locales
    (auto simp: client_close_write_def client_abort_def client_close_def close_writer_def client_reads_def)

text \<open>Both kinds of stream unblock a splice, whatever was done to them before and after the abort.\<close>

lemma streams_unblock:
  "OpAbort \<in> set ops \<Longrightarrow> server_reads (server_end.end_ops ops s) (n, err) \<Longrightarrow> n = 0 \<and> err \<noteq> None"
  "OpAbort \<in> set ops \<Longrightarrow> client_reads (client_end.end_ops ops c) (n, err) \<Longrightarrow> n = 0 \<and> err \<noteq> None"
  by (rule server_end.aborted_unblocks, assumption+) (rule client_end.aborted_unblocks, assumption+)

end
