(* ===== verification/StreamCap.thy ===== *)
theory StreamCap
  imports Upstream
begin

text \<open>
  The life of a capped stream: internal/upstream/streamcap.go, with the timer, the reads of the
  reverse proxy and its Close interleaved as Go may run them. A response body that is closed answers
  its reads with an error, as net/http documents; what the destination sends is whatever it likes.
\<close>

section \<open>The stream\<close>

text \<open>
  The timer of AfterFunc: armed; its function started, then after it stored \<open>expired\<close>, then after
  it closed the body; or stopped before it fired. A read is in the body below, or holds that body's
  answer and has not looked at \<open>expired\<close> yet.
\<close>

datatype cap_timer = CapArmed | CapFired | CapStored | CapClosed | CapStopped

datatype cap_read = NoRead | InBody | Answered string "read_err option"

record capped =
  cp_grpc :: bool
  cp_timer :: cap_timer
  cp_expired :: bool
  cp_body_closed :: bool
  cp_sent :: string
  cp_source_end :: "read_err option"
  cp_read :: cap_read
  cp_got :: string
  cp_end :: "read_err option"
  cp_trailer :: "header option"

definition new_capped :: "bool \<Rightarrow> header option \<Rightarrow> capped" where
  "new_capped grpc trailer =
     \<lparr>cp_grpc = grpc, cp_timer = CapArmed, cp_expired = False, cp_body_closed = False, cp_sent = [], cp_source_end = None,
      cp_read = NoRead, cp_got = [], cp_end = None, cp_trailer = trailer\<rparr>"

definition closed_body :: string where "closed_body = ''http: read on closed response body''"

text \<open>Close: the timer is stopped if it has not fired, and the body closed.\<close>

definition capped_close :: "capped \<Rightarrow> capped" where
  "capped_close s =
     s\<lparr>cp_timer := (if cp_timer s = CapArmed then CapStopped else cp_timer s), cp_body_closed := True\<rparr>"

text \<open>What Read does with the body's answer.\<close>

definition capped_answer :: "string \<Rightarrow> read_err option \<Rightarrow> capped \<Rightarrow> capped" where
  "capped_answer data err s =
     (let ((n, e), trailer) = capped_read (cp_grpc s) (cp_expired s) (length data, err) (cp_trailer s) in
      s\<lparr>cp_read := NoRead, cp_got := cp_got s @ take n data, cp_end := e, cp_trailer := trailer\<rparr>)"

datatype cap_event = TimerFires | TimerStores | TimerCloses | ReadStarts | BodySends string "read_err option" | BodyIsClosed
  | ReadReturns | CallerCloses

inductive capped_step :: "capped \<Rightarrow> cap_event \<Rightarrow> capped \<Rightarrow> bool" where
  timer_fires: "cp_timer s = CapArmed \<Longrightarrow> capped_step s TimerFires (s\<lparr>cp_timer := CapFired\<rparr>)"
| timer_stores: "cp_timer s = CapFired \<Longrightarrow> capped_step s TimerStores (s\<lparr>cp_timer := CapStored, cp_expired := True\<rparr>)"
| timer_closes: "cp_timer s = CapStored \<Longrightarrow> capped_step s TimerCloses (s\<lparr>cp_timer := CapClosed, cp_body_closed := True\<rparr>)"
| read_starts: "cp_read s = NoRead \<Longrightarrow> cp_end s = None \<Longrightarrow> capped_step s ReadStarts (s\<lparr>cp_read := InBody\<rparr>)"
| body_sends: "cp_read s = InBody \<Longrightarrow> \<not> cp_body_closed s \<Longrightarrow>
    capped_step s (BodySends data err)
      (s\<lparr>cp_read := Answered data err, cp_sent := cp_sent s @ data, cp_source_end := err\<rparr>)"
| body_is_closed: "cp_read s = InBody \<Longrightarrow> cp_body_closed s \<Longrightarrow>
    capped_step s BodyIsClosed (s\<lparr>cp_read := Answered [] (Some (ReadErr closed_body))\<rparr>)"
| read_returns: "cp_read s = Answered data err \<Longrightarrow> capped_step s ReadReturns (capped_answer data err s)"
| caller_closes: "capped_step s CallerCloses (capped_close s)"

inductive_cases capped_step_cases: "capped_step s e s'"

inductive capped_reach :: "capped \<Rightarrow> cap_event list \<Rightarrow> capped \<Rightarrow> bool" for s0 where
  capped_init: "capped_reach s0 [] s0"
| capped_more: "capped_reach s0 es s \<Longrightarrow> capped_step s e s' \<Longrightarrow> capped_reach s0 (es @ [e]) s'"

section \<open>What holds throughout\<close>

definition unavailable :: "header option \<Rightarrow> bool" where
  "unavailable trailer \<longleftrightarrow> (\<exists>t. trailer = Some t \<and> hget t ''Grpc-Status'' = ''14'')"

definition capped_inv :: "cap_event list \<Rightarrow> capped \<Rightarrow> bool" where
  "capped_inv es s \<longleftrightarrow>
     (cp_expired s \<longleftrightarrow> cp_timer s \<in> {CapStored, CapClosed}) \<and>
     (cp_timer s = CapClosed \<longrightarrow> cp_body_closed s) \<and>
     (cp_body_closed s \<longrightarrow> cp_timer s = CapClosed \<or> CallerCloses \<in> set es) \<and>
     (cp_timer s = CapStopped \<longrightarrow> CallerCloses \<in> set es) \<and>
     (case cp_read s of
        Answered data err \<Rightarrow> cp_end s = None \<and> cp_sent s = cp_got s @ data \<and>
          (err = cp_source_end s \<or> err = Some (ReadErr closed_body) \<and> cp_body_closed s \<and> cp_source_end s = None)
      | InBody \<Rightarrow> cp_end s = None \<and> cp_sent s = cp_got s \<and> cp_source_end s = None
      | NoRead \<Rightarrow> cp_sent s = cp_got s \<and> (cp_end s = None \<longrightarrow> cp_source_end s = None)) \<and>
     (\<forall>e. cp_end s = Some (ReadErr e) \<longrightarrow> cp_source_end s = Some (ReadErr e) \<or> CallerCloses \<in> set es) \<and>
     (cp_end s = Some ReadEOF \<longrightarrow> cp_source_end s = Some ReadEOF \<or>
        cp_expired s \<and> (cp_grpc s \<longrightarrow> unavailable (cp_trailer s)))"

lemma unavailable_set: "unavailable (Some (hset ''Grpc-Message'' m (hset ''Grpc-Status'' ''14'' h)))"
proof -
  have "canonical_key ''Grpc-Status'' \<noteq> canonical_key ''Grpc-Message''" by code_simp
  then show ?thesis by (simp add: unavailable_def hget_def hset_def)
qed

lemma capped_read_cases:
  "capped_read grpc expired (n, err) trailer =
     (if expired \<and> (\<exists>e. err = Some (ReadErr e)) then
        ((n, Some ReadEOF),
         if grpc then Some (hset ''Grpc-Message'' ''stream reached TRAVERSAL_UNCOVERED_STREAM_MAX_LIFETIME; reconnect''
           (hset ''Grpc-Status'' ''14'' (case trailer of None \<Rightarrow> Map.empty | Some t \<Rightarrow> t))) else trailer)
      else ((n, err), trailer))"
proof (cases err)
  case None
  then show ?thesis by (simp add: capped_read_def)
next
  case (Some e)
  then show ?thesis by (cases e) (auto simp: capped_read_def)
qed

lemma capped_answer_cases:
  "capped_answer data err s =
     (if cp_expired s \<and> (\<exists>e. err = Some (ReadErr e)) then
        s\<lparr>cp_read := NoRead, cp_got := cp_got s @ data, cp_end := Some ReadEOF,
          cp_trailer := (if cp_grpc s then Some (hset ''Grpc-Message'' ''stream reached TRAVERSAL_UNCOVERED_STREAM_MAX_LIFETIME; reconnect''
            (hset ''Grpc-Status'' ''14'' (case cp_trailer s of None \<Rightarrow> Map.empty | Some t \<Rightarrow> t))) else cp_trailer s)\<rparr>
      else s\<lparr>cp_read := NoRead, cp_got := cp_got s @ data, cp_end := err, cp_trailer := cp_trailer s\<rparr>)"
proof (cases "cp_expired s \<and> (\<exists>e. err = Some (ReadErr e))")
  case True
  show ?thesis unfolding capped_answer_def capped_read_cases if_P [OF True] Let_def by simp
next
  case False
  show ?thesis unfolding capped_answer_def capped_read_cases if_not_P [OF False] Let_def by simp
qed

lemma capped_inv_answer:
  assumes "capped_inv es s" and "cp_read s = Answered data err"
  shows "capped_inv (es @ [ReadReturns]) (capped_answer data err s)"
proof (cases "cp_expired s \<and> (\<exists>e. err = Some (ReadErr e))")
  case True
  then show ?thesis using assms unfolding capped_answer_cases by (auto simp: capped_inv_def unavailable_set)
next
  case False
  then show ?thesis using assms unfolding capped_answer_cases by (auto simp: capped_inv_def)
qed

lemma capped_inv_step:
  assumes "capped_inv es s" and "capped_step s e s'"
  shows "capped_inv (es @ [e]) s'"
  using assms(2)
proof (cases rule: capped_step.cases)
  case (read_returns data err)
  then show ?thesis using capped_inv_answer [OF assms(1)] by simp
qed (use assms(1) in \<open>auto simp: capped_inv_def capped_close_def split: cap_read.splits\<close>)

lemma capped_reach_inv: "capped_reach (new_capped grpc trailer) es s \<Longrightarrow> capped_inv es s"
proof (induction rule: capped_reach.induct)
  case capped_init
  then show ?case by (simp add: capped_inv_def new_capped_def)
next
  case (capped_more es s e s')
  then show ?case using capped_inv_step by blast
qed

lemma capped_closed_step:
  "capped_step s e s' \<Longrightarrow> cp_body_closed s \<Longrightarrow> cp_body_closed s' \<and> cp_sent s' = cp_sent s"
  by (cases rule: capped_step.cases) (auto simp: capped_answer_cases capped_close_def)

lemma capped_closed_reach:
  "capped_reach s es s' \<Longrightarrow> cp_body_closed s \<Longrightarrow> cp_body_closed s' \<and> cp_sent s' = cp_sent s"
  by (induction rule: capped_reach.induct) (auto dest: capped_closed_step)

text \<open>Once the timer has closed the body, the reads of the caller alone end the stream.\<close>

lemma end_from_read:
  assumes "cp_read s = InBody" and "cp_body_closed s" and "cp_expired s"
  shows "\<exists>s'. capped_reach s [BodyIsClosed, ReadReturns] s' \<and> cp_end s' = Some ReadEOF"
proof -
  let ?s1 = "s\<lparr>cp_read := Answered [] (Some (ReadErr closed_body))\<rparr>"
  have "capped_step s BodyIsClosed ?s1" by (rule body_is_closed [OF assms(1,2)])
  moreover have "capped_step ?s1 ReadReturns (capped_answer [] (Some (ReadErr closed_body)) ?s1)"
    by (rule read_returns) simp
  ultimately have "capped_reach s [BodyIsClosed, ReadReturns] (capped_answer [] (Some (ReadErr closed_body)) ?s1)"
    using capped_more [OF capped_more [OF capped_init]] by fastforce
  moreover have "cp_end (capped_answer [] (Some (ReadErr closed_body)) ?s1) = Some ReadEOF"
    using assms(3) by (simp add: capped_answer_cases)
  ultimately show ?thesis by blast
qed

lemma capped_reach_cons: "capped_step s e s1 \<Longrightarrow> capped_reach s1 es s2 \<Longrightarrow> capped_reach s (e # es) s2"
proof (rotate_tac 1, induction rule: capped_reach.induct)
  case capped_init
  then show ?case using capped_more [OF capped_reach.capped_init] by fastforce
next
  case (capped_more es' t e' t')
  then show ?case using capped_reach.capped_more [of s "e # es'" t e' t'] by simp
qed

lemma end_from_none:
  assumes "cp_read s = NoRead" and "cp_end s = None" and "cp_body_closed s" and "cp_expired s"
  shows "\<exists>s'. capped_reach s [ReadStarts, BodyIsClosed, ReadReturns] s' \<and> cp_end s' = Some ReadEOF"
proof -
  have "capped_step s ReadStarts (s\<lparr>cp_read := InBody\<rparr>)" by (rule read_starts [OF assms(1,2)])
  moreover obtain s' where "capped_reach (s\<lparr>cp_read := InBody\<rparr>) [BodyIsClosed, ReadReturns] s'" "cp_end s' = Some ReadEOF"
    using end_from_read [of "s\<lparr>cp_read := InBody\<rparr>"] assms(3,4) by auto
  ultimately show ?thesis using capped_reach_cons by blast
qed

lemma capped_ends:
  assumes "cp_end s = None" and "cp_body_closed s" and "cp_expired s"
  shows "\<exists>es s'. capped_reach s es s' \<and> length es \<le> 4 \<and> set es \<subseteq> {ReadStarts, BodyIsClosed, ReadReturns} \<and>
    cp_end s' = Some ReadEOF"
proof (cases "cp_read s")
  case NoRead
  then obtain s' where "capped_reach s [ReadStarts, BodyIsClosed, ReadReturns] s'" "cp_end s' = Some ReadEOF"
    using end_from_none assms by blast
  then show ?thesis by (intro exI [of _ "[ReadStarts, BodyIsClosed, ReadReturns]"] exI [of _ s']) simp
next
  case InBody
  then obtain s' where "capped_reach s [BodyIsClosed, ReadReturns] s'" "cp_end s' = Some ReadEOF"
    using end_from_read assms by blast
  then show ?thesis by (intro exI [of _ "[BodyIsClosed, ReadReturns]"] exI [of _ s']) simp
next
  case (Answered data err)
  let ?s1 = "capped_answer data err s"
  have r: "capped_step s ReadReturns ?s1" by (rule read_returns [OF Answered])
  show ?thesis
  proof (cases err)
    case None
    then have "cp_read ?s1 = NoRead" "cp_end ?s1 = None" "cp_body_closed ?s1" "cp_expired ?s1"
      using assms(2,3) by (simp_all add: capped_answer_cases)
    then obtain s' where "capped_reach ?s1 [ReadStarts, BodyIsClosed, ReadReturns] s'" "cp_end s' = Some ReadEOF"
      using end_from_none by blast
    then show ?thesis using capped_reach_cons [OF r]
      by (intro exI [of _ "[ReadReturns, ReadStarts, BodyIsClosed, ReadReturns]"] exI [of _ s']) simp
  next
    case (Some e)
    then have "cp_end ?s1 = Some ReadEOF" using assms(3) by (cases e) (simp_all add: capped_answer_cases)
    then show ?thesis using capped_reach_cons [OF r capped_init]
      by (intro exI [of _ "[ReadReturns]"] exI [of _ ?s1]) simp
  qed
qed

section \<open>Properties\<close>

text \<open>
  C25. What the cap of an uncovered stream does to it, however its timer, the reads and a Close
  interleave. What the caller got is a prefix of what the destination sent. It sees a failure only
  when the destination's stream failed with it, or it had closed the body itself: never because of
  the cap. It sees an end only at the destination's end, or once the cap expired, and then a gRPC
  response carries the UNAVAILABLE status its client reconnects on. When the timer has closed the
  body, nothing sent later is passed on, and a stream still open ends within four steps of its reader.
\<close>

theorem stream_cap_ends_cleanly:
  assumes "capped_reach (new_capped grpc trailer) es s"
  shows "(\<exists>held. cp_sent s = cp_got s @ held) \<and>
    (\<forall>e. cp_end s = Some (ReadErr e) \<longrightarrow> cp_source_end s = Some (ReadErr e) \<or> CallerCloses \<in> set es) \<and>
    (cp_end s = Some ReadEOF \<longrightarrow> cp_source_end s = Some ReadEOF \<or>
       cp_expired s \<and> (cp_grpc s \<longrightarrow> unavailable (cp_trailer s))) \<and>
    (cp_timer s = CapClosed \<longrightarrow>
       (\<forall>es' s'. capped_reach s es' s' \<longrightarrow> cp_sent s' = cp_sent s) \<and>
       (cp_end s = None \<longrightarrow>
          (\<exists>es' s'. capped_reach s es' s' \<and> length es' \<le> 4 \<and> set es' \<subseteq> {ReadStarts, BodyIsClosed, ReadReturns} \<and>
             cp_end s' = Some ReadEOF)))"
proof -
  note inv = capped_reach_inv [OF assms, unfolded capped_inv_def]
  have "\<exists>held. cp_sent s = cp_got s @ held" using inv by (cases "cp_read s") auto
  moreover have "cp_body_closed s \<and> cp_expired s" if "cp_timer s = CapClosed" using that inv by blast
  ultimately show ?thesis using inv capped_ends [of s] capped_closed_reach [of s] by blast
qed

text \<open>A gRPC stream whose cap expires between two reads.\<close>

lemma example_capped:
  "\<exists>es s. capped_reach (new_capped True None) es s \<and> cp_got s = ''ab'' \<and> cp_end s = None \<and> cp_timer s = CapClosed \<and>
     CallerCloses \<notin> set es"
proof -
  let ?s0 = "new_capped True None"
  let ?s1 = "?s0\<lparr>cp_read := InBody\<rparr>"
  let ?s2 = "?s1\<lparr>cp_read := Answered ''ab'' None, cp_sent := cp_sent ?s1 @ ''ab'', cp_source_end := None\<rparr>"
  let ?s3 = "capped_answer ''ab'' None ?s2"
  let ?s4 = "?s3\<lparr>cp_timer := CapFired\<rparr>"
  let ?s5 = "?s4\<lparr>cp_timer := CapStored, cp_expired := True\<rparr>"
  let ?s6 = "?s5\<lparr>cp_timer := CapClosed, cp_body_closed := True\<rparr>"
  have "capped_step ?s0 ReadStarts ?s1" by (rule read_starts) (simp_all add: new_capped_def)
  moreover have "capped_step ?s1 (BodySends ''ab'' None) ?s2" by (rule body_sends) (simp_all add: new_capped_def)
  moreover have "capped_step ?s2 ReadReturns ?s3" by (rule read_returns) simp
  moreover have "capped_step ?s3 TimerFires ?s4" by (rule timer_fires) (simp add: capped_answer_cases new_capped_def)
  moreover have "capped_step ?s4 TimerStores ?s5" by (rule timer_stores) simp
  moreover have "capped_step ?s5 TimerCloses ?s6" by (rule timer_closes) simp
  ultimately have "capped_reach ?s0 [ReadStarts, BodySends ''ab'' None, ReadReturns, TimerFires, TimerStores, TimerCloses] ?s6"
    by (blast intro: capped_reach_cons capped_init)
  moreover have "cp_got ?s6 = ''ab''" "cp_end ?s6 = None" "cp_timer ?s6 = CapClosed"
    by (simp_all add: capped_answer_cases new_capped_def)
  ultimately show ?thesis by (intro exI [of _ "[ReadStarts, BodySends ''ab'' None, ReadReturns, TimerFires, TimerStores, TimerCloses]"]
      exI [of _ ?s6]) simp
qed

theorem stream_cap_ends_cleanly_witness:
  "\<exists>es s es' s'. capped_reach (new_capped True None) es s \<and> cp_got s = ''ab'' \<and> capped_reach s es' s' \<and>
     cp_end s' = Some ReadEOF \<and> cp_sent s' = cp_sent s"
proof -
  obtain es s where s: "capped_reach (new_capped True None) es s" "cp_got s = ''ab''" "cp_end s = None" "cp_timer s = CapClosed"
    using example_capped by blast
  from stream_cap_ends_cleanly [OF s(1)] s show ?thesis by blast
qed

end
