(* ===== verification/RedactMetrics.thy ===== *)
theory RedactMetrics
  imports RuleLoader
begin

text \<open>
  What redaction records of itself: internal/redact/metrics.go and applyOneRule of
  internal/redact/redact.go, and the series of the remote loader (internal/redact/remote.go, with
  NewObservableGauge of connector-lib/telemetry/gauge.go). A record is what an instrument is given;
  the OpenTelemetry SDK adds them up, and how long a rule took is left out.
\<close>

section \<open>Hits\<close>

text \<open>Both instruments carry the rule's name; without them (they could not be made) nothing is recorded.\<close>

datatype redact_record = LatencyPerByte string | Hit string

definition init_redactor_metrics :: "string option \<Rightarrow> string option \<Rightarrow> string + unit" where
  "init_redactor_metrics histogram_error counter_error =
     (case histogram_error of
        Some e \<Rightarrow> Err (''failed to create redaction latency per byte histogram: '' @ e)
      | None \<Rightarrow> (case counter_error of
            Some e \<Rightarrow> Err (''failed to create redaction hits counter: '' @ e)
          | None \<Rightarrow> Ok ()))"

text \<open>NewRedactor continues without metrics; the flag is whether it has them.\<close>

definition redactor_metered :: "string + unit \<Rightarrow> bool" where
  "redactor_metered made = (case made of Inl e \<Rightarrow> False | Inr u \<Rightarrow> True)"

definition one_rule_records :: "'r engine \<Rightarrow> bool \<Rightarrow> 'r compiled_rule \<Rightarrow> string \<Rightarrow> redact_record list" where
  "one_rule_records eng metered cr src =
     (let (out, changed) = apply_one_rule eng cr src in
      if \<not> metered then []
      else (if 0 < length src then [LatencyPerByte (cr_name cr)] else []) @ (if changed then [Hit (cr_name cr)] else []))"

text \<open>Apply: each byte-level rule of the host once, on what the rules before it left.\<close>

fun apply_loop_records :: "'r engine \<Rightarrow> bool \<Rightarrow> string \<Rightarrow> 'r compiled_rule list \<Rightarrow> string \<Rightarrow> redact_record list" where
  "apply_loop_records eng metered host [] result = []"
| "apply_loop_records eng metered host (cr # crs) result =
     (if cr_structured cr \<or> \<not> applies_to_host eng cr host then apply_loop_records eng metered host crs result
      else one_rule_records eng metered cr result @ apply_loop_records eng metered host crs (fst (apply_one_rule eng cr result)))"

definition apply_records ::
    "(string \<Rightarrow> string option) \<Rightarrow> (string \<Rightarrow> string) \<Rightarrow> 'r engine \<Rightarrow> bool \<Rightarrow> 'r compiled_rule list \<Rightarrow> string \<Rightarrow>
     string \<Rightarrow> redact_record list" where
  "apply_records idna ul eng metered rules host src =
     (if rules = [] then [] else apply_loop_records eng metered (canonical_host idna ul host) rules src)"

text \<open>ApplyJSON: the walk of a structured rule, wherever redactValueForRule calls applyOneRule.\<close>

fun value_records :: "'r engine \<Rightarrow> bool \<Rightarrow> 'r compiled_rule \<Rightarrow> string \<Rightarrow> json \<Rightarrow> redact_record list"
  and item_records :: "'r engine \<Rightarrow> bool \<Rightarrow> 'r compiled_rule \<Rightarrow> string \<Rightarrow> json list \<Rightarrow> redact_record list"
  and member_records :: "'r engine \<Rightarrow> bool \<Rightarrow> 'r compiled_rule \<Rightarrow> string \<Rightarrow> (string \<times> json) list \<Rightarrow> redact_record list" where
  "value_records eng m cr path (JObj ms) = (if skipped cr path then [] else member_records eng m cr path ms)"
| "value_records eng m cr path (JArr js) = (if skipped cr path then [] else item_records eng m cr path js)"
| "value_records eng m cr path (JStr s) =
     (if skipped cr path \<or> \<not> in_scope cr path then [] else one_rule_records eng m cr s)"
| "value_records eng m cr path (JNum s) =
     (if skipped cr path \<or> \<not> in_scope cr path then [] else one_rule_records eng m cr s)"
| "value_records eng m cr path JNull = []"
| "value_records eng m cr path (JBool b) = []"
| "item_records eng m cr path [] = []"
| "item_records eng m cr path (j # js) = value_records eng m cr path j @ item_records eng m cr path js"
| "member_records eng m cr path [] = []"
| "member_records eng m cr path ((k, child) # ms) =
     (if skipped cr (child_path path k) then []
      else (if in_scope cr path then one_rule_records eng m cr k else []) @
        value_records eng m cr (child_path path k) child) @
     member_records eng m cr path ms"

fun rules_records ::
    "'r engine \<Rightarrow> bool \<Rightarrow> ((string \<times> json) list \<Rightarrow> (string \<times> json) list) \<Rightarrow> string \<Rightarrow> 'r compiled_rule list \<Rightarrow>
     json \<Rightarrow> redact_record list" where
  "rules_records eng m ord path [] v = []"
| "rules_records eng m ord path (cr # crs) v =
     (if \<not> cr_structured cr then rules_records eng m ord path crs v
      else value_records eng m cr path v @ rules_records eng m ord path crs (fst (redact_value_for_rule eng ord cr path v)))"

definition apply_json_records ::
    "(string \<Rightarrow> string option) \<Rightarrow> (string \<Rightarrow> string) \<Rightarrow> 'r engine \<Rightarrow> bool \<Rightarrow>
     ((string \<times> json) list \<Rightarrow> (string \<times> json) list) \<Rightarrow> (string \<Rightarrow> decoded) \<Rightarrow> (string \<Rightarrow> next_token) \<Rightarrow>
     'r compiled_rule list \<Rightarrow> string \<Rightarrow> string \<Rightarrow> redact_record list" where
  "apply_json_records idna ul eng metered ord decode next_tok rules host src =
     (let active = filter (\<lambda>cr. cr_structured cr \<and> applies_to_host eng cr (canonical_host idna ul host)) rules in
      if active = [] then []
      else (case (decode src, next_tok src) of
          (Decoded j, AtEOF) \<Rightarrow> rules_records eng metered ord [] active (go_any j)
        | _ \<Rightarrow> []))"

section \<open>What the hits count\<close>

definition hits :: "redact_record list \<Rightarrow> redact_record list" where
  "hits rs = filter (\<lambda>r. \<exists>n. r = Hit n) rs"

lemma hits_append [simp]: "hits (xs @ ys) = hits xs @ hits ys" "hits [] = []"
  by (simp_all add: hits_def)

lemma one_rule_hits:
  "hits (one_rule_records eng True cr s) = (if replaced eng cr s \<noteq> s then [Hit (cr_name cr)] else [])"
  by (simp add: one_rule_records_def apply_one_rule_simp hits_def)

lemma one_rule_unmetered: "one_rule_records eng False cr s = []"
  by (simp add: one_rule_records_def split_def Let_def)

lemma unmetered_walk:
  "value_records eng False cr path j = []" "item_records eng False cr path js = []" "member_records eng False cr path ms = []"
  by (induction j and js and ms arbitrary: path and path and path
      rule: leaves_leaves_all_leaves_members.induct) (auto simp: one_rule_unmetered)

lemma unmetered_rules: "rules_records eng False ord path crs v = []"
  by (induction eng False ord path crs v rule: rules_records.induct) (auto simp: unmetered_walk)

lemma unmetered_loop: "apply_loop_records eng False host crs src = []"
  by (induction eng False host crs src rule: apply_loop_records.induct) (auto simp: one_rule_unmetered)

lemma apply_loop_hits:
  "snd (apply_loop eng host crs src changed) = (changed \<or> hits (apply_loop_records eng True host crs src) \<noteq> [])"
  by (induction crs arbitrary: src changed) (auto simp: one_rule_hits apply_one_rule_simp Let_def)

lemma walk_hits:
  "snd (redact_value_for_rule eng ord cr path j) = (hits (value_records eng True cr path j) \<noteq> [])"
  "snd (redact_items eng ord cr path js) = (hits (item_records eng True cr path js) \<noteq> [])"
  "snd (redact_members eng ord cr path ms) = (hits (member_records eng True cr path ms) \<noteq> [])"
  by (induction j and js and ms arbitrary: path and path and path
      rule: leaves_leaves_all_leaves_members.induct) (auto simp: redact_rec one_rule_hits)

lemma rules_hits:
  "snd (redact_value eng ord path crs v matched) = (matched \<or> hits (rules_records eng True ord path crs v) \<noteq> [])"
proof (induction crs arbitrary: v matched)
  case (Cons cr crs)
  then show ?case by (cases "redact_value_for_rule eng ord cr path v") (use walk_hits(1) [of eng ord cr path v] in auto)
qed simp

text \<open>An occurrence a rule changes: it is in its scope, no path to it is skipped, and its text is replaced.\<close>

definition changes :: "'r engine \<Rightarrow> 'r compiled_rule \<Rightarrow> occ \<Rightarrow> bool" where
  "changes eng cr x \<longleftrightarrow> redact_occ eng cr x \<noteq> snd (snd x)"

lemma changes_simps:
  "changes eng cr (anc, path, LKey s) = (\<not> list_ex (skipped cr) anc \<and> in_scope cr path \<and> replaced eng cr s \<noteq> s)"
  "changes eng cr (anc, path, LText s) = (\<not> list_ex (skipped cr) anc \<and> in_scope cr path \<and> replaced eng cr s \<noteq> s)"
  "changes eng cr (anc, path, LNum s) = (\<not> list_ex (skipped cr) anc \<and> in_scope cr path \<and> replaced eng cr s \<noteq> s)"
  "\<not> changes eng cr (anc, path, LConst j)"
  by (auto simp: changes_def)

lemma skipped_unchanged:
  "list_ex (skipped cr) anc \<Longrightarrow> filter (changes eng cr) (occs anc path j) = []"
  "list_ex (skipped cr) anc \<Longrightarrow> filter (changes eng cr) (occs_all anc path js) = []"
  "list_ex (skipped cr) anc \<Longrightarrow> filter (changes eng cr) (occs_members anc path ms) = []"
  by (induction j and js and ms arbitrary: anc path and anc path and anc path
      rule: leaves_leaves_all_leaves_members.induct) (auto simp: changes_simps Let_def)

lemma walk_hit_count:
  "guarded cr anc path \<Longrightarrow> length (hits (value_records eng True cr path j)) = length (filter (changes eng cr) (occs anc path j))"
  "guarded cr anc path \<Longrightarrow> \<not> skipped cr path \<Longrightarrow>
     length (hits (item_records eng True cr path js)) = length (filter (changes eng cr) (occs_all anc path js))"
  "guarded cr anc path \<Longrightarrow> \<not> skipped cr path \<Longrightarrow>
     length (hits (member_records eng True cr path ms)) = length (filter (changes eng cr) (occs_members anc path ms))"
proof (induction j and js and ms arbitrary: anc path and anc path and anc path
    rule: leaves_leaves_all_leaves_members.induct)
  case (10 k j ms)
  have "list_ex (skipped cr) (child_path path k # anc) = skipped cr (child_path path k)"
    using guarded_skips [OF 10(3)] 10(4) by simp
  then show ?case
    using 10 guarded_child [OF 10(3,4)] skipped_unchanged(1) [of cr "child_path path k # anc"]
    by (auto simp: Let_def changes_simps one_rule_hits)
qed (auto simp: changes_simps one_rule_hits guarded_skips skipped_unchanged)

lemma value_hit_names: "r \<in> set (hits (value_records eng True cr path j)) \<Longrightarrow> r = Hit (cr_name cr)"
    and "r \<in> set (hits (item_records eng True cr path js)) \<Longrightarrow> r = Hit (cr_name cr)"
    and "r \<in> set (hits (member_records eng True cr path ms)) \<Longrightarrow> r = Hit (cr_name cr)"
  by (induction j and js and ms arbitrary: path and path and path
      rule: leaves_leaves_all_leaves_members.induct) (auto simp: one_rule_hits split: if_splits)

lemma apply_loop_once:
  "distinct (map cr_name crs) \<Longrightarrow> distinct (hits (apply_loop_records eng True host crs src)) \<and>
     set (hits (apply_loop_records eng True host crs src)) \<subseteq> Hit ` cr_name ` set crs"
proof (induction crs arbitrary: src)
  case (Cons cr crs)
  let ?rest = "\<lambda>s. hits (apply_loop_records eng True host crs s)"
  have "Hit (cr_name cr) \<notin> set (?rest s)" for s using Cons(1) [of s] Cons(2) by auto
  then show ?case using Cons(1) [of src] Cons(1) [of "replaced eng cr src"] Cons(2)
    by (auto simp: one_rule_hits apply_one_rule_simp)
qed simp

lemma apply_json_hits:
  assumes "apply_json idna ul eng ord decode next_tok encode rules host src = Ok (out, matched)"
  shows "matched \<longleftrightarrow> hits (apply_json_records idna ul eng True ord decode next_tok rules host src) \<noteq> []"
proof (cases "filter (\<lambda>cr. cr_structured cr \<and> applies_to_host eng cr (canonical_host idna ul host)) rules = []")
  case True
  then show ?thesis using assms by (simp add: apply_json_def apply_json_records_def)
next
  case False
  let ?active = "filter (\<lambda>cr. cr_structured cr \<and> applies_to_host eng cr (canonical_host idna ul host)) rules"
  obtain j where j: "decode src = Decoded j" "next_tok src = AtEOF"
    using assms False by (auto simp: apply_json_def Let_def split: decoded.splits next_token.splits)
  obtain out' flag where v: "redact_value eng ord [] ?active (go_any j) False = (out', flag)" by force
  have "flag = matched" using assms False j v by (auto simp: apply_json_def Let_def split: sum.splits)
  moreover have "apply_json_records idna ul eng True ord decode next_tok rules host src = rules_records eng True ord [] ?active (go_any j)"
    using False j by (simp add: apply_json_records_def)
  ultimately show ?thesis using rules_hits [of eng ord "[]" ?active "go_any j" False] v by simp
qed

section \<open>The series of the remote loader\<close>

text \<open>
  The outcome refresh adds to its counter when it returns, with the time of the refresh; NewObservableGauge
  reads its value when a collection asks, and the staleness is observed once a refresh has succeeded.
\<close>

fun remote_log ::
    "(string \<Rightarrow> config_doc option) \<Rightarrow> (string \<Rightarrow> string) \<Rightarrow> 'r engine \<Rightarrow> config_verifier option \<Rightarrow>
     (instant \<times> fetch) list \<Rightarrow> remote_loader \<times> 'r compiled_rule list \<Rightarrow> (instant \<times> string) list" where
  "remote_log toml sha256 eng verifier [] st = []"
| "remote_log toml sha256 eng verifier ((now, answer) # ticks) st =
     (let (st', outcome, err) = remote_refresh toml sha256 eng verifier now answer st in
      (now, outcome) # remote_log toml sha256 eng verifier ticks st')"

definition refresh_total :: "(instant \<times> string) list \<Rightarrow> string \<Rightarrow> nat" where
  "refresh_total log outcome = count_list (map snd log) outcome"

definition observable_gauge :: "('s \<Rightarrow> int) \<Rightarrow> 's \<Rightarrow> int" where
  "observable_gauge value s = value s"

definition rule_count_gauge :: "remote_loader \<Rightarrow> int" where
  "rule_count_gauge = observable_gauge (\<lambda>l. int (rl_rule_count l))"

definition staleness_gauge :: "instant \<Rightarrow> remote_loader \<Rightarrow> duration option" where
  "staleness_gauge now l = map_option (\<lambda>last. now - last) (rl_last_success l)"

definition refresh_outcomes :: "string list" where
  "refresh_outcomes = [''applied'', ''unchanged'', ''error'', ''unsigned'', ''rolled_back'']"

definition succeeded :: "string \<Rightarrow> bool" where
  "succeeded outcome \<longleftrightarrow> outcome = ''applied'' \<or> outcome = ''unchanged''"

lemma refresh_outcome:
  assumes "remote_refresh toml sha256 eng verifier now answer (l, rules) = ((l', rules'), outcome, err)"
  shows "outcome \<in> {''error'', ''unsigned'', ''rolled_back''} \<and> l' = l \<and> rules' = rules \<or>
    outcome = ''unchanged'' \<and> rl_loaded l \<and> rl_loaded l' \<and> rules' = rules \<and> rl_rule_count l' = rl_rule_count l \<and>
      rl_last_success l' = Some now \<or>
    outcome = ''applied'' \<and> rl_loaded l' \<and> rl_rule_count l' = length rules' \<and> rl_last_success l' = Some now"
  using assms
proof (cases rule: remote_refresh_cases)
  case (fetched data doc ap version issued document)
  have "rl_loaded l" if "\<not> ap"
  proof (cases verifier)
    case None
    then show ?thesis using fetched(2) that by (auto simp: check_signed_def)
  next
    case (Some vf)
    show ?thesis using check_signed_Checked [OF fetched(2) [unfolded Some]] that by auto
  qed
  then show ?thesis using fetched by (cases ap) simp_all
qed simp_all

definition last_ok :: "instant option \<Rightarrow> (instant \<times> string) list \<Rightarrow> instant option" where
  "last_ok before log = (case filter (\<lambda>(t, outcome). succeeded outcome) log of [] \<Rightarrow> before | xs \<Rightarrow> Some (fst (last xs)))"

lemma last_ok_Cons: "last_ok before ((t, outcome) # log) = last_ok (if succeeded outcome then Some t else before) log"
  by (auto simp: last_ok_def split: list.splits)

lemma series_run:
  assumes "rl_rule_count (fst st) = length (snd st)"
  shows "rl_rule_count (fst (remote_run toml sha256 eng verifier ticks st)) = length (snd (remote_run toml sha256 eng verifier ticks st)) \<and>
    rl_last_success (fst (remote_run toml sha256 eng verifier ticks st)) =
      last_ok (rl_last_success (fst st)) (remote_log toml sha256 eng verifier ticks st) \<and>
    rl_loaded (fst (remote_run toml sha256 eng verifier ticks st)) =
      (rl_loaded (fst st) \<or> ''applied'' \<in> set (map snd (remote_log toml sha256 eng verifier ticks st))) \<and>
    map fst (remote_log toml sha256 eng verifier ticks st) = map fst ticks \<and>
    set (map snd (remote_log toml sha256 eng verifier ticks st)) \<subseteq> set refresh_outcomes"
  using assms
proof (induction ticks arbitrary: st)
  case Nil
  then show ?case by (simp add: last_ok_def)
next
  case (Cons tick ticks)
  obtain now answer where t: "tick = (now, answer)" by force
  obtain l rules where st: "st = (l, rules)" by force
  obtain l' rules' outcome err where r: "remote_refresh toml sha256 eng verifier now answer (l, rules) = ((l', rules'), outcome, err)"
    by (metis prod.exhaust)
  note o = refresh_outcome [OF r]
  have "rl_rule_count l' = length rules'" using o Cons(2) st by auto
  then have "rl_rule_count (fst (l', rules')) = length (snd (l', rules'))" by simp
  from Cons(1) [OF this] show ?case
    using o by (auto simp: t st r last_ok_Cons succeeded_def refresh_outcomes_def)
qed

section \<open>Properties\<close>

text \<open>
  C34. What the hit counter counts, for a redactor that has its instruments. On bytes, the flag that
  Apply returns is set exactly when some rule was counted, and with distinct names each rule at most
  once. On a JSON document the flag of ApplyJSON is set exactly when some hit was counted, and what
  one rule's walk counts is the number of keys, strings and numbers of the document it changes: those
  in its scope, under no skipped path, whose text it replaces. Without the instruments nothing is
  recorded, and redaction is the same either way.
\<close>

theorem redaction_hits_counted:
  "(snd (redact_apply idna ul eng rules host src) \<longleftrightarrow> hits (apply_records idna ul eng True rules host src) \<noteq> []) \<and>
   (distinct (map cr_name rules) \<longrightarrow> distinct (hits (apply_records idna ul eng True rules host src))) \<and>
   (\<forall>out matched. apply_json idna ul eng ord decode next_tok encode rules host src = Ok (out, matched) \<longrightarrow>
      (matched \<longleftrightarrow> hits (apply_json_records idna ul eng True ord decode next_tok rules host src) \<noteq> [])) \<and>
   hits (value_records eng True cr [] doc) = replicate (length (filter (changes eng cr) (occs [[]] [] doc))) (Hit (cr_name cr)) \<and>
   apply_records idna ul eng False rules host src = [] \<and>
   apply_json_records idna ul eng False ord decode next_tok rules host src = []"
proof -
  have "hits (value_records eng True cr [] doc) = replicate (length (hits (value_records eng True cr [] doc))) (Hit (cr_name cr))"
    using value_hit_names [of _ eng cr "[]" doc] by (simp add: list_eq_iff_nth_eq)
  moreover have "length (hits (value_records eng True cr [] doc)) = length (filter (changes eng cr) (occs [[]] [] doc))"
    by (rule walk_hit_count) (simp add: guarded_def)
  moreover have "apply_json_records idna ul eng False ord decode next_tok rules host src = []"
    by (simp add: apply_json_records_def unmetered_rules Let_def split: decoded.splits next_token.splits)
  moreover have "matched \<longleftrightarrow> hits (apply_json_records idna ul eng True ord decode next_tok rules host src) \<noteq> []"
    if "apply_json idna ul eng ord decode next_tok encode rules host src = Ok (out, matched)" for out matched
    using apply_json_hits [OF that] .
  moreover have "distinct (hits (apply_records idna ul eng True rules host src))" if "distinct (map cr_name rules)"
    using apply_loop_once [OF that] by (simp add: apply_records_def)
  ultimately show ?thesis by (simp add: redact_apply_def apply_records_def apply_loop_hits unmetered_loop)
qed

text \<open>
  C35. The series of the remote loader account for its polling. From a new loader, whatever the
  endpoint answered and whether configs are signed or not: each refresh is counted under one of five
  outcomes, so the counters add up to the refreshes; the gauge of rules is the number of rules in
  force; a config is loaded exactly when some refresh was counted as applied; and the staleness, not
  observed before, is the time since the last refresh that was counted as applied or unchanged.
\<close>

theorem loader_series_account:
  assumes "new_remote_loader has_client url has_redactor interval = Ok l0"
    and "remote_log toml sha256 eng verifier ticks (l0, new_redactor) = log"
    and "remote_run toml sha256 eng verifier ticks (l0, new_redactor) = (l, rules)"
  shows "(\<Sum>outcome \<leftarrow> refresh_outcomes. refresh_total log outcome) = length ticks \<and>
    rule_count_gauge l = int (length rules) \<and>
    (rl_loaded l \<longleftrightarrow> 0 < refresh_total log ''applied'') \<and>
    staleness_gauge now l =
      (case filter (\<lambda>(t, outcome). succeeded outcome) log of [] \<Rightarrow> None | xs \<Rightarrow> Some (now - fst (last xs)))"
proof -
  have l0: "rl_rule_count l0 = 0" "rl_last_success l0 = None" "\<not> rl_loaded l0"
    using assms(1) by (auto simp: new_remote_loader_def split: if_splits)
  have run: "rl_rule_count l = length rules" "rl_last_success l = last_ok None log"
    "rl_loaded l = (''applied'' \<in> set (map snd log))" "map fst log = map fst ticks" "set (map snd log) \<subseteq> set refresh_outcomes"
    using series_run [of "(l0, new_redactor)" toml sha256 eng verifier ticks] assms(2,3) l0 by (auto simp: new_redactor_def)
  have "(\<Sum>outcome \<leftarrow> refresh_outcomes. refresh_total log outcome) = length (map snd log)"
    using run(5) by (induction log) (auto simp: refresh_total_def refresh_outcomes_def)
  moreover have "length (map snd log) = length ticks" using run(4) by (metis length_map)
  moreover have "0 < refresh_total log ''applied'' \<longleftrightarrow> ''applied'' \<in> set (map snd log)"
    by (induction log) (auto simp: refresh_total_def)
  ultimately show ?thesis
    using run(1-3) by (simp add: rule_count_gauge_def observable_gauge_def staleness_gauge_def last_ok_def split: list.split)
qed

theorem redaction_hits_counted_witness:
  "hits (value_records literal_engine True example_compiled [] example_document) = [Hit ''card''] \<and>
   \<not> snd (redact_apply (\<lambda>h. None) id literal_engine [example_compiled] ''api'' ''42'')"
proof -
  have "filter (changes literal_engine example_compiled) (occs [[]] [] example_document) =
      [([''user|id'', ''user'', []], ''user|id'', LNum ''1427'')]"
    by (simp add: example_document_def changes_simps example_child example_paths example_replaced Let_def)
  then have "hits (value_records literal_engine True example_compiled [] example_document) = [Hit (cr_name example_compiled)]"
    using redaction_hits_counted [where eng = literal_engine and cr = example_compiled and doc = example_document] by simp
  moreover have "hits (apply_records (\<lambda>h. None) id literal_engine True [example_compiled] ''api'' ''42'') = []"
    by (simp add: apply_records_def example_compiled_def)
  ultimately show ?thesis
    using redaction_hits_counted [where idna = "\<lambda>h. None" and ul = id and eng = literal_engine and rules = "[example_compiled]"
        and host = "''api''" and src = "''42''"]
    by (simp add: example_compiled_def)
qed

theorem loader_series_account_witness:
  "\<exists>l. remote_run example_config_toml (\<lambda>d. ''D'') literal_engine (Some example_remote_verifier)
      [(unix_time 1030, Fetched 200 (Some example_signed_config) ''e1''), (unix_time 1050, FetchFailed ''down'')]
      (fresh_remote_loader, new_redactor) = (l, [example_compiled]) \<and>
    rule_count_gauge l = 1 \<and> staleness_gauge (unix_time 1060) l = Some (unix_time 1060 - unix_time 1030)"
proof -
  let ?ticks = "[(unix_time 1030, Fetched 200 (Some example_signed_config) ''e1''), (unix_time 1050, FetchFailed ''down'')]"
  have down: "remote_refresh example_config_toml (\<lambda>d. ''D'') literal_engine (Some example_remote_verifier) (unix_time 1050)
      (FetchFailed ''down'') (example_polled, [example_compiled]) =
      ((example_polled, [example_compiled]), ''error'', Some ''config fetch failed: down'')"
    by (simp add: remote_refresh_def)
  have run: "remote_run example_config_toml (\<lambda>d. ''D'') literal_engine (Some example_remote_verifier) ?ticks
      (fresh_remote_loader, new_redactor) = (example_polled, [example_compiled])"
    by (simp add: new_redactor_def example_poll down)
  have log: "remote_log example_config_toml (\<lambda>d. ''D'') literal_engine (Some example_remote_verifier) ?ticks
      (fresh_remote_loader, new_redactor) = [(unix_time 1030, ''applied''), (unix_time 1050, ''error'')]"
    by (simp add: new_redactor_def example_poll down)
  from loader_series_account [OF example_fresh log run, of "unix_time 1060"] run show ?thesis
    by (simp add: succeeded_def)
qed

end
