(* ===== verification/ConfigTransport.thy ===== *)
theory ConfigTransport
  imports Startup
begin

text \<open>
  The http.Transport behind the config client (internal/client/transport.go): how each kind of
  controller transport of theory Startup is built, and where its connections go. That a transport
  hands its dialer the proxy's address when it has a proxy, and the request's otherwise, is what
  net/http documents.
\<close>

section \<open>The transports\<close>

definition h2_read_idle_timeout :: duration where "h2_read_idle_timeout = 30 * nanos"
definition h2_ping_timeout :: duration where "h2_ping_timeout = 10 * nanos"

record h2_keepalive =
  hk_send_ping :: duration
  hk_ping :: duration

definition h2_config :: h2_keepalive where
  "h2_config = \<lparr>hk_send_ping = h2_read_idle_timeout, hk_ping = h2_ping_timeout\<rparr>"

text \<open>\<open>tp_protocols\<close> is empty for the default ones; a dialer takes the network and the address.\<close>

datatype http_protocol = HTTP1 | HTTP2 | UnencryptedHTTP2

record client_transport =
  tp_protocols :: "http_protocol list"
  tp_keepalive :: h2_keepalive
  tp_tls :: "client_tls option"
  tp_server_name :: string
  tp_header_timeout :: duration
  tp_proxy :: "url option"
  tp_dial :: "(string \<Rightarrow> string \<Rightarrow> string \<times> string) option"

definition fixed_target_dialer :: "string \<Rightarrow> string \<Rightarrow> string \<Rightarrow> string \<times> string" where
  "fixed_target_dialer address network addr = (network, address)"

definition new_h2c_transport :: "string \<Rightarrow> client_transport" where
  "new_h2c_transport connect_to =
     \<lparr>tp_protocols = [UnencryptedHTTP2], tp_keepalive = h2_config, tp_tls = None, tp_server_name = [],
      tp_header_timeout = 0, tp_proxy = None,
      tp_dial = (if connect_to \<noteq> [] then Some (fixed_target_dialer connect_to) else None)\<rparr>"

definition tls_client_transport :: "client_tls \<Rightarrow> string \<Rightarrow> url option \<Rightarrow> string \<Rightarrow> client_transport" where
  "tls_client_transport tls host proxy connect_to =
     (let t = \<lparr>tp_protocols = [HTTP1, HTTP2], tp_keepalive = h2_config, tp_tls = Some tls, tp_server_name = host,
            tp_header_timeout = 10 * nanos, tp_proxy = None, tp_dial = None\<rparr>;
          t = (if connect_to \<noteq> [] then t\<lparr>tp_proxy := None, tp_dial := Some (fixed_target_dialer connect_to)\<rparr> else t) in
      case proxy of Some p \<Rightarrow> t\<lparr>tp_proxy := Some p\<rparr> | None \<Rightarrow> t)"

fun client_transport_of :: "controller_transport \<Rightarrow> client_transport" where
  "client_transport_of (H2CTransport connect_to) = new_h2c_transport connect_to"
| "client_transport_of (TLSTransport tls host proxy connect_to) = tls_client_transport tls host proxy connect_to"

text \<open>The TCP connection of a request to an address.\<close>

definition connects :: "(url \<Rightarrow> string) \<Rightarrow> client_transport \<Rightarrow> string \<Rightarrow> string \<times> string" where
  "connects address t addr =
     (let target = (case tp_proxy t of Some p \<Rightarrow> address p | None \<Rightarrow> addr) in
      case tp_dial t of Some dial \<Rightarrow> dial ''tcp'' target | None \<Rightarrow> (''tcp'', target))"

section \<open>Where the config client's requests go\<close>

lemma new_transport_https:
  assumes "new_transport pd cfg = Ok t" and "cd_url (pd_config pd) (cf_controller_url cfg) = Ok u" and "url_scheme u = ''https''"
  shows "\<exists>tls proxy. t = TLSTransport tls (url_hostname u) proxy (cf_controller_connect_to cfg) \<and>
    build_client_tls_config (cd_key_pair (pd_config pd)) (pd_system_roots pd) (pd_parses_ca pd) cfg = Ok (Some tls) \<and>
    (proxy \<noteq> None \<longrightarrow> cf_egress_proxy_url cfg \<noteq> None)"
  using assms by (auto simp: new_transport_def new_tls_transport_def Let_def split: sum.splits option.splits if_splits)

text \<open>
  A config Load accepts never has both a proxy and a fixed address, so the dialer of the fixed address
  never stands between the transport and a proxy: the connection goes to the fixed address if one is
  set, else to the proxy, else to the controller; it presents the client certificate and checks the
  logical host whichever way it goes.
\<close>

lemma config_client_route:
  assumes "load_from (pd_config pd) e = Ok cfg" and "new_config_http_client pd cfg = Ok c"
    and "cd_url (pd_config pd) (cf_controller_url cfg) = Ok u" and "url_scheme u = ''https''"
  shows "let t = client_transport_of (hc_transport c) in
    tp_server_name t = url_hostname u \<and>
    (\<exists>cert key tls. cf_tls_cert cfg = Some cert \<and> cf_tls_key cfg = Some key \<and> tp_tls t = Some tls \<and> ct_cert tls = (cert, key)) \<and>
    (tp_proxy t \<noteq> None \<longrightarrow> cf_controller_connect_to cfg = []) \<and>
    connects address t addr = (''tcp'', if cf_controller_connect_to cfg \<noteq> [] then cf_controller_connect_to cfg
      else (case tp_proxy t of Some p \<Rightarrow> address p | None \<Rightarrow> addr))"
proof -
  obtain t where t: "new_transport pd cfg = Ok t" "hc_transport c = t"
    using assms(2) by (auto simp: new_config_http_client_def split: sum.splits)
  obtain tls proxy where k: "t = TLSTransport tls (url_hostname u) proxy (cf_controller_connect_to cfg)"
    "build_client_tls_config (cd_key_pair (pd_config pd)) (pd_system_roots pd) (pd_parses_ca pd) cfg = Ok (Some tls)"
    "proxy \<noteq> None \<longrightarrow> cf_egress_proxy_url cfg \<noteq> None"
    using new_transport_https [OF t(1) assms(3,4)] by blast
  have "connect_to_ok cfg" using load_from_ok [OF assms(1)] by (simp add: config_ok_def)
  then have "proxy \<noteq> None \<longrightarrow> cf_controller_connect_to cfg = []" using k(3) by (auto simp: connect_to_ok_def)
  moreover have "\<exists>cert key. cf_tls_cert cfg = Some cert \<and> cf_tls_key cfg = Some key \<and> ct_cert tls = (cert, key)"
    using k(2) by (auto simp: build_client_tls_config_def split: option.splits sum.splits if_splits)
  ultimately show ?thesis
    using t(2) k(1) by (auto simp: tls_client_transport_def connects_def fixed_target_dialer_def Let_def split: option.splits)
qed

end
