(* ===== verification/Instruments.thy ===== *)
theory Instruments
  imports Prelude
begin

text \<open>
  The instruments of the connector's telemetry: their names (internal/telemetry/names.go), and those
  each package makes (newMetrics of internal/pipeserver and internal/upstream, and the redaction and
  loader ones). Making one may fail in the OpenTelemetry SDK, a parameter.
\<close>

section \<open>Names\<close>

definition metric_names :: "string list" where
  "metric_names =
     [''connector.config_refresh_total'', ''connector.config_rule_count'', ''connector.config_staleness_seconds'',
      ''connector.upstream_requests_total'', ''connector.upstream_latency'', ''connector.redaction_latency_per_byte'',
      ''connector.redaction_hits_total'', ''connector.response_content_encoding_total'', ''connector.response_refusals_total'',
      ''connector.decoded_response_body_size'', ''connector.raw_tunnels_up'', ''connector.raw_tunnel_dial_total'',
      ''connector.raw_pipe_open_total'', ''connector.raw_pipes'', ''connector.raw_pipe_end_total'',
      ''connector.raw_pipe_bytes_total'', ''connector.capability_trust'', ''connector.egress_proxy_unresolved_dial_total'']"

definition span_upstream_http :: string where "span_upstream_http = ''executor.upstream_http''"

section \<open>Instruments\<close>

datatype instrument_kind = Int64Counter | Int64UpDownCounter | Int64Histogram | Float64Histogram
  | Int64ObservableGauge | Float64ObservableGauge

record instrument =
  in_kind :: instrument_kind
  in_name :: string
  in_unit :: string

definition mk_instrument :: "instrument_kind \<Rightarrow> string \<Rightarrow> string \<Rightarrow> instrument" where
  "mk_instrument k n u = \<lparr>in_kind = k, in_name = n, in_unit = u\<rparr>"

definition pipe_instruments :: "instrument list" where
  "pipe_instruments =
     [mk_instrument Int64UpDownCounter ''connector.raw_tunnels_up'' [], mk_instrument Int64Counter ''connector.raw_tunnel_dial_total'' [],
      mk_instrument Int64Counter ''connector.raw_pipe_open_total'' [], mk_instrument Int64UpDownCounter ''connector.raw_pipes'' [],
      mk_instrument Int64Counter ''connector.raw_pipe_end_total'' [], mk_instrument Int64Counter ''connector.raw_pipe_bytes_total'' ''By'']"

definition upstream_instruments :: "instrument list" where
  "upstream_instruments =
     [mk_instrument Int64Counter ''connector.upstream_requests_total'' [], mk_instrument Float64Histogram ''connector.upstream_latency'' ''ms'',
      mk_instrument Int64Counter ''connector.response_content_encoding_total'' [],
      mk_instrument Int64Counter ''connector.response_refusals_total'' [],
      mk_instrument Int64Histogram ''connector.decoded_response_body_size'' ''bytes'']"

definition redact_instruments :: "instrument list" where
  "redact_instruments =
     [mk_instrument Float64Histogram ''connector.redaction_latency_per_byte'' ''ms/By'', mk_instrument Int64Counter ''connector.redaction_hits_total'' []]"

definition loader_instruments :: "instrument list" where
  "loader_instruments =
     [mk_instrument Int64Counter ''connector.config_refresh_total'' [], mk_instrument Int64ObservableGauge ''connector.config_rule_count'' [],
      mk_instrument Float64ObservableGauge ''connector.config_staleness_seconds'' ''s'']"

definition trust_instruments :: "instrument list" where
  "trust_instruments = [mk_instrument Int64ObservableGauge ''connector.capability_trust'' []]"

definition proxy_dial_instruments :: "instrument list" where
  "proxy_dial_instruments = [mk_instrument Int64Counter ''connector.egress_proxy_unresolved_dial_total'' []]"

text \<open>errors.Join: none of no errors, else their texts on a line each.\<close>

fun lines_of :: "string list \<Rightarrow> string" where
  "lines_of [] = []"
| "lines_of [e] = e"
| "lines_of (e # es) = e @ CHR 0x0A # lines_of es"

fun kept_errors :: "string option list \<Rightarrow> string list" where
  "kept_errors [] = []"
| "kept_errors (None # errs) = kept_errors errs"
| "kept_errors (Some e # errs) = e # kept_errors errs"

definition join_errors :: "string option list \<Rightarrow> string option" where
  "join_errors errs = (case kept_errors errs of [] \<Rightarrow> None | es \<Rightarrow> Some (lines_of es))"

text \<open>newMetrics of the two packages: every instrument is tried, and the errors joined.\<close>

definition new_pipe_metrics :: "(instrument \<Rightarrow> string option) \<Rightarrow> string option" where
  "new_pipe_metrics build = join_errors (map build pipe_instruments)"

definition new_upstream_metrics :: "(instrument \<Rightarrow> string option) \<Rightarrow> string option" where
  "new_upstream_metrics build = join_errors (map build upstream_instruments)"

lemma kept_errors_Nil: "kept_errors errs = [] \<longleftrightarrow> (\<forall>e \<in> set errs. e = None)"
  by (induction errs rule: kept_errors.induct) auto

lemma join_errors_None: "join_errors errs = None \<longleftrightarrow> (\<forall>e \<in> set errs. e = None)"
  unfolding kept_errors_Nil [symmetric] by (cases "kept_errors errs") (simp_all add: join_errors_def)

lemma new_metrics_None:
  "new_pipe_metrics build = None \<longleftrightarrow> (\<forall>i \<in> set pipe_instruments. build i = None)"
  "new_upstream_metrics build = None \<longleftrightarrow> (\<forall>i \<in> set upstream_instruments. build i = None)"
  by (simp_all add: new_pipe_metrics_def new_upstream_metrics_def join_errors_None)

text \<open>Each name is made into one instrument by one package.\<close>

definition all_instruments :: "instrument list" where
  "all_instruments = pipe_instruments @ upstream_instruments @ redact_instruments @ loader_instruments @
     trust_instruments @ proxy_dial_instruments"

lemma instruments_named:
  "distinct (map in_name all_instruments)" "set (map in_name all_instruments) = set metric_names" "distinct metric_names"
proof -
  have "distinct (map in_name all_instruments) \<and> distinct metric_names \<and>
      list_all (\<lambda>n. n \<in> set metric_names) (map in_name all_instruments) \<and>
      list_all (\<lambda>n. n \<in> set (map in_name all_instruments)) metric_names"
    by code_simp
  then show "distinct (map in_name all_instruments)" "distinct metric_names"
    "set (map in_name all_instruments) = set metric_names" by (auto simp: list_all_iff)
qed

end
