(* ===== verification/ConnectRpc.thy ===== *)
theory ConnectRpc
  imports GoHttp
begin

text \<open>
  The connect service of connector-lib/gen/connector/v1/connectorconnect/connector.connect.go: the
  URL its client calls, the paths its handler answers, and the handler that implements nothing. What
  runs the stream is the connect package, and is the parameter of the tunnel.
\<close>

definition service_name :: string where "service_name = ''connector.v1.ConnectorService''"

definition tunnel_procedure :: string where "tunnel_procedure = ''/connector.v1.ConnectorService/Tunnel''"

text \<open>NewConnectorServiceClient, and its Tunnel: the URL the stream is opened at.\<close>

record service_client =
  sc_tunnel_url :: string

definition new_service_client :: "string \<Rightarrow> service_client" where
  "new_service_client base_url = \<lparr>sc_tunnel_url = trim_right_set ''/'' base_url @ tunnel_procedure\<rparr>"

definition client_tunnel :: "(string \<Rightarrow> 's) \<Rightarrow> service_client \<Rightarrow> 's" where
  "client_tunnel call_bidi_stream c = call_bidi_stream (sc_tunnel_url c)"

text \<open>NewConnectorServiceHandler: where to mount it, and what it answers on a path.\<close>

datatype 's service_answer = TunnelAnswer 's | ServiceNotFound

definition new_service_handler :: "'s \<Rightarrow> string \<times> (string \<Rightarrow> 's service_answer)" where
  "new_service_handler tunnel =
     (''/connector.v1.ConnectorService/'', \<lambda>path. if path = tunnel_procedure then TunnelAnswer tunnel else ServiceNotFound)"

definition unimplemented_tunnel :: "string \<times> string" where
  "unimplemented_tunnel = (''unimplemented'', ''connector.v1.ConnectorService.Tunnel is not implemented'')"

text \<open>
  Whatever base URL without a path the client was given, with or without slashes at its end, its
  tunnel's path is one the handler answers, under the prefix it is mounted on; it answers no other.
\<close>

lemma tunnel_procedure_parts: "tunnel_procedure = ''/'' @ service_name @ ''/Tunnel''"
  by (simp add: tunnel_procedure_def service_name_def)

lemma client_reaches_handler:
  assumes "base \<noteq> []" and "last base \<noteq> CHR ''/''"
  shows "sc_tunnel_url (new_service_client (base @ replicate n (CHR ''/''))) = base @ tunnel_procedure \<and>
    snd (new_service_handler tunnel) tunnel_procedure = TunnelAnswer tunnel \<and>
    (\<forall>path. snd (new_service_handler tunnel) path \<noteq> ServiceNotFound \<longrightarrow>
       (\<exists>rest. path = fst (new_service_handler tunnel) @ rest))"
proof -
  have "dropWhile (\<lambda>c. c \<in> set ''/'') (rev (base @ replicate n (CHR ''/''))) = rev base"
    using assms by (cases base rule: rev_cases) (auto simp: dropWhile_append)
  moreover have "tunnel_procedure = ''/connector.v1.ConnectorService/'' @ ''Tunnel''" by (simp add: tunnel_procedure_def)
  ultimately show ?thesis by (auto simp: new_service_client_def trim_right_set_def new_service_handler_def)
qed

end
