(* ===== verification/Telemetry.thy ===== *)
theory Telemetry
  imports EnvConfig HttpConnect
begin

text \<open>
  connector-lib/telemetry and setupTelemetry of cmd/connector/main.go: which exporters start, where
  each dials and what it presents. An exporter is its protocol and options; the OpenTelemetry SDK
  that runs it, and whether each part of it can be made, are parameters.
\<close>

section \<open>Endpoints (endpoint.go)\<close>

definition is_grpc_protocol :: "string \<Rightarrow> bool" where
  "is_grpc_protocol protocol \<longleftrightarrow> protocol = ''grpc'' \<or> protocol = ''http/protobuf''"

record otlp_endpoint =
  oe_host :: string
  oe_path :: string
  oe_tls :: bool

definition parse_otlp_endpoint :: "(string \<Rightarrow> string + url) \<Rightarrow> string \<Rightarrow> otlp_endpoint" where
  "parse_otlp_endpoint parse_url raw =
     (let bare = \<lparr>oe_host = raw, oe_path = [], oe_tls = False\<rparr> in
      if \<not> contains_str ''://'' raw then bare
      else (case parse_url raw of
          Inl e \<Rightarrow> bare
        | Inr u \<Rightarrow>
            if url_host u = [] then bare
            else \<lparr>oe_host = url_host u, oe_path = url_path u, oe_tls = url_scheme u = ''https''\<rparr>))"

record otlp_transport =
  ot_host :: string
  ot_path :: string
  ot_tls :: "client_tls option"
  ot_proxy :: "url option"
  ot_connect_to :: string

definition plan_otlp_transport ::
    "(string \<Rightarrow> string + url) \<Rightarrow> string \<Rightarrow> client_tls option \<Rightarrow> url option \<Rightarrow> string \<Rightarrow> otlp_transport" where
  "plan_otlp_transport parse_url raw tls proxy connect_to =
     (let ep = parse_otlp_endpoint parse_url raw in
      \<lparr>ot_host = oe_host ep, ot_path = oe_path ep, ot_tls = (if oe_tls ep then tls else None),
       ot_proxy = (if oe_tls ep then proxy else None), ot_connect_to = connect_to\<rparr>)"

definition use_mtls :: "otlp_transport \<Rightarrow> bool" where "use_mtls t \<longleftrightarrow> ot_tls t \<noteq> None"

definition use_proxy :: "otlp_transport \<Rightarrow> bool" where "use_proxy t \<longleftrightarrow> ot_proxy t \<noteq> None"

section \<open>Exporters (logging.go, metrics.go, tracing.go)\<close>

datatype otlp_dialer = FixedDialer string | ConnectDialer url

record otlp_http_client =
  oc_dial :: string
  oc_tls :: "client_tls option"

datatype exporter_option =
    WithEndpoint string
  | WithURLPath string
  | WithTLS client_tls
  | WithInsecure
  | WithDialer otlp_dialer
  | WithProxy url
  | WithHTTPClient otlp_http_client

definition grpc_dial_options :: "otlp_transport \<Rightarrow> otlp_dialer list" where
  "grpc_dial_options t =
     (if ot_connect_to t \<noteq> [] then [FixedDialer (ot_connect_to t)]
      else (case ot_proxy t of Some p \<Rightarrow> [ConnectDialer p] | None \<Rightarrow> []))"

definition override_http_client :: "otlp_transport \<Rightarrow> otlp_http_client option" where
  "override_http_client t =
     (if ot_connect_to t = [] then None else Some \<lparr>oc_dial = ot_connect_to t, oc_tls = ot_tls t\<rparr>)"

text \<open>The exporters of traces, as option lists: those of gRPC and those of HTTP.\<close>

definition credentials_option :: "otlp_transport \<Rightarrow> exporter_option" where
  "credentials_option t = (case ot_tls t of Some c \<Rightarrow> WithTLS c | None \<Rightarrow> WithInsecure)"

definition grpc_exporter :: "otlp_transport \<Rightarrow> exporter_option list" where
  "grpc_exporter t = [WithEndpoint (ot_host t), credentials_option t] @ map WithDialer (grpc_dial_options t)"

definition http_exporter :: "otlp_transport \<Rightarrow> exporter_option list" where
  "http_exporter t =
     [WithEndpoint (ot_host t)] @ (if ot_path t \<noteq> [] then [WithURLPath (ot_path t)] else []) @ [credentials_option t] @
     (case ot_proxy t of Some p \<Rightarrow> [WithProxy p] | None \<Rightarrow> []) @
     (case override_http_client t of Some c \<Rightarrow> [WithHTTPClient c] | None \<Rightarrow> [])"

text \<open>The exporters of logs and of metrics append to their options one condition at a time.\<close>

definition new_grpc_log_exporter :: "otlp_transport \<Rightarrow> exporter_option list" where
  "new_grpc_log_exporter t =
     (let opts = [WithEndpoint (ot_host t)];
          opts = (if use_mtls t then opts @ [WithTLS (the (ot_tls t))] else opts @ [WithInsecure]) in
      fold (\<lambda>d opts. opts @ [WithDialer d]) (grpc_dial_options t) opts)"

definition new_http_log_exporter :: "otlp_transport \<Rightarrow> exporter_option list" where
  "new_http_log_exporter t =
     (let opts = [WithEndpoint (ot_host t)];
          opts = (if ot_path t \<noteq> [] then opts @ [WithURLPath (ot_path t)] else opts);
          opts = (if use_mtls t then opts @ [WithTLS (the (ot_tls t))] else opts @ [WithInsecure]);
          opts = (if use_proxy t then opts @ [WithProxy (the (ot_proxy t))] else opts) in
      case override_http_client t of Some c \<Rightarrow> opts @ [WithHTTPClient c] | None \<Rightarrow> opts)"

definition new_grpc_metrics_exporter :: "otlp_transport \<Rightarrow> exporter_option list" where
  "new_grpc_metrics_exporter t =
     (let opts = [WithEndpoint (ot_host t)];
          opts = (if use_mtls t then opts @ [WithTLS (the (ot_tls t))] else opts @ [WithInsecure]) in
      fold (\<lambda>d opts. opts @ [WithDialer d]) (grpc_dial_options t) opts)"

definition new_http_metrics_exporter :: "otlp_transport \<Rightarrow> exporter_option list" where
  "new_http_metrics_exporter t =
     (let opts = [WithEndpoint (ot_host t)];
          opts = (if ot_path t \<noteq> [] then opts @ [WithURLPath (ot_path t)] else opts);
          opts = (if use_mtls t then opts @ [WithTLS (the (ot_tls t))] else opts @ [WithInsecure]);
          opts = (if use_proxy t then opts @ [WithProxy (the (ot_proxy t))] else opts) in
      case override_http_client t of Some c \<Rightarrow> opts @ [WithHTTPClient c] | None \<Rightarrow> opts)"

datatype signal = Logs | Metrics | Traces

text \<open>Each signal has its own pair; all three take the same options.\<close>

definition exporter_options :: "signal \<Rightarrow> bool \<Rightarrow> otlp_transport \<Rightarrow> exporter_option list" where
  "exporter_options sig grpc t =
     (case sig of
        Logs \<Rightarrow> if grpc then new_grpc_log_exporter t else new_http_log_exporter t
      | Metrics \<Rightarrow> if grpc then new_grpc_metrics_exporter t else new_http_metrics_exporter t
      | Traces \<Rightarrow> if grpc then grpc_exporter t else http_exporter t)"

lemma fold_snoc: "fold (\<lambda>d opts. opts @ [f d]) ds opts = opts @ map f ds"
  by (induction ds arbitrary: opts) simp_all

lemma exporters_agree: "exporter_options sig grpc t = (if grpc then grpc_exporter t else http_exporter t)"
  by (cases sig) (auto simp: exporter_options_def new_grpc_log_exporter_def new_http_log_exporter_def
      new_grpc_metrics_exporter_def new_http_metrics_exporter_def grpc_exporter_def http_exporter_def
      credentials_option_def use_mtls_def use_proxy_def fold_snoc split: option.split)

text \<open>What their log lines say of the transport: neither credentials nor the proxy's address.\<close>

definition log_fields :: "otlp_transport \<Rightarrow> (string \<times> string) list" where
  "log_fields t =
     [(''logical_host'', ot_host t), (''logical_path'', ot_path t), (''mtls'', if use_mtls t then ''true'' else ''false''),
      (''proxy'', if use_proxy t then ''true'' else ''false''), (''connect_to'', ot_connect_to t)]"

lemma log_fields_confined:
  "log_fields (t\<lparr>ot_tls := Some c, ot_proxy := Some p\<rparr>) = log_fields (t\<lparr>ot_tls := Some c', ot_proxy := Some p'\<rparr>)"
  by (simp add: log_fields_def use_mtls_def use_proxy_def)

record exporter =
  ex_signal :: signal
  ex_grpc :: bool
  ex_options :: "exporter_option list"

section \<open>Setup (setup.go)\<close>

record telemetry_config =
  tc_protocol :: string
  tc_logs :: string
  tc_metrics :: string
  tc_traces :: string
  tc_tls :: "client_tls option"
  tc_proxy :: "url option"
  tc_connect_to :: string

text \<open>What can fail besides: the resource, making an exporter, the runtime collector.\<close>

record telemetry_deps =
  td_url :: "string \<Rightarrow> string + url"
  td_resource :: "signal \<Rightarrow> string option"
  td_exporter :: "exporter \<Rightarrow> string option"
  td_runtime :: "string option"

definition new_exporter :: "telemetry_deps \<Rightarrow> telemetry_config \<Rightarrow> signal \<Rightarrow> string \<Rightarrow> string + exporter" where
  "new_exporter td tc sig endpoint =
     (let t = plan_otlp_transport (td_url td) endpoint (tc_tls tc) (tc_proxy tc) (tc_connect_to tc);
          grpc = is_grpc_protocol (tc_protocol tc);
          x = \<lparr>ex_signal = sig, ex_grpc = grpc, ex_options = exporter_options sig grpc t\<rparr> in
      case td_exporter td x of Some err \<Rightarrow> Err err | None \<Rightarrow> Ok x)"

text \<open>Each Init: its exporter if it has an endpoint, its error, and whether there is something to flush.\<close>

definition init_logging :: "telemetry_deps \<Rightarrow> telemetry_config \<Rightarrow> string + (exporter option \<times> bool)" where
  "init_logging td tc =
     (if tc_logs tc = [] then Ok (None, False)
      else (case td_resource td Logs of
          Some err \<Rightarrow> Err err
        | None \<Rightarrow> (case new_exporter td tc Logs (tc_logs tc) of Inl err \<Rightarrow> Err err | Inr x \<Rightarrow> Ok (Some x, True))))"

definition init_metrics :: "telemetry_deps \<Rightarrow> telemetry_config \<Rightarrow> string + (exporter option \<times> bool)" where
  "init_metrics td tc =
     (if tc_metrics tc = [] then Ok (None, False)
      else (case td_resource td Metrics of
          Some err \<Rightarrow> Err err
        | None \<Rightarrow> (case new_exporter td tc Metrics (tc_metrics tc) of Inl err \<Rightarrow> Err err | Inr x \<Rightarrow> Ok (Some x, True))))"

definition init_tracing :: "telemetry_deps \<Rightarrow> telemetry_config \<Rightarrow> string + (exporter option \<times> bool)" where
  "init_tracing td tc =
     (case td_resource td Traces of
        Some err \<Rightarrow> Err err
      | None \<Rightarrow>
          if tc_traces tc = [] then Ok (None, True)
          else (case new_exporter td tc Traces (tc_traces tc) of Inl err \<Rightarrow> Err err | Inr x \<Rightarrow> Ok (Some x, True)))"

text \<open>
  Setup: what flush drains, the exporters started, and the error. The flush is returned with an
  error too, for what had started before it.
\<close>

record telemetry_started =
  te_flush :: "signal list"
  te_exporters :: "exporter list"
  te_error :: "string option"

definition started_one :: "signal \<Rightarrow> exporter option \<times> bool \<Rightarrow> telemetry_started \<Rightarrow> telemetry_started" where
  "started_one sig r s =
     s\<lparr>te_flush := te_flush s @ (if snd r then [sig] else []), te_exporters := te_exporters s @ (case fst r of Some x \<Rightarrow> [x] | None \<Rightarrow> [])\<rparr>"

definition telemetry_setup :: "telemetry_deps \<Rightarrow> telemetry_config \<Rightarrow> telemetry_started" where
  "telemetry_setup td tc =
     (let s0 = \<lparr>te_flush = [], te_exporters = [], te_error = None\<rparr> in
      case (if tc_logs tc = [] then Ok (None, False) else init_logging td tc) of
        Inl err \<Rightarrow> s0\<lparr>te_error := Some err\<rparr>
      | Inr logs \<Rightarrow>
          let s1 = started_one Logs logs s0 in
          (case init_metrics td tc of
             Inl err \<Rightarrow> s1\<lparr>te_error := Some err\<rparr>
           | Inr metrics \<Rightarrow>
               let s2 = started_one Metrics metrics s1 in
               (case td_runtime td of
                  Some err \<Rightarrow> s2\<lparr>te_error := Some err\<rparr>
                | None \<Rightarrow>
                    (case init_tracing td tc of
                       Inl err \<Rightarrow> s2\<lparr>te_error := Some err\<rparr>
                     | Inr traces \<Rightarrow> started_one Traces traces s2))))"

text \<open>setupTelemetry of main.go; the proxy is the one parseOTLPEgressProxyURL reads.\<close>

definition telemetry_config_of :: "config \<Rightarrow> client_tls option \<Rightarrow> url option \<Rightarrow> telemetry_config" where
  "telemetry_config_of cfg tls proxy =
     \<lparr>tc_protocol = cf_otlp_protocol cfg, tc_logs = cf_logs_endpoint cfg, tc_metrics = cf_metrics_endpoint cfg,
      tc_traces = cf_traces_endpoint cfg, tc_tls = tls, tc_proxy = proxy, tc_connect_to = cf_otlp_connect_to cfg\<rparr>"

text \<open>flushAll: every exporter is drained at once; the errors are logged.\<close>

definition flush_all :: "(signal \<Rightarrow> string option) \<Rightarrow> signal list \<Rightarrow> string list" where
  "flush_all shutdown sigs = concat (map (\<lambda>sig. case shutdown sig of Some e \<Rightarrow> [''failed to flush telemetry: '' @ e] | None \<Rightarrow> []) sigs)"

text \<open>NewResource: a host name that cannot be read is unknown.\<close>

definition resource_attributes :: "string \<Rightarrow> string \<Rightarrow> string option \<Rightarrow> (string \<times> string) list" where
  "resource_attributes service env_name host =
     [(''service.name'', service), (''service.namespace'', env_name),
      (''service.instance.id'', case host of Some h \<Rightarrow> h | None \<Rightarrow> ''unknown''), (''deployment.environment'', env_name)]"

text \<open>The dialer of gRPC through a forward proxy (proxy.go).\<close>

definition http_connect_dialer :: "(url \<Rightarrow> string \<Rightarrow> string option) \<Rightarrow> url \<Rightarrow> string \<Rightarrow> string option" where
  "http_connect_dialer connect_via proxy addr =
     map_option (\<lambda>e. ''otlp proxy CONNECT '' @ addr @ '' via '' @ proxy_addr proxy @ '': '' @ e) (connect_via proxy addr)"

text \<open>
  fanoutHandler: a record goes to each handler enabled for its level, up to the first that fails. A
  handler is whether it is enabled at a level and its error for a record; the records handled are
  known by the handlers' positions.
\<close>

type_synonym 'rec log_handler = "(int \<Rightarrow> bool) \<times> ('rec \<Rightarrow> string option)"

definition fanout_enabled :: "'rec log_handler list \<Rightarrow> int \<Rightarrow> bool" where
  "fanout_enabled hs level = list_ex (\<lambda>h. fst h level) hs"

fun fanout_handle :: "nat \<Rightarrow> 'rec log_handler list \<Rightarrow> int \<Rightarrow> 'rec \<Rightarrow> nat list \<times> string option" where
  "fanout_handle i [] level r = ([], None)"
| "fanout_handle i (h # hs) level r =
     (if fst h level then
        (case snd h r of
           Some e \<Rightarrow> ([i], Some e)
         | None \<Rightarrow> (let (is, e) = fanout_handle (i + 1) hs level r in (i # is, e)))
      else fanout_handle (i + 1) hs level r)"

lemma fanout_handle_all:
  "snd (fanout_handle i hs level r) = None \<Longrightarrow>
     fst (fanout_handle i hs level r) = map fst (filter (\<lambda>(j, h). fst h level) (enumerate i hs))"
  by (induction i hs level r rule: fanout_handle.induct) (auto simp: case_prod_unfold Let_def split: if_splits option.splits)

section \<open>Nothing leaves in cleartext\<close>

text \<open>What an exporter presents and where it connects, read off its options.\<close>

definition exporter_secure :: "exporter \<Rightarrow> client_tls \<Rightarrow> bool" where
  "exporter_secure x c \<longleftrightarrow> WithTLS c \<in> set (ex_options x) \<and> WithInsecure \<notin> set (ex_options x)"

definition exporter_direct :: "exporter \<Rightarrow> string \<Rightarrow> bool" where
  "exporter_direct x host \<longleftrightarrow> WithEndpoint host \<in> set (ex_options x) \<and>
     (\<forall>o' \<in> set (ex_options x). case o' of
        WithEndpoint h \<Rightarrow> h = host | WithDialer d \<Rightarrow> False | WithProxy p \<Rightarrow> False | WithHTTPClient c \<Rightarrow> False | _ \<Rightarrow> True)"

text \<open>The fixed address an exporter dials whatever its endpoint, if it has one.\<close>

definition exporter_fixed :: "exporter \<Rightarrow> string \<Rightarrow> bool" where
  "exporter_fixed x a \<longleftrightarrow> (\<exists>o' \<in> set (ex_options x). o' = WithDialer (FixedDialer a) \<or> (\<exists>c. o' = WithHTTPClient c \<and> oc_dial c = a))"

lemmas exporter_defs = new_exporter_def exporters_agree grpc_exporter_def http_exporter_def credentials_option_def
  grpc_dial_options_def override_http_client_def plan_otlp_transport_def

lemma new_exporter_tls:
  assumes "new_exporter td tc sig endpoint = Ok x" and "oe_tls (parse_otlp_endpoint (td_url td) endpoint)" and "tc_tls tc = Some c"
  shows "exporter_secure x c"
  using assms by (auto simp: exporter_defs exporter_secure_def Let_def split: option.splits if_splits)

lemma new_exporter_cleartext:
  assumes "new_exporter td tc sig endpoint = Ok x" and "\<not> oe_tls (parse_otlp_endpoint (td_url td) endpoint)"
  shows "WithInsecure \<in> set (ex_options x) \<and>
    (if tc_connect_to tc = [] then exporter_direct x (oe_host (parse_otlp_endpoint (td_url td) endpoint))
     else exporter_fixed x (tc_connect_to tc))"
  using assms by (auto simp: exporter_defs exporter_direct_def exporter_fixed_def Let_def split: option.splits if_splits)

lemma parse_otlp_endpoint_url:
  assumes "parse_url raw = Ok u" and "url_host u \<noteq> []" and "contains_str ''://'' raw"
  shows "parse_otlp_endpoint parse_url raw = \<lparr>oe_host = url_host u, oe_path = url_path u, oe_tls = url_scheme u = ''https''\<rparr>"
  using assms by (simp add: parse_otlp_endpoint_def)

text \<open>Every exporter started is one of the three endpoints', made as configured.\<close>

lemma setup_exporters:
  assumes "x \<in> set (te_exporters (telemetry_setup td tc))"
  shows "\<exists>sig endpoint. new_exporter td tc sig endpoint = Ok x \<and> endpoint \<noteq> [] \<and>
    endpoint \<in> {tc_logs tc, tc_metrics tc, tc_traces tc}"
proof -
  have i: "init_logging td tc = Ok r \<Longrightarrow> fst r = Some y \<Longrightarrow> \<exists>sig. new_exporter td tc sig (tc_logs tc) = Ok y \<and> tc_logs tc \<noteq> []"
    "init_metrics td tc = Ok r \<Longrightarrow> fst r = Some y \<Longrightarrow> \<exists>sig. new_exporter td tc sig (tc_metrics tc) = Ok y \<and> tc_metrics tc \<noteq> []"
    "init_tracing td tc = Ok r \<Longrightarrow> fst r = Some y \<Longrightarrow> \<exists>sig. new_exporter td tc sig (tc_traces tc) = Ok y \<and> tc_traces tc \<noteq> []" for r y
    by (auto simp: init_logging_def init_metrics_def init_tracing_def split: option.splits sum.splits if_splits)
  show ?thesis using assms i
    by (auto simp: telemetry_setup_def started_one_def Let_def split: sum.splits option.splits if_splits) blast+
qed

lemma url_host_nonempty: "url_hostname u \<noteq> [] \<Longrightarrow> url_host u \<noteq> []"
proof -
  have "url_split_host [] = ([], [])" by code_simp
  then show "url_hostname u \<noteq> [] \<Longrightarrow> url_host u \<noteq> []" by (auto simp: url_hostname_def)
qed

text \<open>Outside development the controller is https, so Load required a client certificate and main built its TLS.\<close>

lemma client_tls_required:
  assumes "controller_ok dp cfg" and "cf_env_level cfg \<noteq> ''development''"
    and "build_client_tls_config (cd_key_pair dp) system_roots parses_ca cfg = Ok tls"
  obtains c cert key where "tls = Some c" "cf_tls_cert cfg = Some cert" "cf_tls_key cfg = Some key"
    "cd_key_pair dp cert key" "ct_cert c = (cert, key)"
  using assms by (auto simp: controller_ok_def build_client_tls_config_def split: if_splits option.splits sum.splits)


definition telemetry_example :: telemetry_deps where
  "telemetry_example = \<lparr>td_url = cd_url prod_deps, td_resource = (\<lambda>s. None), td_exporter = (\<lambda>x. None), td_runtime = None\<rparr>"

lemma prod_url_law:
  "cd_url prod_deps raw = Ok u \<Longrightarrow> contains_str ''://'' raw"
proof -
  have "contains_str ''://'' ''https://c''" "contains_str ''://'' ''https://o''" "contains_str ''://'' ''http://l''" by code_simp+
  then show "cd_url prod_deps raw = Ok u \<Longrightarrow> contains_str ''://'' raw" by (auto simp: prod_deps_def split: if_splits)
qed

text \<open>The logs go to a forwarder on loopback, the traces to a collector over TLS.\<close>

definition example_client_tls :: client_tls where
  "example_client_tls = \<lparr>ct_cert = (''-----BEGIN c'', ''-----BEGIN k''), ct_root_cas = None\<rparr>"

lemma example_client_tls_built:
  "build_client_tls_config (cd_key_pair prod_deps) system_roots parses_ca prod_config = Ok (Some example_client_tls)"
proof -
  have "cf_tls_ca prod_config = None"
    by (simp add: prod_config_def read_settings_def Let_def case_prod_unfold get_env_optional_string_def
        decode_certificate_def getenv_def prod_env_def)
  then show ?thesis by (simp add: build_client_tls_config_def prod_read prod_deps_def example_client_tls_def)
qed

lemma setup_logs_exporter:
  "init_logging td tc = Ok (Some x, f) \<Longrightarrow> tc_logs tc \<noteq> [] \<Longrightarrow> x \<in> set (te_exporters (telemetry_setup td tc))"
  by (auto simp: telemetry_setup_def started_one_def Let_def split: sum.splits option.splits)

definition insecure_logs_exporter :: "string \<Rightarrow> exporter" where
  "insecure_logs_exporter a = \<lparr>ex_signal = Logs, ex_grpc = False,
     ex_options = [WithEndpoint ''LocalHost.:4317'', WithInsecure] @
       (if a = [] then [] else [WithHTTPClient \<lparr>oc_dial = a, oc_tls = None\<rparr>])\<rparr>"

lemma example_exporters:
  assumes "cf_otlp_protocol cfg = []" and "cf_logs_endpoint cfg = ''http://l''"
  shows "insecure_logs_exporter (cf_otlp_connect_to cfg) \<in>
    set (te_exporters (telemetry_setup telemetry_example (telemetry_config_of cfg (Some example_client_tls) None)))"
proof -
  have "contains_str ''://'' ''http://l''" by code_simp
  then have p: "parse_otlp_endpoint (cd_url prod_deps) ''http://l'' = \<lparr>oe_host = ''LocalHost.:4317'', oe_path = [], oe_tls = False\<rparr>"
    by (simp add: parse_otlp_endpoint_def prod_deps_def prod_url_def)
  have l: "init_logging telemetry_example (telemetry_config_of cfg (Some example_client_tls) None) =
      Ok (Some (insecure_logs_exporter (cf_otlp_connect_to cfg)), True)"
    by (simp add: init_logging_def telemetry_example_def telemetry_config_of_def assms new_exporter_def exporters_agree plan_otlp_transport_def p
        is_grpc_protocol_def http_exporter_def credentials_option_def override_http_client_def insecure_logs_exporter_def)
  show ?thesis using setup_logs_exporter [OF l] by (simp add: telemetry_config_of_def assms(2))
qed

lemma prod_telemetry: "cf_otlp_protocol prod_config = []" "cf_otlp_connect_to prod_config = []"
  by (simp_all add: prod_config_def read_settings_def Let_def case_prod_unfold getenv_def prod_env_def get_env_string_def)


section \<open>A connect-to override takes cleartext off the host\<close>

text \<open>The environment of the example with OTEL_EXPORTER_OTLP_CONNECT_TO set.\<close>

definition override_env :: environment where
  "override_env = (getenv prod_env)(''OTEL_EXPORTER_OTLP_CONNECT_TO'' := ''h:443'')"

lemma override_env_values:
  "override_env ''OTEL_EXPORTER_OTLP_CONNECT_TO'' = ''h:443''"
  "k \<noteq> ''OTEL_EXPORTER_OTLP_CONNECT_TO'' \<Longrightarrow> override_env k = getenv prod_env k"
  by (simp_all add: override_env_def)

definition override_config :: config where
  "override_config = fst (read_settings prod_deps override_env ''c'' None True)"

lemma override_read:
  "cf_controller_url override_config = ''https://c''" "cf_env_level override_config = ''production''"
  "cf_tls_cert override_config = Some ''-----BEGIN c''" "cf_tls_key override_config = Some ''-----BEGIN k''"
  "cf_connector_id override_config = ''c''" "cf_disable_telemetry override_config = False"
  "cf_metrics_endpoint override_config = ''https://o''" "cf_traces_endpoint override_config = ''https://o''"
  "cf_logs_endpoint override_config = ''http://l''" "cf_config_enabled override_config = True"
  "cf_config_refresh_interval override_config = 30 * nanos" "cf_redaction_rules_file override_config = None"
  "cf_otlp_connect_to override_config = ''h:443''"
  by (simp_all add: override_config_def override_env_def read_settings_fields getenv_example get_env_string_def get_env_bool_def
      get_env_optional_string_def get_env_duration_def decode_certificate_def prod_texts
      default_config_refresh_interval_def)

lemma override_protocol: "cf_otlp_protocol override_config = []"
  by (simp add: override_config_def override_env_def read_settings_def Let_def case_prod_unfold getenv_def prod_env_def
      get_env_string_def)

lemma override_loads: "load_from prod_deps override_env = Ok override_config"
proof -
  have "load_upstream_tls_ca (cd_file prod_deps) override_env = Ok None"
    by (simp add: load_upstream_tls_ca_def override_env_def get_env_optional_string_def getenv_example decode_certificate_def)
  moreover have "config_enabled_setting override_env = Ok True"
    by (simp add: config_enabled_setting_def override_env_def getenv_example prod_texts)
  moreover have "snd (read_settings prod_deps override_env ''c'' None True) = []"
    by (simp add: read_settings_def override_env_def Let_def case_prod_unfold reader_int_def reader_duration_def getenv_example)
  moreover have "check_policies prod_deps override_config = Ok override_config"
    by (simp add: check_policies_def validate_remote_config_def validate_controller_connection_def
        apply_telemetry_policy_def endpoint_error_def override_read prod_urls prod_texts prod_ports
        prod_deps_def is_dev_def env_level_development_def nanos_def)
  ultimately have f: "finish_load prod_deps override_env (read_settings prod_deps override_env ''c'' None True) = Ok override_config"
    using override_read
    by (simp add: finish_load_def reader_err_def reload_interval_setting_def override_env_values getenv_example
        flip: override_config_def)
  have "check_connect_to override_env = None"
    by (simp add: check_connect_to_def override_env_def getenv_example get_env_string_def get_env_bool_def validate_connect_to_def
        prod_ports prod_texts contains_str.simps has_prefix_def)
  then show ?thesis using f \<open>load_upstream_tls_ca (cd_file prod_deps) override_env = Ok None\<close>
      \<open>config_enabled_setting override_env = Ok True\<close>
    by (simp add: load_from_def override_env_def getenv_example prod_texts)
qed

text \<open>
  The loopback exception does not hold under a connect-to override: Load accepts, in production,
  an http:// endpoint on loopback together with OTEL_EXPORTER_OTLP_CONNECT_TO, and the exporter
  that starts then sends the logs without TLS to the override's address, which need not be local.
\<close>

lemma otlp_override_cleartext:
  "\<exists>e cfg. load_from prod_deps e = Ok cfg \<and> cf_env_level cfg = ''production'' \<and>
     (\<exists>x \<in> set (te_exporters (telemetry_setup telemetry_example (telemetry_config_of cfg (Some example_client_tls) None))).
        WithInsecure \<in> set (ex_options x) \<and> exporter_fixed x ''h:443'')"
  using override_loads override_read example_exporters [of override_config] override_protocol
  by (intro exI [of _ override_env] exI [of _ override_config])
    (auto simp: insecure_logs_exporter_def exporter_fixed_def intro!: bexI [of _ "insecure_logs_exporter ''h:443''"])

end
