(* ===== verification/Logging.thy ===== *)
theory Logging
  imports Telemetry
begin

text \<open>
  connector-lib/logging/logger.go, the handler of local runs, and the fan-out of
  connector-lib/telemetry/logging.go, as slog handlers. An attribute's value is known by the text
  the verb v of fmt gives it, an instant by its formatted text. slog's own part is its contract for
  handlers, which the last section compares the text handler with.
\<close>

section \<open>The text handler\<close>

type_synonym log_attr = "string \<times> string"

record log_record =
  lr_time :: "string option"
  lr_level :: int
  lr_source :: "(string \<times> nat) option"
  lr_message :: string
  lr_attrs :: "log_attr list"

record text_handler =
  th_attrs :: "log_attr list"
  th_groups :: "string list"

text \<open>slog's levels and their names.\<close>

definition level_debug :: int where "level_debug = - 4"
definition level_info :: int where "level_info = 0"
definition level_warn :: int where "level_warn = 4"
definition level_error :: int where "level_error = 8"

definition level_name :: "int \<Rightarrow> string" where
  "level_name l =
     (let name = (\<lambda>base n. if n = 0 then base
        else base @ (if n < 0 then ''-'' else ''+'') @ format_uint (nat \<bar>n\<bar>)) in
      if l < level_info then name ''DEBUG'' (l - level_debug)
      else if l < level_warn then name ''INFO'' (l - level_info)
      else if l < level_error then name ''WARN'' (l - level_warn)
      else name ''ERROR'' (l - level_error))"

definition color_reset :: string where "color_reset = CHR 0x1B # ''[0m''"
definition color_red :: string where "color_red = CHR 0x1B # ''[31m''"
definition color_yellow :: string where "color_yellow = CHR 0x1B # ''[33m''"
definition color_green :: string where "color_green = CHR 0x1B # ''[32m''"
definition color_blue :: string where "color_blue = CHR 0x1B # ''[34m''"

lemmas color_defs = color_reset_def color_red_def color_yellow_def color_green_def color_blue_def

definition level_color :: "int \<Rightarrow> string" where
  "level_color l =
     (if l \<le> level_debug then color_blue else if l = level_info then color_green
      else if l = level_warn then color_yellow else color_red)"

definition new_text_handler :: text_handler where
  "new_text_handler = \<lparr>th_attrs = [], th_groups = []\<rparr>"

definition text_enabled :: "text_handler \<Rightarrow> int \<Rightarrow> bool" where
  "text_enabled h l = True"

definition text_with_attrs :: "log_attr list \<Rightarrow> text_handler \<Rightarrow> text_handler" where
  "text_with_attrs attrs h = h\<lparr>th_attrs := th_attrs h @ attrs\<rparr>"

definition text_with_group :: "string \<Rightarrow> text_handler \<Rightarrow> text_handler" where
  "text_with_group name h = h\<lparr>th_groups := th_groups h @ [name]\<rparr>"

definition pad_to :: "nat \<Rightarrow> string \<Rightarrow> string" where
  "pad_to n s = s @ replicate (n - length s) (CHR '' '')"

definition group_prefix :: "string list \<Rightarrow> string" where
  "group_prefix gs = (if gs = [] then [] else join_with (CHR ''.'') gs @ ''.'')"

definition qualify :: "string list \<Rightarrow> log_attr \<Rightarrow> log_attr" where
  "qualify gs a = (group_prefix gs @ fst a, snd a)"

definition attr_text :: "log_attr \<Rightarrow> string" where
  "attr_text a = '' '' @ fst a @ ''='' @ snd a"

text \<open>The attributes Handle writes, with \<open>rid\<close> the request's key and identifier if it has one.\<close>

definition written_attrs :: "log_attr option \<Rightarrow> text_handler \<Rightarrow> log_record \<Rightarrow> log_attr list" where
  "written_attrs rid h r =
     map (qualify (th_groups h))
       (th_attrs h @ (case rid of None \<Rightarrow> [] | Some (k, v) \<Rightarrow> if v = [] then [] else [(k, v)]) @ lr_attrs r)"

definition base_name :: "string \<Rightarrow> string" where
  "base_name file = (case cut_last (CHR ''/'') file of None \<Rightarrow> file | Some (dir, name) \<Rightarrow> name)"

definition text_line :: "string \<Rightarrow> log_attr option \<Rightarrow> text_handler \<Rightarrow> log_record \<Rightarrow> string" where
  "text_line now rid h r =
     (case lr_time r of None \<Rightarrow> now | Some t \<Rightarrow> t) @ '' '' @
     level_color (lr_level r) @ pad_to 5 (level_name (lr_level r)) @ color_reset @ '' '' @
     (case lr_source r of None \<Rightarrow> [] | Some (file, line) \<Rightarrow> base_name file @ '':'' @ format_uint line @ '' '') @
     lr_message r @ concat (map attr_text (written_attrs rid h r)) @ [CHR 0x0A]"

text \<open>Handle: the line goes to the writer in one call, under the mutex; its error is the writer's.\<close>

definition text_handle ::
    "string \<Rightarrow> log_attr option \<Rightarrow> (string \<Rightarrow> string option) \<Rightarrow> text_handler \<Rightarrow> log_record \<Rightarrow> string list \<times> string option" where
  "text_handle now rid writer h r = ([text_line now rid h r], writer (text_line now rid h r))"

section \<open>Handlers in general\<close>

text \<open>
  What a logger relies on: deriving a handler does not change which levels it takes, and attributes
  may be added together or one after the other.
\<close>

datatype log_op = AddAttrs "log_attr list" | OpenGroup string

locale slog_handler =
  fixes enabled :: "'h \<Rightarrow> int \<Rightarrow> bool"
    and with_attrs :: "log_attr list \<Rightarrow> 'h \<Rightarrow> 'h"
    and with_group :: "string \<Rightarrow> 'h \<Rightarrow> 'h"
  assumes enabled_attrs: "enabled (with_attrs as h) l = enabled h l"
    and enabled_group: "enabled (with_group g h) l = enabled h l"
    and attrs_append: "with_attrs bs (with_attrs as h) = with_attrs (as @ bs) h"
    and attrs_nil: "with_attrs [] h = h"
begin

text \<open>The handler of a logger made by With and WithGroup.\<close>

fun derive :: "log_op list \<Rightarrow> 'h \<Rightarrow> 'h" where
  "derive [] h = h"
| "derive (AddAttrs as # ops) h = derive ops (with_attrs as h)"
| "derive (OpenGroup g # ops) h = derive ops (with_group g h)"

lemma derive_append: "derive (xs @ ys) h = derive ys (derive xs h)"
  by (induction xs h rule: derive.induct) simp_all

lemma derive_enabled: "enabled (derive ops h) l = enabled h l"
  by (induction ops h rule: derive.induct) (simp_all add: enabled_attrs enabled_group)

lemma derive_joined: "derive (xs @ AddAttrs as # AddAttrs bs # ys) h = derive (xs @ AddAttrs (as @ bs) # ys) h"
  by (simp add: derive_append attrs_append)

lemma derive_empty: "derive (xs @ AddAttrs [] # ys) h = derive (xs @ ys) h"
  by (simp add: derive_append attrs_nil)

end

text \<open>fanoutHandler's With methods, over those of its handlers, and its Enabled.\<close>

definition fanout_with_attrs :: "(log_attr list \<Rightarrow> 'h \<Rightarrow> 'h) \<Rightarrow> log_attr list \<Rightarrow> 'h list \<Rightarrow> 'h list" where
  "fanout_with_attrs wa as hs = map (wa as) hs"

definition fanout_with_group :: "(string \<Rightarrow> 'h \<Rightarrow> 'h) \<Rightarrow> string \<Rightarrow> 'h list \<Rightarrow> 'h list" where
  "fanout_with_group wg g hs = map (wg g) hs"

definition fanout_takes :: "('h \<Rightarrow> int \<Rightarrow> bool) \<Rightarrow> 'h list \<Rightarrow> int \<Rightarrow> bool" where
  "fanout_takes en hs l = fanout_enabled (map (\<lambda>h. (en h, \<lambda>r :: unit. None)) hs) l"

text \<open>A handler that writes records itself, and may stand in a fan-out: the fan-out is a handler too.\<close>

locale slog_backend = slog_handler

sublocale slog_backend \<subseteq> fan: slog_handler "fanout_takes enabled" "fanout_with_attrs with_attrs" "fanout_with_group with_group"
  by unfold_locales
    (simp_all add: fanout_takes_def fanout_enabled_def fanout_with_attrs_def fanout_with_group_def list_ex_iff
      enabled_attrs enabled_group attrs_append attrs_nil comp_def map_idI)

interpretation text_log: slog_backend text_enabled text_with_attrs text_with_group
  by unfold_locales (simp_all add: text_enabled_def text_with_attrs_def text_with_group_def)

section \<open>Properties\<close>

text \<open>What a derivation adds, and what slog's contract makes of it: a group qualifies what comes after.\<close>

fun attrs_of :: "log_op list \<Rightarrow> log_attr list" where
  "attrs_of [] = []"
| "attrs_of (AddAttrs as # ops) = as @ attrs_of ops"
| "attrs_of (OpenGroup g # ops) = attrs_of ops"

fun groups_of :: "log_op list \<Rightarrow> string list" where
  "groups_of [] = []"
| "groups_of (AddAttrs as # ops) = groups_of ops"
| "groups_of (OpenGroup g # ops) = g # groups_of ops"

fun contract_attrs :: "string list \<Rightarrow> log_op list \<Rightarrow> log_attr list" where
  "contract_attrs gs [] = []"
| "contract_attrs gs (AddAttrs as # ops) = map (qualify gs) as @ contract_attrs gs ops"
| "contract_attrs gs (OpenGroup g # ops) = contract_attrs (gs @ [g]) ops"

text \<open>No attribute is added before a group is opened.\<close>

fun groups_first :: "log_op list \<Rightarrow> bool" where
  "groups_first [] = True"
| "groups_first (AddAttrs as # ops) = ((as = [] \<or> groups_of ops = []) \<and> groups_first ops)"
| "groups_first (OpenGroup g # ops) = groups_first ops"

lemma text_derived:
  "text_log.derive ops h = h\<lparr>th_attrs := th_attrs h @ attrs_of ops, th_groups := th_groups h @ groups_of ops\<rparr>"
proof (induction ops arbitrary: h)
  case (Cons x xs)
  show ?case
    by (cases x; simp only: text_log.derive.simps Cons attrs_of.simps groups_of.simps)
      (simp_all add: text_with_attrs_def text_with_group_def)
qed simp

lemma join_with_snoc: "gs \<noteq> [] \<Longrightarrow> join_with c (gs @ [g]) = join_with c gs @ c # g"
  by (induction c gs rule: join_with.induct) auto

lemma group_prefix_longer: "length (group_prefix gs) < length (group_prefix (gs @ hs)) \<longleftrightarrow> hs \<noteq> []"
proof (induction hs rule: rev_induct)
  case (snoc h hs)
  have "length (group_prefix (gs @ hs)) < length (group_prefix ((gs @ hs) @ [h]))"
    by (cases "gs @ hs = []") (simp_all add: group_prefix_def join_with_snoc del: append_assoc)
  then show ?case using snoc by (cases "hs = []") auto
qed simp

lemma qualify_eq: "qualify (gs @ hs) a = qualify gs a \<longleftrightarrow> hs = []"
  using group_prefix_longer [of gs hs] by (auto simp: qualify_def)

lemma contract_length: "length (contract_attrs gs ops) = length (attrs_of ops)"
  by (induction gs ops rule: contract_attrs.induct) simp_all

lemma contract_eq:
  "map (qualify (gs @ groups_of ops)) (attrs_of ops) = contract_attrs gs ops \<longleftrightarrow> groups_first ops"
proof (induction gs ops rule: contract_attrs.induct)
  case (2 gs as ops)
  have "map (qualify (gs @ groups_of ops)) as = map (qualify gs) as \<longleftrightarrow> as = [] \<or> groups_of ops = []"
    by (cases as) (auto simp: qualify_eq)
  then show ?case using 2 by auto
qed simp_all

text \<open>
  The keys the text handler writes. A logger made from it by any sequence of With and WithGroup
  writes its attributes in the order they were added, then the request's identifier, then the
  record's, all of them qualified by all of the logger's groups. That is what slog's contract asks,
  that a group qualifies the attributes added after it, exactly when no attribute was added before a
  group was opened.
\<close>

theorem text_handler_keys:
  "written_attrs rid (text_log.derive ops new_text_handler) r =
     map (qualify (groups_of ops))
       (attrs_of ops @ (case rid of None \<Rightarrow> [] | Some (k, v) \<Rightarrow> if v = [] then [] else [(k, v)]) @ lr_attrs r) \<and>
   (written_attrs None (text_log.derive ops new_text_handler) r =
      contract_attrs [] ops @ map (qualify (groups_of ops)) (lr_attrs r) \<longleftrightarrow> groups_first ops)"
  using contract_eq [of "[]" ops] by (simp add: written_attrs_def text_derived new_text_handler_def)

text \<open>So a logger with an attribute that then opens a group renames the attribute.\<close>

lemma attribute_renamed:
  "map fst (written_attrs None (text_log.derive [AddAttrs [(''target'', ''db:1'')], OpenGroup ''tls''] new_text_handler) r) =
     [''tls.target''] @ map (\<lambda>a. ''tls.'' @ fst a) (lr_attrs r)"
  by (simp add: written_attrs_def text_derived new_text_handler_def qualify_def group_prefix_def)

text \<open>The red of errors is also that of every level between the named ones.\<close>

lemma red_levels: "level_color l = color_red \<longleftrightarrow> level_debug < l \<and> l \<noteq> level_info \<and> l \<noteq> level_warn"
  by (auto simp: level_color_def color_defs)

text \<open>The lines a record comes out as: one more than the line breaks in what it says.\<close>

definition line_breaks :: "string \<Rightarrow> nat" where
  "line_breaks s = length (filter (\<lambda>c. c = CHR 0x0A) s)"

lemma line_breaks_simps [simp]:
  "line_breaks [] = 0" "line_breaks (c # s) = (if c = CHR 0x0A then 1 else 0) + line_breaks s"
  "line_breaks (s @ t) = line_breaks s + line_breaks t" "line_breaks (replicate n (CHR '' '')) = 0"
  by (simp_all add: line_breaks_def)

lemma line_breaks_uint [simp]: "line_breaks (format_uint n) = 0"
  using format_uint_digits [of "CHR 0x0A" n] by (auto simp: line_breaks_def filter_empty_conv is_digit_def)

lemma line_breaks_level [simp]: "line_breaks (level_name l) = 0"
  by (simp add: level_name_def Let_def)

lemma line_breaks_color [simp]: "line_breaks (level_color l) = 0" "line_breaks color_reset = 0"
  by (simp_all add: level_color_def color_defs)

lemma line_breaks_attrs: "line_breaks (concat (map attr_text as)) = sum_list (map (\<lambda>a. line_breaks (fst a) + line_breaks (snd a)) as)"
  by (induction as) (simp_all add: attr_text_def)

lemma record_lines:
  "line_breaks (text_line now rid h r) =
     1 + line_breaks (case lr_time r of None \<Rightarrow> now | Some t \<Rightarrow> t) +
     (case lr_source r of None \<Rightarrow> 0 | Some (file, line) \<Rightarrow> line_breaks (base_name file)) +
     line_breaks (lr_message r) +
     sum_list (map (\<lambda>a. line_breaks (fst a) + line_breaks (snd a)) (written_attrs rid h r))"
  by (cases "lr_source r") (auto simp: text_line_def pad_to_def line_breaks_attrs)

text \<open>Nothing is quoted: a record whose value has a line break forges the start of a line.\<close>

lemma forged_line:
  "line_breaks (text_line ''t'' None new_text_handler
     \<lparr>lr_time = None, lr_level = level_info, lr_source = None, lr_message = ''m'',
      lr_attrs = [(''error'', ''x'' @ CHR 0x0A # ''2026-01-01 00:00:00.000 pipe opened'')]\<rparr>) = 2"
  by (simp add: record_lines written_attrs_def new_text_handler_def qualify_def group_prefix_def)

text \<open>Loggers over a fan-out of text handlers take what any of them takes, however they are derived.\<close>

lemma fanout_derived_takes: "fanout_takes text_enabled (text_log.fan.derive ops hs) l = fanout_takes text_enabled hs l"
  by (rule text_log.fan.derive_enabled)

end
