(* ===== verification/Sanitize.thy ===== *)
theory Sanitize
  imports GoNet
begin

text \<open>
  internal/telemetry/target.go: an error's message reduced to the origins of the request URLs in it.
  An error is its message, the URL it carries if it is a *url.Error, and what it unwraps to. The
  parser of URLs and strconv.Quote are parameters.
\<close>

section \<open>SanitizeError\<close>

datatype go_error = GoError (go_message: string) "string option" "go_error list"

fun request_urls_in :: "go_error \<Rightarrow> string list" where
  "request_urls_in (GoError msg u es) =
     (case u of Some raw \<Rightarrow> if raw \<noteq> [] then [raw] else [] | None \<Rightarrow> []) @ concat (map request_urls_in es)"

definition origin_of :: "(string \<Rightarrow> string + url) \<Rightarrow> string \<Rightarrow> string" where
  "origin_of parse_url raw =
     (case parse_url raw of
        Inl e \<Rightarrow> ''unknown''
      | Inr u \<Rightarrow>
          if url_host u = [] then ''unknown''
          else if url_scheme u = [] then url_host u
          else url_scheme u @ ''://'' @ url_host u)"

text \<open>One target: its quoted spelling first, then the bare one. The targets go longest first, stably.\<close>

definition reduce_target :: "(string \<Rightarrow> string) \<Rightarrow> (string \<Rightarrow> string) \<Rightarrow> string \<Rightarrow> string \<Rightarrow> string" where
  "reduce_target quote origin msg raw =
     replace_all_str raw (origin raw) (replace_all_str (quote raw) (quote (origin raw)) msg)"

definition longest_first :: "string list \<Rightarrow> string list" where
  "longest_first xs = sort_key (\<lambda>s. - int (length s)) xs"

definition sanitize_error :: "(string \<Rightarrow> string) \<Rightarrow> (string \<Rightarrow> string + url) \<Rightarrow> go_error option \<Rightarrow> string option" where
  "sanitize_error quote parse_url err =
     map_option (\<lambda>e. foldl (reduce_target quote (origin_of parse_url)) (go_message e) (longest_first (request_urls_in e))) err"

text \<open>RecordError: the event put on the span, if any, and the reduced error.\<close>

definition record_error ::
    "(string \<Rightarrow> string) \<Rightarrow> (string \<Rightarrow> string + url) \<Rightarrow> (go_error \<Rightarrow> string) \<Rightarrow> go_error option \<Rightarrow>
     (string \<times> (string \<times> string) list) list \<times> string option" where
  "record_error quote parse_url type_name err =
     (case err of
        None \<Rightarrow> ([], None)
      | Some e \<Rightarrow>
          let safe = sanitize_error quote parse_url (Some e) in
          ([(''exception'', [(''exception.type'', type_name e), (''exception.message'', (case safe of Some m \<Rightarrow> m | None \<Rightarrow> []))])], safe))"

section \<open>Replacing between quotes\<close>

abbreviation dq :: char where "dq \<equiv> CHR 0x22"

definition quoted :: "string \<Rightarrow> string" where "quoted s = dq # s @ [dq]"

lemma replace_all_Nil [simp]: "replace_all_str old new [] = []"
  by (simp add: replace_all_str.simps)

lemma replace_all_step:
  "old \<noteq> [] \<Longrightarrow> replace_all_str old new (old @ rest) = new @ replace_all_str old new rest"
  by (subst replace_all_str.simps) (auto simp: go_string)

lemma replace_all_skip:
  "(\<And>rest. c # cs \<noteq> old @ rest) \<Longrightarrow> replace_all_str old new (c # cs) = c # replace_all_str old new cs"
  by (subst replace_all_str.simps) (auto simp: go_string split: option.splits)

lemma replace_all_same: "replace_all_str old old s = s"
proof (induction "length s" arbitrary: s rule: less_induct)
  case less
  show ?case
  proof (cases "old = [] \<or> s = []")
    case False
    then show ?thesis using less by (subst replace_all_str.simps) (auto simp: go_string split: option.splits)
  qed (simp add: replace_all_str.simps)
qed

lemma contains_str_iff: "contains_str p s \<longleftrightarrow> (\<exists>a b. s = a @ p @ b)"
proof (induction s)
  case (Cons c cs)
  have "(\<exists>a b. c # cs = a @ p @ b) \<longleftrightarrow> has_prefix p (c # cs) \<or> (\<exists>a b. cs = a @ p @ b)"
    by (auto simp: has_prefix_iff Cons_eq_append_conv)
  then show ?case using Cons by simp
qed auto

lemma contains_str_Cons: "\<not> contains_str p (c # cs) \<Longrightarrow> \<not> contains_str p cs"
  by simp

lemma replace_all_absent: "old \<noteq> [] \<Longrightarrow> \<not> contains_str old s \<Longrightarrow> replace_all_str old new s = s"
proof (induction s)
  case (Cons c cs)
  then have "\<And>rest. c # cs \<noteq> old @ rest" by (auto simp: has_prefix_iff)
  then show ?case using Cons by (simp add: replace_all_skip)
qed simp

text \<open>A string without quotes that starts before a quote ends before it.\<close>

lemma before_quote:
  assumes "a @ dq # b = u @ rest" and "dq \<notin> set u"
  shows "\<exists>a'. a = u @ a' \<and> rest = a' @ dq # b"
  using assms
proof (induction u arbitrary: a)
  case (Cons c u)
  then show ?case by (cases a) auto
qed simp

text \<open>The bare spelling: a quote is where a replacement stops.\<close>

lemma replace_all_at_quote:
  assumes "u \<noteq> []" and "dq \<notin> set u"
  shows "replace_all_str u new (a @ dq # b) = replace_all_str u new a @ dq # replace_all_str u new b"
proof (induction "length a" arbitrary: a rule: less_induct)
  case less
  show ?case
  proof (cases a)
    case Nil
    have "\<And>rest. dq # b \<noteq> u @ rest" using assms by (cases u) auto
    then show ?thesis using Nil by (simp add: replace_all_skip)
  next
    case (Cons c a')
    show ?thesis
    proof (cases "\<exists>r. a = u @ r")
      case True
      then obtain r where r: "a = u @ r" by blast
      then have "length r < length a" using assms(1) by simp
      from less [OF this] show ?thesis using assms(1) by (simp add: r replace_all_step)
    next
      case False
      then have "\<And>rest. a @ dq # b \<noteq> u @ rest" using before_quote [OF _ assms(2)] by blast
      then have "replace_all_str u new (a @ dq # b) = c # replace_all_str u new (a' @ dq # b)"
        using Cons by (simp add: replace_all_skip)
      moreover have "replace_all_str u new a = c # replace_all_str u new a'"
        using Cons False by (auto intro: replace_all_skip)
      ultimately show ?thesis using less [of a'] Cons by simp
    qed
  qed
qed

text \<open>The quoted spelling: a piece before a quote that does not hold the target is kept.\<close>

lemma replace_quoted_keep:
  assumes "dq \<notin> set u" and "\<not> contains_str u t"
  shows "replace_all_str (quoted u) new (t @ dq # rest) = t @ replace_all_str (quoted u) new (dq # rest)"
  using assms(2)
proof (induction t)
  case (Cons c t)
  have "\<And>r. c # (t @ dq # rest) \<noteq> quoted u @ r"
  proof
    fix r assume "c # (t @ dq # rest) = quoted u @ r"
    then have "t @ dq # rest = u @ (dq # r)" by (simp add: quoted_def)
    then obtain a' where "t = u @ a'" using before_quote [OF _ assms(1)] by blast
    then have "c # t = [c] @ u @ a'" by simp
    then show False using Cons.prems contains_str_iff by blast
  qed
  then have "replace_all_str (quoted u) new (c # (t @ dq # rest)) = c # replace_all_str (quoted u) new (t @ dq # rest)"
    by (rule replace_all_skip)
  then show ?case using Cons by simp
qed simp

lemma replace_quoted_last:
  assumes "\<not> contains_str u t"
  shows "replace_all_str (quoted u) new t = t"
proof (rule replace_all_absent)
  show "\<not> contains_str (quoted u) t"
  proof
    assume "contains_str (quoted u) t"
    then obtain a b where "t = a @ quoted u @ b" by (auto simp: contains_str_iff)
    then have "t = (a @ [dq]) @ u @ (dq # b)" by (simp add: quoted_def)
    then show False using assms contains_str_iff by blast
  qed
qed (simp add: quoted_def)

section \<open>A message with quoted targets\<close>

text \<open>
  What wrapped url.Errors look like: text, then a quoted target followed by text, and so on. The
  text between may hold quotes of its own.
\<close>

definition quoting :: "string \<Rightarrow> (string \<times> string) list \<Rightarrow> string" where
  "quoting t0 xs = t0 @ concat (map (\<lambda>(u, t). quoted u @ t) xs)"

lemma quoting_simps [simp]:
  "quoting t0 [] = t0" "quoting t0 ((u, t) # xs) = t0 @ dq # u @ dq # quoting t xs"
  by (simp_all add: quoting_def quoted_def)

lemma replace_quoted_target:
  assumes "u \<noteq> []" and "dq \<notin> set u" and "\<not> contains_str u t0"
    and "\<forall>(v, t) \<in> set xs. dq \<notin> set v \<and> \<not> contains_str u t"
  shows "replace_all_str (quoted u) (quoted o') (quoting t0 xs) = quoting t0 (map (\<lambda>(v, t). (if v = u then o' else v, t)) xs)"
  using assms(3,4)
proof (induction xs arbitrary: t0)
  case Nil
  then show ?case by (simp add: replace_quoted_last)
next
  case (Cons x xs)
  obtain v t where x: "x = (v, t)" by force
  have t: "\<not> contains_str u t" "dq \<notin> set v" using Cons.prems(2) x by auto
  have ih: "replace_all_str (quoted u) (quoted o') (quoting t xs) = quoting t (map (\<lambda>(v, t). (if v = u then o' else v, t)) xs)"
    using Cons.IH [OF t(1)] Cons.prems(2) by simp
  have s: "replace_all_str (quoted u) (quoted o') (quoting t0 (x # xs)) =
      t0 @ replace_all_str (quoted u) (quoted o') (dq # v @ dq # quoting t xs)"
    using replace_quoted_keep [OF assms(2) Cons.prems(1)] x by simp
  show ?case
  proof (cases "v = u")
    case True
    have "dq # v @ dq # quoting t xs = quoted u @ quoting t xs" using True by (simp add: quoted_def)
    moreover have "quoted u \<noteq> []" by (simp add: quoted_def)
    ultimately have "replace_all_str (quoted u) (quoted o') (dq # v @ dq # quoting t xs) = quoted o' @ replace_all_str (quoted u) (quoted o') (quoting t xs)"
      using replace_all_step by metis
    then show ?thesis using s ih x True by (simp add: quoted_def)
  next
    case False
    have "\<And>r. dq # (v @ dq # quoting t xs) \<noteq> quoted u @ r"
    proof
      fix r assume "dq # (v @ dq # quoting t xs) = quoted u @ r"
      then have e: "v @ dq # quoting t xs = u @ dq # r" by (simp add: quoted_def)
      then obtain a' where a: "v = u @ a'" "dq # r = a' @ dq # quoting t xs" using before_quote [OF _ assms(2)] by blast
      then have "a' = []" using t(2) by (cases a') auto
      then show False using a False by simp
    qed
    then have "replace_all_str (quoted u) (quoted o') (dq # v @ dq # quoting t xs) =
        dq # replace_all_str (quoted u) (quoted o') (v @ dq # quoting t xs)"
      using replace_all_skip by metis
    also have "replace_all_str (quoted u) (quoted o') (v @ dq # quoting t xs) =
        v @ replace_all_str (quoted u) (quoted o') (dq # quoting t xs)"
    proof -
      have "replace_all_str (quoted u) (quoted o') (w @ dq # r) = w @ replace_all_str (quoted u) (quoted o') (dq # r)"
        if "dq \<notin> set w" for w r using that
      proof (induction w)
        case (Cons c w)
        then have "\<And>z. c # (w @ dq # r) \<noteq> quoted u @ z" by (auto simp: quoted_def)
        then show ?case using Cons replace_all_skip by fastforce
      qed simp
      then show ?thesis using t(2) .
    qed
    also have "replace_all_str (quoted u) (quoted o') (dq # quoting t xs) = dq # replace_all_str (quoted u) (quoted o') (quoting t xs)"
    proof (rule replace_all_skip)
      fix r show "dq # quoting t xs \<noteq> quoted u @ r"
      proof
        assume "dq # quoting t xs = quoted u @ r"
        then have e: "quoting t xs = u @ dq # r" by (simp add: quoted_def)
        show False
        proof (cases xs)
          case Nil
          then show False using e t(1) contains_str_iff [of u t] by (metis append_Nil quoting_simps(1))
        next
          case (Cons y ys)
          then obtain v' t' where "quoting t xs = t @ dq # v' @ dq # quoting t' ys" by (cases y) simp
          then obtain a' where "t = u @ a'" using before_quote [OF _ assms(2)] e by metis
          then show False using t(1) contains_str_iff [of u t] by (metis append_Nil)
        qed
      qed
    qed
    finally show ?thesis using s ih x False by simp
  qed
qed

lemma replace_bare_target:
  assumes "u \<noteq> []" and "dq \<notin> set u" and "\<not> contains_str u t0" and "\<forall>(v, t) \<in> set xs. \<not> contains_str u t"
  shows "replace_all_str u o' (quoting t0 xs) = quoting t0 (map (\<lambda>(v, t). (replace_all_str u o' v, t)) xs)"
  using assms(3,4)
proof (induction xs arbitrary: t0)
  case Nil
  then show ?case using assms(1) by (simp add: replace_all_absent)
next
  case (Cons x xs)
  obtain v t where "x = (v, t)" by force
  then show ?case using Cons assms(1,2) by (auto simp: replace_all_at_quote replace_all_absent)
qed

section \<open>What is left of a target\<close>

text \<open>What strconv.Quote writes between the quotes: not the target itself when it has a byte to escape.\<close>

definition escaped :: "(string \<Rightarrow> string) \<Rightarrow> string \<Rightarrow> string" where
  "escaped quote u = butlast (tl (quote u))"

text \<open>
  The targets of an error, the text between them, and the parameters. No target holds a double quote,
  in either spelling, and an origin needs no escape. A target that is more than an origin occurs in
  neither spelling in the text or in an origin, is told from the other targets by its spelling, and
  does not occur in what escaping makes of one that is not longer.
\<close>

definition clear_targets :: "(string \<Rightarrow> string) \<Rightarrow> (string \<Rightarrow> string) \<Rightarrow> string set \<Rightarrow> string set \<Rightarrow> bool" where
  "clear_targets quote origin targets between \<longleftrightarrow>
     (\<forall>u \<in> targets. u \<noteq> [] \<and> dq \<notin> set u \<and> escaped quote u \<noteq> [] \<and> dq \<notin> set (escaped quote u) \<and> dq \<notin> set (origin u) \<and>
        quote u = quoted (escaped quote u) \<and> quote (origin u) = quoted (origin u)) \<and>
     (\<forall>u \<in> targets. origin u \<noteq> u \<longrightarrow>
        (\<forall>t \<in> between \<union> origin ` targets. \<not> contains_str u t \<and> \<not> contains_str (escaped quote u) t) \<and>
        (\<forall>w \<in> targets - {u}. escaped quote w \<noteq> escaped quote u \<and> w \<noteq> escaped quote u \<and>
           (escaped quote w \<noteq> w \<and> length w \<le> length u \<longrightarrow> \<not> contains_str u (escaped quote w))))"

text \<open>A piece of a message: a target in one of its spellings, and the text after it.\<close>

type_synonym piece = "string \<times> string \<times> string"

definition pieces :: "(string \<Rightarrow> string) \<Rightarrow> string set \<Rightarrow> string set \<Rightarrow> piece list \<Rightarrow> bool" where
  "pieces quote targets between xs \<longleftrightarrow>
     (\<forall>(s, w, t) \<in> set xs. w \<in> targets \<and> s \<in> {w, escaped quote w} \<and> t \<in> between)"

text \<open>The message once the targets in D are reduced.\<close>

definition reduced :: "(string \<Rightarrow> string) \<Rightarrow> string set \<Rightarrow> piece \<Rightarrow> string \<times> string" where
  "reduced origin D = (\<lambda>(s, w, t). (if w \<in> D then origin w else s, t))"

lemma contains_shorter: "contains_str u w \<Longrightarrow> length w \<le> length u \<Longrightarrow> w = u"
  by (auto simp: contains_str_iff)

lemma contains_self: "contains_str u u" using contains_str_iff [of u u] by (metis append_Nil append_Nil2)

text \<open>One target: the quoted pass takes it where it is escaped, the bare pass where it is not.\<close>

lemma reduce_target_step:
  assumes c: "clear_targets quote origin T B" and "u \<in> T" and "t0 \<in> B" and xs: "pieces quote T B xs"
    and later: "\<forall>w \<in> T - D. length w \<le> length u"
  shows "reduce_target quote origin (quoting t0 (map (reduced origin D) xs)) u =
    quoting t0 (map (reduced origin (insert u D)) xs)"
proof -
  let ?e = "escaped quote"
  have all: "w \<noteq> [] \<and> dq \<notin> set w \<and> ?e w \<noteq> [] \<and> dq \<notin> set (?e w) \<and> dq \<notin> set (origin w) \<and>
      quote w = quoted (?e w) \<and> quote (origin w) = quoted (origin w)" if "w \<in> T" for w
    using c that unfolding clear_targets_def by blast
  have piece: "w \<in> T" "s = w \<or> s = ?e w" "t \<in> B" if "(s, w, t) \<in> set xs" for s w t
    using xs that by (auto simp: pieces_def)
  show ?thesis
  proof (cases "origin u = u")
    case True
    then have "quoted (?e u) = quoted u" using all [OF assms(2)] by metis
    then have e: "?e u = u" by (simp add: quoted_def)
    then have "reduced origin (insert u D) x = reduced origin D x" if "x \<in> set xs" for x
    proof -
      obtain a w t where x: "x = (a, w, t)" by (cases x)
      then have "a = w \<or> a = ?e w" using piece(2) that by blast
      then show ?thesis using x True e by (auto simp: reduced_def)
    qed
    then have "map (reduced origin (insert u D)) xs = map (reduced origin D) xs" by simp
    then show ?thesis unfolding reduce_target_def True replace_all_same by (simp only:)
  next
    case False
    have n: "\<forall>t \<in> B. \<not> contains_str u t \<and> \<not> contains_str (?e u) t"
        "\<forall>v \<in> T. \<not> contains_str u (origin v) \<and> \<not> contains_str (?e u) (origin v)"
      and other: "\<And>w. w \<in> T \<Longrightarrow> w \<noteq> u \<Longrightarrow> ?e w \<noteq> ?e u \<and> w \<noteq> ?e u \<and>
        (?e w \<noteq> w \<and> length w \<le> length u \<longrightarrow> \<not> contains_str u (?e w))"
      using c assms(2) False unfolding clear_targets_def by blast+
    have u: "u \<noteq> []" "dq \<notin> set u" "?e u \<noteq> []" "dq \<notin> set (?e u)" "quote u = quoted (?e u)"
      "quote (origin u) = quoted (origin u)" using all [OF assms(2)] by blast+
    let ?xs = "map (reduced origin D) xs"
    let ?ys = "map (\<lambda>(v, t). (if v = ?e u then origin u else v, t)) ?xs"
    have q: "dq \<notin> set v \<and> \<not> contains_str (?e u) t \<and> \<not> contains_str u t" if "(v, t) \<in> set ?xs" for v t
      using that piece all n(1) by (fastforce simp: reduced_def split: if_splits)
    have "replace_all_str (quoted (?e u)) (quoted (origin u)) (quoting t0 ?xs) = quoting t0 ?ys"
      using q n(1) assms(3) by (intro replace_quoted_target u) blast+
    moreover have "\<forall>(v, t) \<in> set (map (\<lambda>(v, t). (if v = ?e u then origin u else v, t)) zs). \<not> contains_str u t"
      if "\<And>v t. (v, t) \<in> set zs \<Longrightarrow> \<not> contains_str u t" for zs :: "(string \<times> string) list"
      using that by auto
    then have "replace_all_str u (origin u) (quoting t0 ?ys) =
        quoting t0 (map (\<lambda>(v, t). (replace_all_str u (origin u) v, t)) ?ys)"
      using q n(1) assms(3) by (intro replace_bare_target u) blast+
    moreover have "map (\<lambda>(v, t). (replace_all_str u (origin u) v, t)) ?ys = map (reduced origin (insert u D)) xs"
    proof -
      have "replace_all_str u (origin u) (if p = ?e u then origin u else p) = (if w \<in> insert u D then origin w else s)"
        if x: "(s, w, t) \<in> set xs" and p: "p = (if w \<in> D then origin w else s)" for s w t p
      proof (cases "w \<in> D")
        case True
        then have "p \<noteq> ?e u" using p n(2) piece(1) [OF x] contains_self by force
        then show ?thesis using True p replace_all_absent [OF u(1)] n(2) piece(1) [OF x] by simp
      next
        case nd: False
        show ?thesis
        proof (cases "w = u")
          case True
          have "replace_all_str u (origin u) (origin u) = origin u" using replace_all_absent [OF u(1)] n(2) assms(2) by blast
          moreover have "replace_all_str u (origin u) u = origin u" using replace_all_step [OF u(1), of "origin u" "[]"] by simp
          ultimately show ?thesis using True nd p piece(2) [OF x] by auto
        next
          case False
          note ow = other [OF piece(1) [OF x] False]
          have s: "p = s" "s \<noteq> ?e u" using nd p piece(2) [OF x] ow by auto
          have l: "length w \<le> length u" using later nd piece(1) [OF x] by blast
          have "\<not> contains_str u s"
            using piece(2) [OF x] ow l contains_shorter [of u w] False by metis
          then show ?thesis using s nd False replace_all_absent [OF u(1)] by simp
        qed
      qed
      then show ?thesis by (fastforce simp: reduced_def)
    qed
    ultimately show ?thesis unfolding reduce_target_def u(5,6) by (simp only:)
  qed
qed

lemma reduce_targets:
  assumes c: "clear_targets quote origin T B" and "t0 \<in> B" and xs: "pieces quote T B xs"
  shows "D \<union> set us = T \<Longrightarrow> sorted_wrt (\<lambda>a b. length b \<le> length a) us \<Longrightarrow>
    foldl (reduce_target quote origin) (quoting t0 (map (reduced origin D) xs)) us =
    quoting t0 (map (\<lambda>(s, w, t). (origin w, t)) xs)"
proof (induction us arbitrary: D)
  case Nil
  then have "map (reduced origin D) xs = map (\<lambda>(s, w, t). (origin w, t)) xs"
    using xs by (auto simp: reduced_def pieces_def)
  then show ?case by (simp only: foldl_Nil)
next
  case (Cons u us)
  have "reduce_target quote origin (quoting t0 (map (reduced origin D) xs)) u =
      quoting t0 (map (reduced origin (insert u D)) xs)"
    using Cons.prems by (intro reduce_target_step [OF c _ assms(2) xs]) auto
  then show ?case using Cons by simp
qed

lemma longest_first_sorted: "sorted_wrt (\<lambda>a b. length b \<le> length a) (longest_first xs)"
proof -
  have "sorted (map (\<lambda>s. - int (length s)) (longest_first xs))" by (simp add: longest_first_def)
  then show ?thesis by (simp add: sorted_wrt_map)
qed

text \<open>
  C23. SanitizeError leaves of each request URL its origin. Take an error whose message is text with
  request URLs in quotes in it, however wrapped or joined, each spelled raw or, as url.Error writes
  one with a control character, escaped by strconv.Quote. Provided no URL holds a double quote, and
  none that is more than an origin occurs in the text between or in an origin, or can be taken for
  another, the reduced message is the same text with each URL replaced by its origin: no path, query
  or credential is in it, whatever the order, nesting and repetition of the URLs, a URL that contains
  another included.
\<close>

theorem sanitize_exact:
  assumes "go_message err = quoting t0 (map (\<lambda>(s, u, t). (s, t)) xs)"
    and "\<forall>(s, u, t) \<in> set xs. u \<in> set (request_urls_in err) \<and> s \<in> {u, escaped quote u}"
    and "clear_targets quote (origin_of parse_url) (set (request_urls_in err)) (insert t0 ((\<lambda>(s, u, t). t) ` set xs))"
  shows "sanitize_error quote parse_url (Some err) = Some (quoting t0 (map (\<lambda>(s, u, t). (origin_of parse_url u, t)) xs))"
proof -
  have m: "map (reduced (origin_of parse_url) {}) xs = map (\<lambda>(s, u, t). (s, t)) xs" by (auto simp: reduced_def)
  have "pieces quote (set (request_urls_in err)) (insert t0 ((\<lambda>(s, u, t). t) ` set xs)) xs"
    using assms(2) by (force simp: pieces_def)
  from reduce_targets [OF assms(3) _ this, of t0 "{}" "longest_first (request_urls_in err)"] longest_first_sorted
  have "foldl (reduce_target quote (origin_of parse_url)) (quoting t0 (map (\<lambda>(s, u, t). (s, t)) xs))
      (longest_first (request_urls_in err)) = quoting t0 (map (\<lambda>(s, u, t). (origin_of parse_url u, t)) xs)"
    unfolding m by (simp add: longest_first_def)
  then show ?thesis by (simp only: sanitize_error_def option.map assms(1))
qed

text \<open>A redirect to a URL that does not parse: one target inside the other, and one that is escaped.\<close>

definition bad_url :: string where "bad_url = ''http://h/'' @ [CHR 0x7F]"
definition bad_spelling :: string where "bad_spelling = ''http://h/'' @ [CHR 0x5C] @ ''x7f''"

definition redirect_error :: go_error where
  "redirect_error = GoError (quoting ''Get '' [(''http://h/a?k'', '': Get ''), (''http://h/a'', '': parse ''), (bad_spelling, '': invalid'')])
     (Some ''http://h/a?k'') [GoError (quoting ''Get '' [(''http://h/a'', '': parse ''), (bad_spelling, '': invalid'')])
       (Some ''http://h/a'') [GoError (quoting ''parse '' [(bad_spelling, '': invalid'')]) (Some bad_url) []]]"

definition one_host :: "string \<Rightarrow> string + url" where
  "one_host raw = (if raw = bad_url then Err ''invalid control character''
     else Ok \<lparr>url_scheme = ''http'', url_user = False, url_host = ''h'', url_path = [], url_raw_query = [], url_fragment = []\<rparr>)"

definition escaping_quote :: "string \<Rightarrow> string" where
  "escaping_quote u = quoted (if u = bad_url then bad_spelling else u)"

lemma escaped_example: "escaped escaping_quote u = (if u = bad_url then bad_spelling else u)"
  by (simp add: escaped_def escaping_quote_def quoted_def)

lemma sanitize_exact_witness:
  "sanitize_error escaping_quote one_host (Some redirect_error) =
     Some (quoting ''Get '' [(''http://h'', '': Get ''), (''http://h'', '': parse ''), (''unknown'', '': invalid'')])"
proof -
  let ?xs = "[(''http://h/a?k'', ''http://h/a?k'', '': Get ''), (''http://h/a'', ''http://h/a'', '': parse ''),
    (bad_spelling, bad_url, '': invalid'')]"
  have o: "origin_of one_host raw = (if raw = bad_url then ''unknown'' else ''http://h'')" for raw
    by (simp add: origin_of_def one_host_def)
  have urls: "set (request_urls_in redirect_error) = {''http://h/a?k'', ''http://h/a'', bad_url}"
    by (auto simp: redirect_error_def bad_url_def)
  have "clear_targets escaping_quote (origin_of one_host) {''http://h/a?k'', ''http://h/a'', bad_url}
      {''Get '', '': Get '', '': parse '', '': invalid''}"
    unfolding clear_targets_def escaped_example o
    by (auto simp: escaping_quote_def quoted_def bad_url_def bad_spelling_def has_prefix_def)
  then have "sanitize_error escaping_quote one_host (Some redirect_error) =
      Some (quoting ''Get '' (map (\<lambda>(s, u, t). (origin_of one_host u, t)) ?xs))"
    by (intro sanitize_exact) (simp_all add: urls escaped_example, simp add: redirect_error_def)
  then show ?thesis by (simp add: o bad_url_def)
qed

end
