(* ===== verification/ConnectorLib.thy ===== *)
theory ConnectorLib
  imports Upstream RuleLoader EnvConfig
begin

text \<open>
  connector-lib/connector (validation.go, types.go): the target URL and header helpers the connector
  and the controller share; and two small programs of cmd: validate-config, and the memory limit.
\<close>

section \<open>Target URLs and headers\<close>

datatype target_error = MissingTarget | BadTargetURL string | BadTargetScheme | TargetWithoutHost

definition validate_target_url :: "(string \<Rightarrow> string + url) \<Rightarrow> string \<Rightarrow> target_error option" where
  "validate_target_url parse_url target =
     (if target = [] then Some MissingTarget
      else (case parse_url target of
          Inl e \<Rightarrow> Some (BadTargetURL e)
        | Inr u \<Rightarrow>
            if url_scheme u \<noteq> ''http'' \<and> url_scheme u \<noteq> ''https'' then Some BadTargetScheme
            else if url_host u = [] then Some TargetWithoutHost
            else None))"

record pb_header =
  pb_key :: string
  pb_value :: string

definition hop_by_hop_headers :: "string list" where
  "hop_by_hop_headers =
     [''connection'', ''proxy-connection'', ''keep-alive'', ''proxy-authenticate'', ''proxy-authorization'',
      ''te'', ''trailer'', ''transfer-encoding'', ''upgrade'']"

text \<open>strings.ToLower of a header name is a parameter past ASCII, as in Prelude.\<close>

definition filter_headers :: "(string \<Rightarrow> string) \<Rightarrow> string list \<Rightarrow> pb_header list \<Rightarrow> pb_header list" where
  "filter_headers ul exclude hs = filter (\<lambda>h. to_lower ul (pb_key h) \<notin> set exclude) hs"

definition filter_hop_by_hop :: "(string \<Rightarrow> string) \<Rightarrow> pb_header list \<Rightarrow> pb_header list" where
  "filter_hop_by_hop ul hs = filter_headers ul hop_by_hop_headers hs"

definition filter_content_dependent :: "(string \<Rightarrow> string) \<Rightarrow> pb_header list \<Rightarrow> pb_header list" where
  "filter_content_dependent ul hs = filter_headers ul content_dependent_headers hs"

text \<open>HTTPToProtoHeaders ranges over the map in the order Go picks.\<close>

definition http_to_proto :: "string list \<Rightarrow> header \<Rightarrow> pb_header list" where
  "http_to_proto order h =
     concat (map (\<lambda>k. map (\<lambda>v. \<lparr>pb_key = k, pb_value = v\<rparr>) (case h k of Some vs \<Rightarrow> vs | None \<Rightarrow> [])) order)"

fun proto_to_http_loop :: "header \<Rightarrow> pb_header list \<Rightarrow> header" where
  "proto_to_http_loop acc [] = acc"
| "proto_to_http_loop acc (h # hs) =
     proto_to_http_loop (if pb_key h \<noteq> [] \<and> pb_value h \<noteq> [] then hadd (pb_key h) (pb_value h) acc else acc) hs"

definition proto_to_http :: "pb_header list \<Rightarrow> header" where
  "proto_to_http hs = proto_to_http_loop Map.empty hs"

text \<open>What comes back: each header's values but the empty ones, and no header left without values.\<close>

definition nonempty_values :: "header \<Rightarrow> header" where
  "nonempty_values h k = (case h k of None \<Rightarrow> None | Some vs \<Rightarrow> if filter (\<lambda>v. v \<noteq> []) vs = [] then None else Some (filter (\<lambda>v. v \<noteq> []) vs))"

lemma proto_loop_values:
  assumes "canonical_key k = k" and "k \<noteq> []"
  shows "proto_to_http_loop acc (map (\<lambda>v. \<lparr>pb_key = k, pb_value = v\<rparr>) vs @ hs) =
    proto_to_http_loop (if filter (\<lambda>v. v \<noteq> []) vs = [] then acc
      else acc(k \<mapsto> (case acc k of Some ws \<Rightarrow> ws | None \<Rightarrow> []) @ filter (\<lambda>v. v \<noteq> []) vs)) hs"
proof (induction vs arbitrary: acc)
  case (Cons v vs)
  let ?ws = "case acc k of Some ws \<Rightarrow> ws | None \<Rightarrow> []"
  show ?case
  proof (cases "v = []")
    case False
    have a: "hadd k v acc = acc(k \<mapsto> ?ws @ [v])" using assms(1) by (simp add: hadd_def hvalues_def)
    have "proto_to_http_loop acc (map (\<lambda>v. \<lparr>pb_key = k, pb_value = v\<rparr>) (v # vs) @ hs) =
        proto_to_http_loop (acc(k \<mapsto> ?ws @ [v])) (map (\<lambda>v. \<lparr>pb_key = k, pb_value = v\<rparr>) vs @ hs)"
      using assms(2) False by (simp add: a)
    also have "\<dots> = proto_to_http_loop (acc(k \<mapsto> ?ws @ filter (\<lambda>v. v \<noteq> []) (v # vs))) hs"
      unfolding Cons.IH using False by simp
    finally show ?thesis using False by (simp add: fun_upd_def)
  qed (use Cons in simp)
qed simp

lemma proto_loop_headers:
  assumes "distinct order" and "\<forall>k \<in> set order. canonical_key k = k \<and> k \<noteq> [] \<and> acc k = None"
  shows "proto_to_http_loop acc (http_to_proto order h) =
    (\<lambda>k. if k \<in> set order then nonempty_values h k else acc k)"
  using assms
proof (induction order arbitrary: acc)
  case Nil
  then show ?case by (simp add: http_to_proto_def)
next
  case (Cons k order)
  let ?vs = "case h k of Some vs \<Rightarrow> vs | None \<Rightarrow> []"
  let ?acc = "if filter (\<lambda>v. v \<noteq> []) ?vs = [] then acc else acc(k \<mapsto> filter (\<lambda>v. v \<noteq> []) ?vs)"
  have "proto_to_http_loop acc (http_to_proto (k # order) h) = proto_to_http_loop ?acc (http_to_proto order h)"
    using proto_loop_values [of k acc ?vs "http_to_proto order h"] Cons.prems(2) by (simp add: http_to_proto_def)
  also have "\<dots> = (\<lambda>j. if j \<in> set order then nonempty_values h j else ?acc j)"
    using Cons.prems by (intro Cons.IH) auto
  also have "\<dots> = (\<lambda>j. if j \<in> set (k # order) then nonempty_values h j else acc j)"
    using Cons.prems by (auto simp: fun_eq_iff nonempty_values_def split: option.splits)
  finally show ?case .
qed

text \<open>
  Headers survive the way to protobuf and back: for canonical names, in whatever order the map is
  ranged over, every header comes back with its values in order, one line each, but for empty ones.
\<close>

theorem headers_roundtrip:
  assumes "distinct order" and "set order = dom h" and "\<forall>k \<in> dom h. canonical_key k = k \<and> k \<noteq> []"
  shows "proto_to_http (http_to_proto order h) = nonempty_values h"
  using proto_loop_headers [OF assms(1), of Map.empty h] assms(2,3)
  by (auto simp: proto_to_http_def fun_eq_iff nonempty_values_def split: option.splits)

lemma headers_roundtrip_witness:
  "proto_to_http (http_to_proto [''Accept''] [''Accept'' \<mapsto> [''a, b'', ''c'']]) = [''Accept'' \<mapsto> [''a, b'', ''c'']]"
proof -
  have "canonical_key ''Accept'' = ''Accept''" by code_simp
  then show ?thesis
    using headers_roundtrip [of "[''Accept'']" "[''Accept'' \<mapsto> [''a, b'', ''c'']]"]
    by (auto simp: nonempty_values_def fun_eq_iff)
qed

section \<open>validate-config\<close>

text \<open>Its exit status, from the arguments and the document or the error of reading it.\<close>

definition validate_config_exit ::
    "(string \<Rightarrow> config_doc option) \<Rightarrow> 'r engine \<Rightarrow> string list \<Rightarrow> string + string \<Rightarrow> nat" where
  "validate_config_exit toml eng args input =
     (if args \<noteq> [] then 2
      else (case input of
          Inl e \<Rightarrow> 1
        | Inr data \<Rightarrow> if validate_config toml eng (take (max_config_bytes + 1) data) = None then 0 else 1))"

text \<open>Status 0 means the document is one the loader would apply; one byte too many is seen.\<close>

lemma validate_config_exit_iff:
  "validate_config_exit toml eng args input = 0 \<longleftrightarrow> args = [] \<and> (\<exists>data. input = Ok data \<and> validate_config toml eng data = None)"
proof (cases input)
  case (Inr data)
  have "validate_config toml eng (take (max_config_bytes + 1) data) = validate_config toml eng data"
    by (cases "length data \<le> max_config_bytes + 1") (auto simp: validate_config_def parse_config_def)
  then show ?thesis using Inr by (simp add: validate_config_exit_def)
qed (simp add: validate_config_exit_def)

section \<open>The memory limit\<close>

text \<open>
  setMemoryLimit (memlimit.go): 0.9 of the container's limit in float64. A float64 of at least one
  is 53 significant bits; rounding is to nearest, ties to even; the float64 nearest 0.9 is
  8106479329266893 / 2^53; and the conversion back truncates.
\<close>

fun excess_bits :: "nat \<Rightarrow> nat" where
  "excess_bits n = (if n < 2 ^ 53 then 0 else 1 + excess_bits (n div 2))"

declare excess_bits.simps [simp del]

definition float64_round :: "nat \<Rightarrow> nat" where
  "float64_round n =
     (let k = excess_bits n; q = n div 2 ^ k; r = n mod 2 ^ k in
      if k = 0 then n
      else if 2 * r < 2 ^ k \<or> (2 * r = 2 ^ k \<and> even q) then q * 2 ^ k else (q + 1) * 2 ^ k)"

definition memory_limit_share :: nat where "memory_limit_share = 8106479329266893"

definition soft_limit :: "nat \<Rightarrow> nat" where
  "soft_limit limit = float64_round (float64_round limit * memory_limit_share) div 2 ^ 53"

text \<open>None leaves Go's default.\<close>

definition memory_limit_setting :: "environment \<Rightarrow> nat option" where
  "memory_limit_setting e =
     (if e ''TRAVERSAL_MEMORY_LIMIT_BYTES'' = [] \<or> e ''GOMEMLIMIT'' \<noteq> [] then None
      else (case parse_int64 (e ''TRAVERSAL_MEMORY_LIMIT_BYTES'') of
          None \<Rightarrow> None
        | Some n \<Rightarrow> if sint n \<le> 0 then None else Some (soft_limit (nat (sint n)))))"

lemma excess_bits_pow: "0 < excess_bits n \<Longrightarrow> 2 ^ (52 + excess_bits n) \<le> n"
proof (induction n rule: excess_bits.induct)
  case (1 n)
  then have big: "\<not> n < 2 ^ 53" by (subst (asm) (2) excess_bits.simps) (auto split: if_splits)
  have e: "excess_bits n = 1 + excess_bits (n div 2)" using big by (subst excess_bits.simps) simp
  show ?case
  proof (cases "excess_bits (n div 2) = 0")
    case True
    then show ?thesis using big e by simp
  next
    case False
    then have "2 ^ (52 + excess_bits (n div 2)) \<le> n div 2" using 1(1) [OF big] by simp
    then have "2 * 2 ^ (52 + excess_bits (n div 2)) \<le> n" by linarith
    moreover have "(2::nat) ^ (52 + excess_bits n) = 2 * 2 ^ (52 + excess_bits (n div 2))"
      unfolding e by (simp only: plus_1_eq_Suc add_Suc_right power_Suc)
    ultimately show ?thesis by (simp only:)
  qed
qed

text \<open>Rounding is off by one part in 2^53 at most.\<close>

lemma float64_round_bounds: "2 ^ 53 * float64_round n \<le> (2 ^ 53 + 1) * n" "(2 ^ 53 - 1) * n \<le> 2 ^ 53 * float64_round n"
proof -
  define k where "k = excess_bits n"
  define q where "q = n div 2 ^ k"
  define r where "r = n mod 2 ^ k"
  define p where "p = (2 ^ k :: nat)"
  have n: "q * p + r = n" unfolding q_def r_def p_def by (rule div_mult_mod_eq)
  have "r < p" by (simp add: r_def p_def)
  note n = n this
  have b: "2 ^ 52 * p \<le> n" if "k \<noteq> 0" using excess_bits_pow [of n] that by (simp add: power_add k_def p_def)
  have "float64_round n = (if k = 0 then n else if 2 * r < p \<or> (2 * r = p \<and> even q) then q * p else q * p + p)"
    by (simp add: float64_round_def Let_def k_def q_def r_def p_def)
  then have "2 * float64_round n \<le> 2 * n + p" "2 * n \<le> 2 * float64_round n + p" "k = 0 \<longrightarrow> float64_round n = n"
    using n by (auto split: if_splits)
  then show "2 ^ 53 * float64_round n \<le> (2 ^ 53 + 1) * n" "(2 ^ 53 - 1) * n \<le> 2 ^ 53 * float64_round n"
    using b by (cases "k = 0"; simp)+
qed

text \<open>The limit set is below the container's, with about a tenth to spare.\<close>

lemma soft_limit_headroom: "10 * soft_limit n \<le> 9 * n + n div 2 ^ 48 + 1"
proof -
  let ?a = "float64_round n" and ?b = "float64_round (float64_round n * memory_limit_share)"
  have a: "2 ^ 53 * ?a \<le> (2 ^ 53 + 1) * n" and b: "2 ^ 53 * ?b \<le> (2 ^ 53 + 1) * (?a * memory_limit_share)"
    using float64_round_bounds by blast+
  have s: "2 ^ 53 * soft_limit n \<le> ?b" by (simp add: soft_limit_def)
  have d: "2 ^ 48 * (n div 2 ^ 48) + n mod 2 ^ 48 = n" "n mod 2 ^ 48 < 2 ^ 48" by simp_all
  show ?thesis using a [simplified] b [unfolded memory_limit_share_def, simplified] s [unfolded memory_limit_share_def, simplified]
      d [simplified] by simp
qed

end
