(* ===== verification/Issued.thy ===== *)
theory Issued
  imports Capability
begin

text \<open>
  Capabilities from their signing to their acceptance: what Signer.Sign of
  connector-lib/capability/capability.go sends, as JSON, and what Verify makes of it; and the keys,
  claims, certificates and bundles that connector-lib/capability/capabilitytest makes for the tests.
  The marshaller, the ECDSA signer and crypto/x509 are parameters.
\<close>

section \<open>Claims as JSON\<close>

definition format_i64 :: "i64 \<Rightarrow> string" where
  "format_i64 n = (if sint n < 0 then CHR ''-'' # format_uint (nat (- sint n)) else format_uint (nat (sint n)))"

text \<open>json.Marshal of Claims: every field, in order.\<close>

definition claims_members :: "claims \<Rightarrow> (string \<times> json) list" where
  "claims_members c = [(''iss'', JStr (cl_iss c)), (''aud'', JStr (cl_aud c)), (''sub'', JStr (cl_sub c)),
     (''organization_id'', JStr (cl_organization_id c)), (''integration_id'', JStr (cl_integration_id c)),
     (''connector_id'', JStr (cl_connector_id c)), (''consumer_id'', JStr (cl_consumer_id c)),
     (''session_id'', JStr (cl_session_id c)), (''host'', JStr (cl_host c)),
     (''port'', JNum (format_uint (unat (cl_port c)))), (''jti'', JStr (cl_jti c)),
     (''iat'', JNum (format_i64 (cl_iat c))), (''exp'', JNum (format_i64 (cl_exp c)))]"

lemma json_u16_format [simp]: "json_u16 (JNum (format_uint (unat (n :: u16)))) = Some n"
proof -
  have "unat n < 2 ^ 16" using unsigned_less [of n] by simp
  then show ?thesis by (simp add: json_u16_def)
qed

lemma json_i64_format [simp]: "json_i64 (JNum (format_i64 n)) = Some n"
proof (cases "sint n < 0")
  case True
  let ?m = "nat (- sint n)"
  have m: "?m \<le> 2 ^ 63" using sint_i64_bounds [of n] by (simp add: nat_le_iff)
  then have "?m < 2 ^ 64" by (rule le_less_trans) simp
  moreover have "(- of_nat ?m :: i64) = of_int (sint n)"
    using True by (simp add: of_nat_nat)
  ultimately show ?thesis using True m by (simp add: json_i64_def format_i64_def)
next
  case False
  then show ?thesis by (simp add: format_i64_def json_i64_unsigned)
qed

lemma claims_members_decode [simp]: "decode_claims (claims_members c) = Some c"
  by (simp add: decode_claims_def claims_members_def string_field_def u16_field_def i64_field_def)

lemma claims_members_keys: "map fst (claims_members c) = claims_tags"
  by (simp add: claims_members_def claims_tags_def)

lemma claims_tags_lower: "list_all (\<lambda>k. to_lower ul k = k) claims_tags"
  by (simp add: claims_tags_def to_lower_def is_ascii_def ascii_lower_def upper_letters_def)

lemma claims_members_strict:
  "unique_names (JObj (claims_members c))" "folded_ok ul (JObj (claims_members c))"
  "\<not> missing_required (json_keys claims_tags) (claims_members c)"
  "\<not> unknown_key (json_keys claims_tags) (claims_members c)"
proof -
  have "map (to_lower ul \<circ> fst) (claims_members c) = map (to_lower ul) claims_tags"
    using claims_members_keys [of c] by (metis map_map)
  also have "\<dots> = claims_tags" using claims_tags_lower [of ul] by (intro map_idI) (simp add: list_all_iff)
  finally have l: "map (to_lower ul \<circ> fst) (claims_members c) = claims_tags" .
  have d: "distinct claims_tags" by (simp add: claims_tags_def)
  show "unique_names (JObj (claims_members c))" using d claims_members_keys [of c] by (simp add: claims_members_def)
  show "folded_ok ul (JObj (claims_members c))" using d l by (simp add: claims_members_def)
  show "\<not> missing_required (json_keys claims_tags) (claims_members c)"
    by (simp add: missing_required_def json_keys_def claims_tags_def claims_members_def)
  show "\<not> unknown_key (json_keys claims_tags) (claims_members c)"
    by (simp add: unknown_key_def json_keys_def claims_tags_def claims_members_def)
qed

section \<open>Signing\<close>

text \<open>What jws.Sign calls: the curve check, the marshaller, the signer and the reader of its signature.\<close>

record 's signing_ops =
  so_p256 :: "'s \<Rightarrow> bool"
  so_header :: "jws_header \<Rightarrow> string option"
  so_claims :: "claims \<Rightarrow> string option"
  so_der :: "'s \<Rightarrow> string \<Rightarrow> string option"
  so_asn1 :: "string \<Rightarrow> ((int \<times> int) \<times> string) option"

definition jws_sign :: "'s signing_ops \<Rightarrow> 's option \<Rightarrow> jws_header \<Rightarrow> claims \<Rightarrow> sign_error + string" where
  "jws_sign ops key h c =
     (case key of
        None \<Rightarrow> Err ErrSigner
      | Some k \<Rightarrow> sign_with (so_p256 ops) (so_header ops) (so_claims ops) (so_der ops) (so_asn1 ops) (Some k) h c)"

text \<open>A JSON reader reads back what was marshalled, and a key accepts what its signer signed.\<close>

definition reads_marshalled :: "'k externals \<Rightarrow> 's signing_ops \<Rightarrow> bool" where
  "reads_marshalled ex ops \<longleftrightarrow>
     (\<forall>h raw. so_header ops h = Some raw \<longrightarrow> ex_parse ex raw = Some (header_json h)) \<and>
     (\<forall>c raw. so_claims ops c = Some raw \<longrightarrow> ex_parse ex raw = Some (JObj (claims_members c)))"

definition key_accepts :: "'k externals \<Rightarrow> 's signing_ops \<Rightarrow> 's \<Rightarrow> 'k \<Rightarrow> bool" where
  "key_accepts ex ops k key \<longleftrightarrow>
     (\<forall>input der sig. so_der ops k input = Some der \<longrightarrow> raw_signature (so_asn1 ops) der = Some sig \<longrightarrow>
        ex_es256 ex input sig key)"

text \<open>The trust a verifier has in a signer: its pin of an unchained one, or its roots in a chain.\<close>

definition trusts_signer ::
    "'k externals \<Rightarrow> 'k verifier \<Rightarrow> instant \<Rightarrow> string \<Rightarrow> string list \<Rightarrow> 'k \<Rightarrow> string \<Rightarrow> bool" where
  "trusts_signer ex v now kid chain key issuer \<longleftrightarrow>
     (if chain = [] then v_keys v kid = Some key \<and> issuer = v_issuer v
      else v_keys v kid \<in> {None, Some key} \<and>
        (\<exists>ch certs. v_chains v = Some ch \<and> list_all2 (\<lambda>der c. ex_x509_parse ex der = Some c) chain certs \<and>
           check_environment_certificate (ex_x509_verify ex) certs (Some (ch_roots ch)) (ch_host ch) now = Ok (key, issuer)))"

definition signed_header :: "string \<Rightarrow> string list \<Rightarrow> jws_header" where
  "signed_header kid chain =
     (if chain = [] then plain_header kid else (plain_header kid)\<lparr>hdr_x5c := Some (map b64std_enc chain)\<rparr>)"

lemma b64std_dec_enc [simp]: "b64std_dec (b64std_enc s) = Some s"
proof -
  obtain k where k: "b64_encode False True s = b64_encode False False s @ replicate k (CHR ''='')"
    using b64_encode_padded by blast
  have "c \<notin> {CHR 0x0A, CHR 0x0D}" if "c \<in> set (b64_encode False False s)" for c
    using b64_encode_chars [OF _ that] b64_alphabet_ok(3) [of False] by auto
  then have "filter (\<lambda>c. c \<notin> {CHR 0x0A, CHR 0x0D}) (b64_encode False True s) = b64_encode False True s"
    unfolding k by (intro filter_True) auto
  then show ?thesis by (simp add: b64std_dec_def b64std_enc_def b64_decode_encode)
qed

lemma parse_chain_loop_enc:
  "list_all2 (\<lambda>der c. xp der = Some c) chain certs \<Longrightarrow> sofar + sum_list (map length chain) \<le> max_chain_bytes \<Longrightarrow>
     parse_chain_loop xp sofar (map b64std_enc chain) = Ok certs"
  by (induction chain certs arbitrary: sofar rule: list_all2_induct) (simp_all add: add.assoc)

lemma signing_key_trusted:
  assumes "trusts_signer ex v now kid chain key issuer"
    and "length chain \<le> max_chain_certs" and "sum_list (map length chain) \<le> max_chain_bytes"
  shows "signing_key ex v (sent_header (signed_header kid chain)) now = Ok (key, issuer)"
proof (cases "chain = []")
  case True
  then show ?thesis
    using assms(1) by (simp add: trusts_signer_def signing_key_def signed_header_def sent_header_def plain_header_def)
next
  case False
  then obtain ch certs where t: "v_keys v kid \<in> {None, Some key}" "v_chains v = Some ch"
    "list_all2 (\<lambda>der c. ex_x509_parse ex der = Some c) chain certs"
    "check_environment_certificate (ex_x509_verify ex) certs (Some (ch_roots ch)) (ch_host ch) now = Ok (key, issuer)"
    using assms(1) by (auto simp: trusts_signer_def)
  have "parse_chain (ex_x509_parse ex) (map b64std_enc chain) = Ok certs"
    using False assms(2,3) parse_chain_loop_enc [OF t(3), of 0] by (simp add: parse_chain_def)
  then show ?thesis
    using False t by (auto simp: signing_key_def signed_header_def sent_header_def plain_header_def)
qed

text \<open>Signing succeeds only within the bounds of a chain and on valid claims.\<close>

lemma signer_sign_Ok:
  assumes "signer_sign ul (jws_sign ops key) kid chain c = Ok token"
  obtains k where "key = Some k" "claims_valid ul c = None"
    "length chain \<le> max_chain_certs" "sum_list (map length chain) \<le> max_chain_bytes"
    "sign_with (so_p256 ops) (so_header ops) (so_claims ops) (so_der ops) (so_asn1 ops) (Some k)
       (signed_header kid chain) c = Ok token"
  using assms
  by (cases "chain = []")
    (auto simp: signer_sign_def sign_chained_def sign_claims_def jws_sign_def signed_header_def
      split: if_splits option.splits sum.splits)

lemma parse_capability_signed:
  assumes "signer_sign (ex_lower ex) (jws_sign ops (Some k)) kid chain c = Ok token" and "length token \<le> max_token_len"
    and "reads_marshalled ex ops" and "key_accepts ex ops k key" and "trusts_signer ex v now kid chain key issuer"
  shows "parse_capability ex v token now = Ok (c, issuer)"
proof -
  let ?h = "signed_header kid chain"
  obtain s: "claims_valid (ex_lower ex) c = None" "length chain \<le> max_chain_certs"
    "sum_list (map length chain) \<le> max_chain_bytes"
    "sign_with (so_p256 ops) (so_header ops) (so_claims ops) (so_der ops) (so_asn1 ops) (Some k) ?h c = Ok token"
    using signer_sign_Ok [OF assms(1)] by (metis option.inject)
  have ty: "hdr_typ ?h = token_type" by (simp add: signed_header_def plain_header_def)
  have "ex_parse ex raw = Some (header_json h)" if "so_header ops h = Some raw" for h raw
    using assms(3) that by (simp add: reads_marshalled_def)
  then obtain t where t: "jws_parse (ex_lower ex) (ex_parse ex) token max_token_len token_type True = Ok t"
    "tok_header t = sent_header ?h" "token = tok_input t @ ''.'' @ tok_sig t"
    using jws_sign_parse [where parse = "ex_parse ex" and chained = True, OF s(4) assms(2)] ty by metis
  have "CHR ''.'' \<notin> set (tok_sig t)" using jws_parse_Ok [OF t(1)] by metis
  then have "jws_verify (ex_lower ex) (ex_parse ex) (ex_es256 ex) claims_tags decode_claims True t key = Ok c"
    using assms(3,4) claims_members_strict [where c = c]
    by (intro jws_sign_verify [OF s(4) t(3)]) (auto simp: reads_marshalled_def key_accepts_def)
  then show ?thesis
    using t(1,2) s(1) signing_key_trusted [OF assms(5) s(2,3)] by (simp add: parse_capability_def)
qed

section \<open>Acceptance\<close>

text \<open>How often an identifier has been opened, by the ledger's account.\<close>

definition opened_times :: "'k verifier \<Rightarrow> instant \<Rightarrow> string \<Rightarrow> nat" where
  "opened_times v now j = (case ledger_prune now (ledger_of v) j of None \<Rightarrow> 0 | Some (n, e) \<Rightarrow> n)"

lemma take_open_times:
  assumes "take_inv v"
  shows "snd (take_open j e now v) \<longleftrightarrow> opened_times v now j < max_opens"
proof -
  obtain v' ok where t: "take_open j e now v = (v', ok)" by force
  have "snd (ledger_take j e now (ledger_of v)) = ok" using take_open_refines(2) [OF assms t] by simp
  then show ?thesis
    using t by (auto simp: ledger_take_def opened_times_def max_opens_def Let_def split: option.splits if_splits)
qed

text \<open>What Verify answers about a capability it could read, within its window.\<close>

lemma verify_answer:
  assumes "parse_capability ex v token now = Ok (c, cl_iss c)"
    and "v_issuer v \<in> {[], cl_iss c}" and "cl_sub c = v_subject v"
    and "take_inv v"
  shows "snd (verify ex now token connector host port v) =
    (if now + max_clock_skew < unix_time (cl_iat c) \<or> unix_time (cl_exp c) \<le> now - max_clock_skew then
       Err (reject ''expired or not yet valid'')
     else if cl_connector_id c \<noteq> connector then Err (Refused WrongConnector ''for another connector'')
     else if cl_host c \<noteq> host \<or> cl_port c \<noteq> port then Err (Refused WrongDestination ''for another destination'')
     else if opened_times v now (cl_jti c) < max_opens then Ok c
     else Err (Refused Exhausted ''open limit reached''))"
proof -
  obtain v' ok where t: "take_open (cl_jti c) (unix_time (cl_exp c) + max_clock_skew) now v = (v', ok)" by force
  have ok: "ok \<longleftrightarrow> opened_times v now (cl_jti c) < max_opens" using take_open_times [OF assms(4)] t by (metis snd_conv)
  obtain key t' where "jws_verify (ex_lower ex) (ex_parse ex) (ex_es256 ex) claims_tags decode_claims True t' key = Ok c"
    "claims_valid (ex_lower ex) c = None"
    using parse_capability_Ok [OF assms(1)] by metis
  then have aud: "cl_aud c = audience" using claims_valid_None by blast
  have iss: "(v_issuer v \<noteq> [] \<and> cl_iss c \<noteq> v_issuer v) = False" using assms(2) by auto
  have win: "(now + max_clock_skew < unix_time (cl_iat c) \<or> unix_time (cl_exp c) \<le> now - max_clock_skew) =
      (now + max_clock_skew < unix_time (cl_iat c) \<or> \<not> now - max_clock_skew < unix_time (cl_exp c))" by auto
  show ?thesis
    unfolding verify_def assms(1) sum.case prod.case t ok [symmetric] iss win using assms(3) aud by (cases ok) simp_all
qed


text \<open>A signer for the witnesses, whose texts are one byte each.\<close>

definition example_ops :: "unit signing_ops" where
  "example_ops = \<lparr>so_p256 = (\<lambda>k. True),
     so_header = (\<lambda>h. if h = (plain_header ''k'')\<lparr>hdr_alg := algorithm\<rparr> then Some ''H'' else None),
     so_claims = (\<lambda>c. if c = example_claims then Some ''P'' else None),
     so_der = (\<lambda>k input. Some ''D''), so_asn1 = (\<lambda>der. Some ((1, 2), []))\<rparr>"

definition signing_externals :: "nat externals" where
  "signing_externals = example_externals\<lparr>ex_es256 := (\<lambda>input sig key. key = 7),
     ex_parse := (\<lambda>raw. if raw = ''H'' then Some (header_json ((plain_header ''k'')\<lparr>hdr_alg := algorithm\<rparr>))
       else if raw = ''P'' then Some (JObj (claims_members example_claims)) else None)\<rparr>"

definition example_signature :: string where
  "example_signature = fill_bytes32 1 @ fill_bytes32 2"

lemma example_raw_signature: "raw_signature (\<lambda>der. Some ((1, 2), [])) d = Some example_signature"
  by (simp add: raw_signature_def in_p256_order_def p256_order_def example_signature_def)

lemma one_byte_token_length:
  "length ((b64url_enc [x] @ ''.'' @ b64url_enc [y]) @ ''.'' @ b64url_enc example_signature) \<le> max_token_len"
proof -
  have "length example_signature = 64"
    by (simp add: example_signature_def fill_bytes_value in_p256_order_def p256_order_def)
  then show ?thesis
    using b64_encode_length [of True False example_signature] b64_encode_length [of True False "[x]"]
      b64_encode_length [of True False "[y]"]
    by (simp add: b64url_enc_def max_token_len_def)
qed

lemma example_signs:
  "signer_sign (ex_lower signing_externals) (jws_sign example_ops (Some ())) ''k'' [] example_claims =
     Ok ((b64url_enc ''H'' @ ''.'' @ b64url_enc ''P'') @ ''.'' @ b64url_enc example_signature)"
proof -
  have "claims_valid (ex_lower signing_externals) example_claims = None"
    using example_claims_valid by (simp add: signing_externals_def example_externals_def)
  then show ?thesis
    using example_raw_signature
    by (simp add: signer_sign_def sign_claims_def jws_sign_def sign_with_def example_ops_def plain_header_def Let_def)
qed


text \<open>
  That check is left to Verify: claims of the longest values Sign takes and a chain of the most bytes
  it takes make a token that no verifier reads, however the JSON is written.
\<close>

lemma b64_encode_longer: "4 * length s \<le> 3 * length (b64_encode url pad s) + (if pad then 0 else 4)"
  by (induction url pad s rule: b64_encode.induct) auto

lemma signed_too_long:
  assumes "signer_sign ul (jws_sign ops (Some k)) kid [der] c = Ok token" and "length der = max_chain_bytes"
    and "\<And>raw. so_claims ops c = Some raw \<Longrightarrow> sum_list (map length (required_claims c)) \<le> length raw"
    and "\<And>h raw der. so_header ops h = Some raw \<Longrightarrow> hdr_x5c h = Some [b64std_enc der] \<Longrightarrow> length (b64std_enc der) \<le> length raw"
    and "sum_list (map length (required_claims c)) = 8 * 256 + length audience"
  shows "max_token_len < length token"
proof -
  obtain k' where s: "sign_with (so_p256 ops) (so_header ops) (so_claims ops) (so_der ops) (so_asn1 ops) (Some k')
      (signed_header kid [der]) c = Ok token"
    using signer_sign_Ok [OF assms(1)] by metis
  obtain hdr p dr sig where t: "so_header ops ((signed_header kid [der])\<lparr>hdr_alg := algorithm\<rparr>) = Some hdr"
    "so_claims ops c = Some p" "token = (b64url_enc hdr @ ''.'' @ b64url_enc p) @ ''.'' @ b64url_enc sig"
    using sign_with_Ok [OF s] by metis
  have "length (b64std_enc der) \<le> length hdr"
    by (rule assms(4) [OF t(1)]) (simp add: signed_header_def)
  then have "2048 \<le> length hdr"
    using b64_encode_longer [of der False True] assms(2) by (simp add: b64std_enc_def max_chain_bytes_def)
  moreover have "2068 \<le> length p" using assms(3) [OF t(2)] assms(5) by (simp add: audience_def)
  ultimately show ?thesis
    using t(3) b64_encode_longer [of hdr True False] b64_encode_longer [of p True False]
    by (simp add: b64url_enc_def max_token_len_def)
qed

end
