(* ===== verification/Fixtures.thy ===== *)
theory Fixtures
  imports Issued
begin

text \<open>
  connector-lib/capability/capabilitytest: the keys, claims, certificates and PEM bundles the tests
  of every peer are built from, against the parsers and the verifier that read them. crypto/x509 is
  the parameter \<open>create\<close>, which signs a template under a parent, itself for a root, and what its
  certificates parse and verify as is a named hypothesis.
\<close>

section \<open>Keys and claims\<close>

text \<open>Key: a panic outside a test binary, or for a seed whose digest is no scalar, is None.\<close>

definition fixture_key :: "bool \<Rightarrow> (string \<Rightarrow> string) \<Rightarrow> (string \<Rightarrow> 's option) \<Rightarrow> string \<Rightarrow> 's option" where
  "fixture_key testing sha256 parse_raw seed = (if \<not> testing then None else parse_raw (sha256 seed))"

text \<open>Time.Unix of an instant, and Claims, with \<open>fmt\<close> as its RFC 3339 text.\<close>

definition unix_seconds :: "instant \<Rightarrow> i64" where
  "unix_seconds t = of_int (t div nanos) - unix_to_internal"

definition fixture_claims ::
    "(instant \<Rightarrow> string) \<Rightarrow> instant \<Rightarrow> string \<Rightarrow> string \<Rightarrow> string \<Rightarrow> u16 \<Rightarrow> claims" where
  "fixture_claims fmt now issuer connector host port =
     \<lparr>cl_iss = issuer, cl_aud = audience, cl_sub = subject_integration_proxy,
      cl_organization_id = ''org'', cl_integration_id = ''integration'', cl_connector_id = connector,
      cl_consumer_id = ''consumer'', cl_session_id = ''session'', cl_host = host, cl_port = port,
      cl_jti = fmt now, cl_iat = unix_seconds now, cl_exp = unix_seconds (now + 60 * nanos)\<rparr>"

section \<open>Certificates\<close>

datatype key_usage = DigitalSignature | KeyCertSign | OtherKeyUsage nat
datatype ext_usage = CodeSigning | ClientAuth | ServerAuth | OtherExtUsage nat

record cert_template =
  tp_serial :: nat
  tp_name :: string
  tp_not_before :: instant
  tp_not_after :: instant
  tp_usage :: "key_usage set"
  tp_ext :: "ext_usage list"
  tp_hosts :: "string list"
  tp_uris :: "string list"
  tp_is_ca :: bool
  tp_max_path :: nat

type_synonym ('k, 's) create = "cert_template \<Rightarrow> 'k cert option \<Rightarrow> 'k \<Rightarrow> 's \<Rightarrow> string + string"

record ('k, 's) root =
  rt_certificate :: "'k cert"
  rt_der :: string
  rt_key :: 's

definition root_template :: "instant \<Rightarrow> instant \<Rightarrow> cert_template" where
  "root_template not_before not_after =
     \<lparr>tp_serial = 1, tp_name = ''Traversal capability root (test)'', tp_not_before = not_before,
      tp_not_after = not_after, tp_usage = {KeyCertSign}, tp_ext = [], tp_hosts = [], tp_uris = [],
      tp_is_ca = True, tp_max_path = 1\<rparr>"

definition new_root ::
    "('k, 's) create \<Rightarrow> ('s \<Rightarrow> 'k) \<Rightarrow> (string \<Rightarrow> 'k cert option) \<Rightarrow> 's \<Rightarrow> instant \<Rightarrow> instant \<Rightarrow> string + ('k, 's) root" where
  "new_root create pub x509_parse key not_before not_after =
     (case create (root_template not_before not_after) None (pub key) key of
        Inl e \<Rightarrow> Err e
      | Inr der \<Rightarrow>
          (case x509_parse der of
             None \<Rightarrow> Err ''x509: malformed certificate''
           | Some c \<Rightarrow> Ok \<lparr>rt_certificate = c, rt_der = der, rt_key = key\<rparr>))"

definition valid_root ::
    "('k, 's) create \<Rightarrow> ('s \<Rightarrow> 'k) \<Rightarrow> (string \<Rightarrow> 'k cert option) \<Rightarrow> (string \<Rightarrow> 's option) \<Rightarrow> instant \<Rightarrow> string \<Rightarrow>
     (string + ('k, 's) root) option" where
  "valid_root create pub x509_parse key_of now seed =
     map_option (\<lambda>key. new_root create pub x509_parse key (now - 3600 * nanos) (now + 24 * 3600 * nanos)) (key_of seed)"

text \<open>EnvironmentCert: an empty usage set and no extended usages mean what Traversal issues.\<close>

record 'k environment_cert =
  ec_key :: 'k
  ec_issuer :: string
  ec_hosts :: "string list"
  ec_not_before :: instant
  ec_not_after :: instant
  ec_key_usage :: "key_usage set"
  ec_ext_key_usage :: "ext_usage list option"
  ec_is_ca :: bool

text \<open>Issue, with \<open>uri\<close> the text of a parsed URL.\<close>

definition environment_template :: "'k environment_cert \<Rightarrow> string list \<Rightarrow> cert_template" where
  "environment_template spec uris =
     \<lparr>tp_serial = 2, tp_name = ''capability signer (test)'', tp_not_before = ec_not_before spec,
      tp_not_after = ec_not_after spec,
      tp_usage = (if ec_key_usage spec = {} then {DigitalSignature} else ec_key_usage spec) \<union>
        (if ec_is_ca spec then {KeyCertSign} else {}),
      tp_ext = (case ec_ext_key_usage spec of None \<Rightarrow> [CodeSigning] | Some ext \<Rightarrow> ext),
      tp_hosts = ec_hosts spec, tp_uris = uris, tp_is_ca = ec_is_ca spec, tp_max_path = 0\<rparr>"

definition root_issue ::
    "('k, 's) create \<Rightarrow> (string \<Rightarrow> string + string) \<Rightarrow> ('k, 's) root \<Rightarrow> 'k environment_cert \<Rightarrow> string + string" where
  "root_issue create uri r spec =
     (case (if ec_issuer spec = [] then Ok [] else (case uri (ec_issuer spec) of Inl e \<Rightarrow> Err e | Inr u \<Rightarrow> Ok [u])) of
        Inl e \<Rightarrow> Err e
      | Inr uris \<Rightarrow> create (environment_template spec uris) (Some (rt_certificate r)) (ec_key spec) (rt_key r))"

text \<open>Chained: an error is fatal to the test.\<close>

definition chained_spec :: "instant \<Rightarrow> 'k \<Rightarrow> string \<Rightarrow> claims \<Rightarrow> 'k environment_cert" where
  "chained_spec now key host c =
     \<lparr>ec_key = key,
      ec_issuer = issuer_uri_prefix @ (case cut_prefix issuer_prefix (cl_iss c) of Some env \<Rightarrow> env | None \<Rightarrow> cl_iss c),
      ec_hosts = [host], ec_not_before = now - 3600 * nanos, ec_not_after = now + 3600 * nanos,
      ec_key_usage = {}, ec_ext_key_usage = None, ec_is_ca = False\<rparr>"

definition chained ::
    "('k, 's) create \<Rightarrow> ('s \<Rightarrow> 'k) \<Rightarrow> (string \<Rightarrow> string + string) \<Rightarrow> (string \<Rightarrow> string) \<Rightarrow> 's signing_ops \<Rightarrow> instant \<Rightarrow>
     ('k, 's) root \<Rightarrow> 's \<Rightarrow> string \<Rightarrow> string \<Rightarrow> claims \<Rightarrow> string option" where
  "chained create pub uri ul ops now r key kid host c =
     (case root_issue create uri r (chained_spec now (pub key) host c) of
        Inl e \<Rightarrow> None
      | Inr der \<Rightarrow>
          (case sign_chained ul (jws_sign ops (Some key)) kid [der] c of Inl e \<Rightarrow> None | Inr token \<Rightarrow> Some token))"

section \<open>Bundles\<close>

text \<open>KeysPEM: a map as a list without repeated kids; a key that cannot be marshalled panics.\<close>

fun keys_blocks :: "('k \<Rightarrow> string option) \<Rightarrow> (string \<times> 'k) list \<Rightarrow> pem_block list option" where
  "keys_blocks marshal [] = Some []"
| "keys_blocks marshal ((kid, k) # ks) =
     (case marshal k of
        None \<Rightarrow> None
      | Some der \<Rightarrow>
          map_option ((#) \<lparr>pem_type = ''PUBLIC KEY'', pem_headers = [''Key-ID'' \<mapsto> kid], pem_bytes = der\<rparr>)
            (keys_blocks marshal ks))"

definition keys_pem :: "(pem_block \<Rightarrow> string) \<Rightarrow> ('k \<Rightarrow> string option) \<Rightarrow> (string \<times> 'k) list \<Rightarrow> string option" where
  "keys_pem encode marshal keys =
     map_option (\<lambda>bs. concat (map encode bs)) (keys_blocks marshal (sort_key fst keys))"

definition roots_pem :: "(pem_block \<Rightarrow> string) \<Rightarrow> ('k, 's) root list \<Rightarrow> string" where
  "roots_pem encode roots =
     concat (map (\<lambda>r. encode \<lparr>pem_type = ''CERTIFICATE'', pem_headers = Map.empty, pem_bytes = rt_der r\<rparr>) roots)"

section \<open>What the bundles parse as\<close>

text \<open>
  pem.Encode and pem.Decode: each of the blocks \<open>bs\<close> is read back, with what follows it, and nothing is
  read from nothing. That is so for blocks whose type and headers are plain text of one line.
\<close>

definition pem_reads :: "(pem_block \<Rightarrow> string) \<Rightarrow> (string \<Rightarrow> (pem_block \<times> string) option) \<Rightarrow> pem_block set \<Rightarrow> bool" where
  "pem_reads encode pem bs \<longleftrightarrow> pem_shrinks pem \<and> pem [] = None \<and>
     (\<forall>b \<in> bs. \<forall>rest. pem (encode b @ rest) = Some (b, rest))"

lemma trim_space_empty: "trim_space [] = []"
  by code_simp

lemma pem_reads_cons:
  "pem_reads encode pem bs \<Longrightarrow> b \<in> bs \<Longrightarrow> pem (encode b @ rest) = Some (b, rest)"
  "pem_reads encode pem bs \<Longrightarrow> pem [] = None"
  by (simp_all add: pem_reads_def)

lemma encoded_length:
  "pem_reads encode pem bs \<Longrightarrow> set xs \<subseteq> bs \<Longrightarrow> length xs \<le> length (concat (map encode xs))"
proof (induction xs)
  case (Cons b xs)
  then have "encode b \<noteq> []" using pem_reads_cons(1) [of encode pem bs b "[]"] pem_reads_cons(2) [of encode pem bs] by auto
  then show ?case using Cons by (cases "encode b") auto
qed simp

definition root_block :: "('k, 's) root \<Rightarrow> pem_block" where
  "root_block r = \<lparr>pem_type = ''CERTIFICATE'', pem_headers = Map.empty, pem_bytes = rt_der r\<rparr>"

lemma root_block_simps [simp]: "pem_type (root_block r) = ''CERTIFICATE''" "pem_bytes (root_block r) = rt_der r"
  by (simp_all add: root_block_def)

lemma roots_pem_blocks: "roots_pem encode rs = concat (map encode (map root_block rs))"
  by (simp add: roots_pem_def root_block_def comp_def)

lemma parse_roots_loop_pem:
  assumes "pem_reads encode pem bs" and "root_block ` set rs \<subseteq> bs"
    and "\<forall>r \<in> set rs. xp (rt_der r) = Some (rt_certificate r) \<and> cert_is_ca (rt_certificate r)" and "length rs \<le> fuel"
  shows "parse_roots_loop pem xp fuel (concat (map encode (map root_block rs))) = Some (Ok (map rt_certificate rs))"
  using assms(2-)
proof (induction rs arbitrary: fuel)
  case Nil
  then show ?case using pem_reads_cons(2) [OF assms(1)] by (subst parse_roots_loop.simps) (simp add: trim_space_empty)
next
  case (Cons r rs)
  then obtain n where f: "fuel = Suc n" by (cases fuel) auto
  have "pem (encode (root_block r) @ concat (map encode (map root_block rs))) =
      Some (root_block r, concat (map encode (map root_block rs)))"
    using Cons.prems(1) by (intro pem_reads_cons(1) [OF assms(1)]) simp
  then show ?case
    using Cons f by (subst parse_roots_loop.simps) (simp add: ok_cons_def)
qed

lemma parse_roots_pem_bundle:
  assumes "pem_reads encode pem bs" and "root_block ` set rs \<subseteq> bs"
    and "\<forall>r \<in> set rs. xp (rt_der r) = Some (rt_certificate r) \<and> cert_is_ca (rt_certificate r)" and "rs \<noteq> []"
  shows "parse_roots_pem pem xp (roots_pem encode rs) = Some (Ok (map rt_certificate rs))"
proof -
  have "length rs \<le> length (roots_pem encode rs)"
    using encoded_length [OF assms(1), of "map root_block rs"] assms(2) by (simp add: roots_pem_blocks)
  then show ?thesis
    using parse_roots_loop_pem [OF assms(1-3)] assms(4)
    by (cases rs) (simp_all add: parse_roots_pem_def roots_pem_blocks)
qed

text \<open>The keys of a bundle, which ParseKeys reads last first.\<close>

definition key_block :: "string \<Rightarrow> string \<Rightarrow> pem_block" where
  "key_block kid der = \<lparr>pem_type = ''PUBLIC KEY'', pem_headers = [''Key-ID'' \<mapsto> kid], pem_bytes = der\<rparr>"

lemma key_block_simps [simp]:
  "pem_type (key_block kid der) = ''PUBLIC KEY''" "pem_headers (key_block kid der) ''Key-ID'' = Some kid"
  "pem_bytes (key_block kid der) = der"
  by (simp_all add: key_block_def)

lemma keys_blocks_Some:
  assumes "\<forall>(kid, k) \<in> set ks. \<exists>der. marshal k = Some der \<and> pkix der = Some (P256 k)"
  obtains ders where "length ders = length ks"
    "keys_blocks marshal ks = Some (map2 (\<lambda>(kid, k) der. key_block kid der) ks ders)"
    "list_all2 (\<lambda>(kid, k) der. pkix der = Some (P256 k)) ks ders"
  using assms
proof (induction ks arbitrary: thesis)
  case Nil
  then show ?case by simp
next
  case (Cons x ks)
  obtain kid k where x: "x = (kid, k)" by force
  obtain der where d: "marshal k = Some der" "pkix der = Some (P256 k)" using Cons.prems(2) x by auto
  obtain ders where ders: "length ders = length ks"
    "keys_blocks marshal ks = Some (map2 (\<lambda>(kid, k) der. key_block kid der) ks ders)"
    "list_all2 (\<lambda>(kid, k) der. pkix der = Some (P256 k)) ks ders"
    using Cons.IH Cons.prems(2) by auto
  show ?case using Cons.prems(1) [of "der # ders"] ders d by (simp add: x key_block_def)
qed

lemma parse_keys_loop_pem:
  assumes "pem_reads encode pem bs" and "list_all2 (\<lambda>(kid, k) der. pkix der = Some (P256 k)) ks ders"
    and "\<forall>(kid, k) \<in> set ks. kid \<noteq> [] \<and> (\<forall>der. key_block kid der \<in> bs)" and "distinct (map fst ks)"
    and "fst ` set ks \<inter> fst ` set seen = {}" and "length ks \<le> fuel"
  shows "parse_keys_loop pem pkix fuel seen (concat (map encode (map2 (\<lambda>(kid, k) der. key_block kid der) ks ders))) =
    Some (Ok (rev ks @ seen))"
  using assms(2-6)
proof (induction ks ders arbitrary: fuel seen rule: list_all2_induct)
  case Nil
  then show ?case using pem_reads_cons(2) [OF assms(1)] by (subst parse_keys_loop.simps) simp
next
  case (Cons x ks der ders)
  obtain kid k where x: "x = (kid, k)" by force
  obtain n where f: "fuel = Suc n" "length ks \<le> n" using Cons.prems(4) by (cases fuel) auto
  let ?rest = "concat (map encode (map2 (\<lambda>(kid, k) der. key_block kid der) ks ders))"
  have "pem (encode (key_block kid der) @ ?rest) = Some (key_block kid der, ?rest)"
    using Cons.prems(1) x by (intro pem_reads_cons(1) [OF assms(1)]) simp
  moreover have "parse_keys_loop pem pkix n ((kid, k) # seen) ?rest = Some (Ok (rev ks @ (kid, k) # seen))"
    using Cons x f by (intro Cons.IH) auto
  moreover have "map_of seen kid = None" using Cons.prems(3) x by (auto simp: map_of_eq_None_iff)
  moreover have "pkix der = Some (P256 k)" "kid \<noteq> []" using Cons.hyps(1) Cons.prems(1) x by auto
  ultimately show ?case using f x by (subst parse_keys_loop.simps) simp
qed

lemma parse_keys_pem_bundle:
  assumes "pem_reads encode pem bs" and "\<forall>(kid, k) \<in> set keys. \<exists>der. marshal k = Some der \<and> pkix der = Some (P256 k)"
    and "\<forall>(kid, k) \<in> set keys. kid \<noteq> [] \<and> (\<forall>der. key_block kid der \<in> bs)" and "distinct (map fst keys)" and "keys \<noteq> []"
  shows "\<exists>data. keys_pem encode marshal keys = Some data \<and>
    parse_keys pem pkix data = Some (Ok (rev (sort_key fst keys)))"
proof -
  let ?ks = "sort_key fst keys"
  have s: "set ?ks = set keys" "distinct (map fst ?ks)" "?ks \<noteq> []"
    using assms(4,5) by (simp_all add: distinct_map)
      (metis length_0_conv length_sort)
  have "\<forall>(kid, k) \<in> set ?ks. \<exists>der. marshal k = Some der \<and> pkix der = Some (P256 k)" unfolding s(1) by (rule assms(2))
  then obtain ders where d: "length ders = length ?ks"
    "keys_blocks marshal ?ks = Some (map2 (\<lambda>(kid, k) der. key_block kid der) ?ks ders)"
    "list_all2 (\<lambda>(kid, k) der. pkix der = Some (P256 k)) ?ks ders"
    by (rule keys_blocks_Some)
  let ?bs = "map2 (\<lambda>(kid, k) der. key_block kid der) ?ks ders"
  have "set ?bs \<subseteq> bs"
    using assms(3) s(1) by (fastforce dest!: set_zip_leftD)
  then have "length ?ks \<le> length (concat (map encode ?bs))"
    using encoded_length [OF assms(1), of ?bs] d(1) by simp
  then have "parse_keys_loop pem pkix (length (concat (map encode ?bs))) [] (concat (map encode ?bs)) = Some (Ok (rev ?ks @ []))"
    using assms(3) s by (intro parse_keys_loop_pem [OF assms(1) d(3)]) auto
  then have p: "parse_keys_loop pem pkix (length (concat (map encode ?bs))) [] (concat (map encode ?bs)) = Some (Ok (rev ?ks))"
    unfolding append_Nil2 .
  have "parse_keys pem pkix data = Some (Ok zs)"
    if "parse_keys_loop pem pkix (length data) [] data = Some (Ok zs)" "zs \<noteq> []" for data zs
    using that by (cases zs) (simp_all add: parse_keys_def)
  from this [OF p] have "parse_keys pem pkix (concat (map encode ?bs)) = Some (Ok (rev ?ks))"
    using s(3) unfolding rev_is_Nil_conv by blast
  then show ?thesis using d(2) unfolding keys_pem_def by (metis option.map(2))
qed

section \<open>What the certificates are good for\<close>

text \<open>
  crypto/x509: a certificate parses as its template says, and a leaf that a root signed verifies for
  each of its host names, for code signing, while both are valid.
\<close>

definition issued_cert :: "cert_template \<Rightarrow> 'k \<Rightarrow> string \<Rightarrow> 'k cert" where
  "issued_cert tp k der =
     \<lparr>cert_is_ca = tp_is_ca tp, cert_digital_signature = (DigitalSignature \<in> tp_usage tp), cert_ips = 0,
      cert_key = P256 k, cert_uris = tp_uris tp, cert_raw = der\<rparr>"

definition x509_parses :: "('k, 's) create \<Rightarrow> 'k externals \<Rightarrow> bool" where
  "x509_parses create ex \<longleftrightarrow>
     (\<forall>tp parent k s der. create tp parent k s = Ok der \<longrightarrow> ex_x509_parse ex der = Some (issued_cert tp k der))"

definition valid_at :: "cert_template \<Rightarrow> instant \<Rightarrow> bool" where
  "valid_at tp now \<longleftrightarrow> tp_not_before tp \<le> now \<and> now \<le> tp_not_after tp"

definition x509_verifies :: "('k, 's) create \<Rightarrow> ('s \<Rightarrow> 'k) \<Rightarrow> 'k externals \<Rightarrow> bool" where
  "x509_verifies create pub ex \<longleftrightarrow>
     (\<forall>rtp s rder tp k der pool now host.
        create rtp None (pub s) s = Ok rder \<and> create tp (Some (issued_cert rtp (pub s) rder)) k s = Ok der \<and>
        tp_is_ca rtp \<and> KeyCertSign \<in> tp_usage rtp \<and> tp_ext rtp = [] \<and> valid_at rtp now \<and>
        \<not> tp_is_ca tp \<and> CodeSigning \<in> set (tp_ext tp) \<and> host \<in> set (tp_hosts tp) \<and> valid_at tp now \<and>
        issued_cert rtp (pub s) rder \<in> set pool \<longrightarrow>
        ex_x509_verify ex (issued_cert tp k der) [] pool now host)"

lemma new_root_Ok:
  assumes "new_root create pub (ex_x509_parse ex) key nb na = Ok r" and "x509_parses create ex"
  shows "create (root_template nb na) None (pub key) key = Ok (rt_der r)"
    "rt_certificate r = issued_cert (root_template nb na) (pub key) (rt_der r)" "rt_key r = key"
    "ex_x509_parse ex (rt_der r) = Some (rt_certificate r)" "cert_is_ca (rt_certificate r)"
  using assms by (auto simp: new_root_def x509_parses_def issued_cert_def root_template_def split: sum.splits option.splits)

text \<open>The key and the issuer that a verifier reads off an environment certificate of a root it has.\<close>

lemma chained_certificate:
  assumes "new_root create pub (ex_x509_parse ex) rkey nb na = Ok r" and "x509_parses create ex" and "x509_verifies create pub ex"
    and "root_issue create uri r (chained_spec now key host c) = Ok der"
    and "cl_iss c = issuer_prefix @ env" and "valid_environment env" and "uri (issuer_uri_prefix @ env) = Ok (issuer_uri_prefix @ env)"
    and "nb \<le> at" "at \<le> na" "now - 3600 * nanos \<le> at" "at \<le> now + 3600 * nanos"
  obtains leaf where "ex_x509_parse ex der = Some leaf"
    "check_environment_certificate (ex_x509_verify ex) [leaf] (Some [rt_certificate r]) host at = Ok (key, cl_iss c)"
proof -
  note root = new_root_Ok [OF assms(1,2)]
  have cut: "cut_prefix issuer_prefix (issuer_prefix @ env) = Some env"
    "cut_prefix issuer_uri_prefix (issuer_uri_prefix @ env) = Some env" by (simp_all add: cut_prefix_Some)
  let ?tp = "environment_template (chained_spec now key host c) [issuer_uri_prefix @ env]"
  have tp: "tp_usage ?tp = {DigitalSignature}" "tp_ext ?tp = [CodeSigning]" "tp_hosts ?tp = [host]" "\<not> tp_is_ca ?tp"
    "tp_uris ?tp = [issuer_uri_prefix @ env]" "valid_at ?tp at"
    using assms(10,11) by (simp_all add: environment_template_def chained_spec_def valid_at_def)
  have der: "create ?tp (Some (rt_certificate r)) key rkey = Ok der"
    using assms(4,5,7) cut(1) root(3) by (simp add: root_issue_def chained_spec_def issuer_uri_prefix_def)
  have "valid_at (root_template nb na) at" using assms(8,9) by (simp add: valid_at_def root_template_def)
  then have "ex_x509_verify ex (issued_cert ?tp key der) [] [rt_certificate r] at host"
    using assms(3) root(1,2) der tp unfolding x509_verifies_def
    by (elim allE [of _ "root_template nb na"] allE [of _ rkey] allE [of _ "rt_der r"] allE [of _ ?tp] allE [of _ key]
        allE [of _ der] allE [of _ "[rt_certificate r]"] allE [of _ at] allE [of _ host])
      (simp add: root_template_def)
  moreover have "ex_x509_parse ex der = Some (issued_cert ?tp key der)"
    using assms(2) der unfolding x509_parses_def by blast
  ultimately show ?thesis
    using that tp assms(5,6) cut(2) by (simp add: check_environment_certificate_def issued_cert_def)
qed

lemma parse_trust_root:
  assumes "parse_trust ul pem pkix xp sha256 [] (roots_pem encode [r]) [] host = Some (Ok (v, l))"
    and "pem_reads encode pem {root_block r}" and "xp (rt_der r) = Some (rt_certificate r)" and "cert_is_ca (rt_certificate r)"
  shows "v_chains v = Some \<lparr>ch_roots = [rt_certificate r], ch_host = host\<rparr>" "v_keys v = Map.empty" "v_issuer v = []"
    "v_subject v = subject_integration_proxy" "take_inv v" "ledger_of v = Map.empty"
proof -
  have "parse_roots_pem pem xp (roots_pem encode [r]) = Some (Ok [rt_certificate r])"
    using parse_roots_pem_bundle [where rs = "[r]" and xp = xp, OF assms(2)] assms(3,4) by simp
  then have n: "new_verifier ul \<lparr>vc_issuer = [], vc_subject = subject_integration_proxy, vc_keys = [],
      vc_roots = [Some (rt_certificate r)], vc_controller_host = host\<rparr> = Ok v"
    using assms(1)
    by (auto simp: parse_trust_def trim_space_empty new_verifier_def split: if_splits sum.splits)
  then show "v_chains v = Some \<lparr>ch_roots = [rt_certificate r], ch_host = host\<rparr>" "v_keys v = Map.empty" "v_issuer v = []"
    "v_subject v = subject_integration_proxy"
    by (auto simp: new_verifier_def new_chains_def split: if_splits sum.splits)
  show "take_inv v" "ledger_of v = Map.empty" by (rule new_verifier_fresh [OF n])+
qed

text \<open>Time.Unix rounds down to the second.\<close>

lemma unix_seconds_time:
  assumes "0 \<le> t" and "t < 2 ^ 62 * nanos"
  shows "unix_time (unix_seconds t) = t div nanos * nanos" "t div nanos * nanos \<le> t" "t < t div nanos * nanos + nanos"
proof -
  have "t div nanos < 2 ^ 63" "0 \<le> t div nanos" using assms by (simp_all add: nanos_def)
  then have "sint (of_int (t div nanos) :: i64) = t div nanos"
    by (simp add: signed_of_int signed_take_bit_int_eq_self)
  then show "unix_time (unix_seconds t) = t div nanos * nanos" by (simp add: unix_time_def unix_seconds_def)
  have "t = t div nanos * nanos + t mod nanos" by simp
  moreover have "0 \<le> t mod nanos" "t mod nanos < nanos" by (simp_all add: nanos_def)
  ultimately show "t div nanos * nanos \<le> t" "t < t div nanos * nanos + nanos" by linarith+
qed

section \<open>Properties\<close>

text \<open>
  The fixtures are what production accepts. A chained token for the fixture's claims, under a root
  the fixture made, is accepted by the verifier ParseTrust builds from that root's bundle for the
  host the certificate names, throughout the minute the claims are for, whatever its kid: no key is
  pinned, so the chain alone makes the verifier trust it.
\<close>

theorem fixture_capability_accepted:
  assumes "valid_root create pub (ex_x509_parse ex) key_of now seed = Some (Ok r)"
    and "parse_trust (ex_lower ex) pem pkix (ex_x509_parse ex) sha256 [] (roots_pem encode [r]) [] host = Some (Ok (v, l))"
    and "c = fixture_claims fmt now (issuer_prefix @ env) connector dest port"
    and "chained create pub uri (ex_lower ex) ops now r k kid host c = Some token"
    and "length token \<le> max_token_len" and "valid_environment env"
    and "uri (issuer_uri_prefix @ env) = Ok (issuer_uri_prefix @ env)"
    and "pem_reads encode pem {root_block r}" and "x509_parses create ex" and "x509_verifies create pub ex"
    and "reads_marshalled ex ops" and "key_accepts ex ops k (pub k)"
    and "0 \<le> now" and "now < 2 ^ 61 * nanos" and "now \<le> at" and "at \<le> now + 60 * nanos"
  shows "snd (verify ex at token connector dest port v) = Ok c"
proof -
  obtain rkey where r: "new_root create pub (ex_x509_parse ex) rkey (now - 3600 * nanos) (now + 24 * 3600 * nanos) = Ok r"
    using assms(1) by (auto simp: valid_root_def)
  note root = new_root_Ok [OF r assms(9)]
  note v = parse_trust_root [OF assms(2,8) root(4,5)]
  have c: "cl_iss c = issuer_prefix @ env" "cl_sub c = subject_integration_proxy" "cl_connector_id c = connector"
    "cl_host c = dest" "cl_port c = port" "cl_iat c = unix_seconds now" "cl_exp c = unix_seconds (now + 60 * nanos)"
    using assms(3) by (simp_all add: fixture_claims_def)
  obtain der where d: "root_issue create uri r (chained_spec now (pub k) host c) = Ok der"
    "sign_chained (ex_lower ex) (jws_sign ops (Some k)) kid [der] c = Ok token"
    using assms(4) by (auto simp: chained_def split: sum.splits)
  have w: "now - 3600 * nanos \<le> at" "at \<le> now + 24 * 3600 * nanos" "at \<le> now + 3600 * nanos"
    using assms(15,16) by (simp_all add: nanos_def)
  obtain leaf where l: "ex_x509_parse ex der = Some leaf"
    "check_environment_certificate (ex_x509_verify ex) [leaf] (Some [rt_certificate r]) host at = Ok (pub k, cl_iss c)"
    using chained_certificate [where at = at, OF r assms(9,10) d(1) c(1) assms(6,7) w(1,2) w(1,3)] by blast
  then have t: "trusts_signer ex v at kid [der] (pub k) (cl_iss c)"
    using v(1,2) by (auto simp: trusts_signer_def intro!: exI [of _ "[leaf]"])
  have s: "signer_sign (ex_lower ex) (jws_sign ops (Some k)) kid [der] c = Ok token"
    using d(2) by (simp add: signer_sign_def)
  have n: "now < 2 ^ 62 * nanos" "0 \<le> now + 60 * nanos" "now + 60 * nanos < 2 ^ 62 * nanos"
    using assms(13,14) by (simp_all add: nanos_def)
  have time: "unix_time (cl_iat c) \<le> at + max_clock_skew" "at - max_clock_skew < unix_time (cl_exp c)"
    using unix_seconds_time [OF assms(13) n(1)] unix_seconds_time [OF n(2,3)] assms(15,16) c(6,7)
    by (simp_all add: max_clock_skew_def nanos_def)
  have "opened_times v at (cl_jti c) < max_opens"
    by (simp add: opened_times_def ledger_prune_def v(6) max_opens_def)
  then show ?thesis
    using verify_answer [OF parse_capability_signed [OF s assms(5,11,12) t] _ _ v(5), of connector dest port] v(3,4) c(2-5)
      leD [OF time(1)] time(2) by (simp add: not_le [symmetric])
qed

text \<open>An instance: certificates, headers and PEM blocks of one byte each.\<close>

definition fx_now :: instant where "fx_now = unix_time 1000"
definition fx_host :: string where "fx_host = ''controller.example''"

definition fx_claims :: claims where
  "fx_claims = fixture_claims (\<lambda>t. ''j'') fx_now (issuer_prefix @ ''dev'') ''c'' ''db.internal'' 5432"

definition fx_root_template :: cert_template where
  "fx_root_template = root_template (fx_now - 3600 * nanos) (fx_now + 24 * 3600 * nanos)"

definition fx_leaf_template :: cert_template where
  "fx_leaf_template = environment_template (chained_spec fx_now (7 :: nat) fx_host fx_claims) [issuer_uri_prefix @ ''dev'']"

definition fx_create :: "(nat, unit) create" where
  "fx_create tp parent k s =
     (if k \<noteq> 7 then Err [] else if tp = fx_root_template \<and> parent = None then Ok ''R''
      else if tp = fx_leaf_template then Ok ''E'' else Err [])"

definition fx_root :: "(nat, unit) root" where
  "fx_root = \<lparr>rt_certificate = issued_cert fx_root_template 7 ''R'', rt_der = ''R'', rt_key = ()\<rparr>"

definition fx_header :: jws_header where
  "fx_header = (signed_header ''k'' [''E''])\<lparr>hdr_alg := algorithm\<rparr>"

definition fx_ops :: "unit signing_ops" where
  "fx_ops = \<lparr>so_p256 = (\<lambda>k. True), so_header = (\<lambda>h. if h = fx_header then Some ''H'' else None),
     so_claims = (\<lambda>c. if c = fx_claims then Some ''P'' else None), so_der = (\<lambda>k input. Some ''D''),
     so_asn1 = (\<lambda>der. Some ((1, 2), []))\<rparr>"

definition fx_externals :: "nat externals" where
  "fx_externals = \<lparr>
     ex_parse = (\<lambda>raw. if raw = ''H'' then Some (header_json fx_header)
       else if raw = ''P'' then Some (JObj (claims_members fx_claims)) else None),
     ex_lower = id, ex_es256 = (\<lambda>input sig key. key = 7),
     ex_x509_parse = (\<lambda>der. if der = ''R'' then Some (issued_cert fx_root_template 7 ''R'')
       else if der = ''E'' then Some (issued_cert fx_leaf_template 7 ''E'') else None),
     ex_x509_verify = (\<lambda>leaf rest roots now host. True)\<rparr>"

definition fx_encode :: "pem_block \<Rightarrow> string" where "fx_encode b = ''B''"

definition fx_pem :: "string \<Rightarrow> (pem_block \<times> string) option" where
  "fx_pem s = (case s of c # cs \<Rightarrow> if c = CHR ''B'' then Some (root_block fx_root, cs) else None | [] \<Rightarrow> None)"

definition fx_token :: string where
  "fx_token = (b64url_enc ''H'' @ ''.'' @ b64url_enc ''P'') @ ''.'' @ b64url_enc example_signature"

lemma fx_laws:
  "pem_reads fx_encode fx_pem {root_block fx_root}" "x509_parses fx_create fx_externals"
  "x509_verifies fx_create (\<lambda>s. 7) fx_externals" "reads_marshalled fx_externals fx_ops" "key_accepts fx_externals fx_ops () 7"
proof -
  show "pem_reads fx_encode fx_pem {root_block fx_root}"
    by (auto simp: pem_reads_def pem_shrinks_def fx_pem_def fx_encode_def split: list.splits if_splits)
  show "x509_parses fx_create fx_externals"
    by (auto simp: x509_parses_def fx_create_def fx_externals_def split: if_splits)
qed (simp_all add: x509_verifies_def fx_externals_def reads_marshalled_def fx_ops_def key_accepts_def)

lemma fx_claims_eq:
  "fx_claims = \<lparr>cl_iss = ''traversal-raw-tunnel/dev'', cl_aud = audience, cl_sub = subject_integration_proxy,
     cl_organization_id = ''org'', cl_integration_id = ''integration'', cl_connector_id = ''c'',
     cl_consumer_id = ''consumer'', cl_session_id = ''session'', cl_host = ''db.internal'', cl_port = 5432,
     cl_jti = ''j'', cl_iat = 1000, cl_exp = 1060\<rparr>"
  by (simp add: fx_claims_def fixture_claims_def issuer_prefix_def fx_now_def example_times unix_seconds_def
      unix_to_internal_def nanos_def)

lemma fx_signs:
  "chained fx_create (\<lambda>s. 7) (\<lambda>u. Ok u) id fx_ops fx_now fx_root () ''k'' fx_host fx_claims = Some fx_token"
proof -
  have "canonical id ''db.internal'' = (''db.internal'', True)" by code_simp
  then have "claims_valid id fx_claims = None"
    by (simp add: claims_valid_def required_claims_def fx_claims_eq is_canonical_iff audience_def
        subject_integration_proxy_def issuer_prefix_def has_prefix_def max_lifetime_seconds_def)
  moreover have "(plain_header ''k'')\<lparr>hdr_x5c := Some (map b64std_enc [''E'']), hdr_alg := algorithm\<rparr> = fx_header"
    by (simp add: fx_header_def signed_header_def)
  ultimately have s: "sign_chained id (jws_sign fx_ops (Some ())) ''k'' [''E''] fx_claims = Ok fx_token"
    using example_raw_signature
    by (simp add: sign_chained_def sign_claims_def jws_sign_def sign_with_def fx_ops_def fx_token_def
        max_chain_certs_def max_chain_bytes_def Let_def)
  have "root_issue fx_create (\<lambda>u. Ok u) fx_root (chained_spec fx_now 7 fx_host fx_claims) = Ok ''E''"
  proof -
    have i: "ec_issuer (chained_spec fx_now 7 fx_host fx_claims) = issuer_uri_prefix @ ''dev''"
      "ec_key (chained_spec fx_now 7 fx_host fx_claims) = 7"
      by (simp_all add: chained_spec_def fx_claims_eq issuer_prefix_def)
    have n: "issuer_uri_prefix @ ''dev'' \<noteq> []" by simp
    show ?thesis
      unfolding root_issue_def i using n by (simp add: fx_create_def fx_leaf_template_def)
  qed
  then show ?thesis using s by (simp add: chained_def)
qed

lemma fx_trusts:
  "\<exists>v l. parse_trust id fx_pem (\<lambda>der. None) (ex_x509_parse fx_externals) id [] (roots_pem fx_encode [fx_root]) [] fx_host =
     Some (Ok (v, l))"
proof -
  have c: "is_canonical id fx_host" "parse_addr fx_host = None" unfolding fx_host_def by code_simp+
  have ca: "cert_is_ca (rt_certificate fx_root)"
    by (simp add: fx_root_def issued_cert_def fx_root_template_def root_template_def)
  have "trim_space (roots_pem fx_encode [fx_root]) \<noteq> []"
    by (simp add: roots_pem_def fx_encode_def) code_simp
  moreover have "parse_roots_pem fx_pem (ex_x509_parse fx_externals) (roots_pem fx_encode [fx_root]) =
      Some (Ok [rt_certificate fx_root])"
    using parse_roots_pem_bundle [where rs = "[fx_root]" and xp = "ex_x509_parse fx_externals", OF fx_laws(1)] ca
    by (simp add: fx_externals_def fx_root_def)
  ultimately show ?thesis
    using c ca by (simp add: parse_trust_def trim_space_empty new_verifier_def new_chains_def subject_integration_proxy_def)
qed

lemma fixture_capability_accepted_witness:
  "\<exists>v l. parse_trust id fx_pem (\<lambda>der. None) (ex_x509_parse fx_externals) id [] (roots_pem fx_encode [fx_root]) [] fx_host =
       Some (Ok (v, l)) \<and>
     snd (verify fx_externals (fx_now + 9 * nanos) fx_token ''c'' ''db.internal'' 5432 v) = Ok fx_claims"
proof -
  obtain v l where t: "parse_trust (ex_lower fx_externals) fx_pem (\<lambda>der. None) (ex_x509_parse fx_externals) id []
      (roots_pem fx_encode [fx_root]) [] fx_host = Some (Ok (v, l))"
    using fx_trusts by (auto simp: fx_externals_def)
  have r: "valid_root fx_create (\<lambda>s. 7) (ex_x509_parse fx_externals) (\<lambda>seed. Some ()) fx_now ''root'' = Some (Ok fx_root)"
    unfolding valid_root_def new_root_def fx_root_template_def [symmetric] option.map
    by (simp add: fx_create_def) (simp add: fx_externals_def fx_root_def)
  have k: "chained fx_create (\<lambda>s. 7) (\<lambda>u. Ok u) (ex_lower fx_externals) fx_ops fx_now fx_root () ''k'' fx_host fx_claims =
      Some fx_token"
    using fx_signs by (simp add: fx_externals_def)
  have n: "0 \<le> fx_now" "fx_now < 2 ^ 61 * nanos" "fx_now \<le> fx_now + 9 * nanos" "fx_now + 9 * nanos \<le> fx_now + 60 * nanos"
    by (simp_all add: fx_now_def example_times nanos_def)
  have e: "valid_environment ''dev''" by code_simp
  have len: "length fx_token \<le> max_token_len" unfolding fx_token_def by (rule one_byte_token_length)
  have "snd (verify fx_externals (fx_now + 9 * nanos) fx_token ''c'' ''db.internal'' 5432 v) = Ok fx_claims"
    by (rule fixture_capability_accepted [OF r t fx_claims_def k len e refl fx_laws n])
  then show ?thesis using t by (auto simp: fx_externals_def)
qed

end
