(* ===== verification/EndToEnd.thy ===== *)
theory EndToEnd
  imports PipeConfig
begin

text \<open>
  The way of a request out of the connector: the transport of internal/upstream/upstream.go, the
  dialer that newPolicy of internal/pipeserver/config.go returns, with the count of
  internal/pipeserver/metrics.go around the proxy's, and what they come to behind the pipe server. A
  dial answers what it contacted on the network besides its result.
\<close>

section \<open>The dialer\<close>

text \<open>The network a dial uses: the resolver, the forward proxy, and the arrivals of a race.\<close>

record network =
  nw_lookup :: "string \<Rightarrow> string + addr list"
  nw_via_proxy :: "url \<Rightarrow> string \<Rightarrow> string option"
  nw_arrivals :: "addr list \<Rightarrow> u16 \<Rightarrow> (addr \<times> string option) list"

type_synonym dialed = "contact list \<times> (pipe_error + string)"

definition dial_through :: "network \<Rightarrow> policy \<Rightarrow> string \<Rightarrow> u16 \<Rightarrow> dialed" where
  "dial_through nw pol = policy_dial (nw_lookup nw) (nw_via_proxy nw) (nw_arrivals nw) pol"

text \<open>countProxyDials: besides the dial, the target kinds it counts.\<close>

definition target_kind :: "string \<Rightarrow> string" where
  "target_kind host = (if parse_addr host = None then ''hostname'' else ''ip'')"

definition count_proxy_dials :: "(string \<Rightarrow> u16 \<Rightarrow> dialed) \<Rightarrow> string \<Rightarrow> u16 \<Rightarrow> dialed \<times> string list" where
  "count_proxy_dials dial host port =
     (let d = dial host port in
      (d, case snd d of
            Inl (Refused ForbiddenAddress msg) \<Rightarrow> []
          | _ \<Rightarrow> [target_kind host]))"

definition dial_destination :: "network \<Rightarrow> dialer \<Rightarrow> string \<Rightarrow> u16 \<Rightarrow> dialed \<times> string list" where
  "dial_destination nw d host port =
     (let via_proxy = (if pol_proxy (dl_proxied d) \<noteq> None then count_proxy_dials (dial_through nw (dl_proxied d)) host port
            else (dial_through nw (dl_proxied d) host port, [])) in
      case dl_direct d of
        None \<Rightarrow> via_proxy
      | Some (direct, unproxied) \<Rightarrow> if direct host port then (dial_through nw unproxied host port, []) else via_proxy)"

section \<open>The transports\<close>

text \<open>
  transport: what the three of a client speak, their trust and their limits. None has a proxy of its
  own; they dial only through the function given.
\<close>

record http_transport =
  ht_http1 :: bool
  ht_http2 :: bool
  ht_cleartext_http2 :: bool
  ht_trust :: "bool \<times> string list option"
  ht_handshake_timeout :: duration
  ht_header_timeout :: duration
  ht_idle_per_host :: nat
  ht_idle_timeout :: duration

definition upstream_transport :: "bool \<times> string list option \<Rightarrow> duration \<Rightarrow> transport \<Rightarrow> http_transport" where
  "upstream_transport trust timeout kind =
     \<lparr>ht_http1 = (kind = Auto \<or> kind = Http1), ht_http2 = (kind = Auto), ht_cleartext_http2 = (kind = H2C),
      ht_trust = trust, ht_handshake_timeout = 10 * nanos, ht_header_timeout = timeout,
      ht_idle_per_host = 8, ht_idle_timeout = 90 * nanos\<rparr>"

text \<open>
  The address net/http hands a transport's DialContext for a URL: the host name, of which \<open>idna\<close>
  encodes one that is not ASCII, and the port or the scheme's own.
\<close>

definition transport_addr :: "(string \<Rightarrow> string option) \<Rightarrow> url \<Rightarrow> string" where
  "transport_addr idna u =
     (let h = url_hostname u;
          host = (if is_ascii h then h else case idna h of Some v \<Rightarrow> v | None \<Rightarrow> h);
          port = (if url_port u \<noteq> [] then url_port u
            else if url_scheme u = ''http'' then ''80'' else if url_scheme u = ''https'' then ''443'' else []) in
      join_host_port host port)"

definition dial_context :: "(string \<Rightarrow> u16 \<Rightarrow> dialed) \<Rightarrow> string \<Rightarrow> dialed" where
  "dial_context dial addr =
     (case split_host_port addr of
        None \<Rightarrow> ([], Err (OtherError (''address '' @ addr)))
      | Some (host, p) \<Rightarrow>
          (case parse_uint 16 p of
             None \<Rightarrow> ([], Err (OtherError (''strconv.ParseUint: parsing '' @ p)))
           | Some n \<Rightarrow> dial host (of_nat n)))"

text \<open>The dial for a request that Forward hands its transport.\<close>

definition round_trip_dial :: "(string \<Rightarrow> string option) \<Rightarrow> network \<Rightarrow> dialer \<Rightarrow> sent_request \<Rightarrow> dialed" where
  "round_trip_dial idna nw d x =
     dial_context (\<lambda>host port. fst (dial_destination nw d host port)) (transport_addr idna (host_url (sr_scheme x) (sr_target x)))"

section \<open>Laws\<close>

lemma dial_destination_policy:
  "fst (dial_destination nw d host port) = dial_through nw (dialer_policy d host port) host port"
  by (auto simp: dial_destination_def dialer_policy_def count_proxy_dials_def Let_def split: option.splits)

lemma hex_digits_ascii: "list_all ascii_char ''0123456789abcdefABCDEF.:''"
  by code_simp

lemma hex_val_ascii: "hex_val c \<noteq> None \<Longrightarrow> ascii_char c"
proof -
  assume "hex_val c \<noteq> None"
  then have "of_char c < (128 :: nat)" by (auto simp: hex_val_def is_digit_def split: if_splits)
  then show ?thesis by (cases c) (auto simp: of_char_def split: if_splits)
qed

lemma digit_ascii: "is_digit c \<Longrightarrow> ascii_char c"
  by (rule hex_val_ascii) (simp add: hex_val_def)

lemma canonical_ascii:
  assumes "is_canonical ul h"
  shows "is_ascii h"
proof -
  have "canonical ul h = (h, True)" using assms by (simp add: is_canonical_iff)
  then show ?thesis
  proof (cases rule: canonical_cases)
    case name
    then show ?thesis using good_name_ascii(1) by (auto simp: is_ascii_def list_all_iff)
  next
    case (address a)
    have sep: "ascii_char (CHR '':'')" "ascii_char (CHR ''.'')" by code_simp+
    have "ascii_char c" if c: "c \<in> set (addr_string a)" for c
    proof (cases a)
      case (V4 w)
      then have "is_digit c \<or> c = CHR ''.''" using c string4_chars by simp
      then show ?thesis using digit_ascii sep by blast
    next
      case (V6 w z)
      have "\<not> is_4in6 a" using address(2) unmap_not_4in6 [of a] by simp
      then have "c = CHR '':'' \<or> hex_val c \<noteq> None"
        using c V6 address(3) string6_groups_hex by (auto simp: zone_suffix_def)
      then show ?thesis using hex_val_ascii sep by blast
    qed
    then show ?thesis using address(1) by (simp add: is_ascii_def list_all_iff)
  qed
qed

text \<open>A destination reaches the dialer as it was named: the same host, the same port.\<close>

lemma destination_port:
  assumes "is_canonical ul host"
  shows "url_port (host_url scheme (destination host port)) = format_uint (unat port)"
proof -
  let ?p = "format_uint (unat port)"
  have p: "CHR '':'' \<notin> set ?p" "list_all is_digit ?p"
    using format_uint_no_sep [of "unat port"] format_uint_digits [of _ "unat port"] by (auto simp: list_all_iff)
  have "cut_last (CHR '':'') (h @ CHR '':'' # ?p) = Some (h, ?p)" for h
    using p by (intro cut_last_append) auto
  from this [of "CHR ''['' # host @ '']''"] this [of host] p(2) show ?thesis
    by (simp add: url_port_def url_split_host_def host_url_def destination_def join_host_port_def valid_optional_port_def)
qed

lemma transport_addr_destination:
  assumes "is_canonical ul host"
  shows "transport_addr idna (host_url scheme (destination host port)) = destination host port"
  using destination_hostname [OF assms, of scheme port] destination_port [OF assms, of scheme port]
    canonical_ascii [OF assms]
  by (simp add: transport_addr_def destination_def)

lemma dial_context_destination:
  assumes "is_canonical ul host"
  shows "dial_context dial (destination host port) = dial host port"
proof -
  have "split_host_port (destination host port) = Some (host, format_uint (unat port))"
    unfolding destination_def using assms
    by (intro split_join_host_port canonical_brackets format_uint_no_sep) (simp add: is_canonical_iff)
  moreover have "unat port < 2 ^ 16" using unsigned_less [of port] by simp
  ultimately show ?thesis by (simp add: dial_context_def)
qed

text \<open>A direct dial goes to the host itself when it is an address, and otherwise where the resolver says.\<close>

lemma dial_direct_source:
  assumes "TcpDial a p \<in> set (fst (dial_through nw pol host port))"
  shows "case parse_addr host of
      Some l \<Rightarrow> a = unmap l
    | None \<Rightarrow> \<exists>found. nw_lookup nw (absolute_host host) = Ok found \<and> a \<in> unmap ` set found"
  using assms
  by (auto simp: dial_through_def policy_dial_def Let_def split: option.splits if_splits sum.splits list.splits
      dest: in_set_takeD)

lemma dial_through_allowed:
  assumes "TcpDial a p \<in> set (fst (dial_through nw pol host port))"
  shows "\<not> forbidden pol a \<and> p = port"
  using assms dial_contacts [of "nw_lookup nw" "nw_via_proxy nw" "nw_arrivals nw" pol host port]
  unfolding dial_through_def by (metis prod.collapse)

lemma dial_through_proxy:
  assumes "ProxyConnect authority \<in> set (fst (dial_through nw pol host port))"
  shows "authority = destination host port \<and> \<not> forbidden_name host \<and>
    (case parse_addr host of Some a \<Rightarrow> \<not> forbidden pol a | None \<Rightarrow> pol_proxy_resolves pol)"
  using assms
  by (auto simp: dial_through_def policy_dial_def destination_def Let_def
      split: option.splits if_splits sum.splits list.splits)

lemma forbidden_mono:
  "\<not> forbidden pol a \<Longrightarrow> D \<subseteq> set (pol_deny pol) \<Longrightarrow> \<forall>d \<in> D. \<forall>b \<in> set (checked_addrs a). \<not> prefix_contains d b"
  unfolding forbidden_def by blast

lemma authorizes_host: "url_host u = url_host u' \<Longrightarrow> authorizes ex sv c u = authorizes ex sv c u'"
  by (simp add: authorizes_def)

text \<open>What a request answered \<open>ToUpstream\<close> owes to a capability, for any server.\<close>

lemma answered_destination:
  assumes "pipe_reach ex (fresh_system sv) es s" and "EvAnswered i r (ToUpstream target r') \<in> set es"
  obtains c where "authorizes ex sv c (host_url [] (url_host target))" and "is_canonical (ex_lower ex) (cl_host c)"
    and "url_authority (ex_lower ex) (host_url (url_scheme target) (req_host r)) = Some (cl_host c, cl_port c)"
    and "target = host_url (url_scheme target) (destination (cl_host c) (cl_port c))"
proof -
  obtain u c where a: "authorizes ex sv c u" "pipe_forward (ex_lower ex) u r = ToUpstream target r'"
    using answered_authorized [OF assms] by metis
  obtain host port where f: "url_authority (ex_lower ex) (host_url (url_scheme target) (req_host r)) = Some (host, port)"
    "destination host port = url_host u" "url_host target = url_host u"
    "target = host_url (url_scheme target) (url_host u)"
    using pipe_forward_ToUpstream [OF a(2)] by blast
  have u: "url_host u = destination (cl_host c) (cl_port c)" "is_canonical (ex_lower ex) (cl_host c)" "0 < cl_port c"
    using a(1) unfolding authorizes_def by blast+
  have "is_canonical (ex_lower ex) host" "0 < port"
    using url_authority_Some [OF f(1)] canonical_is_canonical by (simp_all add: is_canonical_iff)
  then have hp: "host = cl_host c" "port = cl_port c" using destination_inj u f(2) by metis+
  have "url_host (host_url [] (url_host target)) = url_host u" using f(3) by (simp add: host_url_def)
  then have "authorizes ex sv c (host_url [] (url_host target))" using a(1) authorizes_host by metis
  then show ?thesis using that [of c] f u hp by simp
qed

section \<open>Properties\<close>

text \<open>
  C3. From capability to network, over every component between. A connector that started serves, and
  some handler passed a request on: then a capability names the request's authority, Verify accepted
  it for the configured connector under the trust that was loaded, and the dial the request makes
  contacts only that destination. Directly it contacts only addresses that are the capability's host
  or that the resolver gave for it, on the capability's port, none of which, in any IPv6 spelling, is
  in the built-in floor or a prefix the environment forbids; a proxy is asked for that authority and
  no other, and never for a forbidden name.
\<close>

theorem request_reaches_allowed_address:
  assumes "new_tunnels pd e cfg = Some (Ok t)"
    and "pipe_reach ex (fresh_system (tn_server t)) es s"
    and "EvAnswered i r (ToUpstream target r') \<in> set es"
    and "fst (forward lim rx describe w xc roundtrip h r' body target) = Some x"
    and "round_trip_dial idna nw (tn_dialer t) x = (contacts, res)"
  shows "\<exists>c extra now token v. same_trust v (sv_verifier (tn_server t)) \<and>
      snd (verify ex now token (cf_connector_id cfg) (cl_host c) (cl_port c) v) = Ok c \<and>
      url_authority (ex_lower ex) (host_url (url_scheme target) (req_host r)) = Some (cl_host c, cl_port c) \<and>
      forbidden_cidrs (e ''TRAVERSAL_PIPES_FORBIDDEN_CIDRS'') = Ok extra \<and>
      (\<forall>a p. TcpDial a p \<in> set contacts \<longrightarrow> p = cl_port c \<and>
         (case parse_addr (cl_host c) of Some l \<Rightarrow> a = unmap l
          | None \<Rightarrow> \<exists>found. nw_lookup nw (absolute_host (cl_host c)) = Ok found \<and> a \<in> unmap ` set found) \<and>
         (\<forall>d \<in> set forbidden_prefixes \<union> prefix_masked ` set extra. \<forall>b \<in> set (checked_addrs a). \<not> prefix_contains d b)) \<and>
      (\<forall>authority. ProxyConnect authority \<in> set contacts \<longrightarrow>
         authority = destination (cl_host c) (cl_port c) \<and> \<not> forbidden_name (cl_host c))"
proof -
  obtain v0 l0 errs where parts: "new_dialer pd e [] = (Ok (tn_dialer t), errs)" "read_server pd e errs cfg v0 = (tn_server t, [])"
    using new_tunnels_parts [OF assms(1)] by metis
  have id: "sv_connector_id (tn_server t) = cf_connector_id cfg" by (rule read_server_ok(2) [OF parts(2)])
  obtain c where c: "authorizes ex (tn_server t) c (host_url [] (url_host target))" "is_canonical (ex_lower ex) (cl_host c)"
      "url_authority (ex_lower ex) (host_url (url_scheme target) (req_host r)) = Some (cl_host c, cl_port c)"
      "target = host_url (url_scheme target) (destination (cl_host c) (cl_port c))"
    using answered_destination [OF assms(2,3)] by metis
  let ?pol = "dialer_policy (tn_dialer t) (cl_host c) (cl_port c)"
  have "url_host target = destination (cl_host c) (cl_port c)"
    using arg_cong [OF c(4), of url_host] by (simp add: host_url_def)
  then have x: "sr_target x = destination (cl_host c) (cl_port c)"
    using forward_sends [of target r' lim rx describe w xc roundtrip h body] assms(4) by simp
  have k: "contacts = fst (dial_through nw ?pol (cl_host c) (cl_port c))"
    using assms(5) unfolding round_trip_dial_def x transport_addr_destination [OF c(2)]
      dial_context_destination [OF c(2)] dial_destination_policy by simp
  obtain extra where x2: "forbidden_cidrs (e ''TRAVERSAL_PIPES_FORBIDDEN_CIDRS'') = Ok extra"
      "\<forall>pol \<in> {dl_proxied (tn_dialer t)} \<union> (case dl_direct (tn_dialer t) of None \<Rightarrow> {} | Some fp \<Rightarrow> {snd fp}).
         set forbidden_prefixes \<union> prefix_masked ` set extra \<subseteq> set (pol_deny pol) \<and>
         (case pol_proxy pol of None \<Rightarrow> True | Some u \<Rightarrow> url_scheme u = ''http'')"
    using new_dialer_ok [OF parts(1)] unfolding dialer_ok_def by (elim exE conjE) (rule that)
  note extra = x2(1) bspec [OF x2(2) dialer_policy_cases, THEN conjunct1, of "cl_host c" "cl_port c"]
  obtain now token v where v: "same_trust v (sv_verifier (tn_server t))"
      "snd (verify ex now token (cf_connector_id cfg) (cl_host c) (cl_port c) v) = Ok c"
    using c(1) id unfolding authorizes_def by auto
  have "p = cl_port c \<and>
      (case parse_addr (cl_host c) of Some l \<Rightarrow> a = unmap l
       | None \<Rightarrow> \<exists>found. nw_lookup nw (absolute_host (cl_host c)) = Ok found \<and> a \<in> unmap ` set found) \<and>
      (\<forall>d \<in> set forbidden_prefixes \<union> prefix_masked ` set extra. \<forall>b \<in> set (checked_addrs a). \<not> prefix_contains d b)"
    if a: "TcpDial a p \<in> set contacts" for a p
    using dial_through_allowed [OF a [unfolded k]] dial_direct_source [OF a [unfolded k]] forbidden_mono [OF _ extra(2), of a]
    by (intro conjI) blast+
  moreover have "authority = destination (cl_host c) (cl_port c) \<and> \<not> forbidden_name (cl_host c)"
    if a: "ProxyConnect authority \<in> set contacts" for authority
    using dial_through_proxy [OF a [unfolded k]] by blast
  ultimately show ?thesis
    using v c(3) extra(1) by (intro exI [of _ c] exI [of _ extra] exI [of _ now] exI [of _ token] exI [of _ v]) blast
qed

section \<open>A run from start to dial\<close>

lemma example_loaded:
  "load_verifier pipe_deps_example pipe_env ''https://c'' = Some (Ok (v, l)) \<Longrightarrow> v = example_verifier"
proof -
  have "decode_pem ''K'' = ''K''" "decode_pem [] = []" "trim_space ''K'' = ''K''" "trim_space [] = []" by code_simp+
  then show "load_verifier pipe_deps_example pipe_env ''https://c'' = Some (Ok (v, l)) \<Longrightarrow> v = example_verifier"
    by (auto simp: load_verifier_def trust_host_def pipe_env_values parse_trust_def parse_keys_def
        parse_keys_loop.simps pipe_deps_example_def new_verifier_def example_verifier_def subject_integration_proxy_def)
qed

definition example_policy :: policy where
  "example_policy = \<lparr>pol_proxy = None, pol_proxy_resolves = False,
     pol_deny = forbidden_prefixes @ [Prefix (V4 (10 * 2 ^ 24)) 8]\<rparr>"

lemma example_cidrs: "forbidden_cidrs ''10.0.0.0/8'' = Ok [Prefix (V4 (10 * 2 ^ 24)) 8]"
proof -
  have "trim_space ''10.0.0.0/8'' = ''10.0.0.0/8''" by code_simp
  moreover have "parse_addr ''10.0.0.0'' = Some (V4 (10 * 2 ^ 24))" by (simp add: net_eval)
  moreover have "cut_last (CHR ''/'') ''10.0.0.0/8'' = Some (''10.0.0.0'', ''8'')" by code_simp
  moreover have "parse_uint 63 ''8'' = Some 8" by (simp add: parse_uint_def net_eval)
  ultimately show ?thesis by (simp add: forbidden_cidrs_def parse_prefix_def prefix_from_def)
qed

lemma example_dials: "new_dialer pipe_deps_example pipe_env [] = (Ok \<lparr>dl_proxied = example_policy, dl_direct = None\<rparr>, [])"
  using example_cidrs
  by (simp add: new_dialer_def egress_proxy_def pipe_env_values pipe_deps_example_def reader_bool_def new_policy_def
      example_policy_def)

text \<open>A server with this verifier admits the example's CONNECT, and passes its request on.\<close>

lemma example_run:
  assumes "sv_connector_id sv = ''c''" and "sv_verifier sv = example_verifier" and "0 < sv_max_pipes sv"
  shows "\<exists>es s. pipe_reach example_externals (fresh_system sv) es s \<and>
    EvAnswered 0 example_inner (ToUpstream (host_url ''http'' ''db.internal:5432'')
      (example_inner\<lparr>req_header := hdel header_upstream_scheme Map.empty\<rparr>)) \<in> set es"
proof -
  let ?sv = "sv\<lparr>sv_pipes := tracker_zero\<rparr>"
  have "open_check (ex_lower example_externals) ?sv example_connect = Ok (''db.internal'', 5432)"
    by (simp add: open_check_def example_lower tracker_zero_def example_connect_def example_authority)
  moreover have "open_verify example_externals example_now ?sv example_connect ''db.internal'' 5432 =
      (?sv\<lparr>sv_verifier := example_taken\<rparr>, Ok (example_pipe_url, example_claims))"
    using example_verify assms(1,2)
    by (simp add: open_verify_def example_connect_def example_dest example_pipe_url_def probe_host_def)
  ultimately obtain sv' where o: "pipe_open example_externals example_now (ps_server (fresh_system sv)) example_connect =
      (sv', Ok (example_pipe_url, example_claims))"
    using assms(3) by (simp add: pipe_open_def open_admit_def tracker_add_def tracker_zero_def fresh_system_def Let_def)
  obtain es s where r: "pipe_reach example_externals (fresh_system sv) es s"
    "ps_stage s 0 = Some (Serving example_pipe_url example_claims)"
    using pipe_open_admits [OF o] by (auto simp: fresh_system_def)
  show ?thesis
    using pipe_more [OF r(1) answered [OF r(2), of _ example_inner]] unfolding example_pipe_forward
    by (intro exI conjI) (assumption, simp)
qed

definition example_network :: network where
  "example_network = \<lparr>nw_lookup = (\<lambda>name. Ok [V4 0xc0000201]), nw_via_proxy = (\<lambda>p a. None),
     nw_arrivals = (\<lambda>addrs port. map (\<lambda>a. (a, None)) addrs)\<rparr>"

lemma example_dial: "fst (dial_through example_network example_policy ''db.internal'' 5432) = [TcpDial (V4 0xc0000201) 5432]"
proof -
  have "parse_addr ''db.internal'' = None" by (simp add: net_eval)
  moreover have "\<not> forbidden_name ''db.internal''" by (simp add: forbidden_name_def has_suffix_def cut_suffix_def)
  moreover have "\<not> forbidden example_policy (V4 0xc0000201)"
    by (simp add: forbidden_def example_policy_def forbidden_prefixes_def)
  ultimately show ?thesis
    by (simp add: dial_through_def policy_dial_def example_network_def example_policy_def)
qed

lemma forward_hands_on:
  "unredactable_request (rx_lower rx) (req_header r) = [] \<Longrightarrow> invalid_upgrade xc (req_header r) = None \<Longrightarrow>
     fst (forward lim rx describe w xc roundtrip h r None target) \<noteq> None"
  by (auto simp: forward_def Let_def split: sum.splits prod.splits option.splits)

theorem request_reaches_allowed_address_witness:
  "\<exists>(t :: nat tunnels) x. new_tunnels pipe_deps_example pipe_env prod_config = Some (Ok t) \<and> sr_target x = ''db.internal:5432'' \<and>
     (\<exists>a. TcpDial a 5432 \<in> set (fst (round_trip_dial (\<lambda>h. None) example_network (tn_dialer t) x)) \<and>
        (\<forall>d \<in> set forbidden_prefixes. \<forall>b \<in> set (checked_addrs a). \<not> prefix_contains d b))"
proof -
  obtain t :: "nat tunnels" where t: "new_tunnels pipe_deps_example pipe_env prod_config = Some (Ok t)"
    using example_starts by blast
  obtain v l errs up addr where p: "load_verifier pipe_deps_example pipe_env (cf_controller_url prod_config) = Some (Ok (v, l))"
    "new_dialer pipe_deps_example pipe_env [] = (Ok (tn_dialer t), errs)"
    "read_server pipe_deps_example pipe_env errs prod_config v = (tn_server t, [])"
    using new_tunnels_parts [OF t] by metis
  have v: "v = example_verifier" using example_loaded p(1) by (simp add: prod_read)
  note s = read_server_ok [OF p(3)]
  have sv: "sv_connector_id (tn_server t) = ''c''" "sv_verifier (tn_server t) = example_verifier" "0 < sv_max_pipes (tn_server t)"
    using s v by (simp_all add: prod_read server_ok_def)
  let ?target = "host_url ''http'' ''db.internal:5432''"
  let ?r' = "example_inner\<lparr>req_header := hdel header_upstream_scheme Map.empty\<rparr>"
  obtain es st where r: "pipe_reach example_externals (fresh_system (tn_server t)) es st"
    "EvAnswered 0 example_inner (ToUpstream ?target ?r') \<in> set es"
    using example_run [OF sv] by blast
  have h: "unredactable_request id (hdel header_upstream_scheme Map.empty) = []" by code_simp
  have "hdel header_upstream_scheme Map.empty = Map.empty" by (simp add: hdel_def)
  then have u: "invalid_upgrade example_exchange (req_header ?r') = None"
    by (simp add: invalid_upgrade_def example_upgrade is_print_def)
  obtain x where x: "fst (forward example_limits (example_redaction\<lparr>rx_lower := id\<rparr>) (\<lambda>e. []) SlotFree example_exchange example_upstream
      Map.empty ?r' None ?target) = Some x" "sr_scheme x = ''http''" "sr_target x = ''db.internal:5432''"
    using forward_hands_on [where rx = "example_redaction\<lparr>rx_lower := id\<rparr>" and r = ?r' and lim = example_limits
        and describe = "\<lambda>e. []" and w = SlotFree and xc = example_exchange and roundtrip = example_upstream
        and h = Map.empty and target = ?target]
      forward_sends [where rx = "example_redaction\<lparr>rx_lower := id\<rparr>" and r = ?r' and lim = example_limits
        and describe = "\<lambda>e. []" and w = SlotFree and xc = example_exchange and roundtrip = example_upstream
        and h = Map.empty and body = None and target = ?target] h u
    by (auto simp: host_url_def)
  have c: "is_canonical id ''db.internal''" by code_simp
  have d: "tn_dialer t = \<lparr>dl_proxied = example_policy, dl_direct = None\<rparr>" using p(2) example_dials by simp
  let ?dial = "round_trip_dial (\<lambda>h. None) example_network (tn_dialer t) x"
  have "?dial = dial_through example_network example_policy ''db.internal'' 5432"
    unfolding round_trip_dial_def x(2,3) example_dest [symmetric] transport_addr_destination [OF c]
      dial_context_destination [OF c] dial_destination_policy
    by (simp add: dialer_policy_def d)
  then have a: "TcpDial (V4 0xc0000201) 5432 \<in> set (fst ?dial)" using example_dial by simp
  obtain contacts res where k: "?dial = (contacts, res)" by force
  have "\<forall>d \<in> set forbidden_prefixes. \<forall>b \<in> set (checked_addrs (V4 0xc0000201)). \<not> prefix_contains d b"
    using request_reaches_allowed_address [OF t r x(1) k] a unfolding k by auto
  then show ?thesis using t x(3) a by blast
qed

end
