(* ===== verification/Metrics.thy ===== *)
theory Metrics
  imports EndToEnd Tunnels
begin

text \<open>
  What the connector counts: internal/pipeserver/metrics.go where server.go and tunnels.go call it,
  and internal/upstream/metrics.go where Forward does. A counter is a function from its label to
  what was added; attributes other than the label that tells its series apart are left out, as are
  latencies. The instruments themselves, and when they are read, belong to the OpenTelemetry SDK.
\<close>

section \<open>Raw pipes\<close>

record pipe_metrics =
  mt_opens :: "string \<Rightarrow> nat"
  mt_pipes :: int
  mt_ends :: "outcome \<Rightarrow> nat"
  mt_sent :: int
  mt_received :: int

definition metrics_zero :: pipe_metrics where
  "metrics_zero = \<lparr>mt_opens = (\<lambda>l. 0), mt_pipes = 0, mt_ends = (\<lambda>o'. 0), mt_sent = 0, mt_received = 0\<rparr>"

definition count_in :: "'l \<Rightarrow> ('l \<Rightarrow> nat) \<Rightarrow> 'l \<Rightarrow> nat" where
  "count_in l f = f(l := f l + 1)"

text \<open>opened, from a refusal's reason or the empty one; acceptFailed; the gauge of open pipes; ended.\<close>

definition metric_opened :: "string \<Rightarrow> pipe_metrics \<Rightarrow> pipe_metrics" where
  "metric_opened reason m = m\<lparr>mt_opens := count_in (if reason \<noteq> [] then reason else ''opened'') (mt_opens m)\<rparr>"

definition metric_accept_failed :: "pipe_metrics \<Rightarrow> pipe_metrics" where
  "metric_accept_failed m = m\<lparr>mt_opens := count_in ''accept_failed'' (mt_opens m)\<rparr>"

definition metric_pipes_add :: "int \<Rightarrow> pipe_metrics \<Rightarrow> pipe_metrics" where
  "metric_pipes_add n m = m\<lparr>mt_pipes := mt_pipes m + n\<rparr>"

definition metric_ended :: "int \<Rightarrow> int \<Rightarrow> outcome \<Rightarrow> pipe_metrics \<Rightarrow> pipe_metrics" where
  "metric_ended sent received o' m =
     m\<lparr>mt_ends := count_in o' (mt_ends m), mt_sent := mt_sent m + sent, mt_received := mt_received m + received\<rparr>"

lemmas metric_defs = metric_opened_def metric_accept_failed_def metric_pipes_add_def metric_ended_def count_in_def

section \<open>Handlers that count\<close>

text \<open>
  serve, with what it records. A handler whose Accept failed records that; one that serves records
  the open and the pipe, and at the end takes the pipe back and records its outcome, all before it
  gives its place back. What a handler records is a step of its own, which those of the others come
  between; a refusal is recorded with the answer.
\<close>

datatype meter = FailedCounted | PipeCounted | EndCounted

record 'k metered_system =
  ms_sys :: "'k pipe_system"
  ms_meter :: "nat \<Rightarrow> meter option"
  ms_metrics :: pipe_metrics

definition fresh_metered :: "'k server \<Rightarrow> 'k metered_system" where
  "fresh_metered sv = \<lparr>ms_sys = fresh_system sv, ms_meter = Map.empty, ms_metrics = metrics_zero\<rparr>"

definition meter_lets :: "(nat \<Rightarrow> meter option) \<Rightarrow> pipe_event \<Rightarrow> bool" where
  "meter_lets m e =
     (case e of
        EvAccepted i \<Rightarrow> m i = None
      | EvAnswered i r a \<Rightarrow> m i = Some PipeCounted
      | EvEnded i \<Rightarrow> m i = Some FailedCounted \<or> m i = Some EndCounted
      | _ \<Rightarrow> True)"

definition meter_after :: "(nat \<Rightarrow> meter option) \<Rightarrow> pipe_event \<Rightarrow> nat \<Rightarrow> meter option" where
  "meter_after m e = (case e of EvEnded i \<Rightarrow> m(i := None) | _ \<Rightarrow> m)"

definition metrics_after :: "pipe_event \<Rightarrow> pipe_metrics \<Rightarrow> pipe_metrics" where
  "metrics_after e m =
     (case e of EvRefused err \<Rightarrow> metric_opened (reason_text (reason_of_error err ProtocolError)) m | _ \<Rightarrow> m)"

inductive meter_step :: "'k externals \<Rightarrow> 'k metered_system \<Rightarrow> pipe_event option \<Rightarrow> 'k metered_system \<Rightarrow> bool" for ex where
  served: "pipe_step ex (ms_sys s) e p \<Longrightarrow> meter_lets (ms_meter s) e \<Longrightarrow>
    meter_step ex s (Some e)
      (s\<lparr>ms_sys := p, ms_meter := meter_after (ms_meter s) e, ms_metrics := metrics_after e (ms_metrics s)\<rparr>)"
| accept_failed: "ps_stage (ms_sys s) i = Some (Admitted u c) \<Longrightarrow> ms_meter s i = None \<Longrightarrow>
    meter_step ex s None
      (s\<lparr>ms_meter := (ms_meter s)(i \<mapsto> FailedCounted), ms_metrics := metric_accept_failed (ms_metrics s)\<rparr>)"
| pipe_opened: "ps_stage (ms_sys s) i = Some (Serving u c) \<Longrightarrow> ms_meter s i = None \<Longrightarrow>
    meter_step ex s None
      (s\<lparr>ms_meter := (ms_meter s)(i \<mapsto> PipeCounted),
         ms_metrics := metric_pipes_add 1 (metric_opened [] (ms_metrics s))\<rparr>)"
| pipe_ended: "ms_meter s i = Some PipeCounted \<Longrightarrow>
    meter_step ex s None
      (s\<lparr>ms_meter := (ms_meter s)(i \<mapsto> EndCounted),
         ms_metrics := metric_ended sent received o' (metric_pipes_add (- 1) (ms_metrics s))\<rparr>)"

inductive meter_reach :: "'k externals \<Rightarrow> 'k metered_system \<Rightarrow> pipe_event list \<Rightarrow> 'k metered_system \<Rightarrow> bool" for ex s0 where
  meter_init: "meter_reach ex s0 [] s0"
| meter_more: "meter_reach ex s0 es s \<Longrightarrow> meter_step ex s e s' \<Longrightarrow>
    meter_reach ex s0 (es @ (case e of None \<Rightarrow> [] | Some x \<Rightarrow> [x])) s'"

text \<open>Counting changes nothing the handlers do: what they reach is a run of theirs.\<close>

lemma meter_reach_pipe: "meter_reach ex (fresh_metered sv) es s \<Longrightarrow> pipe_reach ex (fresh_system sv) es (ms_sys s)"
proof (induction rule: meter_reach.induct)
  case meter_init
  then show ?case by (simp add: fresh_metered_def pipe_init)
next
  case (meter_more es s e s')
  from meter_more(2) show ?case
    by (cases rule: meter_step.cases) (use meter_more(3) in \<open>auto intro: pipe_more\<close>)
qed

section \<open>What the counters say\<close>

definition counted_pipes :: "(nat \<Rightarrow> meter option) \<Rightarrow> nat set" where
  "counted_pipes m = {i. m i = Some PipeCounted}"

definition ends_total :: "pipe_metrics \<Rightarrow> nat" where
  "ends_total m = sum_list (map (mt_ends m) [Completed, Limit, CallerAborted, DestAborted])"

definition refusals_for :: "reason \<Rightarrow> pipe_event list \<Rightarrow> nat" where
  "refusals_for r es = length (filter (\<lambda>e. \<exists>err. e = EvRefused err \<and> reason_of_error err ProtocolError = r) es)"

text \<open>The meter of a handler agrees with its stage.\<close>

definition meter_ok :: "stage option \<Rightarrow> meter option \<Rightarrow> bool" where
  "meter_ok st m \<longleftrightarrow>
     (case m of None \<Rightarrow> True
      | Some FailedCounted \<Rightarrow> \<exists>u c. st = Some (Admitted u c)
      | Some _ \<Rightarrow> \<exists>u c. st = Some (Serving u c))"

lemma meter_ok_simps [simp]:
  "meter_ok st None" "meter_ok st (Some FailedCounted) \<longleftrightarrow> (\<exists>u c. st = Some (Admitted u c))"
  "meter_ok st (Some PipeCounted) \<longleftrightarrow> (\<exists>u c. st = Some (Serving u c))"
  "meter_ok st (Some EndCounted) \<longleftrightarrow> (\<exists>u c. st = Some (Serving u c))"
  by (simp_all add: meter_ok_def)

lemma reason_text_labels:
  "known r \<Longrightarrow> reason_text r \<notin> {[], ''opened'', ''accept_failed''}"
proof -
  have "list_all (\<lambda>r. reason_text r \<notin> set [[], ''opened'', ''accept_failed'']) known_reasons" by code_simp
  then show "known r \<Longrightarrow> reason_text r \<notin> {[], ''opened'', ''accept_failed''}"
    unfolding list_all_iff known_set by simp
qed

lemma reason_text_inj: "known r \<Longrightarrow> known r' \<Longrightarrow> reason_text r = reason_text r' \<Longrightarrow> r = r'"
  using reason_of_known [of r] reason_of_known [of r'] unfolding known_set by (metis UnCI set_append)

text \<open>Every refusal of an open carries one of the known reasons.\<close>

named_theorems open_reason

lemma reject_reason [simp]: "known (reason_of_error (reject msg) r)"
  by (simp add: reject_def)

lemma if_reject: "(if P then Some (reject msg) else x) = Some e \<Longrightarrow> known (reason_of_error e r) \<or> x = Some e"
  by (cases P) auto

lemma claims_valid_reason [open_reason]: "claims_valid ul c = Some e \<Longrightarrow> known (reason_of_error e r)"
  unfolding claims_valid_def by (drule if_reject [of _ _ _ _ r], elim disjE, assumption)+ simp

lemma parse_chain_loop_reason: "parse_chain_loop p n encs = Err e \<Longrightarrow> known (reason_of_error e r)"
  by (induction p n encs rule: parse_chain_loop.induct) (auto split: option.splits if_splits sum.splits)

lemma parse_chain_reason [open_reason]: "parse_chain p encs = Err e \<Longrightarrow> known (reason_of_error e r)"
  using parse_chain_loop_reason by (auto simp: parse_chain_def split: if_splits)

lemma environment_certificate_reason [open_reason]:
  "check_environment_certificate vf ch roots host now = Err e \<Longrightarrow> known (reason_of_error e r)"
  by (auto simp: check_environment_certificate_def split: list.splits option.splits if_splits pub_key.splits)

lemma signing_key_reason [open_reason]: "signing_key ex v h now = Err e \<Longrightarrow> known (reason_of_error e r)"
  by (auto simp: signing_key_def Let_def split: option.splits if_splits sum.splits dest: open_reason)

lemma parse_capability_reason [open_reason]: "parse_capability ex v token now = Err e \<Longrightarrow> known (reason_of_error e r)"
  by (auto simp: parse_capability_def split: sum.splits option.splits dest: open_reason)

lemma verify_reason [open_reason]: "verify ex now token connector host port v = (v', Err e) \<Longrightarrow> known (reason_of_error e r)"
  by (auto simp: verify_def split: sum.splits prod.splits if_splits bool.splits dest: open_reason)

lemma refused_reason:
  assumes "pipe_step ex s (EvRefused e) s'"
  shows "known (reason_of_error e ProtocolError)"
  using assms
proof (cases rule: pipe_step.cases)
  case (check_refused r)
  then show ?thesis by (auto simp: open_check_def Let_def split: if_splits option.splits)
next
  case (verify_refused i r host port now sv)
  then show ?thesis
    by (auto simp: open_verify_def split: prod.splits sum.splits if_splits dest: open_reason)
qed simp

lemma meter_idle: "meter_ok st m \<Longrightarrow> \<not> holds_place st \<Longrightarrow> m = None"
  by (cases m; cases "the m") (auto simp: meter_ok_def)

lemma meter_ok_step:
  assumes "pipe_step ex p e p'" and "pipe_inv ex sv p" and "\<And>i. meter_ok (ps_stage p i) (m i)" and "meter_lets m e"
  shows "meter_ok (ps_stage p' j) (meter_after m e j)"
  using assms(1)
proof (cases rule: pipe_step.cases)
  case (checked r host port)
  have "ps_stage p (ps_next p) = None"
    using pipe_inv_stage [OF assms(2), of "ps_next p"] by (cases "ps_stage p (ps_next p)") auto
  then have "m (ps_next p) = None" using meter_idle [OF assms(3) [of "ps_next p"]] by simp
  with checked assms(3) [of j] show ?thesis by (auto simp: meter_after_def)
next
  case (verify_refused i r host port now sv')
  then have "m i = None" using meter_idle [OF assms(3) [of i]] by simp
  with verify_refused assms(3) [of j] show ?thesis by (auto simp: meter_after_def)
next
  case (verified i r host port now sv' u c)
  then have "m i = None" using meter_idle [OF assms(3) [of i]] by simp
  with verified assms(3) [of j] show ?thesis by (auto simp: meter_after_def)
next
  case (at_capacity i u c sv')
  then have "m i = None" using meter_idle [OF assms(3) [of i]] by simp
  with at_capacity assms(3) [of j] show ?thesis by (auto simp: meter_after_def)
next
  case (admitted i u c sv')
  then have "m i = None" using meter_idle [OF assms(3) [of i]] by simp
  with admitted assms(3) [of j] show ?thesis by (auto simp: meter_after_def)
next
  case (accepted i u c)
  then have "m i = None" using assms(4) by (simp add: meter_lets_def)
  with accepted assms(3) [of j] show ?thesis by (auto simp: meter_after_def)
qed (use assms(3) [of j] in \<open>auto simp: meter_after_def\<close>)

lemma counted_after: "meter_lets m e \<Longrightarrow> counted_pipes (meter_after m e) = counted_pipes m"
  by (auto simp: meter_lets_def meter_after_def counted_pipes_def split: pipe_event.splits if_splits)

lemma counted_upd [simp]:
  "counted_pipes (m(i \<mapsto> PipeCounted)) = insert i (counted_pipes m)"
  "x \<noteq> PipeCounted \<Longrightarrow> counted_pipes (m(i \<mapsto> x)) = counted_pipes m - {i}"
  by (auto simp: counted_pipes_def split: if_splits)

lemma counted_open:
  assumes "\<And>i. meter_ok (ps_stage p i) (m i)"
  shows "counted_pipes m \<subseteq> open_pipes (ps_stage p)"
proof
  fix i
  assume "i \<in> counted_pipes m"
  then show "i \<in> open_pipes (ps_stage p)" using assms [of i] by (auto simp: counted_pipes_def)
qed

lemma ends_total_count: "ends_total (m\<lparr>mt_ends := count_in o' (mt_ends m)\<rparr>) = ends_total m + 1"
  by (cases o') (simp_all add: ends_total_def count_in_def)

text \<open>The series of opens.\<close>

definition open_labels :: "string set" where
  "open_labels = insert ''opened'' (insert ''accept_failed'' (reason_text ` set known_reasons))"

lemma refusals_for_snoc:
  "refusals_for r (es @ [e]) = refusals_for r es +
     (if \<exists>err. e = EvRefused err \<and> reason_of_error err ProtocolError = r then 1 else 0)"
  by (simp add: refusals_for_def)

definition metrics_inv :: "pipe_event list \<Rightarrow> 'k metered_system \<Rightarrow> bool" where
  "metrics_inv es s \<longleftrightarrow>
     (\<forall>i. meter_ok (ps_stage (ms_sys s) i) (ms_meter s i)) \<and>
     mt_pipes (ms_metrics s) = int (card (counted_pipes (ms_meter s))) \<and>
     mt_opens (ms_metrics s) ''opened'' = card (counted_pipes (ms_meter s)) + ends_total (ms_metrics s) \<and>
     (\<forall>r. known r \<longrightarrow> mt_opens (ms_metrics s) (reason_text r) = refusals_for r es) \<and>
     (\<forall>l. 0 < mt_opens (ms_metrics s) l \<longrightarrow> l \<in> open_labels)"

lemma metrics_after_refused:
  assumes "known (reason_of_error err ProtocolError)"
  shows "metrics_after (EvRefused err) m =
    m\<lparr>mt_opens := count_in (reason_text (reason_of_error err ProtocolError)) (mt_opens m)\<rparr>"
  using reason_text_labels [OF assms] by (simp add: metrics_after_def metric_opened_def)

lemma metrics_after_other: "(\<And>err. e \<noteq> EvRefused err) \<Longrightarrow> metrics_after e m = m"
  by (cases e) (auto simp: metrics_after_def)

lemma metrics_inv_served:
  assumes inv: "metrics_inv es s" and reach: "pipe_inv ex sv (ms_sys s)"
    and st: "pipe_step ex (ms_sys s) e p" and lets: "meter_lets (ms_meter s) e"
  shows "metrics_inv (es @ [e]) (s\<lparr>ms_sys := p, ms_meter := meter_after (ms_meter s) e, ms_metrics := metrics_after e (ms_metrics s)\<rparr>)"
proof (cases "\<exists>err. e = EvRefused err")
  case True
  then obtain err where e: "e = EvRefused err" by blast
  let ?r = "reason_of_error err ProtocolError"
  have k: "known ?r" using refused_reason st e by blast
  have "\<forall>r. known r \<longrightarrow> (reason_text r = reason_text ?r \<longleftrightarrow> r = ?r)" using reason_text_inj k by blast
  moreover have "reason_text ?r \<in> open_labels" using k by (simp add: open_labels_def known_set)
  ultimately show ?thesis
    using inv meter_ok_step [OF st reach _ lets] counted_after [OF lets] reason_text_labels [OF k]
    unfolding metrics_inv_def e metrics_after_refused [OF k]
    by (auto simp: count_in_def refusals_for_snoc ends_total_def)
next
  case False
  then show ?thesis
    using inv meter_ok_step [OF st reach _ lets] counted_after [OF lets] metrics_after_other [of e "ms_metrics s"]
    unfolding metrics_inv_def by (simp add: refusals_for_snoc)
qed

lemma metrics_inv_step:
  assumes inv: "metrics_inv es s" and reach: "pipe_inv ex sv (ms_sys s)" and "meter_step ex s e s'"
  shows "metrics_inv (es @ (case e of None \<Rightarrow> [] | Some x \<Rightarrow> [x])) s'"
  using assms(3)
proof (cases rule: meter_step.cases)
  case (served e' p)
  then show ?thesis using metrics_inv_served [OF inv reach] by simp
next
  case (accept_failed i u c)
  have "i \<notin> counted_pipes (ms_meter s)" using accept_failed by (simp add: counted_pipes_def)
  moreover have "\<forall>r. known r \<longrightarrow> reason_text r \<noteq> ''accept_failed''" using reason_text_labels by blast
  ultimately show ?thesis
    using inv accept_failed unfolding metrics_inv_def
    by (auto simp: metric_accept_failed_def count_in_def ends_total_def open_labels_def)
next
  case (pipe_opened i u c)
  have "i \<notin> counted_pipes (ms_meter s)" using pipe_opened by (simp add: counted_pipes_def)
  moreover have "finite (counted_pipes (ms_meter s))"
    using inv counted_open [of "ms_sys s" "ms_meter s"] pipe_inv_finite [OF reach] finite_subset
    unfolding metrics_inv_def by blast
  moreover have "\<forall>r. known r \<longrightarrow> reason_text r \<noteq> ''opened''" using reason_text_labels by blast
  ultimately show ?thesis
    using inv pipe_opened unfolding metrics_inv_def
    by (auto simp: metric_pipes_add_def metric_opened_def count_in_def ends_total_def open_labels_def)
next
  case (pipe_ended i sent received o')
  have i: "i \<in> counted_pipes (ms_meter s)" using pipe_ended by (simp add: counted_pipes_def)
  have "finite (counted_pipes (ms_meter s))"
    using inv counted_open [of "ms_sys s" "ms_meter s"] pipe_inv_finite [OF reach] finite_subset
    unfolding metrics_inv_def by blast
  then have "card (counted_pipes (ms_meter s)) = card (counted_pipes (ms_meter s) - {i}) + 1"
    using i card.remove by fastforce
  moreover have "\<exists>u c. ps_stage (ms_sys s) i = Some (Serving u c)"
    using inv pipe_ended unfolding metrics_inv_def by (metis meter_ok_simps(3))
  moreover have "ends_total (metric_ended sent received o' (metric_pipes_add (- 1) (ms_metrics s))) = ends_total (ms_metrics s) + 1"
    by (cases o') (simp_all add: ends_total_def metric_defs)
  ultimately show ?thesis
    using inv pipe_ended unfolding metrics_inv_def
    by (auto simp: metric_pipes_add_def metric_ended_def)
qed

lemma metrics_reach_inv: "meter_reach ex (fresh_metered sv) es s \<Longrightarrow> metrics_inv es s"
proof (induction rule: meter_reach.induct)
  case meter_init
  then show ?case
    by (simp add: metrics_inv_def fresh_metered_def metrics_zero_def counted_pipes_def ends_total_def refusals_for_def)
next
  case (meter_more es s e s')
  then show ?case using metrics_inv_step pipe_inv_reach [OF meter_reach_pipe] by blast
qed

text \<open>
  C32. The counters account for every pipe, however handlers and their records interleave: the gauge is
  the number of pipes recorded open whose end is not recorded, each of which holds a place, so it is
  never negative nor above the cap and is zero once no pipe is open; the opens counted as opened are
  those and the ends of every outcome together; each refusal reason counts exactly the CONNECTs
  refused for it; and no series has any other label.
\<close>

theorem pipe_metrics_account:
  assumes "meter_reach ex (fresh_metered sv) es s" and "0 < sv_max_pipes sv"
  shows "mt_pipes (ms_metrics s) = int (card (counted_pipes (ms_meter s))) \<and>
    counted_pipes (ms_meter s) \<subseteq> open_pipes (ps_stage (ms_sys s)) \<and>
    0 \<le> mt_pipes (ms_metrics s) \<and> mt_pipes (ms_metrics s) \<le> sv_max_pipes sv \<and>
    int (mt_opens (ms_metrics s) ''opened'') = mt_pipes (ms_metrics s) + int (ends_total (ms_metrics s)) \<and>
    (known r \<longrightarrow> mt_opens (ms_metrics s) (reason_text r) = refusals_for r es) \<and>
    (0 < mt_opens (ms_metrics s) l \<longrightarrow> l \<in> open_labels)"
proof -
  note inv = metrics_reach_inv [OF assms(1), unfolded metrics_inv_def]
  note p = pipe_inv_reach [OF meter_reach_pipe [OF assms(1)]]
  have sub: "counted_pipes (ms_meter s) \<subseteq> open_pipes (ps_stage (ms_sys s))"
    using inv counted_open by blast
  then have "card (counted_pipes (ms_meter s)) \<le> card (open_pipes (ps_stage (ms_sys s)))"
    using card_mono pipe_inv_finite [OF p] by blast
  moreover have "int (card (open_pipes (ps_stage (ms_sys s)))) \<le> sv_max_pipes sv"
    using p assms(2) by (simp add: pipe_inv_def)
  ultimately show ?thesis using inv sub by auto
qed

text \<open>A pipe that opens and is counted.\<close>

lemma meter_lift:
  assumes "pipe_reach ex (fresh_system sv) es s"
    and "\<forall>e \<in> set es. \<exists>i. e \<in> {EvChecked i, EvVerified i, EvAdmitted i, EvAccepted i}"
  shows "\<exists>m. meter_reach ex (fresh_metered sv) es m \<and> ms_sys m = s \<and> ms_meter m = Map.empty \<and> ms_metrics m = metrics_zero"
  using assms
proof (induction rule: pipe_reach.induct)
  case pipe_init
  then show ?case using meter_init [of ex "fresh_metered sv"] by (intro exI conjI) (assumption, simp_all add: fresh_metered_def)
next
  case (pipe_more es s e s')
  then obtain m where m: "meter_reach ex (fresh_metered sv) es m" "ms_sys m = s" "ms_meter m = Map.empty"
    "ms_metrics m = metrics_zero" by auto
  obtain i where e: "e \<in> {EvChecked i, EvVerified i, EvAdmitted i, EvAccepted i}" using pipe_more(4) by auto
  then have "meter_lets (ms_meter m) e" "meter_after (ms_meter m) e = Map.empty"
    "metrics_after e (ms_metrics m) = metrics_zero"
    using m(3,4) by (auto simp: meter_lets_def meter_after_def metrics_after_def)
  with served [of ex m e s'] m pipe_more(2) meter_more [OF m(1)] show ?case by fastforce
qed

theorem pipe_metrics_account_witness:
  "\<exists>es s. meter_reach example_externals (fresh_metered example_server) es s \<and>
     mt_pipes (ms_metrics s) = 1 \<and> mt_opens (ms_metrics s) ''opened'' = 1 \<and> sv_max_pipes example_server = 1"
proof -
  obtain es p where p: "pipe_reach example_externals (fresh_system example_server) es p"
    "\<forall>e \<in> set es. \<exists>i. e \<in> {EvChecked i, EvVerified i, EvAdmitted i, EvAccepted i}"
    "ps_stage p 0 = Some (Serving example_pipe_url example_claims)" using example_serving by blast
  obtain m where m: "meter_reach example_externals (fresh_metered example_server) es m" "ms_sys m = p" "ms_meter m = Map.empty"
    "ms_metrics m = metrics_zero"
    using meter_lift [OF p(1,2)] by blast
  let ?s = "m\<lparr>ms_meter := (ms_meter m)(0 \<mapsto> PipeCounted), ms_metrics := metric_pipes_add 1 (metric_opened [] (ms_metrics m))\<rparr>"
  have "meter_step example_externals m None ?s" using pipe_opened [of m 0] m(2,3) p(3) by simp
  then have s: "meter_reach example_externals (fresh_metered example_server) es ?s" using meter_more [OF m(1)] by fastforce
  have cap: "0 < sv_max_pipes example_server" "sv_max_pipes example_server = 1" by (simp_all add: example_server_def)
  have "ends_total (ms_metrics ?s) = 0"
    using m(4) by (simp add: ends_total_def metric_defs metrics_zero_def)
  moreover have c: "counted_pipes (ms_meter ?s) = {0}" using m(3) by (simp add: counted_pipes_def)
  note acc = pipe_metrics_account [OF s cap(1), of Other "[]", unfolded c]
  moreover have "mt_pipes (ms_metrics ?s) = 1" using conjunct1 [OF acc] by simp
  ultimately have "mt_pipes (ms_metrics ?s) = 1" "mt_opens (ms_metrics ?s) ''opened'' = 1" by linarith+
  then show ?thesis using s cap(2) by blast
qed

section \<open>Dials through the egress proxy\<close>

lemma new_policy_proxy: "new_policy cfg ifs = Ok pol \<Longrightarrow> pol_proxy pol = dc_proxy cfg"
  by (auto simp: new_policy_def Let_def split: if_splits sum.splits)

lemma new_dialer_direct:
  assumes "new_dialer pd e errs = (Ok d, errs')" and "dl_direct d = Some (f, pol)"
  shows "pol_proxy pol = None"
  using assms
  by (auto simp: new_dialer_def Let_def case_prod_unfold dest!: new_policy_proxy split: sum.splits option.splits)

lemma dial_without_proxy:
  "pol_proxy pol = None \<Longrightarrow> ProxyConnect a \<notin> set (fst (dial_through nw pol host port))"
  by (auto simp: dial_through_def policy_dial_def Let_def split: option.splits if_splits sum.splits list.splits)

lemma dial_with_proxy:
  assumes "pol_proxy pol = Some u"
  shows "\<exists>res. (dial_through nw pol host port = ([ProxyConnect (destination host port)], res) \<and>
        (\<forall>msg. res \<noteq> Err (Refused ForbiddenAddress msg))) \<or>
      (\<exists>msg. dial_through nw pol host port = ([], Err (Refused ForbiddenAddress msg)))"
  using assms
  by (auto simp: dial_through_def policy_dial_def destination_def Let_def split: option.splits)

lemma count_proxy_dials_eq:
  assumes "pol_proxy pol = Some u"
  shows "snd (count_proxy_dials (dial_through nw pol) host port) =
    (if ProxyConnect (destination host port) \<in> set (fst (dial_through nw pol host port)) then [target_kind host] else [])"
  using dial_with_proxy [OF assms, of nw host port]
  by (auto simp: count_proxy_dials_def Let_def split: sum.splits pipe_error.splits reason.splits)

lemma dial_refused_untouched:
  "dial_through nw pol host port = (contacts, Err (Refused ForbiddenAddress msg)) \<Longrightarrow> contacts = []"
  by (auto simp: dial_through_def policy_dial_def Let_def split: option.splits if_splits sum.splits list.splits)

text \<open>
  The egress proxy's counter is true: under any configuration, with or without exemptions from the
  proxy, a dial is counted once when it is handed to the proxy and not at all otherwise, so one that
  the policy refuses is not, nor one that goes direct; and it counts as hostname exactly when the
  proxy is left to resolve the name, out of the connector's sight.
\<close>

theorem proxy_dials_counted:
  assumes "new_dialer pd e errs = (Ok d, errs')" and "dial_destination nw d host port = ((contacts, res), counted)"
  shows "counted = (if \<exists>a. ProxyConnect a \<in> set contacts then [target_kind host] else []) \<and>
    (counted = [''hostname''] \<longrightarrow> parse_addr host = None \<and> pol_proxy_resolves (dialer_policy d host port)) \<and>
    (counted = [''ip''] \<longrightarrow> (\<exists>a. parse_addr host = Some a \<and> \<not> forbidden (dialer_policy d host port) a)) \<and>
    ((\<exists>msg. res = Err (Refused ForbiddenAddress msg)) \<longrightarrow> counted = [])"
proof -
  let ?pol = "dialer_policy d host port"
  have d: "(contacts, res) = dial_through nw ?pol host port"
    using dial_destination_policy [of nw d host port] assms(2) by simp
  have c: "counted = (if \<exists>a. ProxyConnect a \<in> set contacts then [target_kind host] else [])"
  proof (cases "pol_proxy ?pol")
    case None
    then have "\<not> (\<exists>a. ProxyConnect a \<in> set contacts)" using dial_without_proxy [of ?pol] d by (metis fst_conv)
    moreover have "counted = []"
      using assms(2) None new_dialer_direct [OF assms(1)]
      by (auto simp: dial_destination_def dialer_policy_def Let_def split: option.splits if_splits)
    ultimately show ?thesis by simp
  next
    case (Some u)
    then have p: "?pol = dl_proxied d" "counted = snd (count_proxy_dials (dial_through nw (dl_proxied d)) host port)"
      using assms(2) new_dialer_direct [OF assms(1)]
      by (auto simp: dial_destination_def dialer_policy_def Let_def split: option.splits if_splits)
    have "(\<exists>a. ProxyConnect a \<in> set contacts) \<longleftrightarrow> ProxyConnect (destination host port) \<in> set contacts"
      using dial_through_proxy [of _ nw ?pol host port] d by (metis fst_conv)
    then show ?thesis using p count_proxy_dials_eq [of ?pol u nw host port] Some d by (metis fst_conv)
  qed
  have k: "target_kind host = (if parse_addr host = None then ''hostname'' else ''ip'')" by (simp add: target_kind_def)
  have pc: "case parse_addr host of Some a \<Rightarrow> \<not> forbidden ?pol a | None \<Rightarrow> pol_proxy_resolves ?pol"
    if "counted \<noteq> []"
    using that c d dial_through_proxy [of _ nw ?pol host port] by (metis fst_conv)
  have "counted = []" if r: "res = Err (Refused ForbiddenAddress msg)" for msg
    using c d r dial_refused_untouched [of nw ?pol host port contacts msg] by simp
  moreover have "parse_addr host = None \<and> pol_proxy_resolves ?pol" if "counted = [''hostname'']"
    using that c k pc by (cases "parse_addr host") (auto split: if_splits)
  moreover have "\<exists>a. parse_addr host = Some a \<and> \<not> forbidden ?pol a" if "counted = [''ip'']"
    using that c k pc by (cases "parse_addr host") (simp_all split: if_splits)
  ultimately show ?thesis using c by blast
qed

text \<open>
  An environment whose HTTPS_PROXY resolves names: a name the proxy gets, and one it is not asked for.
\<close>

definition example_proxy_deps :: "nat pipe_deps" where
  "example_proxy_deps = pipe_deps_example\<lparr>pd_https_proxy := ''http://p'',
     pd_config := prod_deps\<lparr>cd_url := (\<lambda>s. Ok (host_url ''http'' ''p''))\<rparr>,
     pd_match := (\<lambda>raw no dest. Ok (Some dest))\<rparr>"

lemma example_proxy_dialer:
  "\<exists>d errs. new_dialer example_proxy_deps (\<lambda>k. []) [] = (Ok d, errs) \<and>
     dl_proxied d = \<lparr>pol_proxy = Some (host_url ''http'' ''p''), pol_proxy_resolves = True, pol_deny = forbidden_prefixes\<rparr> \<and>
     dialer_policy d host port = dl_proxied d"
  by (simp add: new_dialer_def egress_proxy_def example_proxy_deps_def pipe_deps_example_def parse_proxy_def
      host_url_def forbidden_cidrs_def reader_bool_def new_policy_def dialer_policy_def)

theorem proxy_dials_counted_witness:
  "\<exists>d res. dial_destination example_network d ''db.internal'' 5432 =
     (([ProxyConnect ''db.internal:5432''], res), [''hostname''])"
proof -
  obtain d errs where d: "new_dialer example_proxy_deps (\<lambda>k. []) [] = (Ok d, errs)"
    "dl_proxied d = \<lparr>pol_proxy = Some (host_url ''http'' ''p''), pol_proxy_resolves = True, pol_deny = forbidden_prefixes\<rparr>"
    "dialer_policy d ''db.internal'' 5432 = dl_proxied d"
    using example_proxy_dialer by blast
  have n: "parse_addr ''db.internal'' = None" by (simp add: net_eval)
  have "\<not> forbidden_name ''db.internal''" by (simp add: forbidden_name_def has_suffix_def cut_suffix_def)
  then have "fst (dial_through example_network (dl_proxied d) ''db.internal'' 5432) = [ProxyConnect ''db.internal:5432'']"
    using n by (simp add: dial_through_def policy_dial_def d(2) example_dest [symmetric] destination_def Let_def)
  moreover obtain contacts res counted where c: "dial_destination example_network d ''db.internal'' 5432 = ((contacts, res), counted)"
    by (metis prod.exhaust)
  ultimately have "contacts = [ProxyConnect ''db.internal:5432'']"
    using dial_destination_policy [of example_network d "''db.internal''" 5432] d(3) by (metis fst_conv)
  then show ?thesis using proxy_dials_counted [OF d(1) c] c n by (auto simp: target_kind_def)
qed

section \<open>Upstream requests\<close>

text \<open>What Forward records, in order, beside what it answers.\<close>

datatype request_status = RequestSuccess | RequestError

datatype upstream_record =
    Requested request_status
  | EncodingSeen coding
  | DecodedSize nat
  | RefusalCounted refusal_label

definition decoded_record :: "client_limits \<Rightarrow> 'r redaction \<Rightarrow> coding \<Rightarrow> up_response \<Rightarrow> upstream_record list" where
  "decoded_record lim rx cod r =
     (case client_read lim (source_of (ur_body r)) of
        Inl l \<Rightarrow> []
      | Inr body \<Rightarrow>
          if body = [] \<or> cod \<noteq> CodingGzip then []
          else (case decode_gzip rx body (sint (cl_max_decoded lim)) of Inl l \<Rightarrow> [] | Inr plaintext \<Rightarrow> [DecodedSize (length plaintext)]))"

definition respond_records ::
    "client_limits \<Rightarrow> 'r redaction \<Rightarrow> slot_wait \<Rightarrow> string \<Rightarrow> bool \<Rightarrow> up_response \<Rightarrow> upstream_record list" where
  "respond_records lim rx w host covered r0 =
     (let r = r0\<lparr>ur_header := strip_traversal_headers (ur_header r0)\<rparr>;
          cod = classify_content_coding (rx_lower rx) (hvalues (ur_header r) ''Content-Encoding'');
          mt = media_type_of (rx_lower rx) (hget (hdel ''Accept-Ranges'' (ur_header r)) ''Content-Type'') in
      EncodingSeen cod #
      (if \<not> covered \<or> ur_status r = 101 \<or> mt = ''text/event-stream'' \<or> is_grpc (rx_lower rx) mt \<or> \<not> redactable mt \<or>
          ur_status r = 206 then []
       else (case acquire w of Inl e \<Rightarrow> [] | Inr ops \<Rightarrow> decoded_record lim rx cod r)) @
      (case snd (respond lim rx w host covered r0) of Inl (Dropped l reason) \<Rightarrow> [RefusalCounted l] | _ \<Rightarrow> []))"

text \<open>The error handler records an error unless it is one of refuse and drop.\<close>

definition handler_records :: "up_error \<Rightarrow> upstream_record list" where
  "handler_records e = (case e of Dropped l reason \<Rightarrow> [] | Failed pe \<Rightarrow> [Requested RequestError])"

definition forward_records ::
    "client_limits \<Rightarrow> 'r redaction \<Rightarrow> slot_wait \<Rightarrow> exchange \<Rightarrow> (sent_request \<Rightarrow> pipe_error + up_response) \<Rightarrow>
     request \<Rightarrow> i64 option \<Rightarrow> url \<Rightarrow> upstream_record list" where
  "forward_records lim rx w x roundtrip r body target =
     (let host = url_hostname target; covered = covers rx host in
      if (case body of None \<Rightarrow> False | Some len \<Rightarrow> 0 <s cl_max_request lim \<and> cl_max_request lim <s len) then []
      else if covered \<and> unredactable_request (rx_lower rx) (req_header r) \<noteq> [] then [RefusalCounted Unredactable]
      else (case invalid_upgrade x (req_header r) of
          Some e \<Rightarrow> handler_records (Failed e)
        | None \<Rightarrow>
            let sent = \<lparr>sr_transport = pick_transport (rx_lower rx) (req_header r) target,
                        sr_scheme = url_scheme target, sr_target = url_host target, sr_host = req_host r\<rparr> in
            (case roundtrip sent of
               Inl e \<Rightarrow> handler_records (Failed e)
             | Inr resp \<Rightarrow>
                 Requested RequestSuccess # respond_records lim rx w host covered (sans_hops resp) @
                 (case snd (respond lim rx w host covered (sans_hops resp)) of
                    Inl e \<Rightarrow> handler_records e
                  | Inr resp' \<Rightarrow>
                      (case after_modify x (req_header r) resp' of
                         Some (taken, e) \<Rightarrow> handler_records (Failed e)
                       | None \<Rightarrow> [])))))"

definition requests_in :: "upstream_record list \<Rightarrow> request_status list" where
  "requests_in rs = concat (map (\<lambda>x. case x of Requested st \<Rightarrow> [st] | _ \<Rightarrow> []) rs)"

definition refusals_in :: "upstream_record list \<Rightarrow> refusal_label list" where
  "refusals_in rs = concat (map (\<lambda>x. case x of RefusalCounted l \<Rightarrow> [l] | _ \<Rightarrow> []) rs)"

lemma records_in_simps [simp]:
  "requests_in [] = []" "requests_in (Requested st # rs) = st # requests_in rs"
  "requests_in (EncodingSeen c # rs) = requests_in rs" "requests_in (DecodedSize n # rs) = requests_in rs"
  "requests_in (RefusalCounted l # rs) = requests_in rs" "requests_in (xs @ ys) = requests_in xs @ requests_in ys"
  "refusals_in [] = []" "refusals_in (Requested st # rs) = refusals_in rs"
  "refusals_in (EncodingSeen c # rs) = refusals_in rs" "refusals_in (DecodedSize n # rs) = refusals_in rs"
  "refusals_in (RefusalCounted l # rs) = l # refusals_in rs" "refusals_in (xs @ ys) = refusals_in xs @ refusals_in ys"
  by (simp_all add: requests_in_def refusals_in_def)

lemma decoded_record_in [simp]: "requests_in (decoded_record lim rx cod r) = []" "refusals_in (decoded_record lim rx cod r) = []"
  by (auto simp: decoded_record_def split: sum.splits)

lemma respond_records_in:
  "requests_in (respond_records lim rx w host covered r) = []"
  "refusals_in (respond_records lim rx w host covered r) =
     (case snd (respond lim rx w host covered r) of Inl (Dropped l reason) \<Rightarrow> [l] | _ \<Rightarrow> [])"
  by (auto simp: respond_records_def Let_def split: sum.splits up_error.splits)

text \<open>A response fails without being dropped when its caller left the queue, or re-encoding it failed.\<close>

lemma client_buffer_Failed:
  "client_buffer lim rx host cod r = Err (Failed e) \<Longrightarrow> \<exists>plain err. rx_gzip rx plain = Err err"
  by (auto simp: client_buffer_def split: sum.splits if_splits prod.splits)

lemma respond_Failed:
  assumes "snd (respond lim rx w host covered resp) = Err (Failed e)"
  shows "covered \<and> (w = WaitCallerGone \<or> (\<exists>plain err. rx_gzip rx plain = Err err))"
  using assms client_buffer_Failed [of lim rx host]
  by (fastforce simp: respond_def acquire_def Let_def split: if_splits sum.splits slot_wait.splits)

lemma client_buffer_Dropped:
  "client_buffer lim rx host cod r = Err (Dropped l reason) \<Longrightarrow> l \<noteq> NoSlot \<and> reason = RedactionUnsupported"
  by (auto simp: client_buffer_def client_read_def decode_gzip_def split: sum.splits if_splits prod.splits read_result.splits)

lemma respond_Dropped:
  assumes "snd (respond lim rx w host covered resp) = Err (Dropped l reason)"
  shows "reason = (if l = NoSlot then Capacity else RedactionUnsupported)"
  using assms client_buffer_Dropped [of lim rx host]
  by (fastforce simp: respond_def acquire_def Let_def split: if_splits sum.splits slot_wait.splits)

definition drop_error :: "refusal_label \<Rightarrow> up_error" where
  "drop_error l = Dropped l (if l = NoSlot then Capacity else RedactionUnsupported)"

text \<open>Where a request ends, with what it recorded.\<close>

lemma forward_records_cases:
  assumes "forward lim rx describe w x roundtrip h r body target = (sent, ops, ans)"
    and "forward_records lim rx w x roundtrip r body target = records"
  obtains (too_large) "sent = None" "records = []" "\<forall>r'. ans \<noteq> Relayed r'"
  | (unredactable) "sent = None" "records = [RefusalCounted Unredactable]" "ans = fail_answer describe (xc_gone x) h (drop_error Unredactable)"
  | (unprintable) e where "sent = None" "records = [Requested RequestError]" "\<not> is_print (upgrade_type (req_header r))"
      "ans = fail_answer describe (xc_gone x) h (Failed e)"
  | (broken) q e where "sent = Some q" "roundtrip q = Inl e" "records = [Requested RequestError]"
      "ans = fail_answer describe (xc_gone x) (snd (relay_interims h (xc_interims x))) (Failed e)"
  | (answered) q resp out where "sent = Some q" "roundtrip q = Inr resp"
      "snd (respond lim rx w (url_hostname target) (covers rx (url_hostname target)) (sans_hops resp)) = out"
      "ans = (case out of
           Inl e \<Rightarrow> fail_answer describe (xc_gone x) (snd (relay_interims h (xc_interims x))) e
         | Inr r' \<Rightarrow> (case after_modify x (req_header r) r' of
             Some (taken, e) \<Rightarrow> fail_answer describe (xc_gone x \<or> taken) (snd (relay_interims h (xc_interims x))) (Failed e)
           | None \<Rightarrow> Relayed r'))"
      "records = Requested RequestSuccess #
         respond_records lim rx w (url_hostname target) (covers rx (url_hostname target)) (sans_hops resp) @
         (case out of Inl e \<Rightarrow> handler_records e
          | Inr r' \<Rightarrow> (case after_modify x (req_header r) r' of Some (taken, e) \<Rightarrow> handler_records (Failed e) | None \<Rightarrow> []))"
proof -
  define q where "q = \<lparr>sr_transport = pick_transport (rx_lower rx) (req_header r) target,
                    sr_scheme = url_scheme target, sr_target = url_host target, sr_host = req_host r\<rparr>"
  define too_much where "too_much = (case body of None \<Rightarrow> False | Some len \<Rightarrow> 0 <s cl_max_request lim \<and> cl_max_request lim <s len)"
  define unred where "unred = (covers rx (url_hostname target) \<and> unredactable_request (rx_lower rx) (req_header r) \<noteq> [])"
  note defs = forward_def forward_records_def Let_def
  note folds = too_much_def [symmetric] unred_def [symmetric] q_def [symmetric]
  consider (a) too_much | (b) "\<not> too_much" unred
    | (u) e where "\<not> too_much" "\<not> unred" "invalid_upgrade x (req_header r) = Some e"
    | (c) "\<not> too_much" "\<not> unred" "invalid_upgrade x (req_header r) = None" by (cases "invalid_upgrade x (req_header r)") auto
  then show ?thesis
  proof cases
    case a
    then show ?thesis using assms too_large unfolding defs folds by auto
  next
    case b
    then show ?thesis using assms unredactable unfolding defs folds by (auto simp: drop_error_def)
  next
    case (u e)
    then have "\<not> is_print (upgrade_type (req_header r))" by (auto simp: invalid_upgrade_def split: if_splits)
    then show ?thesis using u assms unprintable [of e] unfolding defs folds by (auto simp: handler_records_def)
  next
    case c
    show ?thesis
    proof (cases "roundtrip q")
      case (Inl e)
      then show ?thesis using c assms broken [of q e] unfolding defs folds by (auto simp: handler_records_def)
    next
      case (Inr resp)
      obtain o2 res where d: "respond lim rx w (url_hostname target) (covers rx (url_hostname target)) (sans_hops resp) = (o2, res)"
        by force
      show ?thesis
        using c assms Inr d answered [of q resp res] unfolding defs folds
        by (cases res) (auto split: option.splits)
    qed
  qed
qed

text \<open>Only an answer of an uncovered host can be a 101 that reaches the switch.\<close>

lemma switch_uncovered:
  assumes "snd (respond lim rx w host covered resp) = Ok r'" and "after_modify x reqh r' = Some (taken, e)"
  shows "\<not> covered \<and> ur_status resp = 101"
proof -
  obtain ops where r: "respond lim rx w host covered resp = (ops, Ok r')" using assms(1) by (metis prod.collapse)
  have s: "ur_status r' = 101" using assms(2) by (simp add: after_modify_def split: if_splits)
  show ?thesis
  proof (cases covered)
    case True
    with r have "respond lim rx w host True resp = (ops, Ok r')" by simp
    then show ?thesis by (rule respond_covered) (use s in auto)
  next
    case False
    then show ?thesis using respond_uncovered r s by metis
  qed
qed

text \<open>
  C33. Which requests are counted, and how often. A request that is not sent upstream is in no series
  of requests, unless its Upgrade cannot be printed, which counts as an error; one whose round trip
  fails is counted once, as an error, and one that is answered once, as a success. A covered response
  the rules could not be applied to is counted once among the refusals, under the label of the reason
  that answers it. A request is counted twice, as success and as error, exactly when it was answered
  and still fails without being refused: its caller left while its response waited for a redaction
  slot, its response could not be gzipped again, or it was a 101 of an uncovered host that could not
  be switched to.
\<close>

theorem requests_counted:
  assumes "forward lim rx describe w x roundtrip h r body target = (sent, ops, ans)"
    and "forward_records lim rx w x roundtrip r body target = records"
  shows "(case sent of
        None \<Rightarrow> requests_in records = [] \<or>
          (requests_in records = [RequestError] \<and> refusals_in records = [] \<and> \<not> is_print (upgrade_type (req_header r)))
      | Some q \<Rightarrow> (case roundtrip q of
            Inl e \<Rightarrow> requests_in records = [RequestError] \<and> refusals_in records = []
          | Inr resp \<Rightarrow>
              (requests_in records = [RequestSuccess] \<and> ((\<exists>r'. ans = Relayed r') \<or> refusals_in records \<noteq> [])) \<or>
              (requests_in records = [RequestSuccess, RequestError] \<and> refusals_in records = [] \<and>
               (\<forall>r'. ans \<noteq> Relayed r') \<and>
               (if covers rx (url_hostname target) then w = WaitCallerGone \<or> (\<exists>plain err. rx_gzip rx plain = Err err)
                else ur_status resp = 101)))) \<and>
    (\<forall>r'. ans = Relayed r' \<longrightarrow> requests_in records = [RequestSuccess] \<and> refusals_in records = []) \<and>
    (refusals_in records = [] \<or> (\<exists>l h'. refusals_in records = [l] \<and> ans = fail_answer describe (xc_gone x) h' (drop_error l)))"
  using assms
proof (cases rule: forward_records_cases)
  case (unredactable)
  then show ?thesis by (auto simp: fail_answer_def)
next
  case (unprintable e)
  then show ?thesis by (simp add: fail_answer_def)
next
  case (broken q e)
  then show ?thesis by (simp add: fail_answer_def)
next
  case (answered q resp out)
  show ?thesis
  proof (cases out)
    case (Inr r')
    note ok = answered(3) [unfolded Inr]
    show ?thesis
    proof (cases "after_modify x (req_header r) r'")
      case None
      then show ?thesis using answered Inr by (simp add: respond_records_in)
    next
      case (Some te)
      obtain taken e where te: "te = (taken, e)" by force
      have "\<not> covers rx (url_hostname target)" "ur_status resp = 101"
        using switch_uncovered [OF ok, of x "req_header r" taken e] Some te by (auto simp: sans_hops_def split: if_splits)
      then show ?thesis using answered Inr Some te by (simp add: respond_records_in handler_records_def fail_answer_def)
    qed
  next
    case (Inl e)
    show ?thesis
    proof (cases e)
      case (Dropped l reason)
      then have "e = drop_error l" using respond_Dropped Inl answered(3) unfolding drop_error_def by metis
      then show ?thesis
        using answered Inl Dropped by (auto simp: respond_records_in handler_records_def drop_error_def fail_answer_def)
    next
      case (Failed pe)
      then have "covers rx (url_hostname target) \<and> (w = WaitCallerGone \<or> (\<exists>plain err. rx_gzip rx plain = Err err))"
        using respond_Failed Inl answered(3) by metis
      then show ?thesis
        using answered Inl Failed by (simp add: respond_records_in handler_records_def fail_answer_def)
    qed
  qed
qed simp

theorem requests_counted_witness:
  "requests_in (forward_records example_limits example_redaction SlotFree example_exchange example_upstream example_request None
     example_target) = [RequestSuccess] \<and>
   refusals_in (forward_records example_limits example_redaction SlotFree example_exchange example_upstream example_request None
     example_target) = []"
  using requests_counted [OF example_forward refl] by simp

text \<open>The same response, whose caller leaves while it waits for a slot, is counted twice.\<close>

lemma abandoned_wait_counted_twice:
  "requests_in (forward_records example_limits example_redaction WaitCallerGone example_exchange example_upstream example_request None example_target) =
     [RequestSuccess, RequestError]"
proof -
  let ?h = "[''Content-Type'' \<mapsto> [''application/json'']]"
  have h: "hdel ''Accept-Ranges'' ?h = ?h" "hget ?h ''Content-Type'' = ''application/json''"
    by (auto simp: hdel_def hget_def hvalues_def example_header_names)
  have m: "redactable ''application/json''" "\<not> is_grpc id ''application/json''"
    by (simp_all add: redactable_def is_json_def is_grpc_def example_media has_prefix_def)
  have "snd (respond example_limits example_redaction WaitCallerGone ''api'' True
      \<lparr>ur_status = 200, ur_header = [''Content-Type'' \<mapsto> [''application/json''], ''x-traversal-reason'' \<mapsto> [''no_raw_tunnel'']],
       ur_trailer = Some Map.empty, ur_body = Stream (Ends ''raw''), ur_duplex = False, ur_length = 3\<rparr>) =
      Err (Failed (OtherError ''context canceled''))"
    by (simp add: respond_def Let_def example_stripped h m example_media acquire_def example_redaction_def)
  moreover have "unredactable_request id Map.empty = []" by code_simp
  ultimately show ?thesis
    using example_covers
    by (simp add: forward_records_def Let_def example_host example_upstream_def example_request_def example_redaction_def
        respond_records_in handler_records_def sans_hops_def example_sans_hops invalid_upgrade_def example_upgrade is_print_def)
qed

text \<open>A 101 from an uncovered host that answers no Upgrade is counted twice too.\<close>

lemma unasked_switch_counted_twice:
  assumes "roundtrip q = Ok \<lparr>ur_status = 101, ur_header = Map.empty, ur_trailer = None, ur_body = Stream (Ends []), ur_duplex = False,
      ur_length = 0\<rparr>"
    and "\<not> covers rx (url_hostname target)"
    and "forward lim rx describe w x roundtrip h r body target = (Some q, ops, ans)"
  shows "requests_in (forward_records lim rx w x roundtrip r body target) = [RequestSuccess, RequestError]"
  using assms(3) refl
proof (cases rule: forward_records_cases)
  case (answered q' resp out)
  have "cap_stream ul cap rules \<lparr>ur_status = 101, ur_header = Map.empty, ur_trailer = None, ur_body = Stream (Ends []),
      ur_duplex = False, ur_length = 0\<rparr> = \<lparr>ur_status = 101, ur_header = Map.empty, ur_trailer = None,
      ur_body = Stream (Ends []), ur_duplex = False, ur_length = 0\<rparr>" for ul cap rules
    by (simp add: cap_stream_def Let_def)
  moreover have "strip_traversal_headers Map.empty = Map.empty" by (rule ext) (simp add: strip_traversal_headers_def)
  ultimately have "out = Ok \<lparr>ur_status = 101, ur_header = Map.empty, ur_trailer = None, ur_body = Stream (Ends []),
      ur_duplex = False, ur_length = 0\<rparr>"
    using answered(1-3) assms(1,2) by (simp add: respond_def Let_def sans_hops_def)
  then show ?thesis
    using answered(5)
    by (simp add: respond_records_in after_modify_def switch_error_def Let_def example_upgrade is_print_def handler_records_def)
qed (use assms(1) in auto)

section \<open>Tunnel dials\<close>

text \<open>
  The results serveOne records are of a closed set, four names rather than the three the comment on
  dialed lists; a tunnel whose preface could not be written records none of them.
\<close>

lemma dial_results_closed:
  "set (fst (serve_one addr dialed preface ending)) \<subseteq> {''failed'', ''no_alpn'', ''connected'', ''replaced''}"
  by (auto simp: serve_one_def split: sum.splits option.splits served.splits)

lemma preface_failure_unrecorded: "serve_one addr (Ok alpn) (Some e) ending = ([], False, Some e)"
  by (simp add: serve_one_def)

text \<open>observeTrust: one series per root and per kid, in either order of the two kinds.\<close>

definition trust_series :: "'k tunnels \<Rightarrow> (string \<times> string) list" where
  "trust_series t = map (Pair ''root'') (tn_roots t) @ map (Pair ''kid'') (tn_kids t)"

end
