(* ===== verification/PipeFixture.thy ===== *)
theory PipeFixture
  imports Fixtures Metrics
begin

text \<open>
  connector-lib/rawpipe/rawpipetest: the tenant CA of the tests and the fake connector the tests of a
  pipe's peer run against, compared with the real one of internal/pipeserver/server.go. crypto/x509
  is \<open>create\<close>, as in Fixtures; key generation and serial numbers are arguments.
\<close>

section \<open>The tenant CA\<close>

text \<open>A certificate that ParseCertificate could not read is nil: its error is dropped.\<close>

record ('k, 's) test_ca =
  ca_cert :: "'k cert option"
  ca_key :: 's

record ('k, 's) tls_certificate =
  tl_der :: string
  tl_key :: 's
  tl_leaf :: "'k cert option"

definition ca_template :: "nat \<Rightarrow> instant \<Rightarrow> cert_template" where
  "ca_template serial now =
     \<lparr>tp_serial = serial, tp_name = [], tp_not_before = now - 3600 * nanos, tp_not_after = now + 3600 * nanos,
      tp_usage = {KeyCertSign}, tp_ext = [], tp_hosts = [], tp_uris = [], tp_is_ca = True, tp_max_path = 0\<rparr>"

definition new_ca ::
    "('k, 's) create \<Rightarrow> ('s \<Rightarrow> 'k) \<Rightarrow> (string \<Rightarrow> 'k cert option) \<Rightarrow> 's \<Rightarrow> nat \<Rightarrow> instant \<Rightarrow> string + ('k, 's) test_ca" where
  "new_ca create pub x509_parse key serial now =
     (case create (ca_template serial now) None (pub key) key of
        Inl e \<Rightarrow> Err e
      | Inr der \<Rightarrow> Ok \<lparr>ca_cert = x509_parse der, ca_key = key\<rparr>)"

text \<open>Pool trusts the certificate alone; a nil one panics, as it does as the parent of another.\<close>

definition ca_pool :: "('k, 's) test_ca \<Rightarrow> 'k cert list option" where
  "ca_pool ca = map_option (\<lambda>c. [c]) (ca_cert ca)"

definition ca_issue ::
    "('k, 's) create \<Rightarrow> ('s \<Rightarrow> 'k) \<Rightarrow> (string \<Rightarrow> 'k cert option) \<Rightarrow> ('k, 's) test_ca \<Rightarrow> 's \<Rightarrow> nat \<Rightarrow> instant \<Rightarrow>
     cert_template \<Rightarrow> (string + ('k, 's) tls_certificate) option" where
  "ca_issue create pub x509_parse ca key serial now tmpl =
     (case ca_cert ca of
        None \<Rightarrow> None
      | Some parent \<Rightarrow>
          let t = tmpl\<lparr>tp_serial := serial, tp_not_before := now - 7200 * nanos, tp_usage := {DigitalSignature}\<rparr> in
          Some (case create t (Some parent) (pub key) (ca_key ca) of
              Inl e \<Rightarrow> Err e
            | Inr der \<Rightarrow> Ok \<lparr>tl_der = der, tl_key = key, tl_leaf = x509_parse der\<rparr>))"

definition empty_template :: cert_template where
  "empty_template = \<lparr>tp_serial = 0, tp_name = [], tp_not_before = 0, tp_not_after = 0, tp_usage = {}, tp_ext = [],
     tp_hosts = [], tp_uris = [], tp_is_ca = False, tp_max_path = 0\<rparr>"

text \<open>Connector: \<open>uri\<close> is the text of the parsed SPIFFE ID.\<close>

definition ca_connector ::
    "('k, 's) create \<Rightarrow> ('s \<Rightarrow> 'k) \<Rightarrow> (string \<Rightarrow> 'k cert option) \<Rightarrow> (string \<Rightarrow> string + string) \<Rightarrow> ('k, 's) test_ca \<Rightarrow>
     's \<Rightarrow> nat \<Rightarrow> instant \<Rightarrow> string \<Rightarrow> instant \<Rightarrow> (string + ('k, 's) tls_certificate) option" where
  "ca_connector create pub x509_parse uri ca key serial now spiffe not_after =
     (case uri spiffe of
        Inl e \<Rightarrow> Some (Err e)
      | Inr u \<Rightarrow> ca_issue create pub x509_parse ca key serial now
          (empty_template\<lparr>tp_uris := [u], tp_not_after := not_after, tp_ext := [ClientAuth]\<rparr>))"

definition ca_server ::
    "('k, 's) create \<Rightarrow> ('s \<Rightarrow> 'k) \<Rightarrow> (string \<Rightarrow> 'k cert option) \<Rightarrow> ('k, 's) test_ca \<Rightarrow> 's \<Rightarrow> nat \<Rightarrow> instant \<Rightarrow> string \<Rightarrow>
     (string + ('k, 's) tls_certificate) option" where
  "ca_server create pub x509_parse ca key serial now host =
     ca_issue create pub x509_parse ca key serial now
       (empty_template\<lparr>tp_hosts := [host], tp_not_after := now + 3600 * nanos, tp_ext := [ServerAuth]\<rparr>)"

section \<open>The fake connector\<close>

text \<open>The connector the certificate names; an empty one is fatal to the test.\<close>

definition fixture_connector_id :: "(string \<Rightarrow> string option) \<Rightarrow> ('k, 's) tls_certificate \<Rightarrow> string option" where
  "fixture_connector_id uuid cert =
     (let id = (case tl_leaf cert of
            None \<Rightarrow> []
          | Some leaf \<Rightarrow> (case cert_uris leaf of [u] \<Rightarrow> (case tenant_id uuid u of None \<Rightarrow> [] | Some (org, c) \<Rightarrow> c) | _ \<Rightarrow> [])) in
      if id = [] then None else Some id)"

text \<open>The scheme a request inside the pipe reaches the test's handler with.\<close>

definition fixture_scheme :: "request \<Rightarrow> string" where
  "fixture_scheme r =
     (if req_proto_major r = 2 then
        (let v = hget (req_header r) header_upstream_scheme in if v = [] then ''https'' else v)
      else url_scheme (req_url r))"

text \<open>A CONNECT: refused, or a pipe to a host and port. \<open>describe\<close> is the text of an error.\<close>

definition fixture_open ::
    "(pipe_error \<Rightarrow> string) \<Rightarrow> 'k externals \<Rightarrow> instant \<Rightarrow> string \<Rightarrow> 'k verifier \<Rightarrow> request \<Rightarrow>
     'k verifier \<times> (response + (string \<times> u16))" where
  "fixture_open describe ex now connector v r =
     (let sp = split_authority (ex_lower ex) (req_host r);
          no = Err (refuse_response Map.empty ProtocolError ''expected CONNECT to a canonical host:port'') in
      if req_method r \<noteq> ''CONNECT'' then (v, no)
      else (case sp of
          None \<Rightarrow> (v, no)
        | Some (host, port) \<Rightarrow>
            (case verify ex now (hget (req_header r) header_capability) connector host port v of
               (v', Inl e) \<Rightarrow> (v', Err (refuse_response Map.empty (reason_of_error e InvalidCapability) (describe e)))
             | (v', Inr c) \<Rightarrow> (v', Ok (host, port)))))"

text \<open>What it does with a stream it could accept, from whether the handshake succeeded.\<close>

datatype fixture_action = ServeInside | CloseConn | WaitConn | FinishStream

definition fixture_after :: "bool \<Rightarrow> bool \<Rightarrow> fixture_action list" where
  "fixture_after accepted handshake =
     (if \<not> accepted then [] else (if handshake then [ServeInside] else []) @ [CloseConn, WaitConn, FinishStream])"

section \<open>The fake agrees with the connector\<close>

text \<open>The certificate Connector issues for a connector-scoped identity names that connector.\<close>

lemma connector_certificate_names:
  assumes "ca_connector create pub (ex_x509_parse ex) uri ca key serial now (connector_scoped_id org n c) not_after = Some (Ok cert)"
    and "uri (connector_scoped_id org n c) = Ok (connector_scoped_id org n c)" and "x509_parses create ex"
    and "is_connector_id uuid org" and "CHR ''/'' \<notin> set org" and "CHR ''/'' \<notin> set n" and "n \<noteq> []"
    and "is_connector_id uuid c" and "CHR ''/'' \<notin> set c" and "c \<noteq> []"
  shows "fixture_connector_id uuid cert = Some c"
proof -
  obtain tp k s where "tl_leaf cert = Some (issued_cert tp k (tl_der cert))" "tp_uris tp = [connector_scoped_id org n c]"
    using assms(1-3)
    by (auto simp: ca_connector_def ca_issue_def x509_parses_def Let_def split: option.splits sum.splits)
  moreover have "tenant_id uuid (connector_scoped_id org n c) = Some (org, c)"
    using assms(4-9) by (intro tenant_id_scoped)
  ultimately show ?thesis using assms(10) by (simp add: fixture_connector_id_def issued_cert_def)
qed

text \<open>
  A test's peer sees what it would of a connector that does not drain and has a place: the fake takes
  exactly the CONNECTs the connector opens, and refuses the others for the same reason, with the
  verifier left in the same state. The one exception is the probe's name on another port than 443,
  which the connector refuses and the fake takes.
\<close>

lemma pipe_fixture_agrees:
  assumes "pipe_open ex now s r = (s', res)"
    and "fixture_open describe ex now (sv_connector_id s) (sv_verifier s) r = (v', out)"
    and "\<not> tr_draining (sv_pipes s)" and "sv_max_pipes s \<le> 0 \<or> int (tr_n (sv_pipes s)) < sv_max_pipes s"
  shows "v' = sv_verifier s' \<and>
    (case res of
       Inr (u, c) \<Rightarrow> (\<exists>host port. out = Ok (host, port) \<and> u = host_url [] (destination host port))
     | Inl e \<Rightarrow> (\<exists>msg. out = Err (refuse_response Map.empty (reason_of_error e ProtocolError) msg)) \<or>
         (\<exists>port. out = Ok (probe_host, port) \<and> destination probe_host port \<noteq> probe_authority \<and>
            reason_of_error e ProtocolError = WrongDestination))"
proof (cases "open_check (ex_lower ex) s r")
  case (Inl e)
  then show ?thesis
    using assms(1-3) by (auto simp: open_check_def pipe_open_def fixture_open_def Let_def split: if_splits option.splits)
next
  case (Inr hp)
  obtain host port where hp: "hp = (host, port)" by force
  have c: "req_method r = ''CONNECT''" "split_authority (ex_lower ex) (req_host r) = Some (host, port)"
    using Inr hp by (auto simp: open_check_def Let_def split: if_splits option.splits)
  obtain w a where v: "verify ex now (hget (req_header r) header_capability) (sv_connector_id s) host port (sv_verifier s) = (w, a)"
    by force
  have room: "snd (open_admit (s\<lparr>sv_verifier := w\<rparr>))" "sv_verifier (fst (open_admit (s\<lparr>sv_verifier := w\<rparr>))) = w"
    using assms(4) by (auto simp: open_admit_def tracker_add_def Let_def split: prod.splits)
  show ?thesis
  proof (cases a)
    case (Inl e)
    have "known (reason_of_error e Other)" using verify_reason v Inl by metis
    then have "reason_of_error e InvalidCapability = reason_of_error e ProtocolError"
      by (cases e) auto
    then show ?thesis
      using assms(1,2) Inr hp c v Inl by (auto simp: pipe_open_def open_verify_def fixture_open_def)
  next
    case (Inr cl)
    then show ?thesis
      using assms(1,2) \<open>open_check (ex_lower ex) s r = Inr hp\<close> hp c v room
      by (cases "open_admit (s\<lparr>sv_verifier := w\<rparr>)")
        (auto simp: pipe_open_def open_verify_def fixture_open_def split: if_splits)
  qed
qed

end
