(* ===== verification/Spec2Isabelle.thy ===== *)
theory Spec2Isabelle
  imports Process Holding StreamConn StreamCap RedactMetrics ConfigTransport Instruments ConnectRpc Logging Sanitize ConnectorLib
    PipeFixture
begin

text \<open>
  The Traversal connector, modelled in HOL.

  The program. The connector runs inside a customer network. It holds TLS tunnels to a controller
  (internal/pipeserver/tunnels.go); the controller opens pipes over a tunnel with HTTP/2 CONNECT.
  Each CONNECT carries a capability, a signed statement that this connector may be asked for one
  host and port (connector-lib/capability, jws). A pipe that is admitted runs TLS and HTTP again
  inside, and each request in it is forwarded to the pipe's destination (internal/upstream) through
  a dial policy that refuses internal addresses (connector-lib/dialpolicy), and its response is
  redacted on the way back (internal/redact) by rules that come from a signed remote document
  (connector-lib/signedconfig) or a local file. internal/config and cmd/connector read the
  environment and put this together; telemetry leaves through exporters of their own.

  The theories, in the order the program builds on itself. Each opens with the files it models.

    Prelude        named theorem collections, results, package strings, ASCII, machine integers
    GoNet, GoHttp, GoJson, GoMime
                   what the source uses of net/netip, net, net/url, strconv, net/http, encoding/json,
                   encoding/base64 and mime
    Hostname       connector-lib/internal/hostname, capability/host.go: one spelling per host
    Rawpipe        connector-lib/rawpipe: reasons, preface, identities, streams, the TLS of a pipe
    HttpConnect    connector-lib/httpconnect: CONNECT through a forward proxy
    Drain          connector-lib/drain: the tracker of work in flight, and Wait interleaved with it
    Jws            connector-lib/jws: parsing, verifying and signing compact tokens
    Chain          connector-lib/capability/chain.go: environment certificates and roots
    ExpiryHeap     the container/heap of capability.go, against an abstract bag
    Capability     connector-lib/capability/capability.go: the verifier and its open limit
    Issued         what Signer.Sign sends, and its way back through Verify
    Fixtures       connector-lib/capability/capabilitytest: certificates, bundles, chained tokens
    DialPolicy     connector-lib/dialpolicy: deny list, embedded IPv4 forms, Dial, the race
    SignedConfig   connector-lib/signedconfig
    Redact         internal/redact/redact.go: rules, host matching, both redaction paths
    RuleLoader     internal/redact/remote.go and file.go: the loaders as steps on their state
    RedactMetrics  the hits of redact.go and the series of the remote loader, gauge.go
    Upstream       internal/upstream: Forward and what httputil.ReverseProxy does around it, buffering,
                   redacting, stripping, interim responses, stream caps
    StreamCap      internal/upstream/streamcap.go: a capped stream, its timer and its reader
    EnvConfig      connector-lib/env, internal/config: Load and what it accepts
    PipeServer     internal/pipeserver/server.go and forward.go: CONNECT handlers as interleaved
                   stages on the shared server, and the requests inside a pipe
    PipeConfig     internal/pipeserver/config.go: building the tunnels from the environment
    Startup        cmd/connector/main.go, internal/client: what must succeed before it serves
    ConfigTransport
                   internal/client/transport.go: the transport of the config client
    Tunnels        internal/pipeserver/tunnels.go, internal/router: tunnels, redials, readiness
    Holding        the holders of the tunnels, interleaved with the tunnels and the stop
    EndToEnd       the transports of internal/upstream/upstream.go and the dialer of newPolicy, and a
                   request's whole way from its capability to the network
    Metrics        internal/pipeserver/metrics.go, internal/upstream/metrics.go, where they are called
    PipeFixture    connector-lib/rawpipe/rawpipetest: the tenant CA and fake connector of the tests,
                   against the real one
    Stopping       the end of Tunnels.Start and Server.Drain, interleaved with the handlers
    Process        main from the start of the tunnels to its return, with a clock; the probe server
    Halfconn, StreamConn
                   connector-lib/halfconn and httpserve: Splice, and a stream as a connection
    Connectivity   internal/client/connectivity.go
    Telemetry      connector-lib/telemetry: exporters and where they send
    Logging        connector-lib/logging, and the derived handlers of the fan-out
    Sanitize       internal/telemetry/target.go
    Instruments    internal/telemetry/names.go and the instruments each package makes
    ConnectRpc     connector-lib/gen/connector/v1/connectorconnect
    ConnectorLib   connector-lib/connector, cmd/validate-config, cmd/connector/memlimit.go

  How the code is represented. A struct is a record, an enum a datatype with the source's
  constructors, int64 and uint16 are words read by sint and unat, times are integers of
  nanoseconds, strings are lists of bytes, a Go map is a function to option, or a list where its
  order matters. An error is the left of a sum, so each early return is a branch. A function that
  may panic answers None. A method that changes its receiver answers the new state. A loop is a
  structural recursion or a function with a measure. Two loops, over the PEM blocks of a trust
  bundle, take fuel, because the decoder that shortens their input is a parameter: it is the length
  of the bundle, and parse_roots_loop_fuel and its counterpart show that it is enough. Where goroutines share
  state (drain, the pipe server and its metrics, the stop, the holders and tunnel counters, Splice, StreamConn,
  ServeConn, a capped stream, main) each atomic action is one step of an inductive relation and the
  steps of all of them interleave freely. Process alone has a clock: time passes there only while
  every goroutine of the stop waits, and never past a timeout that is set.

  What is a parameter. Code that is not in the repository, or is a service: url.Parse, idna, TOML,
  regular expressions, X.509 and ECDSA, SHA-256, DNS, the network, gzip, Unicode case mapping,
  timers. Each is an argument, and what a theorem needs of it is one of its hypotheses; the witness
  of such a theorem instantiates it. The order in which Go ranges over a map is an argument too.

  The interfaces. Locales state what one component relies on in another and are interpreted on the
  model: the admission counter of Drain for the pipe server's cap, the priority queue of ExpiryHeap
  for the open limit, the rule store of RuleLoader for both loaders, in StreamConn the contract of the
  ends Splice copies between, for both kinds of HTTP/2 stream, and in Logging that of a log handler,
  which a fan-out of handlers keeps (a sublocale).

  What the lemmas show. Per component: an invariant that each operation keeps (the tracker, the
  verifier's counts and heap, the pipe system and its counters, the loaders, the tunnels, the two
  copies of a splice), what each operation answers on each branch, refinement of an abstract
  specification (the verifier's counts against a ledger of opens, the stopping goroutine against a
  waiter of the tracker), round trips (prefaces, capabilities from the signer to the verifier, configs,
  authorities, headers, PEM bundles), and, over the components, that what is forwarded is bound to a
  verified capability, that the addresses it reaches are those of that capability and allowed by the
  policy, that rules in force were signed for this connector, that a connector which serves has all of
  it loaded, and that one which stops refuses, waits and ends, in a bounded time. What telemetry
  counts is accounted for: pipes, requests, redaction hits, config refreshes.

  Bounds. Reading a preface takes at most 512 bytes, an identifier is taken at most max_opens times
  for each expiry it is issued with, open pipes never exceed the cap, a splice that failed returns within seven steps, the redaction
  slots balance, a capped stream ends within four reads of its cap, a stop takes the 20 s of its grace
  and 10 s more unless the connectivity tests of the start are still running. Limits that are configured in megabytes wrap in int64, which the lemmas on
  Upstream's limits state.

  Outside the claims. The trailers of a host no rule covers are relayed as they came, and headers a
  destination names in its Connection header are gone before Forward looks at a response; Splice
  counts no byte of a Write that failed. Each is stated by a lemma beside the claim it bounds.

  Not modelled. Most of what log lines say, and latencies, which no decision reads; the OpenTelemetry
  SDK the instruments belong to; the messages of connector-lib/gen/connector/v1/connector.pb.go, which
  are generated, beyond the fields ConnectorLib reads of them; the socket pairs of halfconntest; and
  the bytes net/http, HTTP/2 and crypto/tls move, whose outcomes are inputs. Outside Process times pass
  only where a value depends on them: a limit or a timer that is set may fire at any moment.
\<close>

end
